(* ===== verification/Prelude.thy ===== *)
theory Prelude
  imports
    Main
    "HOL-Library.AList"
    "HOL-Library.Char_ord"
    "HOL-Library.List_Lexorder"
    "HOL-Library.Multiset"
    "HOL-Library.Word"
begin

text \<open>
  The shared layer of the development: Go maps as association lists with the laws the
  components use (as a locale, interpreted on the operations below), the few functions of
  Go's standard library the program calls (decimal printing, quoting, joining), and the
  generic list lemmas that several components need.  Go strings are byte sequences, so
  they are lists of \<open>char\<close>; \<open>sort.Strings\<close> is \<open>sort\<close> under the bytewise
  lexicographic order of \<open>Char_ord\<close> and \<open>List_Lexorder\<close>.
\<close>

named_theorems gomap_simps \<open>rewrite rules for Go maps\<close>
named_theorems phase_simps \<open>facts about phases and phase predicates\<close>

type_synonym time = int      \<comment> \<open>nanoseconds since the Unix epoch\<close>
type_synonym duration = int  \<comment> \<open>nanoseconds\<close>

abbreviation (input) second :: duration where "second \<equiv> 1000000000"

text \<open>
  The zero value of Go's \<open>time.Time\<close> is the start of the year 1; \<open>IsZero\<close> of an optional
  time holds for a missing value too.
\<close>

definition zero_time :: time where
  "zero_time = -62135596800 * 1000000000"

definition is_zero_time :: "time option \<Rightarrow> bool" where
  "is_zero_time t \<longleftrightarrow> t = None \<or> t = Some zero_time"

lemma is_zero_time_simps [simp]: "is_zero_time None" "is_zero_time (Some t) \<longleftrightarrow> t = zero_time"
  by (simp_all add: is_zero_time_def)

section \<open>Go maps\<close>

text \<open>
  A Go map is an association list with distinct keys.  A lookup of a missing key gives
  \<open>None\<close> (the second result of Go's two-valued lookup), \<open>gm_get_or\<close> gives the zero
  value of the one-valued lookup, and \<open>gm_keys\<close> is one order in which
  \<open>range\<close> may visit the keys.
\<close>

type_synonym ('k, 'v) gomap = "('k \<times> 'v) list"

definition gm_empty :: "('k, 'v) gomap" where
  "gm_empty = []"

definition gm_get :: "('k, 'v) gomap \<Rightarrow> 'k \<Rightarrow> 'v option" where
  "gm_get m k = map_of m k"

definition gm_get_or :: "'v \<Rightarrow> ('k, 'v) gomap \<Rightarrow> 'k \<Rightarrow> 'v" where
  "gm_get_or z m k = (case gm_get m k of None \<Rightarrow> z | Some v \<Rightarrow> v)"

definition gm_put :: "'k \<Rightarrow> 'v \<Rightarrow> ('k, 'v) gomap \<Rightarrow> ('k, 'v) gomap" where
  "gm_put k v m = AList.update k v m"

definition gm_del :: "'k \<Rightarrow> ('k, 'v) gomap \<Rightarrow> ('k, 'v) gomap" where
  "gm_del k m = AList.delete k m"

definition gm_keys :: "('k, 'v) gomap \<Rightarrow> 'k list" where
  "gm_keys m = map fst m"

definition gm_len :: "('k, 'v) gomap \<Rightarrow> nat" where
  "gm_len m = length m"

definition gm_ok :: "('k, 'v) gomap \<Rightarrow> bool" where
  "gm_ok m \<longleftrightarrow> distinct (gm_keys m)"

text \<open>What the components rely on when they use a map.\<close>

locale go_map =
  fixes emp :: "'m"
    and get :: "'m \<Rightarrow> 'k \<Rightarrow> 'v option"
    and put :: "'k \<Rightarrow> 'v \<Rightarrow> 'm \<Rightarrow> 'm"
    and del :: "'k \<Rightarrow> 'm \<Rightarrow> 'm"
    and keys :: "'m \<Rightarrow> 'k list"
    and ok :: "'m \<Rightarrow> bool"
  assumes get_emp: "get emp k = None"
    and get_put: "get (put k v m) k' = (if k' = k then Some v else get m k')"
    and get_del: "ok m \<Longrightarrow> get (del k m) k' = (if k' = k then None else get m k')"
    and keys_get: "k \<in> set (keys m) \<longleftrightarrow> get m k \<noteq> None"
    and keys_emp: "keys emp = []"
    and keys_put: "keys (put k v m) = (if k \<in> set (keys m) then keys m else keys m @ [k])"
    and ok_keys: "ok m \<longleftrightarrow> distinct (keys m)"
    and ok_del: "ok m \<Longrightarrow> ok (del k m)"
begin

lemma ok_emp: "ok emp"
  by (simp add: ok_keys keys_emp)

lemma ok_put: "ok m \<Longrightarrow> ok (put k v m)"
  by (simp add: ok_keys keys_put)

lemma set_keys_put: "set (keys (put k v m)) = insert k (set (keys m))"
  by (auto simp: keys_put)

lemma get_foldl_put:
  "get (foldl (\<lambda>m' k. put k (f k) m') m ks) k = (if k \<in> set ks then Some (f k) else get m k)"
  by (induction ks arbitrary: m) (auto simp: get_put)

lemma keys_foldl_put_fresh:
  "distinct ks \<Longrightarrow> set ks \<inter> set (keys m) = {} \<Longrightarrow>
   keys (foldl (\<lambda>m' k. put k (f k) m') m ks) = keys m @ ks"
  by (induction ks arbitrary: m) (auto simp: keys_put)

lemma keys_foldl_put:
  "distinct ks \<Longrightarrow> keys (foldl (\<lambda>m' k. put k (f k) m') emp ks) = ks"
  using keys_foldl_put_fresh [of ks emp f] by (simp add: keys_emp)

end

lemma keys_update_alist:
  "map fst (AList.update k v m) = (if k \<in> set (map fst m) then map fst m else map fst m @ [k])"
  by (induction m) auto

lemma map_of_delete_alist:
  "distinct (map fst m) \<Longrightarrow> map_of (AList.delete k m) k' = (if k' = k then None else map_of m k')"
  by (simp add: delete_conv)

interpretation gm: go_map gm_empty gm_get gm_put gm_del gm_keys gm_ok
proof unfold_locales
  show "gm_get gm_empty k = None" for k :: 'a
    by (simp add: gm_get_def gm_empty_def)
  show "gm_get (gm_put k v m) k' = (if k' = k then Some v else gm_get m k')"
    for k k' :: 'a and v :: 'b and m
    by (simp add: gm_get_def gm_put_def update_conv)
  show "gm_ok m \<Longrightarrow> gm_get (gm_del k m) k' = (if k' = k then None else gm_get m k')"
    for k k' :: 'a and m :: "('a, 'b) gomap"
    by (simp add: gm_get_def gm_del_def gm_ok_def gm_keys_def map_of_delete_alist)
  show "k \<in> set (gm_keys m) \<longleftrightarrow> gm_get m k \<noteq> None" for k :: 'a and m :: "('a, 'b) gomap"
    by (simp add: gm_get_def gm_keys_def map_of_eq_None_iff)
  show "gm_keys gm_empty = []"
    by (simp add: gm_keys_def gm_empty_def)
  show "gm_keys (gm_put k v m) = (if k \<in> set (gm_keys m) then gm_keys m else gm_keys m @ [k])"
    for k :: 'a and v :: 'b and m
    by (simp add: gm_keys_def gm_put_def keys_update_alist)
  show "gm_ok m \<longleftrightarrow> distinct (gm_keys m)" for m :: "('a, 'b) gomap"
    by (simp add: gm_ok_def)
  show "gm_ok m \<Longrightarrow> gm_ok (gm_del k m)" for k :: 'a and m :: "('a, 'b) gomap"
    by (simp add: gm_ok_def gm_del_def gm_keys_def distinct_delete)
qed

declare gm.get_emp [gomap_simps] gm.get_put [gomap_simps]
  gm.keys_emp [gomap_simps] gm.set_keys_put [gomap_simps]

lemma gm_get_or_emp [gomap_simps]: "gm_get_or z gm_empty k = z"
  by (simp add: gm_get_or_def gm.get_emp)

lemma gm_get_or_put [gomap_simps]:
  "gm_get_or z (gm_put k v m) k' = (if k' = k then v else gm_get_or z m k')"
  by (simp add: gm_get_or_def gm.get_put)

lemma gm_len_keys: "gm_len m = length (gm_keys m)"
  by (simp add: gm_len_def gm_keys_def)

lemma gm_get_or_cong: "gm_get m k = gm_get m' k \<Longrightarrow> gm_get_or z m k = gm_get_or z m' k"
  by (simp add: gm_get_or_def)

section \<open>Strings\<close>

definition digit_char :: "nat \<Rightarrow> char" where
  "digit_char d = char_of (48 + d)"

text \<open>Decimal text of a number, as \<open>%d\<close> prints it.\<close>

fun show_nat :: "nat \<Rightarrow> string" where
  "show_nat n = (if n < 10 then [digit_char n]
                 else show_nat (n div 10) @ [digit_char (n mod 10)])"

declare show_nat.simps [simp del]

definition show_int :: "int \<Rightarrow> string" where
  "show_int i = (if i < 0 then ''-'' @ show_nat (nat (- i)) else show_nat (nat i))"

lemma length_show_nat: "0 < k \<Longrightarrow> n < 10 ^ k \<Longrightarrow> length (show_nat n) \<le> k"
proof (induction k arbitrary: n)
  case 0
  then show ?case by simp
next
  case (Suc k)
  show ?case
  proof (cases "n < 10")
    case True
    then show ?thesis by (simp add: show_nat.simps)
  next
    case False
    with Suc.prems have k: "0 < k" by (cases k) auto
    from Suc.prems have "n div 10 < 10 ^ k"
      by (simp add: less_mult_imp_div_less mult.commute)
    with k have "length (show_nat (n div 10)) \<le> k" by (rule Suc.IH)
    with False show ?thesis by (subst show_nat.simps) simp
  qed
qed

text \<open>\<open>strings.Join\<close>.\<close>

fun join :: "string \<Rightarrow> string list \<Rightarrow> string" where
  "join sep [] = []"
| "join sep [s] = s"
| "join sep (s # t # ss) = s @ sep @ join sep (t # ss)"

text \<open>
  \<open>%q\<close>: Go quotes a string, escaping the double quote, the backslash and the control
  characters.  Bytes from 128 on are copied, which is exact for strings whose text beyond
  ASCII is printable UTF-8.
\<close>

definition hex_char :: "nat \<Rightarrow> char" where
  "hex_char d = (if d < 10 then char_of (48 + d) else char_of (87 + d))"

definition backslash :: char where "backslash = char_of (92 :: nat)"

definition quote_char :: "char \<Rightarrow> string" where
  "quote_char c =
     (let n = (of_char c :: nat) in
      if n = 34 then [backslash, c]
      else if n = 92 then [backslash, c]
      else if n = 7 then [backslash, CHR ''a'']
      else if n = 8 then [backslash, CHR ''b'']
      else if n = 12 then [backslash, CHR ''f'']
      else if n = 10 then [backslash, CHR ''n'']
      else if n = 13 then [backslash, CHR ''r'']
      else if n = 9 then [backslash, CHR ''t'']
      else if n = 11 then [backslash, CHR ''v'']
      else if n < 32 \<or> n = 127 then [backslash, CHR ''x'', hex_char (n div 16), hex_char (n mod 16)]
      else [c])"

definition quote :: "string \<Rightarrow> string" where
  "quote s = [char_of (34 :: nat)] @ concat (map quote_char s) @ [char_of (34 :: nat)]"

text \<open>\<open>%v\<close> of a slice of strings.\<close>

definition show_strings :: "string list \<Rightarrow> string" where
  "show_strings ss = ''['' @ join '' '' ss @ '']''"

definition has_prefix :: "string \<Rightarrow> string \<Rightarrow> bool" where
  "has_prefix s p \<longleftrightarrow> take (length p) s = p"

section \<open>Lists\<close>

lemma sort_eq_iff_mset: "sort xs = sort ys \<longleftrightarrow> mset xs = mset (ys :: 'a::linorder list)"
  by (metis mset_sort properties_for_sort sorted_sort)

text \<open>A quantity that no step of a loop increases.\<close>

lemma foldl_measure_le:
  fixes f :: "'s \<Rightarrow> nat"
  assumes "\<And>s x. f (g s x) \<le> f s"
  shows "f (foldl g s xs) \<le> f s"
proof (induction xs arbitrary: s)
  case Nil
  show ?case by simp
next
  case (Cons x xs)
  have "f (foldl g (g s x) xs) \<le> f (g s x)" by (rule Cons.IH)
  also have "\<dots> \<le> f s" by (rule assms)
  finally show ?case by simp
qed

lemma distinct_card_eq_length: "distinct xs \<Longrightarrow> set xs = A \<Longrightarrow> card A = length xs"
  by (auto simp: distinct_card)

lemma set_diff_eq_empty_iff: "length (filter (\<lambda>x. x \<notin> A) xs) = 0 \<longleftrightarrow> set xs \<subseteq> A"
  by (auto simp: filter_empty_conv)

lemma length_filter_insert_once:
  "distinct xs \<Longrightarrow> y \<in> set xs \<Longrightarrow> y \<notin> A \<Longrightarrow>
   length (filter (\<lambda>x. x \<notin> A) xs) = Suc (length (filter (\<lambda>x. x \<notin> insert y A) xs))"
  by (induction xs) (auto intro: arg_cong [where f = length] filter_cong)

lemma length_filter_insert_none:
  "y \<notin> set xs \<Longrightarrow> filter (\<lambda>x. x \<notin> insert y A) xs = filter (\<lambda>x. x \<notin> A) xs"
  by (induction xs) auto

end
