(* ===== verification/ApiTypes.thy ===== *)
theory ApiTypes
  imports Prelude
begin

text \<open>
  The resource types of \<open>api/v1/task_types.go\<close> and \<open>api/v1/workflow_types.go\<close>,
  with the metadata they embed.  A string-typed enumeration is a datatype with the source's
  constants and one more constructor for every other string, because the code branches on
  values the API server has not validated; \<open>Other []\<close> is the zero value.  A pointer
  field is an option.  Two things are carried in a reduced form: \<open>Resources\<close> and
  \<open>Env\<close>, whose types belong to Kubernetes and which the program only copies, are kept as
  their serialised text, and the \<open>Conditions\<close> fields, which no code reads or writes,
  are left out.
\<close>

text \<open>The group of \<open>SchemeGroupVersion\<close> in \<open>groupversion_info.go\<close>.\<close>

abbreviation api_group :: string where "api_group \<equiv> ''kubetask.kubetask.io''"

section \<open>Metadata\<close>

record owner_reference =
  or_api_version :: string
  or_kind :: string
  or_name :: string
  or_uid :: string
  or_controller :: bool

record object_meta =
  om_name :: string
  om_generate_name :: string
  om_namespace :: string
  om_uid :: string
  om_generation :: int
  om_labels :: "(string, string) gomap"
  om_annotations :: "(string, string) gomap"
  om_finalizers :: "string list"
  om_owner_references :: "owner_reference list"
  om_creation_timestamp :: time
  om_deletion_timestamp :: "time option"

definition empty_meta :: object_meta where
  "empty_meta = \<lparr>om_name = [], om_generate_name = [], om_namespace = [], om_uid = [],
     om_generation = 0, om_labels = gm_empty, om_annotations = gm_empty, om_finalizers = [],
     om_owner_references = [], om_creation_timestamp = zero_time, om_deletion_timestamp = None\<rparr>"

section \<open>Task\<close>

datatype task_type = TaskTypeCron | TaskTypeOneTime | TaskTypeDelay | TaskTypeOther string

datatype concurrency_policy =
  ConcurrencyAllow | ConcurrencyForbid | ConcurrencyReplace | ConcurrencyOther string

datatype task_phase =
  TaskPending | TaskRunning | TaskSucceeded | TaskFailed | TaskSuspended | TaskPhaseOther string

fun task_type_string :: "task_type \<Rightarrow> string" where
  "task_type_string TaskTypeCron = ''Cron''"
| "task_type_string TaskTypeOneTime = ''OneTime''"
| "task_type_string TaskTypeDelay = ''Delay''"
| "task_type_string (TaskTypeOther s) = s"

fun task_phase_string :: "task_phase \<Rightarrow> string" where
  "task_phase_string TaskPending = ''Pending''"
| "task_phase_string TaskRunning = ''Running''"
| "task_phase_string TaskSucceeded = ''Succeeded''"
| "task_phase_string TaskFailed = ''Failed''"
| "task_phase_string TaskSuspended = ''Suspended''"
| "task_phase_string (TaskPhaseOther s) = s"

record execution_record =
  er_job_name :: string
  er_start_time :: time
  er_stop_time :: time
  er_phase :: task_phase
  er_exit_code :: "32 word"

record task_spec =
  ts_type :: task_type
  ts_schedule :: string
  ts_delay :: "duration option"
  ts_image :: string
  ts_command :: "string list"
  ts_args :: "string list"
  ts_resources :: string
  ts_env :: string
  ts_backoff_limit :: "32 word option"
  ts_active_deadline_seconds :: "64 word option"
  ts_ttl_seconds_after_finished :: "32 word option"
  ts_concurrency_policy :: concurrency_policy
  ts_suspend :: "bool option"
  ts_cluster_name :: string

text \<open>The zero value \<open>TaskSpec{}\<close>.\<close>

definition empty_task_spec :: task_spec where
  "empty_task_spec = \<lparr>ts_type = TaskTypeOther [], ts_schedule = [], ts_delay = None,
     ts_image = [], ts_command = [], ts_args = [], ts_resources = [], ts_env = [],
     ts_backoff_limit = None, ts_active_deadline_seconds = None,
     ts_ttl_seconds_after_finished = None, ts_concurrency_policy = ConcurrencyOther [],
     ts_suspend = None, ts_cluster_name = []\<rparr>"

text \<open>The counters are \<open>int32\<close> in the source and keep their width.\<close>

record task_status =
  st_phase :: task_phase
  st_message :: string
  st_last_schedule_time :: "time option"
  st_last_start_time :: "time option"
  st_last_completion_time :: "time option"
  st_execution_history :: "execution_record list"
  st_active_jobs :: "string list"
  st_failed :: "32 word"
  st_succeeded :: "32 word"

definition empty_task_status :: task_status where
  "empty_task_status = \<lparr>st_phase = TaskPhaseOther [], st_message = [],
     st_last_schedule_time = None, st_last_start_time = None, st_last_completion_time = None,
     st_execution_history = [], st_active_jobs = [], st_failed = 0, st_succeeded = 0\<rparr>"

record task =
  tk_api_version :: string
  tk_kind :: string
  tk_meta :: object_meta
  tk_spec :: task_spec
  tk_status :: task_status

abbreviation tk_name :: "task \<Rightarrow> string" where
  "tk_name t \<equiv> om_name (tk_meta t)"

section \<open>Workflow\<close>

datatype workflow_phase =
  WorkflowPending | WorkflowRunning | WorkflowSucceeded | WorkflowFailed
| WorkflowPhaseOther string

datatype node_phase =
  NodePending | NodeRunning | NodeSucceeded | NodeFailed | NodeSkipped | NodePhaseOther string

fun workflow_phase_string :: "workflow_phase \<Rightarrow> string" where
  "workflow_phase_string WorkflowPending = ''Pending''"
| "workflow_phase_string WorkflowRunning = ''Running''"
| "workflow_phase_string WorkflowSucceeded = ''Succeeded''"
| "workflow_phase_string WorkflowFailed = ''Failed''"
| "workflow_phase_string (WorkflowPhaseOther s) = s"

record workflow_task =
  wt_name :: string
  wt_depends_on :: "string list"
  wt_template :: string
  wt_task_spec :: "task_spec option"
  wt_run_on_failure :: bool

record workflow_spec =
  wsp_max_parallel :: int
  wsp_tasks :: "workflow_task list"
  wsp_task_templates :: "(string, task_spec) gomap"

record workflow_node_status =
  wn_name :: string
  wn_phase :: node_phase
  wn_task_name :: string
  wn_start_time :: "time option"
  wn_completion_time :: "time option"
  wn_message :: string

record workflow_status =
  ws_phase :: workflow_phase
  ws_message :: string
  ws_start_time :: "time option"
  ws_completion_time :: "time option"
  ws_observed_generation :: int
  ws_nodes :: "workflow_node_status list"

definition empty_workflow_status :: workflow_status where
  "empty_workflow_status = \<lparr>ws_phase = WorkflowPhaseOther [], ws_message = [],
     ws_start_time = None, ws_completion_time = None, ws_observed_generation = 0, ws_nodes = []\<rparr>"

record workflow =
  wf_api_version :: string
  wf_kind :: string
  wf_meta :: object_meta
  wf_spec :: workflow_spec
  wf_status :: workflow_status

abbreviation wf_name :: "workflow \<Rightarrow> string" where
  "wf_name w \<equiv> om_name (wf_meta w)"

section \<open>Terminal phases\<close>

definition node_terminal :: "node_phase \<Rightarrow> bool" where
  "node_terminal p \<longleftrightarrow> p = NodeSucceeded \<or> p = NodeFailed \<or> p = NodeSkipped"

lemma node_terminal_simps [simp]:
  "node_terminal NodeSucceeded" "node_terminal NodeFailed" "node_terminal NodeSkipped"
  "\<not> node_terminal NodePending" "\<not> node_terminal NodeRunning"
  "\<not> node_terminal (NodePhaseOther s)"
  by (simp_all add: node_terminal_def)

lemma node_terminal_split:
  "node_terminal p \<longleftrightarrow> (case p of NodeSucceeded \<Rightarrow> True | NodeFailed \<Rightarrow> True | NodeSkipped \<Rightarrow> True
     | _ \<Rightarrow> False)"
  by (cases p) simp_all

end
