(* ===== verification/Naming.thy ===== *)
theory Naming
  imports ApiTypes
begin

text \<open>
  \<open>internal/naming/naming.go\<close>: the bound on a Task name from which the Job and Pod names
  derived from it stay legal.
\<close>

definition MaxTaskNameLength :: nat where
  "MaxTaskNameLength = 46"

text \<open>
  A Job is named \<open><task>-<Unix seconds>\<close> (ten decimal digits until the year 2286) and the
  Job controller appends a dash and five random characters to name the Pod.
\<close>

lemma pod_name_fits:
  assumes "length name \<le> MaxTaskNameLength" and "length digits \<le> 10" and "length suffix = 5"
  shows "length (name @ ''-'' @ digits @ ''-'' @ suffix) \<le> 63"
  using assms by (simp add: MaxTaskNameLength_def)

end
