(* ===== verification/Kube.thy ===== *)
theory Kube
  imports ApiTypes
begin

text \<open>
  What the program sees of Kubernetes.  The API server, its client and the helper functions of
  apimachinery, controller-runtime and robfig/cron are not part of this repository, so they
  are the fields of one record of functions, an argument of every definition that calls them.
  A client call takes the world \<open>'w\<close> it acts on and gives the result and the new world; a
  write gives the object as the server stored it, which the program then goes on with.  The
  record says nothing about how the server behaves: a theorem over an arbitrary record holds
  for every server, also for one whose cache is stale or whose writes fail.
\<close>

section \<open>Results of the API server\<close>

datatype api_reason = NotFound | AlreadyExists | Conflict | Invalid | BadRequest | OtherReason

datatype api_error = ApiError api_reason string

fun error_reason :: "api_error \<Rightarrow> api_reason" where
  "error_reason (ApiError r _) = r"

fun api_text :: "api_error \<Rightarrow> string" where
  "api_text (ApiError _ s) = s"

definition is_not_found :: "api_error \<Rightarrow> bool" where
  "is_not_found e \<longleftrightarrow> error_reason e = NotFound"

definition is_already_exists :: "api_error \<Rightarrow> bool" where
  "is_already_exists e \<longleftrightarrow> error_reason e = AlreadyExists"

section \<open>Jobs\<close>

record container =
  ct_name :: string
  ct_image :: string
  ct_command :: "string list"
  ct_args :: "string list"
  ct_env :: string
  ct_resources :: string

record job_spec =
  jsp_backoff_limit :: "32 word option"
  jsp_active_deadline_seconds :: "64 word option"
  jsp_ttl_seconds_after_finished :: "32 word option"
  jsp_restart_policy :: string
  jsp_containers :: "container list"

record job_condition =
  jc_type :: string
  jc_status :: string
  jc_reason :: string
  jc_message :: string
  jc_last_transition_time :: time

record job_status =
  js_active :: "32 word"
  js_conditions :: "job_condition list"
  js_completion_time :: "time option"

record job =
  jb_meta :: object_meta
  jb_spec :: job_spec
  jb_status :: job_status

abbreviation jb_name :: "job \<Rightarrow> string" where
  "jb_name j \<equiv> om_name (jb_meta j)"

section \<open>The client and the helper functions\<close>

record 'w kube =
  k_get_workflow :: "string \<Rightarrow> 'w \<Rightarrow> (api_error + workflow) \<times> 'w"
  k_update_workflow :: "workflow \<Rightarrow> 'w \<Rightarrow> (api_error + workflow) \<times> 'w"
  k_update_workflow_status :: "workflow \<Rightarrow> 'w \<Rightarrow> (api_error + workflow) \<times> 'w"
  k_get_task :: "string \<Rightarrow> 'w \<Rightarrow> (api_error + task) \<times> 'w"
  k_list_tasks :: "(string, string) gomap \<Rightarrow> 'w \<Rightarrow> (api_error + task list) \<times> 'w"
  k_create_task :: "task \<Rightarrow> 'w \<Rightarrow> (api_error + task) \<times> 'w"
  k_update_task :: "task \<Rightarrow> 'w \<Rightarrow> (api_error + task) \<times> 'w"
  k_update_task_status :: "task \<Rightarrow> 'w \<Rightarrow> (api_error + task) \<times> 'w"
  k_delete_task :: "task \<Rightarrow> string option \<Rightarrow> 'w \<Rightarrow> api_error option \<times> 'w"
  k_list_jobs :: "string \<Rightarrow> (string, string) gomap \<Rightarrow> 'w \<Rightarrow> (api_error + job list) \<times> 'w"
  k_create_job :: "job \<Rightarrow> 'w \<Rightarrow> (api_error + job) \<times> 'w"
  k_delete_job :: "job \<Rightarrow> 'w \<Rightarrow> api_error option \<times> 'w"
  k_is_controlled_by :: "object_meta \<Rightarrow> object_meta \<Rightarrow> bool"
  k_set_controller_reference :: "object_meta \<Rightarrow> object_meta \<Rightarrow> string + object_meta"
  k_contains_finalizer :: "object_meta \<Rightarrow> string \<Rightarrow> bool"
  k_add_finalizer :: "object_meta \<Rightarrow> string \<Rightarrow> object_meta"
  k_remove_finalizer :: "object_meta \<Rightarrow> string \<Rightarrow> object_meta"
  k_parse_cron :: "string \<Rightarrow> (time \<Rightarrow> time) option"

text \<open>
  The fields in words: \<open>k_list_tasks\<close> selects by labels; \<open>k_delete_task\<close> takes the UID
  precondition, and both deletes use background propagation; \<open>k_is_controlled_by obj owner\<close>
  is \<open>metav1.IsControlledBy\<close>; \<open>k_set_controller_reference owner obj\<close> is the function of
  \<open>controllerutil\<close>, its error given as text; \<open>k_parse_cron\<close> is \<open>cron.ParseStandard\<close> with the
  \<open>Next\<close> method of the schedule it returns, \<open>None\<close> for a parse error.
\<close>

section \<open>The result of a reconcile\<close>

text \<open>
  \<open>ctrl.Result\<close> is \<open>RequeueAfter\<close> (0 for the empty result) and the error is one of the
  errors a reconcile can return.
\<close>

record result =
  requeue_after :: duration

definition no_result :: result where
  "no_result = \<lparr>requeue_after = 0\<rparr>"

definition requeue :: "duration \<Rightarrow> result" where
  "requeue d = \<lparr>requeue_after = d\<rparr>"

datatype ctl_error =
  ClientError api_error                    \<comment> \<open>an error of the client, passed on\<close>
| OwnerReferenceError string               \<comment> \<open>the reference to the owner could not be set\<close>
| TaskNameConflict string                  \<comment> \<open>wraps \<open>errTaskNameConflict\<close>\<close>

fun error_text :: "ctl_error \<Rightarrow> string" where
  "error_text (ClientError e) = api_text e"
| "error_text (OwnerReferenceError s) = s"
| "error_text (TaskNameConflict s) = s"

section \<open>Counting the calls of a client\<close>

text \<open>
  A client that writes down, beside the world it acts on, the mutating calls it serves.
  Theorems about what a handler writes, and what it does not, read this log.
\<close>

datatype call =
  UpdateWorkflow workflow | UpdateWorkflowStatus workflow
| CreateTask task | UpdateTask task | UpdateTaskStatus task | DeleteTask string "string option"
| CreateJob job | DeleteJob string

definition logged :: "('a \<Rightarrow> call) \<Rightarrow> ('a \<Rightarrow> 'w \<Rightarrow> 'r \<times> 'w) \<Rightarrow> 'a \<Rightarrow> 'w \<times> call list \<Rightarrow> 'r \<times> 'w \<times> call list" where
  "logged c f x = (\<lambda>(w, l). case f x w of (r, w') \<Rightarrow> (r, w', l @ [c x]))"

definition unlogged :: "('w \<Rightarrow> 'r \<times> 'w) \<Rightarrow> 'w \<times> call list \<Rightarrow> 'r \<times> 'w \<times> call list" where
  "unlogged f = (\<lambda>(w, l). case f w of (r, w') \<Rightarrow> (r, w', l))"

definition recording :: "'w kube \<Rightarrow> ('w \<times> call list) kube" where
  "recording K = \<lparr>
     k_get_workflow = (\<lambda>n. unlogged (k_get_workflow K n)),
     k_update_workflow = logged UpdateWorkflow (k_update_workflow K),
     k_update_workflow_status = logged UpdateWorkflowStatus (k_update_workflow_status K),
     k_get_task = (\<lambda>n. unlogged (k_get_task K n)),
     k_list_tasks = (\<lambda>m. unlogged (k_list_tasks K m)),
     k_create_task = logged CreateTask (k_create_task K),
     k_update_task = logged UpdateTask (k_update_task K),
     k_update_task_status = logged UpdateTaskStatus (k_update_task_status K),
     k_delete_task = (\<lambda>t uid. logged (\<lambda>t. DeleteTask (tk_name t) uid) (\<lambda>t. k_delete_task K t uid) t),
     k_list_jobs = (\<lambda>ns m. unlogged (k_list_jobs K ns m)),
     k_create_job = logged CreateJob (k_create_job K),
     k_delete_job = logged (\<lambda>j. DeleteJob (jb_name j)) (k_delete_job K),
     k_is_controlled_by = k_is_controlled_by K,
     k_set_controller_reference = k_set_controller_reference K,
     k_contains_finalizer = k_contains_finalizer K,
     k_add_finalizer = k_add_finalizer K,
     k_remove_finalizer = k_remove_finalizer K,
     k_parse_cron = k_parse_cron K\<rparr>"

end
