(* ===== verification/Tenant.thy ===== *)
theory Tenant
  imports Kube
begin

text \<open>
  The tenant boundary, \<open>internal/tenant/tenant.go\<close> and \<open>internal/tenant/jobs.go\<close>: the
  label that assigns a Task or Workflow to a Namespace, the Namespace of its Jobs, and the
  Namespace of an authenticated ServiceAccount.  A request context carries the tenant as an
  optional string.
\<close>

abbreviation tenant_label :: string where "tenant_label \<equiv> ''kubetask.io/tenant''"
abbreviation task_label :: string where "task_label \<equiv> ''kubetask.io/task''"
abbreviation namespace_default :: string where "namespace_default \<equiv> ''default''"

section \<open>Request scope\<close>

type_synonym request_context = "string option"

definition with_namespace :: "request_context \<Rightarrow> string \<Rightarrow> request_context" where
  "with_namespace ctx namespace = Some namespace"

definition ctx_namespace :: "request_context \<Rightarrow> string" where
  "ctx_namespace ctx = (case ctx of None \<Rightarrow> [] | Some namespace \<Rightarrow> namespace)"

section \<open>ServiceAccount names\<close>

text \<open>\<open>strings.CutPrefix\<close> and \<open>strings.Cut\<close> at a one-byte separator.\<close>

definition cut_prefix :: "string \<Rightarrow> string \<Rightarrow> string \<times> bool" where
  "cut_prefix s p = (if has_prefix s p then (drop (length p) s, True) else (s, False))"

definition cut :: "string \<Rightarrow> char \<Rightarrow> string \<times> string \<times> bool" where
  "cut s c = (if c \<in> set s
     then (takeWhile (\<lambda>x. x \<noteq> c) s, tl (dropWhile (\<lambda>x. x \<noteq> c) s), True)
     else (s, [], False))"

definition service_account_namespace :: "string \<Rightarrow> string" where
  "service_account_namespace username =
     (case cut_prefix username ''system:serviceaccount:'' of (account, ok) \<Rightarrow>
        if \<not> ok then []
        else case cut account (CHR '':'') of (namespace, name, ok) \<Rightarrow>
          if \<not> ok \<or> name = [] \<or> CHR '':'' \<in> set name then [] else namespace)"

section \<open>Labels and Jobs\<close>

definition set_namespace :: "object_meta \<Rightarrow> string \<Rightarrow> object_meta" where
  "set_namespace obj namespace =
     (let labels = om_labels obj
      in obj\<lparr>om_labels := if namespace = [] then gm_del tenant_label labels
                            else gm_put tenant_label namespace labels\<rparr>)"

definition meta_namespace :: "object_meta \<Rightarrow> string" where
  "meta_namespace obj = gm_get_or [] (om_labels obj) tenant_label"

definition job_namespace :: "task \<Rightarrow> string" where
  "job_namespace t =
     (let namespace = gm_get_or [] (om_labels (tk_meta t)) tenant_label
      in if namespace \<noteq> [] then namespace else namespace_default)"

definition list_task_jobs :: "'w kube \<Rightarrow> task \<Rightarrow> 'w \<Rightarrow> (api_error + job list) \<times> 'w" where
  "list_task_jobs K t w =
     (case k_list_jobs K (job_namespace t) (gm_put task_label (tk_name t) gm_empty) w of
        (Inl e, w') \<Rightarrow> (Inl e, w')
      | (Inr jobs, w') \<Rightarrow>
          (Inr (if gm_get_or [] (om_labels (tk_meta t)) tenant_label \<noteq> []
                then filter (\<lambda>j. k_is_controlled_by K (jb_meta j) (tk_meta t)) jobs
                else jobs), w'))"

section \<open>Properties\<close>

lemma meta_namespace_set_namespace:
  "gm_ok (om_labels obj) \<Longrightarrow> meta_namespace (set_namespace obj namespace) = namespace"
  by (auto simp: meta_namespace_def set_namespace_def gm_get_or_def gm.get_del gm.get_put Let_def)

lemma set_namespace_other:
  "gm_ok (om_labels obj) \<Longrightarrow> k \<noteq> tenant_label \<Longrightarrow>
   gm_get (om_labels (set_namespace obj namespace)) k = gm_get (om_labels obj) k"
  by (auto simp: set_namespace_def gm.get_del gm.get_put Let_def)

lemma cut_append:
  "c \<notin> set xs \<Longrightarrow> cut (xs @ c # ys) c = (xs, ys, True)"
proof -
  assume "c \<notin> set xs"
  then have "\<forall>x \<in> set xs. x \<noteq> c" by auto
  then have "dropWhile (\<lambda>x. x \<noteq> c) (xs @ c # ys) = c # ys"
    "takeWhile (\<lambda>x. x \<noteq> c) (xs @ c # ys) = xs" by simp_all
  then show ?thesis by (simp add: cut_def)
qed

lemma cut_split: "cut s c = (xs, ys, True) \<Longrightarrow> s = xs @ c # ys \<and> c \<notin> set xs"
proof -
  assume a: "cut s c = (xs, ys, True)"
  then have c: "c \<in> set s" and xs: "xs = takeWhile (\<lambda>x. x \<noteq> c) s"
    and ys: "ys = tl (dropWhile (\<lambda>x. x \<noteq> c) s)"
    by (auto simp: cut_def split: if_splits)
  from c have d: "dropWhile (\<lambda>x. x \<noteq> c) s \<noteq> []" by (auto simp: dropWhile_eq_Nil_conv)
  then have "hd (dropWhile (\<lambda>x. x \<noteq> c) s) = c" using hd_dropWhile [of "\<lambda>x. x \<noteq> c" s] by simp
  with d ys have "dropWhile (\<lambda>x. x \<noteq> c) s = c # ys" by (metis list.collapse)
  then have "s = xs @ c # ys" using xs by (metis takeWhile_dropWhile_id)
  moreover have "c \<notin> set xs" unfolding xs by (auto dest: set_takeWhileD)
  ultimately show ?thesis by simp
qed

lemma has_prefix_iff: "has_prefix s p \<longleftrightarrow> (\<exists>r. s = p @ r)"
  unfolding has_prefix_def by (metis append_eq_conv_conj append_take_drop_id)

lemma service_account_namespace_eq:
  assumes "name \<noteq> []" "CHR '':'' \<notin> set ns" "CHR '':'' \<notin> set name"
  shows "service_account_namespace (''system:serviceaccount:'' @ ns @ '':'' @ name) = ns"
proof -
  have "cut_prefix (''system:serviceaccount:'' @ ns @ CHR '':'' # name) ''system:serviceaccount:''
      = (ns @ CHR '':'' # name, True)"
    by (simp add: cut_prefix_def has_prefix_def)
  with cut_append [OF assms(2), of name] assms show ?thesis
    by (simp add: service_account_namespace_def)
qed

text \<open>
  The tenant of a ServiceAccount is read off its user name exactly: a user name gives the
  Namespace \<open>ns\<close> if and only if it is \<open>system:serviceaccount:ns:name\<close> with neither part
  containing a colon, so a forged name with further colons, without a name or without the
  prefix gives no tenant.
\<close>

theorem service_account_namespace_iff:
  assumes "ns \<noteq> []"
  shows "service_account_namespace u = ns \<longleftrightarrow>
    (\<exists>name. u = ''system:serviceaccount:'' @ ns @ '':'' @ name \<and> name \<noteq> [] \<and>
       CHR '':'' \<notin> set ns \<and> CHR '':'' \<notin> set name)"
proof
  assume l: "service_account_namespace u = ns"
  with assms have "has_prefix u ''system:serviceaccount:''"
    by (auto simp: service_account_namespace_def cut_prefix_def split: if_splits)
  then obtain r where u: "u = ''system:serviceaccount:'' @ r"
    unfolding has_prefix_iff by blast
  then have p: "cut_prefix u ''system:serviceaccount:'' = (r, True)"
    by (simp add: cut_prefix_def has_prefix_def)
  obtain a b ok where c: "cut r (CHR '':'') = (a, b, ok)" by (metis prod_cases3)
  with l p assms have ok: "ok" "b \<noteq> []" "CHR '':'' \<notin> set b" "a = ns"
    by (auto simp: service_account_namespace_def split: if_splits)
  with c have "r = ns @ CHR '':'' # b \<and> CHR '':'' \<notin> set ns" using cut_split [of r] by simp
  with u ok show "\<exists>name. u = ''system:serviceaccount:'' @ ns @ '':'' @ name \<and> name \<noteq> [] \<and>
       CHR '':'' \<notin> set ns \<and> CHR '':'' \<notin> set name" by auto
next
  assume "\<exists>name. u = ''system:serviceaccount:'' @ ns @ '':'' @ name \<and> name \<noteq> [] \<and>
       CHR '':'' \<notin> set ns \<and> CHR '':'' \<notin> set name"
  then show "service_account_namespace u = ns" by (elim exE conjE) (simp only: service_account_namespace_eq simp_thms)
qed

theorem service_account_namespace_iff_witness:
  "service_account_namespace ''system:serviceaccount:team-a:runner'' = ''team-a'' \<and>
   service_account_namespace ''system:serviceaccount:team-a:runner:x'' \<noteq> ''team-a''"
  using service_account_namespace_iff [of "''team-a''" "''system:serviceaccount:team-a:runner''"]
    service_account_namespace_iff [of "''team-a''" "''system:serviceaccount:team-a:runner:x''"]
  by simp

end
