(* ===== verification/GoTime.thy ===== *)
theory GoTime
  imports Prelude
begin

text \<open>
  What the program uses of Go's \<open>time\<close> package: the difference of two times, which saturates at
  the ends of \<open>time.Duration\<close>, the Unix seconds of a time, and \<open>time.Parse\<close> with the layout
  \<open>RFC3339\<close>.  The parser accepts the grammar of RFC 3339 as Go's own fast path does; the few
  lax forms that Go accepts beyond it (a comma before the fraction, one-digit hours) are
  rejected here.
\<close>

definition time_sub :: "time \<Rightarrow> time \<Rightarrow> duration" where
  "time_sub a b = (let d = a - b in
     if d > 2 ^ 63 - 1 then 2 ^ 63 - 1 else if d < - (2 ^ 63) then - (2 ^ 63) else d)"

definition unix_seconds :: "time \<Rightarrow> int" where
  "unix_seconds t = t div 1000000000"

lemma time_sub_pos: "b < a \<Longrightarrow> 0 < time_sub a b"
  by (simp add: time_sub_def Let_def)

section \<open>Parsing\<close>

definition slice :: "string \<Rightarrow> nat \<Rightarrow> nat \<Rightarrow> string" where
  "slice s i j = take (j - i) (drop i s)"

definition is_digit :: "char \<Rightarrow> bool" where
  "is_digit c \<longleftrightarrow> 48 \<le> (of_char c :: nat) \<and> (of_char c :: nat) \<le> 57"

definition digits_value :: "string \<Rightarrow> int" where
  "digits_value s = foldl (\<lambda>n c. 10 * n + (int (of_char c) - 48)) 0 s"

definition parse_uint :: "string \<Rightarrow> int \<Rightarrow> int \<Rightarrow> int option" where
  "parse_uint s lo hi =
     (if s \<noteq> [] \<and> list_all is_digit s \<and> lo \<le> digits_value s \<and> digits_value s \<le> hi
      then Some (digits_value s) else None)"

definition leap_year :: "int \<Rightarrow> bool" where
  "leap_year y \<longleftrightarrow> y mod 4 = 0 \<and> (y mod 100 \<noteq> 0 \<or> y mod 400 = 0)"

definition days_in :: "int \<Rightarrow> int \<Rightarrow> int" where
  "days_in m y = (if m = 2 then (if leap_year y then 29 else 28)
                  else if m = 4 \<or> m = 6 \<or> m = 9 \<or> m = 11 then 30 else 31)"

text \<open>Days from 1970-01-01 to a date of the proleptic Gregorian calendar.\<close>

definition days_from_civil :: "int \<Rightarrow> int \<Rightarrow> int \<Rightarrow> int" where
  "days_from_civil y m d =
     (let y' = (if m \<le> 2 then y - 1 else y);
          era = y' div 400; yoe = y' mod 400;
          doy = (153 * (if m > 2 then m - 3 else m + 9) + 2) div 5 + d - 1;
          doe = yoe * 365 + yoe div 4 - yoe div 100 + doy
      in era * 146097 + doe - 719468)"

definition date_time :: "int \<Rightarrow> int \<Rightarrow> int \<Rightarrow> int \<Rightarrow> int \<Rightarrow> int \<Rightarrow> int \<Rightarrow> time" where
  "date_time y mo d h mi s ns =
     (((days_from_civil y mo d * 24 + h) * 60 + mi) * 60 + s) * 1000000000 + ns"

text \<open>The fraction: its first nine digits are nanoseconds.\<close>

definition fraction_value :: "string \<Rightarrow> int" where
  "fraction_value ds = (let t = take 9 ds in digits_value t * 10 ^ (9 - length t))"

definition parse_zone :: "string \<Rightarrow> int option" where
  "parse_zone s =
     (if s = ''Z'' then Some 0
      else if length s \<noteq> 6 then None
      else case (parse_uint (slice s 1 3) 0 23, parse_uint (slice s 4 6) 0 59) of
        (Some h, Some m) \<Rightarrow>
          if (s ! 0 = CHR ''+'' \<or> s ! 0 = CHR ''-'') \<and> s ! 3 = CHR '':''
          then Some ((if s ! 0 = CHR ''-'' then -1 else 1) * (h * 60 + m) * 60) else None
      | _ \<Rightarrow> None)"

definition parse_rfc3339 :: "string \<Rightarrow> time option" where
  "parse_rfc3339 s =
     (if length s < 19 then None
      else case (parse_uint (slice s 0 4) 0 9999, parse_uint (slice s 5 7) 1 12) of
        (Some y, Some mo) \<Rightarrow>
          (case (parse_uint (slice s 8 10) 1 (days_in mo y), parse_uint (slice s 11 13) 0 23,
                 parse_uint (slice s 14 16) 0 59, parse_uint (slice s 17 19) 0 59) of
             (Some d, Some h, Some mi, Some sec) \<Rightarrow>
               if s ! 4 = CHR ''-'' \<and> s ! 7 = CHR ''-'' \<and> s ! 10 = CHR ''T'' \<and>
                  s ! 13 = CHR '':'' \<and> s ! 16 = CHR '':''
               then
                 (let rest = drop 19 s;
                      frac = (if 2 \<le> length rest \<and> rest ! 0 = CHR ''.'' \<and> is_digit (rest ! 1)
                              then takeWhile is_digit (tl rest) else []);
                      rest = (if frac = [] then rest else drop (Suc (length frac)) rest)
                  in map_option (\<lambda>offset. date_time y mo d h mi sec (fraction_value frac) - offset * 1000000000)
                       (parse_zone rest))
               else None
           | _ \<Rightarrow> None)
      | _ \<Rightarrow> None)"

lemma parse_rfc3339_examples:
  "parse_rfc3339 ''1970-01-01T00:00:00Z'' = Some 0"
  "parse_rfc3339 ''2024-02-29T12:30:15.25+08:00'' = Some 1709181015250000000"
  "parse_rfc3339 ''2023-02-29T12:30:15Z'' = None"
  by code_simp+

end
