(* ===== verification/TaskCtl.thy ===== *)
theory TaskCtl
  imports Naming Tenant GoTime
begin

text \<open>
  The definitions of \<open>internal/controller/task_controller.go\<close>: one reconcile of a Task, the three
  task types, the creation of Jobs, the concurrency policy and the synchronisation of the status
  with the Jobs.  \<open>TaskRuns\<close> and \<open>TaskSync\<close> hold the proofs.
\<close>

abbreviation task_finalizer :: string where "task_finalizer \<equiv> ''kubetask.kubetask.io/finalizer''"
abbreviation last_trigger_annotation :: string where
  "last_trigger_annotation \<equiv> ''kubetask.io/last-trigger''"

text \<open>The places where a reconcile reads the clock; a sync stamps each finished Job.\<close>

datatype task_now_site = NowCron | NowDelay | NowJobName | NowCreated | NowStopped string

record 'w task_env =
  te_kube :: "'w kube"
  te_now :: "task_now_site \<Rightarrow> time"

section \<open>Jobs and records\<close>

definition job_condition_true :: "job \<Rightarrow> string \<Rightarrow> bool" where
  "job_condition_true j condition_type \<longleftrightarrow>
     list_ex (\<lambda>c. jc_type c = condition_type \<and> jc_status c = ''True'') (js_conditions (jb_status j))"

definition job_transitioned :: "job \<Rightarrow> bool" where
  "job_transitioned j \<longleftrightarrow> job_condition_true j ''Complete'' \<or> job_condition_true j ''Failed''"

definition job_phase :: "job \<Rightarrow> task_phase" where
  "job_phase j = (if job_condition_true j ''Complete'' then TaskSucceeded
                  else if job_condition_true j ''Failed'' then TaskFailed else TaskRunning)"

definition is_terminal_execution_record :: "execution_record \<Rightarrow> bool" where
  "is_terminal_execution_record r \<longleftrightarrow> er_phase r = TaskSucceeded \<or> er_phase r = TaskFailed"

definition task_status_phase :: "task_status \<Rightarrow> string list \<Rightarrow> task_phase" where
  "task_status_phase st active_jobs =
     (if active_jobs \<noteq> [] then TaskRunning
      else if 0 < sint (st_succeeded st) then TaskSucceeded
      else if 0 < sint (st_failed st) then TaskFailed
      else if st_phase st = TaskPhaseOther [] then TaskPending
      else st_phase st)"

definition active_jobs_changed :: "task_status \<Rightarrow> string list \<Rightarrow> bool" where
  "active_jobs_changed st current \<longleftrightarrow> st_active_jobs st \<noteq> current"

definition task_manually_triggered_after_completion :: "task \<Rightarrow> bool" where
  "task_manually_triggered_after_completion t =
     (let raw = gm_get_or [] (om_annotations (tk_meta t)) last_trigger_annotation in
      if raw = [] then False
      else case parse_rfc3339 raw of
        None \<Rightarrow> False
      | Some trigger_time \<Rightarrow>
          (case (case st_last_completion_time (tk_status t) of
                   None \<Rightarrow> st_last_start_time (tk_status t) | c \<Rightarrow> c) of
             None \<Rightarrow> True
           | Some reference \<Rightarrow> reference < trigger_time))"

definition task_execution_finished :: "task \<Rightarrow> bool" where
  "task_execution_finished t =
     (if task_manually_triggered_after_completion t then False
      else if st_phase (tk_status t) \<noteq> TaskSucceeded \<and> st_phase (tk_status t) \<noteq> TaskFailed then False
      else st_last_completion_time (tk_status t) \<noteq> None \<or> st_execution_history (tk_status t) \<noteq> [])"

section \<open>Status updates\<close>

abbreviation set_status :: "task \<Rightarrow> task_status \<Rightarrow> task" where
  "set_status t st \<equiv> t\<lparr>tk_status := st\<rparr>"

definition write_task_status :: "'w kube \<Rightarrow> task \<Rightarrow> 'w \<Rightarrow> (ctl_error + result) \<times> 'w" where
  "write_task_status K t w =
     (case k_update_task_status K t w of
        (Inl e, w') \<Rightarrow> (Inl (ClientError e), w')
      | (Inr _, w') \<Rightarrow> (Inr no_result, w'))"

section \<open>Status synchronization\<close>

text \<open>
  The variables of the loop over the Jobs: the names of the Jobs in progress, the index of the
  history by Job name, the status that is being built and whether it changed.
\<close>

record sync_state =
  sy_active :: "string list"
  sy_index :: "(string, nat) gomap"
  sy_status :: task_status
  sy_dirty :: bool

definition history_index :: "execution_record list \<Rightarrow> (string, nat) gomap" where
  "history_index hist =
     foldl (\<lambda>m (i, r). gm_put (er_job_name r) i m) gm_empty (enumerate 0 hist)"

definition execution_record_of :: "time \<Rightarrow> job \<Rightarrow> execution_record" where
  "execution_record_of now j =
     \<lparr>er_job_name = jb_name j, er_start_time = om_creation_timestamp (jb_meta j),
      er_stop_time = now, er_phase = job_phase j, er_exit_code = 0\<rparr>"

definition count_execution :: "execution_record \<Rightarrow> task_status \<Rightarrow> task_status" where
  "count_execution r st =
     (if er_phase r = TaskSucceeded then st\<lparr>st_succeeded := st_succeeded st + 1\<rparr>
      else st\<lparr>st_failed := st_failed st + 1\<rparr>)"

definition record_execution :: "execution_record \<Rightarrow> sync_state \<Rightarrow> sync_state" where
  "record_execution r sy =
     (let st = sy_status sy; hist = st_execution_history st; idx = gm_get (sy_index sy) (er_job_name r) in
      if (case idx of None \<Rightarrow> True | Some i \<Rightarrow> \<not> is_terminal_execution_record (hist ! i)) then
        (let st = count_execution r st in
         case idx of
           Some i \<Rightarrow> sy\<lparr>sy_status := st\<lparr>st_execution_history := hist[i := r]\<rparr>, sy_dirty := True\<rparr>
         | None \<Rightarrow> sy\<lparr>sy_status := st\<lparr>st_execution_history := hist @ [r]\<rparr>,
                      sy_index := gm_put (er_job_name r) (length hist) (sy_index sy), sy_dirty := True\<rparr>)
      else sy)"

definition note_completion :: "job \<Rightarrow> sync_state \<Rightarrow> sync_state" where
  "note_completion j sy =
     (case js_completion_time (jb_status j) of
        None \<Rightarrow> sy
      | Some c \<Rightarrow>
          if st_last_completion_time (sy_status sy) \<noteq> Some c
          then sy\<lparr>sy_status := (sy_status sy)\<lparr>st_last_completion_time := Some c\<rparr>, sy_dirty := True\<rparr>
          else sy)"

definition sync_job :: "(task_now_site \<Rightarrow> time) \<Rightarrow> sync_state \<Rightarrow> job \<Rightarrow> sync_state" where
  "sync_job now sy j =
     (if \<not> job_transitioned j then sy\<lparr>sy_active := sy_active sy @ [jb_name j]\<rparr>
      else note_completion j (record_execution (execution_record_of (now (NowStopped (jb_name j))) j) sy))"

definition history_limit :: nat where "history_limit = 10"

definition trim_history :: "sync_state \<Rightarrow> sync_state" where
  "trim_history sy =
     (let hist = st_execution_history (sy_status sy) in
      if history_limit < length hist
      then sy\<lparr>sy_status := (sy_status sy)\<lparr>st_execution_history := drop (length hist - history_limit) hist\<rparr>,
              sy_dirty := True\<rparr>
      else sy)"

definition refresh_active :: "sync_state \<Rightarrow> sync_state" where
  "refresh_active sy =
     (if active_jobs_changed (sy_status sy) (sy_active sy)
      then sy\<lparr>sy_status := (sy_status sy)\<lparr>st_active_jobs := sy_active sy\<rparr>, sy_dirty := True\<rparr>
      else sy)"

definition refresh_phase :: "sync_state \<Rightarrow> sync_state" where
  "refresh_phase sy =
     (let new_phase = task_status_phase (sy_status sy) (sy_active sy) in
      if new_phase \<noteq> st_phase (sy_status sy)
      then sy\<lparr>sy_status := (sy_status sy)\<lparr>st_phase := new_phase\<rparr>, sy_dirty := True\<rparr>
      else sy)"

text \<open>The status a sync computes from the listed Jobs, and whether it has to be written.\<close>

definition sync_status :: "(task_now_site \<Rightarrow> time) \<Rightarrow> job list \<Rightarrow> task_status \<Rightarrow> task_status \<times> bool" where
  "sync_status now jobs st =
     (let sy = foldl (sync_job now) \<lparr>sy_active = [], sy_index = history_index (st_execution_history st),
                                     sy_status = st, sy_dirty = False\<rparr> jobs;
          sy = refresh_phase (refresh_active (trim_history sy))
      in (sy_status sy, sy_dirty sy))"

text \<open>The result carries the Task as it is in memory afterwards.\<close>

definition sync_job_status ::
  "'w task_env \<Rightarrow> task \<Rightarrow> 'w \<Rightarrow> (ctl_error + task) \<times> 'w" where
  "sync_job_status E t w =
     (case list_task_jobs (te_kube E) t w of
        (Inl e, w1) \<Rightarrow> (Inl (ClientError e), w1)
      | (Inr jobs, w1) \<Rightarrow>
          (case sync_status (te_now E) jobs (tk_status t) of
             (st, dirty) \<Rightarrow>
               if \<not> dirty then (Inr (set_status t st), w1)
               else (case k_update_task_status (te_kube E) (set_status t st) w1 of
                       (Inl e, w2) \<Rightarrow> (Inl (ClientError e), w2)
                     | (Inr t', w2) \<Rightarrow> (Inr t', w2))))"

section \<open>Job creation\<close>

definition construct_job :: "'w task_env \<Rightarrow> task \<Rightarrow> ctl_error + job" where
  "construct_job E t =
     (let spec = tk_spec t;
          job_name = tk_name t @ ''-'' @ show_int (unix_seconds (te_now E NowJobName));
          backoff_limit = (case ts_backoff_limit spec of None \<Rightarrow> 3 | Some b \<Rightarrow> b);
          container = \<lparr>ct_name = ''task'', ct_image = ts_image spec, ct_command = ts_command spec,
            ct_args = ts_args spec, ct_env = ts_env spec, ct_resources = ts_resources spec\<rparr>;
          job = \<lparr>jb_meta = empty_meta\<lparr>om_name := job_name, om_namespace := job_namespace t,
                              om_labels := gm_put task_label (tk_name t) gm_empty\<rparr>,
            jb_spec = \<lparr>jsp_backoff_limit = Some backoff_limit,
              jsp_active_deadline_seconds = ts_active_deadline_seconds spec,
              jsp_ttl_seconds_after_finished = ts_ttl_seconds_after_finished spec,
              jsp_restart_policy = ''Never'', jsp_containers = [container]\<rparr>,
            jb_status = \<lparr>js_active = 0, js_conditions = [], js_completion_time = None\<rparr>\<rparr>
      in case k_set_controller_reference (te_kube E) (tk_meta t) (jb_meta job) of
           Inl e \<Rightarrow> Inl (OwnerReferenceError (''failed to set owner reference: '' @ e))
         | Inr meta \<Rightarrow> Inr (job\<lparr>jb_meta := meta\<rparr>))"

definition mark_task_running :: "time \<Rightarrow> task \<Rightarrow> job \<Rightarrow> task" where
  "mark_task_running now t j =
     (let st = (tk_status t)\<lparr>st_phase := TaskRunning, st_last_start_time := Some now,
                            st_active_jobs := st_active_jobs (tk_status t) @ [jb_name j]\<rparr>
      in set_status t (if ts_type (tk_spec t) = TaskTypeCron
                       then st\<lparr>st_last_schedule_time := Some now\<rparr> else st))"

definition create_job_and_update_status ::
  "'w task_env \<Rightarrow> task \<Rightarrow> 'w \<Rightarrow> (ctl_error + result) \<times> 'w" where
  "create_job_and_update_status E t w =
     (case construct_job E t of
        Inl e \<Rightarrow> (Inl e, w)
      | Inr job \<Rightarrow>
          (case k_create_job (te_kube E) job w of
             (Inl e, w1) \<Rightarrow> (Inl (ClientError e), w1)
           | (Inr job', w1) \<Rightarrow>
               write_task_status (te_kube E) (mark_task_running (te_now E NowCreated) t job') w1))"

definition job_exists :: "'w kube \<Rightarrow> task \<Rightarrow> 'w \<Rightarrow> bool \<times> 'w" where
  "job_exists K t w =
     (case list_task_jobs K t w of
        (Inl _, w') \<Rightarrow> (False, w')
      | (Inr jobs, w') \<Rightarrow> (jobs \<noteq> [], w'))"

section \<open>Concurrency control\<close>

definition job_active :: "job \<Rightarrow> bool" where
  "job_active j \<longleftrightarrow> 0 < sint (js_active (jb_status j))"

text \<open>The errors of these deletes are only logged.\<close>

fun delete_active_jobs :: "'w kube \<Rightarrow> job list \<Rightarrow> 'w \<Rightarrow> 'w" where
  "delete_active_jobs K [] w = w"
| "delete_active_jobs K (j # js) w =
     delete_active_jobs K js (if job_active j then snd (k_delete_job K j w) else w)"

definition concurrency_allowed :: "'w kube \<Rightarrow> task \<Rightarrow> 'w \<Rightarrow> bool \<times> 'w" where
  "concurrency_allowed K t w =
     (case list_task_jobs K t w of
        (Inl _, w1) \<Rightarrow> (True, w1)
      | (Inr jobs, w1) \<Rightarrow>
          if filter job_active jobs = [] then (True, w1)
          else (case ts_concurrency_policy (tk_spec t) of
                  ConcurrencyAllow \<Rightarrow> (True, w1)
                | ConcurrencyForbid \<Rightarrow> (False, w1)
                | ConcurrencyReplace \<Rightarrow> (True, delete_active_jobs K jobs w1)
                | _ \<Rightarrow> (True, w1)))"

section \<open>Task type handlers\<close>

definition sync_result :: "(ctl_error + task) \<times> 'w \<Rightarrow> (ctl_error + result) \<times> 'w" where
  "sync_result r = (case r of (Inl e, w) \<Rightarrow> (Inl e, w) | (Inr _, w) \<Rightarrow> (Inr no_result, w))"

definition handle_one_time :: "'w task_env \<Rightarrow> task \<Rightarrow> 'w \<Rightarrow> (ctl_error + result) \<times> 'w" where
  "handle_one_time E t w =
     (case job_exists (te_kube E) t w of (ex, w1) \<Rightarrow>
        if ex then sync_result (sync_job_status E t w1)
        else if task_execution_finished t then (Inr no_result, w1)
        else create_job_and_update_status E t w1)"

definition fail_task :: "'w task_env \<Rightarrow> task \<Rightarrow> string \<Rightarrow> 'w \<Rightarrow> (ctl_error + result) \<times> 'w" where
  "fail_task E t message w =
     write_task_status (te_kube E)
       (set_status t ((tk_status t)\<lparr>st_phase := TaskFailed, st_message := message\<rparr>)) w"

text \<open>The part of \<open>handleCron\<close> after the sync.\<close>

definition schedule_cron :: "'w task_env \<Rightarrow> task \<Rightarrow> 'w \<Rightarrow> (ctl_error + result) \<times> 'w" where
  "schedule_cron E t w =
     (case k_parse_cron (te_kube E) (ts_schedule (tk_spec t)) of
        None \<Rightarrow> fail_task E t (''Invalid cron expression: '' @ ts_schedule (tk_spec t)) w
      | Some next_time \<Rightarrow>
          (let now = te_now E NowCron;
               due = next_time (case st_last_schedule_time (tk_status t) of
                                  None \<Rightarrow> om_creation_timestamp (tk_meta t) | Some s \<Rightarrow> s)
           in if now < due then (Inr (requeue (time_sub due now)), w)
              else (case concurrency_allowed (te_kube E) t w of (allowed, w1) \<Rightarrow>
                if \<not> allowed then (Inr (requeue (time_sub (next_time now) now)), w1)
                else create_job_and_update_status E t w1)))"

definition handle_cron :: "'w task_env \<Rightarrow> task \<Rightarrow> 'w \<Rightarrow> (ctl_error + result) \<times> 'w" where
  "handle_cron E t w =
     (case job_exists (te_kube E) t w of (ex, w1) \<Rightarrow>
        if \<not> ex then schedule_cron E t w1
        else (case sync_job_status E t w1 of
                (Inl e, w2) \<Rightarrow> (Inl e, w2)
              | (Inr t', w2) \<Rightarrow> schedule_cron E t' w2))"

definition handle_delay :: "'w task_env \<Rightarrow> task \<Rightarrow> 'w \<Rightarrow> (ctl_error + result) \<times> 'w" where
  "handle_delay E t w =
     (case ts_delay (tk_spec t) of
        None \<Rightarrow> fail_task E t ''Delay task requires spec.delay'' w
      | Some delay \<Rightarrow>
          (let target = om_creation_timestamp (tk_meta t) + delay; now = te_now E NowDelay in
           if now < target then (Inr (requeue (time_sub target now)), w)
           else (case job_exists (te_kube E) t w of (ex, w1) \<Rightarrow>
             if ex then sync_result (sync_job_status E t w1)
             else if task_execution_finished t then (Inr no_result, w1)
             else create_job_and_update_status E t w1)))"

section \<open>Deletion and suspension\<close>

fun delete_jobs :: "'w kube \<Rightarrow> job list \<Rightarrow> 'w \<Rightarrow> api_error option \<times> 'w" where
  "delete_jobs K [] w = (None, w)"
| "delete_jobs K (j # js) w =
     (if \<not> is_zero_time (om_deletion_timestamp (jb_meta j)) then delete_jobs K js w
      else case k_delete_job K j w of
        (Some e, w') \<Rightarrow> if \<not> is_not_found e then (Some e, w') else delete_jobs K js w'
      | (None, w') \<Rightarrow> delete_jobs K js w')"

definition handle_task_deletion :: "'w task_env \<Rightarrow> task \<Rightarrow> 'w \<Rightarrow> (ctl_error + result) \<times> 'w" where
  "handle_task_deletion E t w =
     (let K = te_kube E in
      case list_task_jobs K t w of
        (Inl e, w1) \<Rightarrow> (Inl (ClientError e), w1)
      | (Inr jobs, w1) \<Rightarrow>
          (case delete_jobs K jobs w1 of
             (Some e, w2) \<Rightarrow> (Inl (ClientError e), w2)
           | (None, w2) \<Rightarrow>
               (case list_task_jobs K t w2 of
                  (Inl e, w3) \<Rightarrow> (Inl (ClientError e), w3)
                | (Inr left, w3) \<Rightarrow>
                    if left \<noteq> [] then (Inr (requeue (2 * second)), w3)
                    else (case k_update_task K
                              (t\<lparr>tk_meta := k_remove_finalizer K (tk_meta t) task_finalizer\<rparr>) w3 of
                            (Inl e, w4) \<Rightarrow> (Inl (ClientError e), w4)
                          | (Inr _, w4) \<Rightarrow> (Inr no_result, w4)))))"

definition handle_suspend :: "'w task_env \<Rightarrow> task \<Rightarrow> 'w \<Rightarrow> (ctl_error + result) \<times> 'w" where
  "handle_suspend E t w =
     (if st_phase (tk_status t) \<noteq> TaskSuspended
      then write_task_status (te_kube E)
        (set_status t ((tk_status t)\<lparr>st_phase := TaskSuspended, st_message := ''Task is suspended''\<rparr>)) w
      else (Inr no_result, w))"

definition name_too_long_message :: "string \<Rightarrow> string" where
  "name_too_long_message name =
     ''task name is too long: '' @ show_nat (length name) @ '' characters, limit is '' @
     show_nat MaxTaskNameLength @ '' (derived Job/Pod name would exceed 63 characters)''"

definition handle_name_too_long :: "'w task_env \<Rightarrow> task \<Rightarrow> 'w \<Rightarrow> (ctl_error + result) \<times> 'w" where
  "handle_name_too_long E t w =
     (let message = name_too_long_message (tk_name t) in
      if st_phase (tk_status t) = TaskFailed \<and> st_message (tk_status t) = message
      then (Inr no_result, w) else fail_task E t message w)"

section \<open>Reconcile\<close>

definition reconcile_type :: "'w task_env \<Rightarrow> task \<Rightarrow> 'w \<Rightarrow> (ctl_error + result) \<times> 'w" where
  "reconcile_type E t w =
     (if MaxTaskNameLength < length (tk_name t) then handle_name_too_long E t w
      else case ts_type (tk_spec t) of
        TaskTypeOneTime \<Rightarrow> handle_one_time E t w
      | TaskTypeCron \<Rightarrow> handle_cron E t w
      | TaskTypeDelay \<Rightarrow> handle_delay E t w
      | _ \<Rightarrow> (Inr no_result, w))"

definition reconcile_task :: "'w task_env \<Rightarrow> string \<Rightarrow> 'w \<Rightarrow> (ctl_error + result) \<times> 'w" where
  "reconcile_task E name w =
     (let K = te_kube E in
      case k_get_task K name w of
        (Inl e, w1) \<Rightarrow> if is_not_found e then (Inr no_result, w1) else (Inl (ClientError e), w1)
      | (Inr t, w1) \<Rightarrow>
          if \<not> is_zero_time (om_deletion_timestamp (tk_meta t)) then handle_task_deletion E t w1
          else if \<not> k_contains_finalizer K (tk_meta t) task_finalizer then
            (case k_update_task K (t\<lparr>tk_meta := k_add_finalizer K (tk_meta t) task_finalizer\<rparr>) w1 of
               (Inl e, w2) \<Rightarrow> (Inl (ClientError e), w2)
             | (Inr _, w2) \<Rightarrow> (Inr no_result, w2))
          else if ts_suspend (tk_spec t) = Some True then handle_suspend E t w1
          else if st_phase (tk_status t) = TaskSuspended then
            (case k_update_task_status K
                (set_status t ((tk_status t)\<lparr>st_phase := TaskPending, st_message := []\<rparr>)) w1 of
               (Inl e, w2) \<Rightarrow> (Inl (ClientError e), w2)
             | (Inr t', w2) \<Rightarrow> reconcile_type E t' w2)
          else reconcile_type E t w1)"

end
