(* ===== verification/TaskSync.thy ===== *)
theory TaskSync
  imports TaskCtl
begin

text \<open>
  The proofs about \<open>syncJobStatus\<close>: which executions it counts, what it keeps in the history,
  when a second sync has nothing to do, and when it never settles.
\<close>

section \<open>The history and its index\<close>

definition terminal_names :: "execution_record list \<Rightarrow> string set" where
  "terminal_names hist = {er_job_name r | r. r \<in> set hist \<and> is_terminal_execution_record r}"

definition index_ok :: "(string, nat) gomap \<Rightarrow> execution_record list \<Rightarrow> bool" where
  "index_ok idx hist \<longleftrightarrow> (\<forall>n. case gm_get idx n of
     None \<Rightarrow> n \<notin> er_job_name ` set hist
   | Some i \<Rightarrow> i < length hist \<and> er_job_name (hist ! i) = n)"

lemma index_ok_None: "index_ok idx hist \<Longrightarrow> gm_get idx n = None \<Longrightarrow> n \<notin> er_job_name ` set hist"
  unfolding index_ok_def by (drule spec [of _ n]) simp

lemma index_ok_Some:
  "index_ok idx hist \<Longrightarrow> gm_get idx n = Some i \<Longrightarrow> i < length hist \<and> er_job_name (hist ! i) = n"
  unfolding index_ok_def by (drule spec [of _ n]) simp

lemma index_ok_snoc:
  assumes "index_ok idx hist"
  shows "index_ok (gm_put (er_job_name r) (length hist) idx) (hist @ [r])"
  unfolding index_ok_def
proof
  fix n
  show "case gm_get (gm_put (er_job_name r) (length hist) idx) n of
      None \<Rightarrow> n \<notin> er_job_name ` set (hist @ [r])
    | Some i \<Rightarrow> i < length (hist @ [r]) \<and> er_job_name ((hist @ [r]) ! i) = n"
    using index_ok_None [OF assms, of n] index_ok_Some [OF assms, of n]
    by (cases "gm_get idx n") (auto simp: gm.get_put nth_append)
qed

lemma index_ok_update:
  assumes "index_ok idx hist" and "i < length hist" and "er_job_name r = er_job_name (hist ! i)"
  shows "index_ok idx (hist[i := r])"
proof -
  have "map er_job_name (hist[i := r]) = map er_job_name hist"
    using assms(2,3) by (simp add: map_update list_update_same_conv)
  then have s: "er_job_name ` set (hist[i := r]) = er_job_name ` set hist"
    and n: "\<And>k. k < length hist \<Longrightarrow> er_job_name (hist[i := r] ! k) = er_job_name (hist ! k)"
    by (metis set_map, metis length_list_update nth_map)
  show ?thesis unfolding index_ok_def s
    using n index_ok_None [OF assms(1)] index_ok_Some [OF assms(1)] by (simp split: option.split)
qed

lemma history_index_ok: "index_ok (history_index hist) hist"
proof (induction hist rule: rev_induct)
  case Nil
  show ?case by (simp add: index_ok_def history_index_def gm.get_emp)
next
  case (snoc r hist)
  have "history_index (hist @ [r]) = gm_put (er_job_name r) (length hist) (history_index hist)"
    by (simp add: history_index_def enumerate_append_eq)
  with index_ok_snoc [OF snoc.IH] show ?case by simp
qed

section \<open>One finished Job\<close>

lemma terminal_names_snoc:
  "terminal_names (hist @ [r]) =
   (if is_terminal_execution_record r then insert (er_job_name r) (terminal_names hist) else terminal_names hist)"
  by (auto simp: terminal_names_def)

lemma terminal_names_index:
  assumes "index_ok idx hist" and "distinct (map er_job_name hist)"
  shows "n \<in> terminal_names hist \<longleftrightarrow>
    (case gm_get idx n of None \<Rightarrow> False | Some i \<Rightarrow> is_terminal_execution_record (hist ! i))"
proof (cases "gm_get idx n")
  case None
  with index_ok_None [OF assms(1) None] show ?thesis by (auto simp: terminal_names_def)
next
  case (Some i)
  note i = index_ok_Some [OF assms(1) Some]
  have "r = hist ! i" if "r \<in> set hist" "er_job_name r = n" for r
    using that i assms(2) by (metis distinct_map inj_onD nth_mem)
  then show ?thesis using Some i by (auto simp: terminal_names_def)
qed

lemma terminal_names_update:
  assumes "i < length hist" and "distinct (map er_job_name hist)"
    and "er_job_name r = er_job_name (hist ! i)" and "is_terminal_execution_record r"
  shows "terminal_names (hist[i := r]) = insert (er_job_name r) (terminal_names hist)"
proof -
  have other: "x = hist ! i" if "x \<in> set hist" "er_job_name x = er_job_name (hist ! i)" for x
    using that assms(1,2) by (metis distinct_map inj_onD nth_mem)
  have "terminal_names (hist[i := r]) \<subseteq> insert (er_job_name r) (terminal_names hist)"
    using set_update_subset_insert [of hist i r] by (auto simp: terminal_names_def)
  moreover have "er_job_name r \<in> terminal_names (hist[i := r])"
    using assms(1,4) set_update_memI by (force simp: terminal_names_def)
  moreover have "er_job_name x \<in> terminal_names (hist[i := r])"
    if "x \<in> set hist" "is_terminal_execution_record x" for x
  proof (cases "er_job_name x = er_job_name r")
    case True
    then show ?thesis using calculation(2) by simp
  next
    case False
    from that(1) obtain k where k: "k < length hist" "x = hist ! k" by (metis in_set_conv_nth)
    with False assms(3) have "k \<noteq> i" by auto
    with k have "x \<in> set (hist[i := r])" by (metis length_list_update nth_list_update_neq nth_mem)
    with that(2) show ?thesis by (auto simp: terminal_names_def)
  qed
  ultimately show ?thesis by (auto simp: terminal_names_def)
qed

lemma count_execution_simps [simp]:
  "st_execution_history (count_execution r st) = st_execution_history st"
  "st_phase (count_execution r st) = st_phase st"
  "st_message (count_execution r st) = st_message st"
  "st_active_jobs (count_execution r st) = st_active_jobs st"
  "st_last_completion_time (count_execution r st) = st_last_completion_time st"
  by (simp_all add: count_execution_def)

definition history_ok :: "sync_state \<Rightarrow> bool" where
  "history_ok sy \<longleftrightarrow> index_ok (sy_index sy) (st_execution_history (sy_status sy)) \<and>
     distinct (map er_job_name (st_execution_history (sy_status sy)))"

abbreviation sy_hist :: "sync_state \<Rightarrow> execution_record list" where
  "sy_hist sy \<equiv> st_execution_history (sy_status sy)"

lemma record_execution_known:
  assumes "history_ok sy" and "er_job_name r \<in> terminal_names (sy_hist sy)"
  shows "record_execution r sy = sy"
  using assms terminal_names_index [of "sy_index sy" "sy_hist sy" "er_job_name r"]
  by (auto simp: record_execution_def history_ok_def Let_def split: option.splits)

lemma record_execution_new:
  assumes "history_ok sy" and "er_job_name r \<notin> terminal_names (sy_hist sy)"
    and "is_terminal_execution_record r"
  shows "history_ok (record_execution r sy)" "sy_dirty (record_execution r sy)"
    "sy_active (record_execution r sy) = sy_active sy"
    "terminal_names (sy_hist (record_execution r sy)) = insert (er_job_name r) (terminal_names (sy_hist sy))"
    "\<exists>hist. sy_status (record_execution r sy) = (count_execution r (sy_status sy))\<lparr>st_execution_history := hist\<rparr> \<and>
       length hist \<le> Suc (length (sy_hist sy))"
proof -
  let ?hist = "sy_hist sy" and ?idx = "sy_index sy"
  have ok: "index_ok ?idx ?hist" "distinct (map er_job_name ?hist)"
    using assms(1) by (simp_all add: history_ok_def)
  note t = terminal_names_index [OF ok, of "er_job_name r"]
  have all: "history_ok (record_execution r sy) \<and> sy_dirty (record_execution r sy) \<and>
      sy_active (record_execution r sy) = sy_active sy \<and>
      terminal_names (sy_hist (record_execution r sy)) = insert (er_job_name r) (terminal_names (sy_hist sy)) \<and>
      (\<exists>hist. sy_status (record_execution r sy) = (count_execution r (sy_status sy))\<lparr>st_execution_history := hist\<rparr> \<and>
       length hist \<le> Suc (length (sy_hist sy)))" (is ?all)
  proof (cases "gm_get ?idx (er_job_name r)")
    case None
    have "er_job_name r \<notin> er_job_name ` set ?hist" using ok(1) None by (rule index_ok_None)
    then show ?all
      using None ok assms(3) index_ok_snoc [OF ok(1), of r]
      by (auto simp: record_execution_def history_ok_def Let_def terminal_names_snoc)
  next
    case (Some i)
    note i = index_ok_Some [OF ok(1) Some]
    have nt: "\<not> is_terminal_execution_record (?hist ! i)" using assms(2) t Some by simp
    have "map er_job_name (?hist[i := r]) = map er_job_name ?hist"
      using i by (simp add: map_update list_update_same_conv)
    with i nt Some ok assms(3) index_ok_update [OF ok(1), of i r] terminal_names_update [of i ?hist r]
    show ?all
      by (auto simp: record_execution_def history_ok_def Let_def)
  qed
  from all show "history_ok (record_execution r sy)" "sy_dirty (record_execution r sy)"
    "sy_active (record_execution r sy) = sy_active sy"
    "terminal_names (sy_hist (record_execution r sy)) = insert (er_job_name r) (terminal_names (sy_hist sy))"
    "\<exists>hist. sy_status (record_execution r sy) = (count_execution r (sy_status sy))\<lparr>st_execution_history := hist\<rparr> \<and>
       length hist \<le> Suc (length (sy_hist sy))"
    by simp_all
qed

lemma note_completion_keeps [simp]:
  "sy_active (note_completion j sy) = sy_active sy" "sy_index (note_completion j sy) = sy_index sy"
  "sy_hist (note_completion j sy) = sy_hist sy"
  "st_succeeded (sy_status (note_completion j sy)) = st_succeeded (sy_status sy)"
  "st_failed (sy_status (note_completion j sy)) = st_failed (sy_status sy)"
  "st_phase (sy_status (note_completion j sy)) = st_phase (sy_status sy)"
  "st_active_jobs (sy_status (note_completion j sy)) = st_active_jobs (sy_status sy)"
  "history_ok (note_completion j sy) = history_ok sy"
  "sy_dirty sy \<Longrightarrow> sy_dirty (note_completion j sy)"
  by (auto simp: note_completion_def history_ok_def split: option.split)

section \<open>The loop over the Jobs\<close>

definition finished_jobs :: "job list \<Rightarrow> job list" where
  "finished_jobs jobs = filter job_transitioned jobs"

text \<open>The finished Jobs whose outcome the history does not hold yet.\<close>

definition new_jobs :: "string set \<Rightarrow> job list \<Rightarrow> job list" where
  "new_jobs known jobs = filter (\<lambda>j. jb_name j \<notin> known) (finished_jobs jobs)"

definition job_names_with :: "task_phase \<Rightarrow> job list \<Rightarrow> nat" where
  "job_names_with p jobs = length (filter (\<lambda>j. job_phase j = p) jobs)"

lemma new_jobs_Cons:
  "new_jobs known (j # jobs) =
   (if job_transitioned j \<and> jb_name j \<notin> known then j # new_jobs known jobs else new_jobs known jobs)"
  by (simp add: new_jobs_def finished_jobs_def)

lemma new_jobs_insert: "n \<notin> jb_name ` set jobs \<Longrightarrow> new_jobs (insert n known) jobs = new_jobs known jobs"
  by (auto simp: new_jobs_def finished_jobs_def intro!: filter_cong)

definition loop_spec :: "job list \<Rightarrow> sync_state \<Rightarrow> sync_state \<Rightarrow> bool" where
  "loop_spec jobs sy sy' \<longleftrightarrow>
     (let new = new_jobs (terminal_names (sy_hist sy)) jobs; st = sy_status sy; st' = sy_status sy' in
      history_ok sy' \<and>
      sy_active sy' = sy_active sy @ map jb_name (filter (\<lambda>j. \<not> job_transitioned j) jobs) \<and>
      terminal_names (sy_hist sy') = terminal_names (sy_hist sy) \<union> jb_name ` set (finished_jobs jobs) \<and>
      st_succeeded st' = st_succeeded st + of_nat (job_names_with TaskSucceeded new) \<and>
      st_failed st' = st_failed st + of_nat (job_names_with TaskFailed new) \<and>
      length (sy_hist sy') \<le> length (sy_hist sy) + length new \<and>
      st_phase st' = st_phase st \<and> st_active_jobs st' = st_active_jobs st \<and>
      (sy_dirty sy \<or> new \<noteq> [] \<longrightarrow> sy_dirty sy'))"

lemma job_phase_transitioned:
  "job_transitioned j \<Longrightarrow> job_phase j = TaskSucceeded \<or> job_phase j = TaskFailed"
  by (auto simp: job_transitioned_def job_phase_def)

lemma execution_record_of_simps [simp]:
  "er_job_name (execution_record_of now j) = jb_name j"
  "er_phase (execution_record_of now j) = job_phase j"
  by (simp_all add: execution_record_of_def)

lemma sync_job_spec:
  assumes "history_ok sy"
  shows "loop_spec [j] sy (sync_job now sy j)"
proof (cases "job_transitioned j")
  case False
  then show ?thesis
    using assms by (simp add: loop_spec_def Let_def sync_job_def new_jobs_def finished_jobs_def
        job_names_with_def history_ok_def)
next
  case True
  let ?r = "execution_record_of (now (NowStopped (jb_name j))) j"
  have t: "is_terminal_execution_record ?r"
    using job_phase_transitioned [OF True] by (simp add: is_terminal_execution_record_def)
  show ?thesis
  proof (cases "jb_name j \<in> terminal_names (sy_hist sy)")
    case known: True
    with record_execution_known [OF assms, of ?r] True assms show ?thesis
      by (auto simp: loop_spec_def Let_def sync_job_def new_jobs_def finished_jobs_def job_names_with_def)
  next
    case False
    have new: "new_jobs (terminal_names (sy_hist sy)) [j] = [j]"
      using False True by (simp add: new_jobs_def finished_jobs_def)
    note R = record_execution_new [OF assms, of ?r, simplified, OF False t]
    from R(5) obtain hist where
      st: "sy_status (record_execution ?r sy) = (count_execution ?r (sy_status sy))\<lparr>st_execution_history := hist\<rparr>"
      and l: "length hist \<le> Suc (length (sy_hist sy))" by blast
    have c: "st_succeeded (sy_status (record_execution ?r sy)) =
        st_succeeded (sy_status sy) + of_nat (job_names_with TaskSucceeded [j])"
      "st_failed (sy_status (record_execution ?r sy)) =
        st_failed (sy_status sy) + of_nat (job_names_with TaskFailed [j])"
      using job_phase_transitioned [OF True]
      by (auto simp: st count_execution_def job_names_with_def)
    show ?thesis
      unfolding loop_spec_def Let_def new
      using True R(1-4) c l by (simp add: sync_job_def st finished_jobs_def)
  qed
qed

lemma loop_spec_append:
  assumes "loop_spec [j] sy sy1" and "loop_spec jobs sy1 sy2" and "jb_name j \<notin> jb_name ` set jobs"
  shows "loop_spec (j # jobs) sy sy2"
proof -
  let ?T = "terminal_names (sy_hist sy)"
  have T1: "terminal_names (sy_hist sy1) = ?T \<union> jb_name ` set (finished_jobs [j])"
    using assms(1) by (simp add: loop_spec_def Let_def)
  have "new_jobs (terminal_names (sy_hist sy1)) jobs = new_jobs ?T jobs"
    using assms(3) new_jobs_insert [of "jb_name j" jobs ?T] by (simp add: T1 finished_jobs_def)
  moreover have "new_jobs ?T (j # jobs) = new_jobs ?T [j] @ new_jobs ?T jobs"
    by (simp add: new_jobs_def finished_jobs_def)
  ultimately show ?thesis
    using assms(1,2) unfolding loop_spec_def Let_def
    by (auto simp: job_names_with_def finished_jobs_def add.assoc)
qed

lemma sync_loop_spec:
  "history_ok sy \<Longrightarrow> distinct (map jb_name jobs) \<Longrightarrow> loop_spec jobs sy (foldl (sync_job now) sy jobs)"
proof (induction jobs arbitrary: sy)
  case Nil
  then show ?case
    by (simp add: loop_spec_def Let_def new_jobs_def finished_jobs_def job_names_with_def)
next
  case (Cons j jobs)
  have one: "loop_spec [j] sy (sync_job now sy j)" using Cons.prems(1) by (rule sync_job_spec)
  then have "history_ok (sync_job now sy j)" by (simp add: loop_spec_def Let_def)
  with Cons have "loop_spec jobs (sync_job now sy j) (foldl (sync_job now) (sync_job now sy j) jobs)" by simp
  with one Cons.prems(2) show ?case by (simp add: loop_spec_append)
qed

section \<open>The whole sync\<close>

definition start_sync :: "task_status \<Rightarrow> sync_state" where
  "start_sync st = \<lparr>sy_active = [], sy_index = history_index (st_execution_history st),
     sy_status = st, sy_dirty = False\<rparr>"

definition finish_sync :: "sync_state \<Rightarrow> sync_state" where
  "finish_sync sy = refresh_phase (refresh_active (trim_history sy))"

lemma sync_status_eq:
  "sync_status now jobs st =
   (let sy = finish_sync (foldl (sync_job now) (start_sync st) jobs) in (sy_status sy, sy_dirty sy))"
  by (simp add: sync_status_def start_sync_def finish_sync_def Let_def)

lemma start_sync_ok:
  "distinct (map er_job_name (st_execution_history st)) \<Longrightarrow> history_ok (start_sync st)"
  by (simp add: start_sync_def history_ok_def history_index_ok)

lemma start_sync_simps [simp]:
  "sy_status (start_sync st) = st" "sy_active (start_sync st) = []" "\<not> sy_dirty (start_sync st)"
  by (simp_all add: start_sync_def)

lemma finish_sync_simps:
  "st_succeeded (sy_status (finish_sync sy)) = st_succeeded (sy_status sy)"
  "st_failed (sy_status (finish_sync sy)) = st_failed (sy_status sy)"
  "st_active_jobs (sy_status (finish_sync sy)) = sy_active sy"
  "sy_hist (finish_sync sy) = drop (length (sy_hist sy) - history_limit) (sy_hist sy)"
  "st_last_completion_time (sy_status (finish_sync sy)) = st_last_completion_time (sy_status sy)"
  "st_phase (sy_status (finish_sync sy)) = task_status_phase (sy_status sy) (sy_active sy)"
  "sy_dirty sy \<Longrightarrow> sy_dirty (finish_sync sy)"
  "history_limit < length (sy_hist sy) \<Longrightarrow> sy_dirty (finish_sync sy)"
  by (auto simp: finish_sync_def refresh_phase_def refresh_active_def trim_history_def
      active_jobs_changed_def task_status_phase_def Let_def)

lemma task_status_phase_again:
  "st_succeeded st' = st_succeeded st \<Longrightarrow> st_failed st' = st_failed st \<Longrightarrow>
   st_phase st' = task_status_phase st active \<Longrightarrow> task_status_phase st' active = st_phase st'"
  by (auto simp: task_status_phase_def)

text \<open>
  C28. A sync counts every execution once: the counters grow by exactly the Jobs that have
  finished and whose outcome the history does not hold yet, successes and failures apart.  The
  active Jobs are those without a terminal condition, the history keeps at most ten records, the
  phase follows from active Jobs and counters, and a new outcome is always written.
\<close>

theorem sync_status_counts:
  assumes "distinct (map er_job_name (st_execution_history st))" and "distinct (map jb_name jobs)"
    and "sync_status now jobs st = (st', dirty)"
  shows "let new = new_jobs (terminal_names (st_execution_history st)) jobs;
             active = map jb_name (filter (\<lambda>j. \<not> job_transitioned j) jobs) in
    st_succeeded st' = st_succeeded st + of_nat (job_names_with TaskSucceeded new) \<and>
    st_failed st' = st_failed st + of_nat (job_names_with TaskFailed new) \<and>
    st_active_jobs st' = active \<and> length (st_execution_history st') \<le> 10 \<and>
    distinct (map er_job_name (st_execution_history st')) \<and>
    st_phase st' = task_status_phase st' active \<and> (new \<noteq> [] \<longrightarrow> dirty)"
proof -
  let ?sy = "foldl (sync_job now) (start_sync st) jobs"
  have l: "loop_spec jobs (start_sync st) ?sy"
    using start_sync_ok [OF assms(1)] assms(2) by (rule sync_loop_spec)
  have st': "st' = sy_status (finish_sync ?sy)" "dirty = sy_dirty (finish_sync ?sy)"
    using assms(3) by (simp_all add: sync_status_eq Let_def)
  have "task_status_phase st' (sy_active ?sy) = st_phase st'"
    by (rule task_status_phase_again [of _ "sy_status ?sy"]) (simp_all add: st' finish_sync_simps)
  then show ?thesis
    using l by (simp add: st' finish_sync_simps loop_spec_def Let_def history_limit_def history_ok_def
        drop_map [symmetric])
qed

lemma length_finished_le:
  assumes "history_ok sy" and "distinct (map jb_name jobs)"
    and "jb_name ` set (finished_jobs jobs) \<subseteq> terminal_names (sy_hist sy)"
  shows "length (finished_jobs jobs) \<le> length (sy_hist sy)"
proof -
  have "distinct (map jb_name (finished_jobs jobs))"
    using assms(2) unfolding finished_jobs_def by (rule distinct_map_filter)
  then have "length (finished_jobs jobs) = card (jb_name ` set (finished_jobs jobs))"
    by (metis distinct_card length_map set_map)
  also have "\<dots> \<le> card (er_job_name ` set (sy_hist sy))"
    using assms(3) by (intro card_mono) (auto simp: terminal_names_def)
  also have "\<dots> \<le> length (sy_hist sy)" by (metis card_length length_map set_map)
  finally show ?thesis .
qed

lemma new_jobs_many:
  assumes "distinct (map er_job_name hist)" and "distinct (map jb_name jobs)"
  shows "length (finished_jobs jobs) \<le> length (new_jobs (terminal_names hist) jobs) + length hist"
proof -
  let ?T = "terminal_names hist" and ?old = "filter (\<lambda>j. jb_name j \<in> terminal_names hist) (finished_jobs jobs)"
  have "distinct (map jb_name ?old)"
    using assms(2) unfolding finished_jobs_def by (intro distinct_map_filter)
  then have "length ?old = card (jb_name ` set ?old)"
    by (metis distinct_card length_map set_map)
  also have "\<dots> \<le> card (er_job_name ` set hist)"
    by (intro card_mono) (auto simp: terminal_names_def)
  also have "\<dots> \<le> length hist" by (metis card_length length_map set_map)
  finally have "length ?old \<le> length hist" .
  moreover have "length (finished_jobs jobs) = length ?old + length (new_jobs ?T jobs)"
    unfolding new_jobs_def by (rule sum_length_filter_compl [symmetric])
  ultimately show ?thesis by linarith
qed

lemma job_names_with_total:
  "job_names_with TaskSucceeded (new_jobs T jobs) + job_names_with TaskFailed (new_jobs T jobs) =
   length (new_jobs T jobs)"
proof -
  have "length (filter (\<lambda>j. job_phase j = TaskFailed) (new_jobs T jobs)) =
      length (filter (\<lambda>j. job_phase j \<noteq> TaskSucceeded) (new_jobs T jobs))"
    by (intro arg_cong [where f = length] filter_cong)
      (auto simp: new_jobs_def finished_jobs_def dest: job_phase_transitioned)
  then show ?thesis
    unfolding job_names_with_def using sum_length_filter_compl [of _ "new_jobs T jobs"] by metis
qed

text \<open>
  With more than ten finished Jobs in the cluster a sync never settles.  The history is cut to
  ten records after each sync, so at least \<open>n - 10\<close> of \<open>n\<close> finished Jobs are taken for new ones
  every time: they are counted again, and the status is written again, which triggers the next
  reconcile.  The counters do not count executions then, but syncs.
\<close>

theorem sync_never_settles:
  assumes "distinct (map er_job_name (st_execution_history st))" and "distinct (map jb_name jobs)"
    and "length (st_execution_history st) \<le> 10" and "10 < length (finished_jobs jobs)"
    and "sync_status now jobs st = (st', dirty)"
  shows "dirty \<and> (\<exists>k. length (finished_jobs jobs) \<le> k + 10 \<and> 0 < k \<and>
    st_succeeded st' + st_failed st' = st_succeeded st + st_failed st + of_nat k)"
proof -
  let ?new = "new_jobs (terminal_names (st_execution_history st)) jobs"
  note c = sync_status_counts [OF assms(1,2,5)]
  have many: "length (finished_jobs jobs) \<le> length ?new + 10"
    using new_jobs_many [OF assms(1,2)] assms(3) by linarith
  with assms(4) have pos: "0 < length ?new" by linarith
  have "st_succeeded st' + st_failed st' = st_succeeded st + st_failed st + of_nat (length ?new)"
    using c by (simp add: Let_def flip: job_names_with_total)
  moreover have "dirty" using c pos by (auto simp: Let_def)
  ultimately show ?thesis using many pos by blast
qed

section \<open>When a sync has nothing to write\<close>

lemma sync_job_clean:
  assumes "\<not> sy_dirty (sync_job now sy j)"
  shows "\<not> sy_dirty sy" "sy_status (sync_job now sy j) = sy_status sy" "sy_index (sync_job now sy j) = sy_index sy"
    "job_transitioned j \<Longrightarrow> js_completion_time (jb_status j) = None \<or>
      js_completion_time (jb_status j) = st_last_completion_time (sy_status sy)"
  using assms
  by (auto simp: sync_job_def note_completion_def record_execution_def Let_def split: if_splits option.splits)

lemma sync_loop_clean:
  "\<not> sy_dirty (foldl (sync_job now) sy jobs) \<Longrightarrow>
   \<not> sy_dirty sy \<and> sy_status (foldl (sync_job now) sy jobs) = sy_status sy \<and>
   (\<forall>j \<in> set (finished_jobs jobs). js_completion_time (jb_status j) = None \<or>
      js_completion_time (jb_status j) = st_last_completion_time (sy_status sy))"
proof (induction jobs arbitrary: sy)
  case Nil
  then show ?case by (simp add: finished_jobs_def)
next
  case (Cons j jobs)
  from Cons.IH [of "sync_job now sy j"] Cons.prems have
    c: "\<not> sy_dirty (sync_job now sy j)" and
    r: "sy_status (foldl (sync_job now) (sync_job now sy j) jobs) = sy_status (sync_job now sy j)" and
    t: "\<forall>j' \<in> set (finished_jobs jobs). js_completion_time (jb_status j') = None \<or>
      js_completion_time (jb_status j') = st_last_completion_time (sy_status (sync_job now sy j))"
    by auto
  note s = sync_job_clean [OF c]
  show ?case using s r t by (auto simp: finished_jobs_def)
qed

text \<open>
  Two finished Jobs with different completion times keep a sync from ever settling: the last
  listed one determines \<open>lastCompletionTime\<close>, not the most recent, and each sync rewrites the
  time for the one and then for the other.
\<close>

theorem sync_two_completion_times:
  assumes "j \<in> set (finished_jobs jobs)" and "j' \<in> set (finished_jobs jobs)"
    and "js_completion_time (jb_status j) = Some c" and "js_completion_time (jb_status j') = Some c'"
    and "c \<noteq> c'"
  shows "snd (sync_status now jobs st)"
proof -
  have "sy_dirty (foldl (sync_job now) (start_sync st) jobs)"
  proof (rule ccontr)
    assume "\<not> sy_dirty (foldl (sync_job now) (start_sync st) jobs)"
    from sync_loop_clean [OF this]
    have all: "\<forall>x \<in> set (finished_jobs jobs). js_completion_time (jb_status x) = None \<or>
        js_completion_time (jb_status x) = st_last_completion_time st" by simp
    have "st_last_completion_time st = Some c" using bspec [OF all assms(1)] assms(3) by simp
    moreover have "st_last_completion_time st = Some c'" using bspec [OF all assms(2)] assms(4) by simp
    ultimately show False using assms(5) by simp
  qed
  then show ?thesis by (simp add: sync_status_eq Let_def finish_sync_simps)
qed

lemma sync_job_idle:
  assumes "history_ok sy" and "jb_name j \<in> terminal_names (sy_hist sy) \<or> \<not> job_transitioned j"
    and "job_transitioned j \<Longrightarrow> js_completion_time (jb_status j) \<in> {None, st_last_completion_time (sy_status sy)}"
  shows "sync_job now sy j =
    sy\<lparr>sy_active := sy_active sy @ (if job_transitioned j then [] else [jb_name j])\<rparr>"
  using assms record_execution_known [OF assms(1), of "execution_record_of (now (NowStopped (jb_name j))) j"]
  by (auto simp: sync_job_def note_completion_def split: option.splits)

lemma sync_loop_idle:
  assumes "history_ok sy" and "\<forall>j \<in> set (finished_jobs jobs). jb_name j \<in> terminal_names (sy_hist sy) \<and>
      js_completion_time (jb_status j) \<in> {None, st_last_completion_time (sy_status sy)}"
  shows "foldl (sync_job now) sy jobs =
    sy\<lparr>sy_active := sy_active sy @ map jb_name (filter (\<lambda>j. \<not> job_transitioned j) jobs)\<rparr>"
  using assms
proof (induction jobs arbitrary: sy)
  case Nil
  then show ?case by simp
next
  case (Cons j jobs)
  let ?sy = "sy\<lparr>sy_active := sy_active sy @ (if job_transitioned j then [] else [jb_name j])\<rparr>"
  have "sync_job now sy j = ?sy"
    by (rule sync_job_idle) (use Cons.prems in \<open>auto simp: finished_jobs_def\<close>)
  moreover have "history_ok ?sy" using Cons.prems(1) by (simp add: history_ok_def)
  ultimately show ?case using Cons.IH [of ?sy] Cons.prems by (auto simp: finished_jobs_def)
qed

lemma sync_loop_completion:
  assumes "\<forall>j \<in> set (finished_jobs jobs). js_completion_time (jb_status j) \<in> {None, Some c}"
  shows "(\<exists>j \<in> set (finished_jobs jobs). js_completion_time (jb_status j) = Some c) \<Longrightarrow>
    st_last_completion_time (sy_status (foldl (sync_job now) sy jobs)) = Some c"
  using assms
proof (induction jobs rule: rev_induct)
  case Nil
  then show ?case by (simp add: finished_jobs_def)
next
  case (snoc j jobs)
  have rec: "st_last_completion_time (sy_status (record_execution r sy)) = st_last_completion_time (sy_status sy)" for r sy
    by (auto simp: record_execution_def Let_def split: option.split)
  show ?case
  proof (cases "job_transitioned j \<and> js_completion_time (jb_status j) \<noteq> None")
    case True
    then have "js_completion_time (jb_status j) = Some c"
      using snoc.prems(2) by (auto simp: finished_jobs_def)
    with True show ?thesis by (auto simp: sync_job_def note_completion_def)
  next
    case False
    with snoc show ?thesis by (auto simp: sync_job_def note_completion_def finished_jobs_def rec)
  qed
qed

text \<open>
  Otherwise a sync settles: when the history has room for all outcomes and the finished Jobs
  agree on a completion time, a second sync of the same Jobs finds nothing to write, whatever
  the clock says.
\<close>

theorem sync_status_settles:
  assumes "distinct (map er_job_name (st_execution_history st))" and "distinct (map jb_name jobs)"
    and "length (st_execution_history st) +
      length (new_jobs (terminal_names (st_execution_history st)) jobs) \<le> 10"
    and "\<forall>j \<in> set (finished_jobs jobs). js_completion_time (jb_status j) \<in> {None, Some c}"
    and "sync_status now jobs st = (st', dirty)"
  shows "sync_status now' jobs st' = (st', False)"
proof -
  let ?sy = "foldl (sync_job now) (start_sync st) jobs"
  let ?active = "map jb_name (filter (\<lambda>j. \<not> job_transitioned j) jobs)"
  have l: "loop_spec jobs (start_sync st) ?sy"
    using start_sync_ok [OF assms(1)] assms(2) by (rule sync_loop_spec)
  then have room: "length (sy_hist ?sy) \<le> 10" and active: "sy_active ?sy = ?active"
    and ok: "history_ok ?sy" and known: "jb_name ` set (finished_jobs jobs) \<subseteq> terminal_names (sy_hist ?sy)"
    using assms(3) by (auto simp: loop_spec_def Let_def)
  have st': "st' = sy_status (finish_sync ?sy)" using assms(5) by (simp add: sync_status_eq Let_def)
  have hist: "st_execution_history st' = sy_hist ?sy"
    using room by (simp add: st' finish_sync_simps history_limit_def)
  have last: "st_last_completion_time st' = st_last_completion_time (sy_status ?sy)"
    by (simp add: st' finish_sync_simps)
  have idle: "foldl (sync_job now') (start_sync st') jobs = (start_sync st')\<lparr>sy_active := ?active\<rparr>"
  proof (subst sync_loop_idle)
    show "history_ok (start_sync st')"
      using ok by (intro start_sync_ok) (simp add: hist history_ok_def)
    show "\<forall>j \<in> set (finished_jobs jobs). jb_name j \<in> terminal_names (sy_hist (start_sync st')) \<and>
        js_completion_time (jb_status j) \<in> {None, st_last_completion_time (sy_status (start_sync st'))}"
    proof
      fix j assume j: "j \<in> set (finished_jobs jobs)"
      have "js_completion_time (jb_status j) = None \<or>
          js_completion_time (jb_status j) = st_last_completion_time st'"
      proof (cases "js_completion_time (jb_status j) = Some c")
        case True
        then have "\<exists>j \<in> set (finished_jobs jobs). js_completion_time (jb_status j) = Some c" using j by blast
        with sync_loop_completion [OF assms(4)] True show ?thesis by (simp add: last)
      next
        case False
        with assms(4) j show ?thesis by blast
      qed
      then show "jb_name j \<in> terminal_names (sy_hist (start_sync st')) \<and>
          js_completion_time (jb_status j) \<in> {None, st_last_completion_time (sy_status (start_sync st'))}"
        using known j by (auto simp: hist)
    qed
  qed simp
  have "st_active_jobs st' = ?active" by (simp add: st' finish_sync_simps active)
  moreover have "task_status_phase st' ?active = st_phase st'"
    by (rule task_status_phase_again [of _ "sy_status ?sy"]) (simp_all add: st' finish_sync_simps active)
  ultimately show ?thesis
    using room by (simp add: sync_status_eq idle Let_def finish_sync_def trim_history_def refresh_active_def
        refresh_phase_def active_jobs_changed_def hist history_limit_def)
qed

section \<open>Witnesses\<close>

definition sample_job :: "string \<Rightarrow> string \<Rightarrow> time option \<Rightarrow> job" where
  "sample_job name condition completion = \<lparr>jb_meta = empty_meta\<lparr>om_name := name\<rparr>,
     jb_spec = \<lparr>jsp_backoff_limit = None, jsp_active_deadline_seconds = None,
       jsp_ttl_seconds_after_finished = None, jsp_restart_policy = ''Never'', jsp_containers = []\<rparr>,
     jb_status = \<lparr>js_active = (if condition = [] then 1 else 0),
       js_conditions = (if condition = [] then [] else [\<lparr>jc_type = condition, jc_status = ''True'',
         jc_reason = [], jc_message = [], jc_last_transition_time = 0\<rparr>]),
       js_completion_time = completion\<rparr>\<rparr>"

definition three_jobs :: "job list" where
  "three_jobs = [sample_job ''a'' ''Complete'' (Some 5), sample_job ''b'' ''Failed'' None, sample_job ''c'' [] None]"

definition eleven_jobs :: "job list" where
  "eleven_jobs = map (\<lambda>i. sample_job (show_nat i) ''Complete'' None) [0..<11]"

theorem sync_status_counts_witness:
  "st_succeeded (fst (sync_status (\<lambda>_. 9) three_jobs empty_task_status)) = 1 \<and>
   st_failed (fst (sync_status (\<lambda>_. 9) three_jobs empty_task_status)) = 1 \<and>
   st_active_jobs (fst (sync_status (\<lambda>_. 9) three_jobs empty_task_status)) = [''c'']"
proof -
  have 1: "distinct (map er_job_name (st_execution_history empty_task_status))" by code_simp
  have 2: "distinct (map jb_name three_jobs)" by code_simp
  have 3: "job_names_with TaskSucceeded (new_jobs (terminal_names (st_execution_history empty_task_status)) three_jobs) = 1"
    "job_names_with TaskFailed (new_jobs (terminal_names (st_execution_history empty_task_status)) three_jobs) = 1"
    by (simp_all add: terminal_names_def empty_task_status_def three_jobs_def sample_job_def new_jobs_def
        finished_jobs_def job_names_with_def job_transitioned_def job_condition_true_def job_phase_def)
  have 4: "map jb_name (filter (\<lambda>j. \<not> job_transitioned j) three_jobs) = [''c'']" by code_simp
  show ?thesis
    using sync_status_counts [OF 1 2, of "\<lambda>_. 9", OF surjective_pairing] 3 4
    by (simp add: Let_def empty_task_status_def)
qed

theorem sync_never_settles_witness:
  "snd (sync_status (\<lambda>_. 9) eleven_jobs empty_task_status) \<and>
   snd (sync_status (\<lambda>_. 9) eleven_jobs (fst (sync_status (\<lambda>_. 9) eleven_jobs empty_task_status)))"
proof -
  let ?s = "fst (sync_status (\<lambda>_. 9) eleven_jobs empty_task_status)"
  have j: "distinct (map jb_name eleven_jobs)" by code_simp
  have f: "10 < length (finished_jobs eleven_jobs)" by code_simp
  have 1: "distinct (map er_job_name (st_execution_history empty_task_status))" by code_simp
  have 2: "length (st_execution_history empty_task_status) \<le> 10" by code_simp
  have 3: "distinct (map er_job_name (st_execution_history ?s))" by code_simp
  have 4: "length (st_execution_history ?s) \<le> 10" by code_simp
  show ?thesis
    using sync_never_settles [OF 1 j 2 f surjective_pairing] sync_never_settles [OF 3 j 4 f surjective_pairing]
    by blast
qed

theorem sync_two_completion_times_witness:
  "snd (sync_status (\<lambda>_. 9) [sample_job ''a'' ''Complete'' (Some 5), sample_job ''b'' ''Complete'' (Some 6)]
     empty_task_status)"
  by (rule sync_two_completion_times [where c = 5 and c' = 6
        and j = "sample_job ''a'' ''Complete'' (Some 5)" and j' = "sample_job ''b'' ''Complete'' (Some 6)"])
    (simp_all add: finished_jobs_def sample_job_def job_transitioned_def job_condition_true_def)

theorem sync_status_settles_witness:
  "sync_status (\<lambda>_. 10) three_jobs (fst (sync_status (\<lambda>_. 9) three_jobs empty_task_status)) =
   (fst (sync_status (\<lambda>_. 9) three_jobs empty_task_status), False)"
proof (rule sync_status_settles [where c = 5, OF _ _ _ _ surjective_pairing])
  show "distinct (map er_job_name (st_execution_history empty_task_status))"
    "distinct (map jb_name three_jobs)" by code_simp+
  show "length (st_execution_history empty_task_status) +
      length (new_jobs (terminal_names (st_execution_history empty_task_status)) three_jobs) \<le> 10"
    by (simp add: empty_task_status_def new_jobs_def finished_jobs_def three_jobs_def
        job_transitioned_def job_condition_true_def sample_job_def)
  show "\<forall>j \<in> set (finished_jobs three_jobs). js_completion_time (jb_status j) \<in> {None, Some 5}"
    by (simp add: finished_jobs_def three_jobs_def sample_job_def)
qed

end
