(* ===== verification/Dag.thy ===== *)
theory Dag
  imports Naming
begin

text \<open>
  The definitions of \<open>internal/workflow/dag.go\<close>: validation of a Workflow spec, Kahn's
  algorithm, the parallel levels, the accessors of a graph and the check of child Task
  names.  \<open>DagOrder\<close> and \<open>DagLevels\<close> hold the proofs.

  Go visits a map in an unspecified order, so \<open>compute_order_iter\<close> takes the orders of the
  four \<open>range\<close> loops over maps as arguments; \<open>compute_order\<close> fixes them to the insertion
  order, and \<open>DagOrder\<close> proves that every choice gives the same result.
\<close>

section \<open>Validation errors\<close>

record validation_error =
  ve_reason :: string
  ve_message :: string

definition invalidf :: "string \<Rightarrow> string \<Rightarrow> validation_error" where
  "invalidf reason message = \<lparr>ve_reason = reason, ve_message = message\<rparr>"

abbreviation "ReasonNoTasks \<equiv> ''NoTasks''"
abbreviation "ReasonDuplicateTaskName \<equiv> ''DuplicateTaskName''"
abbreviation "ReasonInvalidTask \<equiv> ''InvalidTask''"
abbreviation "ReasonEmptyDependency \<equiv> ''EmptyDependency''"
abbreviation "ReasonSelfDependency \<equiv> ''SelfDependency''"
abbreviation "ReasonUnknownDependency \<equiv> ''UnknownDependency''"
abbreviation "ReasonDuplicateDependency \<equiv> ''DuplicateDependency''"
abbreviation "ReasonMissingTemplate \<equiv> ''MissingTemplate''"
abbreviation "ReasonCyclicDependency \<equiv> ''CyclicDependency''"

lemmas invalidf_simps [simp] = invalidf_def

section \<open>The graph and its accessors\<close>

record graph =
  g_tasks :: "(string, workflow_task) gomap"
  g_deps :: "(string, string list) gomap"
  g_order :: "string list"
  g_levels :: "string list list"

definition graph_len :: "graph \<Rightarrow> nat" where
  "graph_len g = gm_len (g_tasks g)"

definition graph_order :: "graph \<Rightarrow> string list" where
  "graph_order g = g_order g"

definition graph_levels :: "graph \<Rightarrow> string list list" where
  "graph_levels g = g_levels g"

definition graph_task :: "graph \<Rightarrow> string \<Rightarrow> workflow_task option" where
  "graph_task g name = gm_get (g_tasks g) name"

definition graph_deps :: "graph \<Rightarrow> string \<Rightarrow> string list" where
  "graph_deps g name = gm_get_or [] (g_deps g) name"

section \<open>Validation: the two loops of Build over the declared tasks\<close>

fun index_tasks ::
  "workflow_spec \<Rightarrow> nat \<Rightarrow> workflow_task list \<Rightarrow> (string, workflow_task) gomap \<Rightarrow>
   validation_error + (string, workflow_task) gomap" where
  "index_tasks spec i [] tasks = Inr tasks"
| "index_tasks spec i (t # ts) tasks =
     (if wt_name t = [] then
        Inl (invalidf ReasonInvalidTask (''task at index '' @ show_nat i @ '' has an empty name''))
      else if gm_get tasks (wt_name t) \<noteq> None then
        Inl (invalidf ReasonDuplicateTaskName
          (''task name '' @ quote (wt_name t) @ '' is declared more than once''))
      else if (wt_template t \<noteq> []) = (wt_task_spec t \<noteq> None) then
        Inl (invalidf ReasonInvalidTask
          (''task '' @ quote (wt_name t) @ '' must set exactly one of template or taskSpec''))
      else if wt_template t \<noteq> [] \<and> gm_get (wsp_task_templates spec) (wt_template t) = None then
        Inl (invalidf ReasonMissingTemplate
          (''task '' @ quote (wt_name t) @ '' references unknown template '' @ quote (wt_template t)))
      else index_tasks spec (Suc i) ts (gm_put (wt_name t) t tasks))"

fun check_deps ::
  "(string, workflow_task) gomap \<Rightarrow> string \<Rightarrow> string list \<Rightarrow> (string, unit) gomap \<Rightarrow>
   (string, string list) gomap \<Rightarrow> validation_error + (string, string list) gomap" where
  "check_deps tasks name [] seen deps = Inr deps"
| "check_deps tasks name (d # ds) seen deps =
     (if d = [] then
        Inl (invalidf ReasonEmptyDependency (''task '' @ quote name @ '' has an empty dependency''))
      else if d = name then
        Inl (invalidf ReasonSelfDependency (''task '' @ quote name @ '' depends on itself''))
      else if gm_get tasks d = None then
        Inl (invalidf ReasonUnknownDependency
          (''task '' @ quote name @ '' depends on unknown task '' @ quote d))
      else if gm_get seen d \<noteq> None then
        Inl (invalidf ReasonDuplicateDependency
          (''task '' @ quote name @ '' lists dependency '' @ quote d @ '' more than once''))
      else check_deps tasks name ds (gm_put d () seen)
             (gm_put name (gm_get_or [] deps name @ [d]) deps))"

fun collect_deps ::
  "(string, workflow_task) gomap \<Rightarrow> workflow_task list \<Rightarrow> (string, string list) gomap \<Rightarrow>
   validation_error + (string, string list) gomap" where
  "collect_deps tasks [] deps = Inr deps"
| "collect_deps tasks (t # ts) deps =
     (case check_deps tasks (wt_name t) (wt_depends_on t) gm_empty deps of
        Inl e \<Rightarrow> Inl e
      | Inr deps' \<Rightarrow> collect_deps tasks ts deps')"

section \<open>Kahn's algorithm\<close>

text \<open>The body of the innermost loop: one dependent of a processed node loses a dependency.\<close>

definition decrement ::
  "(string, int) gomap \<times> string list \<Rightarrow> string \<Rightarrow> (string, int) gomap \<times> string list" where
  "decrement = (\<lambda>(indegree, next) dependent.
     let i = gm_get_or 0 indegree dependent - 1;
         indegree' = gm_put dependent i indegree
     in (indegree', if i = 0 then next @ [dependent] else next))"

definition relax ::
  "(string, string list) gomap \<Rightarrow> (string, int) gomap \<times> string list \<Rightarrow> string \<Rightarrow>
   (string, int) gomap \<times> string list" where
  "relax dependents st name = foldl decrement st (gm_get_or [] dependents name)"

text \<open>
  The outer loop.  What shrinks: every node that enters \<open>next\<close> had a positive indegree and
  has the indegree 0 afterwards.
\<close>

definition positives :: "(string, int) gomap \<Rightarrow> nat" where
  "positives m = length (filter (\<lambda>p. 0 < snd p) m)"

lemma positives_update:
  "positives (AList.update k (gm_get_or 0 m k - 1) m) +
     (if gm_get_or 0 m k - 1 = 0 then 1 else 0) \<le> positives m"
  by (induction m) (auto simp: positives_def gm_get_or_def gm_get_def split: if_splits)

lemma positives_decrement:
  "positives (fst (decrement st d)) + length (snd (decrement st d)) \<le> positives (fst st) + length (snd st)"
  using positives_update [of d "fst st"]
  by (auto simp: decrement_def Let_def gm_put_def split: prod.splits if_splits)

lemma positives_foldl_decrement:
  "positives (fst (foldl decrement st ds)) + length (snd (foldl decrement st ds)) \<le>
   positives (fst st) + length (snd st)"
  by (rule foldl_measure_le [where f = "\<lambda>st. positives (fst st) + length (snd st)"])
    (rule positives_decrement)

lemma positives_foldl_relax:
  "positives (fst (foldl (relax r) st ns)) + length (snd (foldl (relax r) st ns)) \<le>
   positives (fst st) + length (snd st)"
  by (rule foldl_measure_le [where f = "\<lambda>st. positives (fst st) + length (snd st)"])
    (simp only: relax_def positives_foldl_decrement)

function kahn ::
  "(string, string list) gomap \<Rightarrow> (string, int) gomap \<Rightarrow> string list \<Rightarrow> string list \<Rightarrow>
   string list \<times> (string, int) gomap" where
  "kahn dependents indegree order current =
     (if current = [] then (order, indegree)
      else let (indegree', next) = foldl (relax dependents) (indegree, []) current
           in kahn dependents indegree' (order @ current) (sort next))"
  by pat_completeness auto
termination
proof (relation "measure (\<lambda>(r, ind, ord, cur). 2 * positives ind + (if cur = [] then 0 else 1))")
  show "wf (measure (\<lambda>(r :: (string, string list) gomap, ind :: (string, int) gomap,
      ord :: string list, cur :: string list). 2 * positives ind + (if cur = [] then 0 else 1)))"
    by simp
next
  fix dependents :: "(string, string list) gomap" and indegree :: "(string, int) gomap"
    and order current indegree' and "next" :: "string list" and x
  assume "current \<noteq> []" and "x = foldl (relax dependents) (indegree, []) current"
    and "(indegree', next) = x"
  then show "((dependents, indegree', order @ current, sort next), dependents, indegree, order, current)
      \<in> measure (\<lambda>(r, ind, ord, cur). 2 * positives ind + (if cur = [] then 0 else 1))"
    using positives_foldl_relax [of dependents "(indegree, [])" current]
    by (cases "next") (auto simp: dest: sym)
qed

declare kahn.simps [simp del]

definition init_indegree :: "string list \<Rightarrow> graph \<Rightarrow> (string, int) gomap" where
  "init_indegree ks g =
     foldl (\<lambda>m name. gm_put name (int (length (graph_deps g name))) m) gm_empty ks"

definition add_dependent ::
  "string \<Rightarrow> (string, string list) gomap \<Rightarrow> string \<Rightarrow> (string, string list) gomap" where
  "add_dependent name m dep = gm_put dep (gm_get_or [] m dep @ [name]) m"

definition init_dependents :: "string list \<Rightarrow> graph \<Rightarrow> (string, string list) gomap" where
  "init_dependents ks g =
     map (\<lambda>(d, ns). (d, sort ns))
       (foldl (\<lambda>m name. foldl (add_dependent name) m (graph_deps g name)) gm_empty ks)"

text \<open>
  \<open>k1\<close> to \<open>k4\<close> are the orders in which Go visits \<open>g.tasks\<close>, \<open>g.deps\<close> and, twice, the
  indegree map.
\<close>

definition compute_order_iter ::
  "string list \<Rightarrow> string list \<Rightarrow> string list \<Rightarrow> string list \<Rightarrow> graph \<Rightarrow> validation_error + graph" where
  "compute_order_iter k1 k2 k3 k4 g =
     (let indegree = init_indegree k1 g;
          dependents = init_dependents k2 g;
          current = sort (filter (\<lambda>name. gm_get_or 0 indegree name = 0) k3);
          (order, indegree') = kahn dependents indegree [] current
      in if length order \<noteq> gm_len (g_tasks g) then
           let stuck = sort (filter (\<lambda>name. 0 < gm_get_or 0 indegree' name) k4)
           in Inl (invalidf ReasonCyclicDependency
                (''workflow contains a dependency cycle involving '' @ show_strings stuck))
         else Inr (g\<lparr>g_order := order\<rparr>))"

definition compute_order :: "graph \<Rightarrow> validation_error + graph" where
  "compute_order g =
     (let ks = gm_keys (g_tasks g) in compute_order_iter ks (gm_keys (g_deps g)) ks ks g)"

section \<open>Parallel levels\<close>

definition level_step ::
  "graph \<Rightarrow> (string, nat) gomap \<times> int \<Rightarrow> string \<Rightarrow> (string, nat) gomap \<times> int" where
  "level_step g = (\<lambda>(level_of, max_level) name.
     let level = foldl (\<lambda>level dep.
           let candidate = gm_get_or 0 level_of dep + 1
           in if candidate > level then candidate else level) 0 (graph_deps g name)
     in (gm_put name level level_of, if int level > max_level then int level else max_level))"

text \<open>The second loop writes \<open>g.levels[level]\<close>: \<open>None\<close> is the index panic.\<close>

fun box_levels ::
  "(string, nat) gomap \<Rightarrow> string list \<Rightarrow> string list list \<Rightarrow> string list list option" where
  "box_levels level_of [] levels = Some levels"
| "box_levels level_of (name # names) levels =
     (let level = gm_get_or 0 level_of name in
      if level < length levels
      then box_levels level_of names (levels[level := levels ! level @ [name]])
      else None)"

definition compute_levels :: "graph \<Rightarrow> graph option" where
  "compute_levels g =
     (let (level_of, max_level) = foldl (level_step g) (gm_empty, -1) (g_order g)
      in map_option (\<lambda>levels. g\<lparr>g_levels := levels\<rparr>)
           (box_levels level_of (g_order g) (replicate (nat (max_level + 1)) [])))"

section \<open>Build\<close>

text \<open>
  \<open>None\<close> is a runtime panic; \<open>build_run_total\<close> in \<open>DagLevels\<close> shows that there is none, so
  the rest of the development uses \<open>build\<close>.
\<close>

definition build_run :: "workflow_spec \<Rightarrow> (validation_error + graph) option" where
  "build_run spec =
     (if wsp_tasks spec = [] then Some (Inl (invalidf ReasonNoTasks ''workflow spec has no tasks''))
      else case index_tasks spec 0 (wsp_tasks spec) gm_empty of
        Inl e \<Rightarrow> Some (Inl e)
      | Inr tasks \<Rightarrow>
          (case collect_deps tasks (wsp_tasks spec) gm_empty of
             Inl e \<Rightarrow> Some (Inl e)
           | Inr deps \<Rightarrow>
               (case compute_order \<lparr>g_tasks = tasks, g_deps = deps, g_order = [], g_levels = []\<rparr> of
                  Inl e \<Rightarrow> Some (Inl e)
                | Inr g \<Rightarrow> map_option Inr (compute_levels g))))"

definition build :: "workflow_spec \<Rightarrow> validation_error + graph" where
  "build spec = the (build_run spec)"

section \<open>Names of child Tasks\<close>

definition child_task_name :: "string \<Rightarrow> string \<Rightarrow> string" where
  "child_task_name workflow_name node_name = workflow_name @ ''-'' @ node_name"

definition utf8 :: "nat list \<Rightarrow> string" where
  "utf8 bytes = map char_of bytes"

text \<open>\<open>None\<close> is Go's \<open>nil\<close> error.  The message is the source's, as UTF-8 bytes.\<close>

definition validate_child_task_names :: "string \<Rightarrow> graph \<Rightarrow> validation_error option" where
  "validate_child_task_names workflow_name g =
     (let offending = map (\<lambda>name.
            let child = child_task_name workflow_name name
            in child @ '' ('' @ show_nat (length child) @ '' '' @
               utf8 [229, 173, 151, 231, 172, 166] @ '')'')
            (filter (\<lambda>name. length (child_task_name workflow_name name) > MaxTaskNameLength)
               (graph_order g))
      in if offending = [] then None
         else Some (invalidf ReasonInvalidTask
           (utf8 [229, 173, 144] @ '' Task '' @
            utf8 [229, 144, 141, 228, 184, 141, 232, 131, 189, 232, 182, 133, 232, 191, 135] @ '' '' @
            show_nat MaxTaskNameLength @ '' '' @
            utf8 [229, 173, 151, 231, 172, 166, 239, 188, 136] @ ''Job/Pod '' @
            utf8 [229, 144, 141, 233, 149, 191, 229, 186, 166, 233, 153, 144, 229, 136, 182,
                  239, 188, 137, 239, 188, 154] @
            join '', '' offending)))"

end
