(* ===== verification/DagOrder.thy ===== *)
theory DagOrder
  imports Dag
begin

text \<open>
  The proofs about validation and Kahn's algorithm: which specs \<open>build\<close> accepts, that the
  order it computes is a topological order of exactly the declared nodes, that it rejects
  exactly the cyclic graphs, and that Go's unspecified map order does not show.
\<close>

section \<open>What the validation loops accept\<close>

definition task_ok :: "workflow_spec \<Rightarrow> workflow_task \<Rightarrow> bool" where
  "task_ok spec t \<longleftrightarrow> wt_name t \<noteq> [] \<and> (wt_template t \<noteq> []) \<noteq> (wt_task_spec t \<noteq> None) \<and>
     (wt_template t \<noteq> [] \<longrightarrow> gm_get (wsp_task_templates spec) (wt_template t) \<noteq> None)"

definition deps_ok :: "string set \<Rightarrow> workflow_task \<Rightarrow> bool" where
  "deps_ok names t \<longleftrightarrow> distinct (wt_depends_on t) \<and> [] \<notin> set (wt_depends_on t) \<and>
     wt_name t \<notin> set (wt_depends_on t) \<and> set (wt_depends_on t) \<subseteq> names"

text \<open>The abstract rule a spec has to meet, apart from having no cycle.\<close>

definition spec_ok :: "workflow_spec \<Rightarrow> bool" where
  "spec_ok spec \<longleftrightarrow> wsp_tasks spec \<noteq> [] \<and> distinct (map wt_name (wsp_tasks spec)) \<and>
     (\<forall>t \<in> set (wsp_tasks spec). task_ok spec t \<and> deps_ok (wt_name ` set (wsp_tasks spec)) t)"

definition spec_edges :: "workflow_spec \<Rightarrow> (string \<times> string) set" where
  "spec_edges spec = {(d, wt_name t) | d t. t \<in> set (wsp_tasks spec) \<and> d \<in> set (wt_depends_on t)}"

abbreviation (input) put_task :: "(string, workflow_task) gomap \<Rightarrow> workflow_task \<Rightarrow> (string, workflow_task) gomap"
  where "put_task m t \<equiv> gm_put (wt_name t) t m"

abbreviation (input) put_dep :: "string \<Rightarrow> (string, string list) gomap \<Rightarrow> string \<Rightarrow> (string, string list) gomap"
  where "put_dep name m d \<equiv> gm_put name (gm_get_or [] m name @ [d]) m"

lemma index_tasks_Inr:
  "index_tasks spec i ts m = Inr m' \<longleftrightarrow>
     (\<forall>t \<in> set ts. task_ok spec t) \<and> distinct (map wt_name ts) \<and>
     set (map wt_name ts) \<inter> set (gm_keys m) = {} \<and> m' = foldl put_task m ts"
  by (induction spec i ts m rule: index_tasks.induct)
    (auto simp: task_ok_def gm.keys_get gm.set_keys_put)

lemma check_deps_Inr:
  "check_deps tasks name ds seen deps = Inr deps' \<longleftrightarrow>
     [] \<notin> set ds \<and> name \<notin> set ds \<and> set ds \<subseteq> set (gm_keys tasks) \<and> distinct ds \<and>
     set ds \<inter> set (gm_keys seen) = {} \<and> deps' = foldl (put_dep name) deps ds"
  by (induction tasks name ds seen deps rule: check_deps.induct)
    (auto simp: gm.keys_get gm.set_keys_put)

lemma collect_deps_Inr:
  "collect_deps tasks ts deps = Inr deps' \<longleftrightarrow>
     (\<forall>t \<in> set ts. deps_ok (set (gm_keys tasks)) t) \<and>
     deps' = foldl (\<lambda>m t. foldl (put_dep (wt_name t)) m (wt_depends_on t)) deps ts"
proof (induction ts arbitrary: deps)
  case Nil
  show ?case by auto
next
  case (Cons t ts)
  show ?case
  proof (cases "check_deps tasks (wt_name t) (wt_depends_on t) gm_empty deps")
    case (Inl e)
    then have "\<not> deps_ok (set (gm_keys tasks)) t"
      using check_deps_Inr [of tasks "wt_name t" "wt_depends_on t" gm_empty deps]
      by (auto simp: deps_ok_def gm.keys_emp)
    with Inl show ?thesis by simp
  next
    case (Inr m)
    then show ?thesis
      using check_deps_Inr [of tasks "wt_name t" "wt_depends_on t" gm_empty deps m]
      by (simp add: Cons.IH deps_ok_def gm.keys_emp)
  qed
qed

text \<open>The maps these loops build.\<close>

lemma get_foldl_put_task_other:
  "n \<notin> wt_name ` set ts \<Longrightarrow> gm_get (foldl put_task m ts) n = gm_get m n"
  by (induction ts arbitrary: m) (auto simp: gm.get_put)

lemma get_foldl_put_task:
  "distinct (map wt_name ts) \<Longrightarrow> t \<in> set ts \<Longrightarrow> gm_get (foldl put_task m ts) (wt_name t) = Some t"
  by (induction ts arbitrary: m) (auto simp: gm.get_put get_foldl_put_task_other)

lemma keys_foldl_put_task:
  "distinct (map wt_name ts) \<Longrightarrow> set (map wt_name ts) \<inter> set (gm_keys m) = {} \<Longrightarrow>
   gm_keys (foldl put_task m ts) = gm_keys m @ map wt_name ts"
  by (induction ts arbitrary: m) (auto simp: gm.keys_put)

lemma get_foldl_put_dep:
  "gm_get_or [] (foldl (put_dep name) m ds) n =
     (if n = name then gm_get_or [] m n @ ds else gm_get_or [] m n)"
  by (induction ds arbitrary: m) (auto simp: gomap_simps)

lemma keys_foldl_put_dep:
  "set (gm_keys (foldl (put_dep name) m ds)) =
     (if ds = [] then set (gm_keys m) else insert name (set (gm_keys m)))"
  by (induction ds arbitrary: m) (auto simp: gomap_simps)

lemma ok_foldl_put_dep: "gm_ok m \<Longrightarrow> gm_ok (foldl (put_dep name) m ds)"
  by (induction ds arbitrary: m) (auto simp: gm.ok_put)

abbreviation (input) put_deps where
  "put_deps m t \<equiv> foldl (put_dep (wt_name t)) m (wt_depends_on t)"

lemma get_foldl_put_deps_other:
  "n \<notin> wt_name ` set ts \<Longrightarrow> gm_get_or [] (foldl put_deps m ts) n = gm_get_or [] m n"
  by (induction ts arbitrary: m) (auto simp: get_foldl_put_dep)

lemma get_foldl_put_deps:
  "distinct (map wt_name ts) \<Longrightarrow> t \<in> set ts \<Longrightarrow> gm_get_or [] m (wt_name t) = [] \<Longrightarrow>
   gm_get_or [] (foldl put_deps m ts) (wt_name t) = wt_depends_on t"
proof (induction ts arbitrary: m)
  case Nil
  then show ?case by simp
next
  case (Cons u ts)
  show ?case
  proof (cases "t = u")
    case True
    with Cons.prems show ?thesis by (simp add: get_foldl_put_dep get_foldl_put_deps_other)
  next
    case False
    with Cons.prems have t: "t \<in> set ts" by simp
    with Cons.prems have "wt_name t \<noteq> wt_name u" by (metis distinct.simps(2) image_eqI list.map(2) set_map)
    with t Cons show ?thesis by (simp add: get_foldl_put_dep)
  qed
qed

lemma keys_foldl_put_deps:
  "set (gm_keys (foldl put_deps m ts)) \<subseteq> set (gm_keys m) \<union> wt_name ` set ts"
  by (induction ts arbitrary: m) (fastforce simp: keys_foldl_put_dep split: if_splits)+

lemma ok_foldl_put_deps: "gm_ok m \<Longrightarrow> gm_ok (foldl put_deps m ts)"
  by (induction ts arbitrary: m) (auto simp: ok_foldl_put_dep)

section \<open>Well-formed graphs\<close>

definition graph_nodes :: "graph \<Rightarrow> string set" where
  "graph_nodes g = set (gm_keys (g_tasks g))"

definition graph_edges :: "graph \<Rightarrow> (string \<times> string) set" where
  "graph_edges g = {(d, n). d \<in> set (graph_deps g n)}"

definition graph_wf :: "graph \<Rightarrow> bool" where
  "graph_wf g \<longleftrightarrow> gm_ok (g_tasks g) \<and> gm_ok (g_deps g) \<and>
     set (gm_keys (g_deps g)) \<subseteq> graph_nodes g \<and>
     (\<forall>n. distinct (graph_deps g n) \<and> set (graph_deps g n) \<subseteq> graph_nodes g)"

lemma graph_deps_outside:
  assumes "graph_wf g" and "n \<notin> graph_nodes g"
  shows "graph_deps g n = []"
proof -
  from assms have "n \<notin> set (gm_keys (g_deps g))" by (auto simp: graph_wf_def)
  then show ?thesis by (simp add: gm.keys_get graph_deps_def gm_get_or_def)
qed

lemma graph_edges_nodes:
  "graph_wf g \<Longrightarrow> (d, n) \<in> graph_edges g \<Longrightarrow> d \<in> graph_nodes g \<and> n \<in> graph_nodes g"
  using graph_deps_outside [of g n] by (fastforce simp: graph_edges_def graph_wf_def)

lemma finite_graph_edges: "graph_wf g \<Longrightarrow> finite (graph_edges g)"
  by (rule finite_subset [of _ "graph_nodes g \<times> graph_nodes g"])
    (auto dest: graph_edges_nodes simp: graph_nodes_def)

text \<open>The graph \<open>Build\<close> hands to \<open>computeOrder\<close>.\<close>

definition raw_graph :: "workflow_spec \<Rightarrow> graph" where
  "raw_graph spec = \<lparr>g_tasks = foldl put_task gm_empty (wsp_tasks spec),
     g_deps = foldl put_deps gm_empty (wsp_tasks spec), g_order = [], g_levels = []\<rparr>"

lemma raw_graph_facts:
  assumes "spec_ok spec"
  shows raw_keys: "gm_keys (g_tasks (raw_graph spec)) = map wt_name (wsp_tasks spec)"
    and raw_nodes: "graph_nodes (raw_graph spec) = wt_name ` set (wsp_tasks spec)"
    and raw_deps: "t \<in> set (wsp_tasks spec) \<Longrightarrow> graph_deps (raw_graph spec) (wt_name t) = wt_depends_on t"
    and raw_deps_other: "n \<notin> wt_name ` set (wsp_tasks spec) \<Longrightarrow> graph_deps (raw_graph spec) n = []"
    and raw_task: "t \<in> set (wsp_tasks spec) \<Longrightarrow> graph_task (raw_graph spec) (wt_name t) = Some t"
proof -
  from assms have d: "distinct (map wt_name (wsp_tasks spec))" by (simp add: spec_ok_def)
  show keys: "gm_keys (g_tasks (raw_graph spec)) = map wt_name (wsp_tasks spec)"
    using keys_foldl_put_task [OF d, of gm_empty] by (simp add: raw_graph_def gm.keys_emp)
  show "graph_nodes (raw_graph spec) = wt_name ` set (wsp_tasks spec)"
    by (simp add: graph_nodes_def keys)
  show "t \<in> set (wsp_tasks spec) \<Longrightarrow> graph_deps (raw_graph spec) (wt_name t) = wt_depends_on t"
    using get_foldl_put_deps [OF d, of t gm_empty]
    by (simp add: raw_graph_def graph_deps_def gm_get_or_emp)
  show "n \<notin> wt_name ` set (wsp_tasks spec) \<Longrightarrow> graph_deps (raw_graph spec) n = []"
    using get_foldl_put_deps_other [of n "wsp_tasks spec" gm_empty]
    by (simp add: raw_graph_def graph_deps_def gm_get_or_emp)
  show "t \<in> set (wsp_tasks spec) \<Longrightarrow> graph_task (raw_graph spec) (wt_name t) = Some t"
    using get_foldl_put_task [OF d, of t gm_empty] by (simp add: raw_graph_def graph_task_def)
qed

lemma raw_graph_wf:
  assumes "spec_ok spec"
  shows "graph_wf (raw_graph spec)"
proof -
  have "gm_ok (g_deps (raw_graph spec))"
    by (simp add: raw_graph_def ok_foldl_put_deps gm.ok_emp)
  moreover have "set (gm_keys (g_deps (raw_graph spec))) \<subseteq> graph_nodes (raw_graph spec)"
    using keys_foldl_put_deps [of gm_empty "wsp_tasks spec"]
    unfolding raw_nodes [OF assms] by (simp add: raw_graph_def gm.keys_emp)
  moreover have "gm_ok (g_tasks (raw_graph spec))"
    using assms by (simp add: gm.ok_keys raw_keys spec_ok_def)
  moreover have "distinct (graph_deps (raw_graph spec) n) \<and>
      set (graph_deps (raw_graph spec) n) \<subseteq> graph_nodes (raw_graph spec)" for n
  proof (cases "n \<in> wt_name ` set (wsp_tasks spec)")
    case True
    then obtain t where "t \<in> set (wsp_tasks spec)" "n = wt_name t" by auto
    with assms show ?thesis
      by (auto simp: raw_deps raw_nodes spec_ok_def deps_ok_def)
  next
    case False
    then show ?thesis by (simp add: raw_deps_other [OF assms])
  qed
  ultimately show ?thesis by (simp add: graph_wf_def)
qed

lemma raw_edges: "spec_ok spec \<Longrightarrow> graph_edges (raw_graph spec) = spec_edges spec"
  using raw_deps raw_deps_other
  by (fastforce simp: graph_edges_def spec_edges_def)

lemma index_tasks_spec:
  "index_tasks spec 0 (wsp_tasks spec) gm_empty = Inr m \<longleftrightarrow>
     (\<forall>t \<in> set (wsp_tasks spec). task_ok spec t) \<and> distinct (map wt_name (wsp_tasks spec)) \<and>
     m = g_tasks (raw_graph spec)"
  by (auto simp: index_tasks_Inr gm.keys_emp raw_graph_def)

lemma build_run_spec_ok:
  assumes "spec_ok spec"
  shows "build_run spec = (case compute_order (raw_graph spec) of
           Inl e \<Rightarrow> Some (Inl e) | Inr g \<Rightarrow> map_option Inr (compute_levels g))"
proof -
  from assms have "index_tasks spec 0 (wsp_tasks spec) gm_empty = Inr (g_tasks (raw_graph spec))"
    by (simp add: index_tasks_spec spec_ok_def)
  moreover from assms have "collect_deps (g_tasks (raw_graph spec)) (wsp_tasks spec) gm_empty =
      Inr (g_deps (raw_graph spec))"
    by (simp add: collect_deps_Inr raw_keys) (simp add: raw_graph_def spec_ok_def)
  ultimately show ?thesis
    using assms by (simp add: build_run_def spec_ok_def raw_graph_def)
qed

lemma build_run_not_ok:
  assumes "\<not> spec_ok spec"
  shows "\<exists>e. build_run spec = Some (Inl e)"
proof (cases "index_tasks spec 0 (wsp_tasks spec) gm_empty")
  case (Inl e)
  then show ?thesis by (simp add: build_run_def)
next
  case (Inr m)
  then have m: "\<forall>t \<in> set (wsp_tasks spec). task_ok spec t" "distinct (map wt_name (wsp_tasks spec))"
    "m = foldl put_task gm_empty (wsp_tasks spec)"
    by (auto simp: index_tasks_spec raw_graph_def)
  then have "gm_keys m = map wt_name (wsp_tasks spec)"
    using keys_foldl_put_task [of "wsp_tasks spec" gm_empty] by (simp add: gm.keys_emp)
  with assms m have "wsp_tasks spec = [] \<or> (\<forall>d. collect_deps m (wsp_tasks spec) gm_empty \<noteq> Inr d)"
    by (auto simp: collect_deps_Inr spec_ok_def)
  with Inr show ?thesis
    by (cases "collect_deps m (wsp_tasks spec) gm_empty") (auto simp: build_run_def)
qed


section \<open>The loops of computeOrder\<close>

lemma foldl_decrement_conj:
  assumes "distinct rs" and "foldl decrement (ind, nxt) rs = (ind', nxt')"
  shows "(\<forall>n. gm_get_or 0 ind' n = gm_get_or 0 ind n - (if n \<in> set rs then 1 else 0)) \<and>
     nxt' = nxt @ filter (\<lambda>r. gm_get_or 0 ind r = 1) rs"
  using assms
proof (induction rs arbitrary: ind nxt)
  case Nil
  then show ?case by simp
next
  case (Cons r rs)
  let ?ind = "gm_put r (gm_get_or 0 ind r - 1) ind"
  let ?nxt = "if gm_get_or 0 ind r - 1 = 0 then nxt @ [r] else nxt"
  from Cons.prems(2) have f: "foldl decrement (?ind, ?nxt) rs = (ind', nxt')"
    by (simp add: decrement_def Let_def)
  have "filter (\<lambda>x. gm_get_or 0 ?ind x = 1) rs = filter (\<lambda>x. gm_get_or 0 ind x = 1) rs"
    using Cons.prems(1) by (intro filter_cong) (auto simp: gomap_simps)
  with Cons.prems(1) Cons.IH [OF _ f] show ?case by (auto simp: gomap_simps)
qed

lemma foldl_decrement:
  assumes "distinct rs" and "foldl decrement (ind, nxt) rs = (ind', nxt')"
  shows "gm_get_or 0 ind' n = gm_get_or 0 ind n - (if n \<in> set rs then 1 else 0)"
    and "nxt' = nxt @ filter (\<lambda>r. gm_get_or 0 ind r = 1) rs"
  using foldl_decrement_conj [OF assms] by auto

text \<open>
  \<open>open_deps D P n\<close> counts the dependencies of \<open>n\<close> that are not yet in \<open>P\<close>; the indegree
  map of the loop holds this number for the nodes processed so far.
\<close>

definition open_deps :: "('n \<Rightarrow> 'n list) \<Rightarrow> 'n set \<Rightarrow> 'n \<Rightarrow> nat" where
  "open_deps D P n = length (filter (\<lambda>d. d \<notin> P) (D n))"

lemma open_deps_0: "open_deps D P n = 0 \<longleftrightarrow> set (D n) \<subseteq> P"
  by (auto simp: open_deps_def filter_empty_conv)

lemma open_deps_empty: "open_deps D {} n = length (D n)"
  by (simp add: open_deps_def)

lemma open_deps_insert:
  assumes "distinct (D n)" and "d \<notin> P"
  shows "int (open_deps D (insert d P) n) = int (open_deps D P n) - (if d \<in> set (D n) then 1 else 0)"
  using length_filter_insert_once [OF assms(1), of d P] length_filter_insert_none [of d "D n" P] assms
  by (auto simp: open_deps_def)

text \<open>The reverse adjacency map: who depends on a node.\<close>

definition dependents_ok :: "(string, string list) gomap \<Rightarrow> (string \<Rightarrow> string list) \<Rightarrow> bool" where
  "dependents_ok dependents D \<longleftrightarrow>
     (\<forall>d. distinct (gm_get_or [] dependents d) \<and> set (gm_get_or [] dependents d) = {n. d \<in> set (D n)})"

lemma relax_open_deps:
  assumes "dependents_ok r D" and "\<And>n. distinct (D n)" and "d \<notin> P"
    and ind: "\<And>n. gm_get_or 0 ind n = int (open_deps D P n)"
    and "relax r (ind, nxt) d = (ind', nxt')"
  shows "gm_get_or 0 ind' n = int (open_deps D (insert d P) n)"
    and "distinct nxt \<Longrightarrow> (\<And>n. n \<in> set nxt \<Longrightarrow> open_deps D P n = 0) \<Longrightarrow> distinct nxt'"
    and "set nxt' = set nxt \<union> {n. open_deps D P n \<noteq> 0 \<and> open_deps D (insert d P) n = 0}"
proof -
  let ?rs = "gm_get_or [] r d"
  from assms(1) have rs: "distinct ?rs" "set ?rs = {n. d \<in> set (D n)}"
    by (auto simp: dependents_ok_def)
  from assms(5) have f: "foldl decrement (ind, nxt) ?rs = (ind', nxt')" by (simp add: relax_def)
  have nxt': "nxt' = nxt @ filter (\<lambda>x. gm_get_or 0 ind x = 1) ?rs"
    by (rule foldl_decrement(2) [OF rs(1) f])
  have step: "int (open_deps D (insert d P) n) = int (open_deps D P n) - (if d \<in> set (D n) then 1 else 0)" for n
    using assms(2,3) by (rule open_deps_insert)
  show "gm_get_or 0 ind' n = int (open_deps D (insert d P) n)"
    using foldl_decrement(1) [OF rs(1) f, of n] by (simp add: rs(2) step ind)
  show "distinct nxt'" if "distinct nxt" "\<And>n. n \<in> set nxt \<Longrightarrow> open_deps D P n = 0"
    using that rs(1) by (auto simp: nxt' ind)
  have "open_deps D P n \<noteq> 0 \<and> open_deps D (insert d P) n = 0 \<longleftrightarrow>
      d \<in> set (D n) \<and> open_deps D P n = 1" for n
    using step [of n] by (auto split: if_splits)
  then show "set nxt' = set nxt \<union> {n. open_deps D P n \<noteq> 0 \<and> open_deps D (insert d P) n = 0}"
    by (auto simp: nxt' rs(2) ind)
qed

text \<open>One pass over a batch of nodes with no open dependency.\<close>

lemma foldl_relax_open_deps:
  assumes "dependents_ok r D" and "\<And>n. distinct (D n)" and "distinct ds" and "set ds \<inter> P = {}"
    and "\<And>n. gm_get_or 0 ind n = int (open_deps D P n)"
    and "distinct nxt" and "\<And>n. n \<in> set nxt \<Longrightarrow> open_deps D P n = 0"
    and "foldl (relax r) (ind, nxt) ds = (ind', nxt')"
  shows "(\<forall>n. gm_get_or 0 ind' n = int (open_deps D (P \<union> set ds) n)) \<and> distinct nxt' \<and>
     set nxt' = set nxt \<union> {n. open_deps D P n \<noteq> 0 \<and> open_deps D (P \<union> set ds) n = 0}"
  using assms(3-)
proof (induction ds arbitrary: P ind nxt)
  case Nil
  then show ?case by auto
next
  case (Cons d ds)
  obtain ind1 nxt1 where r1: "relax r (ind, nxt) d = (ind1, nxt1)" by fastforce
  from Cons.prems have d: "d \<notin> P" by simp
  note one = relax_open_deps [OF assms(1,2) d Cons.prems(3) r1]
  have mono: "open_deps D (insert d P) n = 0" if "open_deps D P n = 0" for n
    using that by (auto simp: open_deps_0)
  have mono2: "open_deps D (insert d P \<union> set ds) n = 0" if "open_deps D (insert d P) n = 0" for n
    using that by (auto simp: open_deps_0)
  have nxt1: "open_deps D (insert d P) n = 0" if "n \<in> set nxt1" for n
    using that Cons.prems(5) mono by (auto simp: one(3))
  have "(\<forall>n. gm_get_or 0 ind' n = int (open_deps D (insert d P \<union> set ds) n)) \<and> distinct nxt' \<and>
     set nxt' = set nxt1 \<union> {n. open_deps D (insert d P) n \<noteq> 0 \<and> open_deps D (insert d P \<union> set ds) n = 0}"
  proof (rule Cons.IH)
    show "distinct ds" "set ds \<inter> insert d P = {}" using Cons.prems by auto
    show "gm_get_or 0 ind1 n = int (open_deps D (insert d P) n)" for n by (rule one(1))
    show "distinct nxt1" using Cons.prems(4,5) by (rule one(2))
    show "foldl (relax r) (ind1, nxt1) ds = (ind', nxt')" using Cons.prems(6) r1 by simp
  qed (rule nxt1)
  moreover have "P \<union> set (d # ds) = insert d P \<union> set ds" by auto
  ultimately show ?case using one(3) mono mono2 by auto
qed


section \<open>Topological orders\<close>

text \<open>\<open>dep_ordered D P ns\<close>: every dependency of a node of \<open>ns\<close> is in \<open>P\<close> or stands before it.\<close>

fun dep_ordered :: "('n \<Rightarrow> 'n list) \<Rightarrow> 'n set \<Rightarrow> 'n list \<Rightarrow> bool" where
  "dep_ordered D P [] = True"
| "dep_ordered D P (n # ns) = (set (D n) \<subseteq> P \<and> dep_ordered D (insert n P) ns)"

lemma dep_ordered_append: "dep_ordered D P (xs @ ys) \<longleftrightarrow> dep_ordered D P xs \<and> dep_ordered D (P \<union> set xs) ys"
  by (induction xs arbitrary: P) auto

lemma dep_ordered_mono: "dep_ordered D P ns \<Longrightarrow> P \<subseteq> Q \<Longrightarrow> dep_ordered D Q ns"
  by (induction ns arbitrary: P Q) (auto, meson insert_mono)

lemma dep_ordered_ready: "(\<And>n. n \<in> set ns \<Longrightarrow> set (D n) \<subseteq> P) \<Longrightarrow> dep_ordered D P ns"
proof (induction ns)
  case (Cons n ns)
  then show ?case by (auto intro: dep_ordered_mono [of D P])
qed simp

lemma dep_ordered_split: "dep_ordered D P (xs @ n # ys) \<Longrightarrow> set (D n) \<subseteq> P \<union> set xs"
  by (simp add: dep_ordered_append)

lemma dep_ordered_index:
  "dep_ordered D P ns \<Longrightarrow> n \<in> set ns \<Longrightarrow> d \<in> set (D n) \<Longrightarrow> d \<notin> P \<Longrightarrow> n \<notin> P \<Longrightarrow>
   length (takeWhile (\<lambda>x. x \<noteq> d) ns) < length (takeWhile (\<lambda>x. x \<noteq> n) ns)"
  by (induction ns arbitrary: P) auto

lemma dep_ordered_acyclic:
  assumes "dep_ordered D {} ns" and "\<And>n. D n \<noteq> [] \<Longrightarrow> n \<in> set ns"
  shows "acyclic {(d, n). d \<in> set (D n)}"
proof -
  have "length (takeWhile (\<lambda>x. x \<noteq> d) ns) < length (takeWhile (\<lambda>x. x \<noteq> n) ns)"
    if d: "d \<in> set (D n)" for d n
  proof -
    from d have "D n \<noteq> []" by auto
    then have "n \<in> set ns" by (rule assms(2))
    from dep_ordered_index [OF assms(1) this d] show ?thesis by simp
  qed
  then have "{(d, n). d \<in> set (D n)} \<subseteq> measure (\<lambda>n. length (takeWhile (\<lambda>x. x \<noteq> n) ns))"
    by auto
  then show ?thesis by (rule wf_acyclic [OF wf_subset [OF wf_measure]])
qed

text \<open>A finite acyclic relation has no non-empty set in which every element has a predecessor.\<close>

lemma acyclic_no_closed_set:
  assumes "acyclic r" and "finite r" and "\<And>n. n \<in> U \<Longrightarrow> \<exists>d. (d, n) \<in> r \<and> d \<in> U"
  shows "U = {}"
proof -
  from assms(1,2) have wf: "wf r" by (rule finite_acyclic_wf [rotated])
  show ?thesis
  proof (rule ccontr)
    assume "U \<noteq> {}"
    then obtain u where "u \<in> U" by blast
    from wfE_min [OF wf this] obtain m where "m \<in> U" "\<And>y. (y, m) \<in> r \<Longrightarrow> y \<notin> U" by metis
    with assms(3) [of m] show False by blast
  qed
qed

section \<open>The invariant of Kahn's loop\<close>

definition kahn_inv ::
  "string set \<Rightarrow> (string \<Rightarrow> string list) \<Rightarrow> (string, int) gomap \<Rightarrow> string list \<Rightarrow> string list \<Rightarrow> bool" where
  "kahn_inv N D ind order current \<longleftrightarrow>
     distinct (order @ current) \<and> set (order @ current) \<subseteq> N \<and>
     (\<forall>n. gm_get_or 0 ind n = int (open_deps D (set order) n)) \<and>
     (\<forall>n \<in> N. open_deps D (set order) n = 0 \<longleftrightarrow> n \<in> set order \<union> set current) \<and>
     dep_ordered D {} order"

lemma kahn_inv_step:
  assumes inv: "kahn_inv N D ind order current"
    and r: "dependents_ok r D" and D: "\<And>n. distinct (D n)" and N: "\<And>n. n \<notin> N \<Longrightarrow> D n = []"
    and f: "foldl (relax r) (ind, []) current = (ind', nxt)"
  shows "kahn_inv N D ind' (order @ current) (sort nxt)"
proof -
  from inv have i: "distinct current" "set current \<inter> set order = {}"
    "\<And>n. gm_get_or 0 ind n = int (open_deps D (set order) n)"
    by (auto simp: kahn_inv_def)
  have "(\<forall>n. gm_get_or 0 ind' n = int (open_deps D (set order \<union> set current) n)) \<and> distinct nxt \<and>
     set nxt = set [] \<union> {n. open_deps D (set order) n \<noteq> 0 \<and> open_deps D (set order \<union> set current) n = 0}"
    using r D i(1,2,3) _ _ f by (rule foldl_relax_open_deps) simp_all
  then have nxt: "distinct nxt"
    "\<And>n. n \<in> set nxt \<longleftrightarrow> open_deps D (set order) n \<noteq> 0 \<and> open_deps D (set order \<union> set current) n = 0"
    "\<And>n. gm_get_or 0 ind' n = int (open_deps D (set order \<union> set current) n)"
    by auto
  have inN: "n \<in> N" if "open_deps D (set order) n \<noteq> 0" for n
    using that N [of n] by (cases "n \<in> N") (auto simp: open_deps_def)
  have mono: "open_deps D (set order \<union> set current) n = 0" if "open_deps D (set order) n = 0" for n
    using that by (auto simp: open_deps_0)
  have cur: "open_deps D (set order) n = 0" if "n \<in> set order \<union> set current" for n
    using that inv by (auto simp: kahn_inv_def)
  have "dep_ordered D (set order) current"
    using cur by (intro dep_ordered_ready) (auto simp: open_deps_0)
  moreover have "distinct (order @ current @ nxt)"
    using inv nxt(1,2) cur by (auto simp: kahn_inv_def)
  moreover have "open_deps D (set order \<union> set current) n = 0 \<longleftrightarrow>
      n \<in> set order \<union> set current \<union> set nxt" if "n \<in> N" for n
    using inv that mono by (auto simp: nxt(2) kahn_inv_def)
  ultimately show ?thesis
    using inv nxt inN by (auto simp: kahn_inv_def dep_ordered_append)
qed

lemma kahn_inv_result:
  assumes "kahn_inv N D ind order current" and "kahn r ind order current = (order', ind')"
    and "dependents_ok r D" and D: "\<And>n. distinct (D n)" and N: "\<And>n. n \<notin> N \<Longrightarrow> D n = []"
  shows "kahn_inv N D ind' order' []"
  using assms(1-3)
proof (induction r ind order current rule: kahn.induct)
  case (1 r ind order current)
  show ?case
  proof (cases "current = []")
    case True
    with 1 show ?thesis by (simp add: kahn.simps)
  next
    case False
    obtain ind1 nxt where f: "foldl (relax r) (ind, []) current = (ind1, nxt)"
      by fastforce
    with False 1(3) have "kahn r ind1 (order @ current) (sort nxt) = (order', ind')"
      by (subst (asm) kahn.simps) simp
    with kahn_inv_step [OF 1(2,4) D N f] 1(4) show ?thesis
      by (intro 1(1) [OF False f [symmetric] refl]) simp_all
  qed
qed


section \<open>The maps the loop starts from\<close>

lemma get_init_indegree:
  "gm_get_or 0 (init_indegree ks g) n = (if n \<in> set ks then int (length (graph_deps g n)) else 0)"
  using gm.get_foldl_put [of "\<lambda>n. int (length (graph_deps g n))" gm_empty ks n]
  by (simp add: init_indegree_def gm_get_or_def gm.get_emp)

lemma foldl_add_dependent:
  "distinct ds \<Longrightarrow> gm_get_or [] (foldl (add_dependent name) m ds) d =
     gm_get_or [] m d @ (if d \<in> set ds then [name] else [])"
  by (induction ds arbitrary: m) (auto simp: add_dependent_def gomap_simps)

lemma get_map_sort: "gm_get_or [] (map (\<lambda>(d, ns). (d, sort ns)) m) d = sort (gm_get_or [] m d)"
  by (induction m) (auto simp: gm_get_or_def gm_get_def)

lemma get_init_dependents:
  assumes "\<And>n. distinct (graph_deps g n)"
  shows "gm_get_or [] (init_dependents ks g) d = sort (filter (\<lambda>n. d \<in> set (graph_deps g n)) ks)"
proof -
  have "gm_get_or [] (foldl (\<lambda>m name. foldl (add_dependent name) m (graph_deps g name)) m ks) d =
      gm_get_or [] m d @ filter (\<lambda>n. d \<in> set (graph_deps g n)) ks" for m
    using assms by (induction ks arbitrary: m) (simp_all add: foldl_add_dependent)
  from this [of gm_empty] show ?thesis by (simp add: init_dependents_def get_map_sort gm_get_or_emp)
qed

lemma graph_deps_keys: "d \<in> set (graph_deps g n) \<Longrightarrow> n \<in> set (gm_keys (g_deps g))"
  by (cases "gm_get (g_deps g) n") (auto simp: gm.keys_get graph_deps_def gm_get_or_def)

lemma init_dependents_ok:
  assumes "graph_wf g"
  shows "dependents_ok (init_dependents (gm_keys (g_deps g)) g) (graph_deps g)"
proof -
  from assms have "distinct (gm_keys (g_deps g))" "\<And>n. distinct (graph_deps g n)"
    by (auto simp: graph_wf_def gm.ok_keys)
  then show ?thesis
    using graph_deps_keys by (auto simp: dependents_ok_def get_init_dependents)
qed

lemma kahn_inv_init:
  assumes "graph_wf g"
  defines "ks \<equiv> gm_keys (g_tasks g)"
  shows "kahn_inv (graph_nodes g) (graph_deps g) (init_indegree ks g) []
     (sort (filter (\<lambda>n. gm_get_or 0 (init_indegree ks g) n = 0) ks))"
proof -
  have ks: "set ks = graph_nodes g" by (simp add: ks_def graph_nodes_def)
  have ind: "gm_get_or 0 (init_indegree ks g) n = int (open_deps (graph_deps g) {} n)" for n
    using graph_deps_outside [OF assms(1), of n] by (auto simp: get_init_indegree open_deps_empty ks)
  have "distinct ks" using assms by (simp add: graph_wf_def gm.ok_keys)
  then show ?thesis by (auto simp: kahn_inv_def ind ks open_deps_0)
qed

text \<open>What \<open>computeOrder\<close> has computed when the loop ends.\<close>

definition kahn_result :: "graph \<Rightarrow> string list \<times> (string, int) gomap" where
  "kahn_result g =
     (let ks = gm_keys (g_tasks g); indegree = init_indegree ks g
      in kahn (init_dependents (gm_keys (g_deps g)) g) indegree []
           (sort (filter (\<lambda>n. gm_get_or 0 indegree n = 0) ks)))"

definition stuck_nodes :: "graph \<Rightarrow> string list" where
  "stuck_nodes g = sort (filter (\<lambda>n. 0 < gm_get_or 0 (snd (kahn_result g)) n) (gm_keys (g_tasks g)))"

lemma compute_order_result:
  "compute_order g =
     (if length (fst (kahn_result g)) \<noteq> gm_len (g_tasks g)
      then Inl (invalidf ReasonCyclicDependency
             (''workflow contains a dependency cycle involving '' @ show_strings (stuck_nodes g)))
      else Inr (g\<lparr>g_order := fst (kahn_result g)\<rparr>))"
  by (simp add: compute_order_def compute_order_iter_def kahn_result_def stuck_nodes_def Let_def
      split: prod.splits)

lemma kahn_result_inv:
  assumes "graph_wf g"
  shows "kahn_inv (graph_nodes g) (graph_deps g) (snd (kahn_result g)) (fst (kahn_result g)) []"
proof (rule kahn_inv_result [OF kahn_inv_init [OF assms] _ init_dependents_ok [OF assms]])
  show "kahn (init_dependents (gm_keys (g_deps g)) g) (init_indegree (gm_keys (g_tasks g)) g) []
     (sort (filter (\<lambda>n. gm_get_or 0 (init_indegree (gm_keys (g_tasks g)) g) n = 0)
        (gm_keys (g_tasks g)))) = (fst (kahn_result g), snd (kahn_result g))"
    by (simp add: kahn_result_def Let_def)
  show "distinct (graph_deps g n)" for n using assms by (simp add: graph_wf_def)
  show "n \<notin> graph_nodes g \<Longrightarrow> graph_deps g n = []" for n by (rule graph_deps_outside [OF assms])
qed

lemma kahn_result_facts:
  assumes "graph_wf g"
  shows kahn_distinct: "distinct (fst (kahn_result g))"
    and kahn_subset: "set (fst (kahn_result g)) \<subseteq> graph_nodes g"
    and kahn_ordered: "dep_ordered (graph_deps g) {} (fst (kahn_result g))"
    and kahn_closed: "n \<in> graph_nodes g \<Longrightarrow> n \<notin> set (fst (kahn_result g)) \<Longrightarrow>
       \<exists>d. (d, n) \<in> graph_edges g \<and> d \<in> graph_nodes g - set (fst (kahn_result g))"
    and kahn_stuck: "set (stuck_nodes g) = graph_nodes g - set (fst (kahn_result g))"
proof -
  let ?o = "set (fst (kahn_result g))"
  note inv = kahn_result_inv [OF assms, unfolded kahn_inv_def]
  show "distinct (fst (kahn_result g))" and "?o \<subseteq> graph_nodes g"
    and "dep_ordered (graph_deps g) {} (fst (kahn_result g))"
    using inv by auto
  have zero: "open_deps (graph_deps g) ?o n = 0 \<longleftrightarrow> n \<in> ?o" if "n \<in> graph_nodes g" for n
    using inv that by auto
  show "\<exists>d. (d, n) \<in> graph_edges g \<and> d \<in> graph_nodes g - ?o" if n: "n \<in> graph_nodes g" "n \<notin> ?o"
  proof -
    from n zero obtain d where "d \<in> set (graph_deps g n)" "d \<notin> ?o" by (auto simp: open_deps_0)
    with assms show ?thesis by (auto simp: graph_edges_def graph_wf_def)
  qed
  have "0 < gm_get_or 0 (snd (kahn_result g)) n \<longleftrightarrow> n \<notin> ?o" if "n \<in> graph_nodes g" for n
    using inv zero [OF that] by auto
  then show "set (stuck_nodes g) = graph_nodes g - ?o"
    by (auto simp: stuck_nodes_def graph_nodes_def)
qed

lemma kahn_complete_iff:
  assumes "graph_wf g"
  shows "length (fst (kahn_result g)) = gm_len (g_tasks g) \<longleftrightarrow> set (fst (kahn_result g)) = graph_nodes g"
proof -
  have "gm_len (g_tasks g) = card (graph_nodes g)"
    using assms by (simp add: gm_len_keys graph_nodes_def graph_wf_def gm.ok_keys distinct_card)
  moreover have "length (fst (kahn_result g)) = card (set (fst (kahn_result g)))"
    using kahn_distinct [OF assms] by (simp add: distinct_card)
  ultimately show ?thesis
    using card_subset_eq [OF _ kahn_subset [OF assms]] by (auto simp: graph_nodes_def)
qed

lemma kahn_complete_acyclic:
  assumes "graph_wf g"
  shows "set (fst (kahn_result g)) = graph_nodes g \<longleftrightarrow> acyclic (graph_edges g)"
proof
  assume all: "set (fst (kahn_result g)) = graph_nodes g"
  have "n \<in> set (fst (kahn_result g))" if "graph_deps g n \<noteq> []" for n
    using that graph_deps_outside [OF assms, of n] all by auto
  from dep_ordered_acyclic [OF kahn_ordered [OF assms] this]
  show "acyclic (graph_edges g)" by (simp add: graph_edges_def)
next
  assume "acyclic (graph_edges g)"
  from acyclic_no_closed_set [OF this finite_graph_edges [OF assms],
      of "graph_nodes g - set (fst (kahn_result g))"] kahn_closed [OF assms]
  have "graph_nodes g - set (fst (kahn_result g)) = {}" by blast
  with kahn_subset [OF assms] show "set (fst (kahn_result g)) = graph_nodes g" by auto
qed


section \<open>Which nodes the cycle error names\<close>

lemma kahn_down_closed:
  assumes wf: "graph_wf g" and e: "(d, n) \<in> graph_edges g" and n: "n \<in> set (fst (kahn_result g))"
  shows "d \<in> set (fst (kahn_result g))"
proof -
  from n obtain xs ys where o: "fst (kahn_result g) = xs @ n # ys" by (meson split_list)
  from kahn_ordered [OF wf] have "set (graph_deps g n) \<subseteq> {} \<union> set xs"
    unfolding o by (rule dep_ordered_split)
  with e o show ?thesis by (auto simp: graph_edges_def)
qed

lemma kahn_down_closed_rtrancl:
  assumes "graph_wf g" and "(c, n) \<in> (graph_edges g)\<^sup>*" and "n \<in> set (fst (kahn_result g))"
  shows "c \<in> set (fst (kahn_result g))"
  using assms(2,3) by (induction rule: converse_rtrancl_induct) (auto intro: kahn_down_closed [OF assms(1)])

text \<open>An edge into an ordered node comes from an earlier position of the order.\<close>

lemma kahn_index:
  assumes "graph_wf g" and "n \<in> set (fst (kahn_result g))" and "(d, n) \<in> graph_edges g"
  shows "length (takeWhile (\<lambda>x. x \<noteq> d) (fst (kahn_result g))) <
     length (takeWhile (\<lambda>x. x \<noteq> n) (fst (kahn_result g)))"
  using dep_ordered_index [OF kahn_ordered [OF assms(1)] assms(2)] assms(3)
  by (simp add: graph_edges_def)

lemma kahn_no_cycle:
  assumes wf: "graph_wf g" and c: "c \<in> set (fst (kahn_result g))"
  shows "(c, c) \<notin> (graph_edges g)\<^sup>+"
proof
  let ?idx = "\<lambda>n. length (takeWhile (\<lambda>x. x \<noteq> n) (fst (kahn_result g)))"
  have less: "(a, b) \<in> (graph_edges g)\<^sup>+ \<Longrightarrow> b \<in> set (fst (kahn_result g)) \<Longrightarrow> ?idx a < ?idx b" for a b
  proof (induction rule: trancl_induct)
    case (base y)
    then show ?case using kahn_index [OF wf] by simp
  next
    case (step y z)
    then have "?idx y < ?idx z" using kahn_index [OF wf] by simp
    moreover from step have "y \<in> set (fst (kahn_result g))" by (auto intro: kahn_down_closed [OF wf])
    ultimately show ?case using step.IH by simp
  qed
  assume "(c, c) \<in> (graph_edges g)\<^sup>+"
  from less [OF this c] show False by simp
qed

text \<open>Every node left over has an ancestor on a cycle: walk back through nodes left over.\<close>

lemma stuck_has_cycle:
  assumes wf: "graph_wf g" and n: "n \<in> graph_nodes g - set (fst (kahn_result g))"
  shows "\<exists>c. (c, c) \<in> (graph_edges g)\<^sup>+ \<and> (c, n) \<in> (graph_edges g)\<^sup>*"
proof (rule ccontr)
  let ?E = "graph_edges g"
  let ?U = "{d \<in> graph_nodes g - set (fst (kahn_result g)). (d, n) \<in> ?E\<^sup>*}"
  assume none: "\<not> ?thesis"
  have "acyclic (?E \<inter> ?U \<times> ?U)"
  proof (rule acyclicI, intro allI notI)
    fix c
    assume c: "(c, c) \<in> (?E \<inter> ?U \<times> ?U)\<^sup>+"
    then have "(c, c) \<in> ?E\<^sup>+" by (rule trancl_mono) auto
    moreover from c have "c \<in> ?U" by (auto dest: tranclD)
    ultimately show False using none by blast
  qed
  moreover have "finite (?E \<inter> ?U \<times> ?U)" using finite_graph_edges [OF wf] by simp
  moreover have "\<exists>d. (d, u) \<in> ?E \<inter> ?U \<times> ?U \<and> d \<in> ?U" if "u \<in> ?U" for u
  proof -
    from that kahn_closed [OF wf, of u] obtain d
      where "(d, u) \<in> ?E" "d \<in> graph_nodes g - set (fst (kahn_result g))" by auto
    with that show ?thesis by (auto intro: converse_rtrancl_into_rtrancl)
  qed
  ultimately have "?U = {}" by (rule acyclic_no_closed_set)
  with n show False by auto
qed

lemma stuck_nodes_iff:
  assumes wf: "graph_wf g"
  shows "n \<in> set (stuck_nodes g) \<longleftrightarrow> (\<exists>c. (c, c) \<in> (graph_edges g)\<^sup>+ \<and> (c, n) \<in> (graph_edges g)\<^sup>*)"
proof
  assume "n \<in> set (stuck_nodes g)"
  then show "\<exists>c. (c, c) \<in> (graph_edges g)\<^sup>+ \<and> (c, n) \<in> (graph_edges g)\<^sup>*"
    using stuck_has_cycle [OF wf] by (simp add: kahn_stuck [OF wf])
next
  assume "\<exists>c. (c, c) \<in> (graph_edges g)\<^sup>+ \<and> (c, n) \<in> (graph_edges g)\<^sup>*"
  then obtain c where c: "(c, c) \<in> (graph_edges g)\<^sup>+" "(c, n) \<in> (graph_edges g)\<^sup>*" by auto
  with kahn_no_cycle [OF wf] have "c \<notin> set (fst (kahn_result g))" by auto
  with c(2) kahn_down_closed_rtrancl [OF wf] have "n \<notin> set (fst (kahn_result g))" by auto
  moreover have "n \<in> graph_nodes g"
    using c(2)
  proof (cases rule: rtranclE)
    case base
    with c(1) obtain d where "(n, d) \<in> graph_edges g" by (auto dest: tranclD)
    then show ?thesis using graph_edges_nodes [OF wf] by auto
  next
    case (step y)
    then show ?thesis using graph_edges_nodes [OF wf] by auto
  qed
  ultimately show "n \<in> set (stuck_nodes g)" by (simp add: kahn_stuck [OF wf])
qed

section \<open>The order in which Go visits maps does not show\<close>

definition same_degrees :: "(string, int) gomap \<Rightarrow> (string, int) gomap \<Rightarrow> bool" where
  "same_degrees a b \<longleftrightarrow> gm_get_or 0 a = gm_get_or 0 b"

lemma same_degrees_foldl_relax:
  assumes "gm_get_or [] r = gm_get_or [] r'" and "same_degrees a b"
  shows "\<exists>a' b' nxt'. foldl (relax r) (a, nxt) ds = (a', nxt') \<and>
     foldl (relax r') (b, nxt) ds = (b', nxt') \<and> same_degrees a' b'"
proof -
  have dec: "\<exists>a' b' nxt'. foldl decrement (a, nxt) rs = (a', nxt') \<and>
     foldl decrement (b, nxt) rs = (b', nxt') \<and> same_degrees a' b'"
    if "same_degrees a b" for a b nxt rs
    using that
  proof (induction rs arbitrary: a b nxt)
    case (Cons x rs)
    then have "same_degrees (fst (decrement (a, nxt) x)) (fst (decrement (b, nxt) x))"
      and "snd (decrement (a, nxt) x) = snd (decrement (b, nxt) x)"
      by (auto simp: same_degrees_def decrement_def Let_def gm_get_or_put fun_eq_iff)
    with Cons.IH [of "fst (decrement (a, nxt) x)" "fst (decrement (b, nxt) x)"
        "snd (decrement (a, nxt) x)"]
    show ?case by (simp only: foldl.simps) (metis prod.collapse)
  qed auto
  show ?thesis using assms(2)
  proof (induction ds arbitrary: a b nxt)
    case (Cons d ds)
    from dec [OF Cons.prems, of nxt "gm_get_or [] r d"] obtain a' b' nxt' where
      "relax r (a, nxt) d = (a', nxt')" "relax r' (b, nxt) d = (b', nxt')" "same_degrees a' b'"
      by (auto simp: relax_def assms(1))
    with Cons.IH [of a' b' nxt'] show ?case by simp
  qed auto
qed

lemma kahn_cong:
  assumes "gm_get_or [] r = gm_get_or [] r'" and "same_degrees a b"
  shows "fst (kahn r a order current) = fst (kahn r' b order current) \<and>
     same_degrees (snd (kahn r a order current)) (snd (kahn r' b order current))"
  using assms
proof (induction r a order current arbitrary: b rule: kahn.induct)
  case (1 r a order current)
  show ?case
  proof (cases "current = []")
    case True
    with 1(3) show ?thesis by (simp add: kahn.simps)
  next
    case False
    from same_degrees_foldl_relax [OF 1(2,3)] obtain a' b' nxt where
      f: "foldl (relax r) (a, []) current = (a', nxt)" "foldl (relax r') (b, []) current = (b', nxt)"
        "same_degrees a' b'" by blast
    from 1(1) [OF False f(1) [symmetric] refl 1(2) f(3)] False f(1,2)
    show ?thesis by (simp add: kahn.simps [of r a] kahn.simps [of r' b])
  qed
qed

lemma sort_filter_perm: "mset xs = mset ys \<Longrightarrow> sort (filter P xs) = sort (filter P ys)"
  for xs ys :: "'a::linorder list"
  by (simp add: sort_eq_iff_mset)

lemma compute_order_perm:
  assumes wf: "graph_wf g"
    and k: "mset k1 = mset (gm_keys (g_tasks g))" "mset k2 = mset (gm_keys (g_deps g))"
      "mset k3 = mset (gm_keys (g_tasks g))" "mset k4 = mset (gm_keys (g_tasks g))"
  shows "compute_order_iter k1 k2 k3 k4 g = compute_order g"
proof -
  let ?ks = "gm_keys (g_tasks g)" and ?ds = "gm_keys (g_deps g)"
  from wf have D: "\<And>n. distinct (graph_deps g n)" by (simp add: graph_wf_def)
  have r: "gm_get_or [] (init_dependents k2 g) = gm_get_or [] (init_dependents ?ds g)"
    by (rule ext) (simp add: get_init_dependents [OF D] sort_filter_perm [OF k(2)])
  from k(1) have "set k1 = set ?ks" by (metis set_mset_mset)
  then have i: "same_degrees (init_indegree k1 g) (init_indegree ?ks g)"
    by (simp add: same_degrees_def get_init_indegree fun_eq_iff)
  then have ig: "gm_get_or 0 (init_indegree k1 g) = gm_get_or 0 (init_indegree ?ks g)"
    by (simp add: same_degrees_def)
  let ?cur = "sort (filter (\<lambda>n. gm_get_or 0 (init_indegree ?ks g) n = 0) ?ks)"
  obtain o1 d1 where k1: "kahn (init_dependents k2 g) (init_indegree k1 g) [] ?cur = (o1, d1)"
    by fastforce
  obtain o2 d2 where k2: "kahn (init_dependents ?ds g) (init_indegree ?ks g) [] ?cur = (o2, d2)"
    by fastforce
  from kahn_cong [OF r i, of "[]" ?cur] have "o1 = o2" "gm_get_or 0 d1 = gm_get_or 0 d2"
    by (simp_all add: k1 k2 same_degrees_def)
  then show ?thesis
    by (simp add: compute_order_def compute_order_iter_def Let_def ig sort_filter_perm [OF k(3)]
        sort_filter_perm [OF k(4)] k1 k2)
qed

end
