(* ===== verification/DagLevels.thy ===== *)
theory DagLevels
  imports DagOrder
begin

text \<open>
  The proofs about \<open>computeLevels\<close>, and the theorems about \<open>build\<close> as a whole.  A level
  function of a graph gives every node one more than the largest level of its
  dependencies; there is only one, the length of the longest chain of dependencies.
\<close>

section \<open>Level functions\<close>

definition level_fun :: "graph \<Rightarrow> string set \<Rightarrow> (string \<Rightarrow> nat) \<Rightarrow> bool" where
  "level_fun g N f \<longleftrightarrow> (\<forall>n \<in> N. (\<forall>d \<in> set (graph_deps g n). f d < f n) \<and>
     (f n = 0 \<or> (\<exists>d \<in> set (graph_deps g n). f n = Suc (f d))))"

lemma level_fun_cong:
  "(\<And>n. n \<in> N \<Longrightarrow> set (graph_deps g n) \<subseteq> N) \<Longrightarrow> (\<And>n. n \<in> N \<Longrightarrow> f n = f' n) \<Longrightarrow>
   level_fun g N f = level_fun g N f'"
  unfolding level_fun_def by (intro ball_cong refl) (metis subsetD)

lemma level_fun_insert:
  "level_fun g (insert n N) f \<longleftrightarrow> level_fun g N f \<and> (\<forall>d \<in> set (graph_deps g n). f d < f n) \<and>
     (f n = 0 \<or> (\<exists>d \<in> set (graph_deps g n). f n = Suc (f d)))"
  by (auto simp: level_fun_def)

text \<open>The inner loop: the maximum of the candidates.\<close>

definition best_level :: "(string \<Rightarrow> nat) \<Rightarrow> string list \<Rightarrow> nat \<Rightarrow> nat" where
  "best_level f ds l = foldl (\<lambda>level dep. let candidate = f dep + 1
     in if candidate > level then candidate else level) l ds"

lemma best_level_simps [simp]:
  "best_level f [] l = l"
  "best_level f (x # xs) l = best_level f xs (max l (Suc (f x)))"
  by (auto simp: best_level_def Let_def max_def)

lemma best_level_ge: "l \<le> best_level f ds l"
proof (induction ds arbitrary: l)
  case (Cons x xs)
  from Cons.IH [of "max l (Suc (f x))"] show ?case by simp
qed simp

lemma best_level_upper: "d \<in> set ds \<Longrightarrow> f d < best_level f ds l"
proof (induction ds arbitrary: l)
  case (Cons x xs)
  from best_level_ge [of "max l (Suc (f x))" f xs] Cons show ?case by auto
qed simp

lemma best_level_attained: "best_level f ds l = l \<or> (\<exists>d \<in> set ds. best_level f ds l = Suc (f d))"
proof (induction ds arbitrary: l)
  case (Cons x xs)
  from Cons.IH [of "max l (Suc (f x))"] show ?case by (auto simp: max_def split: if_splits)
qed simp

lemma level_step_eq:
  "level_step g (lo, mx) n =
     (let l = best_level (gm_get_or 0 lo) (graph_deps g n) 0
      in (gm_put n l lo, if int l > mx then int l else mx))"
  by (simp add: level_step_def best_level_def)

lemma levels_fold:
  assumes "distinct ns" and "dep_ordered (graph_deps g) {} ns"
    and "foldl (level_step g) (gm_empty, -1) ns = (lo, mx)"
  shows "level_fun g (set ns) (gm_get_or 0 lo) \<and> (\<forall>n \<in> set ns. int (gm_get_or 0 lo n) \<le> mx) \<and>
     (if ns = [] then mx = -1 else \<exists>n \<in> set ns. mx = int (gm_get_or 0 lo n))"
  using assms
proof (induction ns arbitrary: lo mx rule: rev_induct)
  case Nil
  then show ?case by (simp add: level_fun_def)
next
  case (snoc n ns)
  obtain lo' mx' where ns: "foldl (level_step g) (gm_empty, -1) ns = (lo', mx')" by fastforce
  let ?l = "best_level (gm_get_or 0 lo') (graph_deps g n) 0"
  from snoc.prems ns have lo: "lo = gm_put n ?l lo'" and mx: "mx = (if int ?l > mx' then int ?l else mx')"
    by (auto simp: level_step_eq Let_def)
  from snoc.prems have deps: "set (graph_deps g n) \<subseteq> set ns" and fresh: "n \<notin> set ns"
    and ord: "dep_ordered (graph_deps g) {} ns"
    by (auto simp: dep_ordered_append)
  from snoc.IH [OF _ ord ns] snoc.prems(1)
  have IH: "level_fun g (set ns) (gm_get_or 0 lo')" "\<forall>m \<in> set ns. int (gm_get_or 0 lo' m) \<le> mx'"
    "if ns = [] then mx' = -1 else \<exists>m \<in> set ns. mx' = int (gm_get_or 0 lo' m)"
    by auto
  have same: "gm_get_or 0 lo m = gm_get_or 0 lo' m" if "m \<in> set ns" for m
    using that fresh by (auto simp: lo gm_get_or_put)
  have "set (graph_deps g m) \<subseteq> set ns" if "m \<in> set ns" for m
  proof -
    from that obtain xs ys where "ns = xs @ m # ys" by (meson split_list)
    with dep_ordered_split [of "graph_deps g" "{}" xs m ys] ord show ?thesis by auto
  qed
  then have "level_fun g (set ns) (gm_get_or 0 lo)"
    using IH(1) level_fun_cong [of "set ns" g "gm_get_or 0 lo" "gm_get_or 0 lo'"] same by blast
  moreover have n: "gm_get_or 0 lo n = ?l" by (simp add: lo gm_get_or_put)
  moreover have "gm_get_or 0 lo d < gm_get_or 0 lo n" if "d \<in> set (graph_deps g n)" for d
    using best_level_upper [OF that] same deps that by (auto simp: n)
  moreover have "gm_get_or 0 lo n = 0 \<or> (\<exists>d \<in> set (graph_deps g n). gm_get_or 0 lo n = Suc (gm_get_or 0 lo d))"
    using best_level_attained [of "gm_get_or 0 lo'" "graph_deps g n" 0] same deps by (metis n subsetD)
  ultimately have "level_fun g (set (ns @ [n])) (gm_get_or 0 lo)"
    by (simp add: level_fun_insert)
  moreover have "\<forall>m \<in> set (ns @ [n]). int (gm_get_or 0 lo m) \<le> mx"
    using IH(2) same by (auto simp: mx lo gm_get_or_put)
  moreover have "\<exists>m \<in> set (ns @ [n]). mx = int (gm_get_or 0 lo m)"
    using IH(3) same by (auto simp: mx lo gm_get_or_put split: if_splits)
  ultimately show ?case by simp
qed

section \<open>Boxing the nodes by level\<close>

lemma box_levels_Some:
  assumes "\<And>n. n \<in> set ns \<Longrightarrow> gm_get_or 0 lo n < length levels"
  shows "box_levels lo ns levels =
     Some (map (\<lambda>i. levels ! i @ filter (\<lambda>n. gm_get_or 0 lo n = i) ns) [0..<length levels])"
  using assms
proof (induction ns arbitrary: levels)
  case Nil
  then show ?case by (simp add: map_nth)
next
  case (Cons n ns)
  let ?i = "gm_get_or 0 lo n"
  from Cons.prems have i: "?i < length levels" by simp
  with Cons.prems Cons.IH [of "levels[?i := levels ! ?i @ [n]]"] show ?case
    by (auto simp: Let_def nth_list_update intro!: map_cong)
qed

lemma compute_levels_Some:
  assumes "distinct (g_order g)" and "dep_ordered (graph_deps g) {} (g_order g)"
  shows "\<exists>f k. compute_levels g =
       Some (g\<lparr>g_levels := map (\<lambda>i. filter (\<lambda>n. f n = i) (g_order g)) [0..<k]\<rparr>) \<and>
     level_fun g (set (g_order g)) f \<and> (\<forall>n \<in> set (g_order g). f n < k) \<and>
     (k \<noteq> 0 \<longrightarrow> (\<exists>n \<in> set (g_order g). Suc (f n) = k))"
proof -
  obtain lo mx where f: "foldl (level_step g) (gm_empty, -1) (g_order g) = (lo, mx)" by fastforce
  note facts = levels_fold [OF assms f]
  let ?k = "nat (mx + 1)"
  have lt: "gm_get_or 0 lo n < ?k" if "n \<in> set (g_order g)" for n
    using facts that by fastforce
  then have "compute_levels g =
      Some (g\<lparr>g_levels := map (\<lambda>i. filter (\<lambda>n. gm_get_or 0 lo n = i) (g_order g)) [0..<?k]\<rparr>)"
    using box_levels_Some [of "g_order g" lo "replicate ?k []"]
    by (simp add: compute_levels_def f cong: map_cong)
  moreover have "?k \<noteq> 0 \<longrightarrow> (\<exists>n \<in> set (g_order g). Suc (gm_get_or 0 lo n) = ?k)"
  proof (cases "g_order g = []")
    case True
    with facts show ?thesis by simp
  next
    case False
    with facts obtain n where "n \<in> set (g_order g)" "mx = int (gm_get_or 0 lo n)" by auto
    then show ?thesis by (auto intro!: bexI [of _ n])
  qed
  ultimately show ?thesis using facts lt by blast
qed

section \<open>Kahn's batches are the levels\<close>

text \<open>The nodes of one level, in the order \<open>sort.Strings\<close> gives them.\<close>

definition level_nodes :: "string set \<Rightarrow> (string \<Rightarrow> nat) \<Rightarrow> nat \<Rightarrow> string list" where
  "level_nodes N f i = sorted_list_of_set {n \<in> N. f n = i}"

lemma set_level_nodes: "finite N \<Longrightarrow> set (level_nodes N f i) = {n \<in> N. f n = i}"
  by (simp add: level_nodes_def)

lemma level_nodes_unique:
  "distinct xs \<Longrightarrow> sorted xs \<Longrightarrow> finite N \<Longrightarrow> set xs = {n \<in> N. f n = i} \<Longrightarrow> xs = level_nodes N f i"
  unfolding level_nodes_def by (metis sorted_list_of_set.idem_if_sorted_distinct)

lemma filter_level_nodes:
  assumes "finite N"
  shows "filter (\<lambda>n. f n = i) (concat (map (level_nodes N f) [0..<k])) =
     (if i < k then level_nodes N f i else [])"
proof (induction k)
  case 0
  show ?case by simp
next
  case (Suc k)
  have "filter (\<lambda>n. f n = i) (level_nodes N f k) = (if i = k then level_nodes N f k else [])"
    using set_level_nodes [OF assms, of f k] by (auto simp: filter_id_conv filter_empty_conv)
  with Suc show ?case by auto
qed

text \<open>
  The invariant of Kahn's loop, seen through a level function: the batches processed so far
  are the levels below some \<open>k\<close>, each sorted by name.
\<close>

definition batches :: "string set \<Rightarrow> (string \<Rightarrow> nat) \<Rightarrow> string list \<Rightarrow> nat \<Rightarrow> bool" where
  "batches N f order k \<longleftrightarrow> order = concat (map (level_nodes N f) [0..<k])"

lemma set_batches: "finite N \<Longrightarrow> batches N f order k \<Longrightarrow> set order = {n \<in> N. f n < k}"
  by (auto simp: batches_def set_level_nodes)

lemma batches_cut:
  assumes "finite N" and "batches N f order j" and "k \<le> j" and "\<And>n. n \<in> N \<Longrightarrow> f n < k"
  shows "batches N f order k"
proof -
  have "level_nodes N f i = []" if "k \<le> i" for i
  proof -
    have "{n \<in> N. f n = i} = {}" using assms(4) that by fastforce
    then show ?thesis by (simp only: level_nodes_def sorted_list_of_set_empty)
  qed
  then have "concat (map (level_nodes N f) [k..<j]) = []" by simp
  moreover from \<open>k \<le> j\<close> have "[0..<j] = [0..<k] @ [k..<j]"
    by (metis le0 le_add_diff_inverse upt_add_eq_append)
  ultimately show ?thesis using assms(2) by (simp add: batches_def)
qed

lemma level_fun_le_iff:
  assumes "level_fun g N f" and "n \<in> N" and "\<And>n. set (graph_deps g n) \<subseteq> N"
  shows "set (graph_deps g n) \<subseteq> {d \<in> N. f d < k} \<longleftrightarrow> f n \<le> k"
proof -
  from assms(1,2) have l: "\<forall>d \<in> set (graph_deps g n). f d < f n"
    "f n = 0 \<or> (\<exists>d \<in> set (graph_deps g n). f n = Suc (f d))"
    by (auto simp: level_fun_def)
  have "(\<forall>d \<in> set (graph_deps g n). f d < k) \<longleftrightarrow> f n \<le> k"
    using l by fastforce
  with assms(3) [of n] show ?thesis by auto
qed

lemma current_level:
  assumes f: "level_fun g N f" and N: "finite N" "\<And>n. set (graph_deps g n) \<subseteq> N"
    and inv: "kahn_inv N (graph_deps g) ind order current" and b: "batches N f order k"
    and s: "sorted current"
  shows "current = level_nodes N f k"
proof (rule level_nodes_unique [OF _ s N(1)])
  show "distinct current" using inv by (simp add: kahn_inv_def)
  have "n \<in> set order \<union> set current \<longleftrightarrow> f n \<le> k" if n: "n \<in> N" for n
  proof -
    from inv n have "n \<in> set order \<union> set current \<longleftrightarrow> set (graph_deps g n) \<subseteq> set order"
      by (auto simp: kahn_inv_def open_deps_0)
    also have "\<dots> \<longleftrightarrow> f n \<le> k"
      unfolding set_batches [OF N(1) b] by (rule level_fun_le_iff [OF f n N(2)])
    finally show ?thesis .
  qed
  moreover have "set current \<inter> set order = {}" "set current \<subseteq> N" using inv by (auto simp: kahn_inv_def)
  ultimately show "set current = {n \<in> N. f n = k}"
    using set_batches [OF N(1) b] by (auto simp: le_less)
qed

lemma kahn_batches:
  assumes f: "level_fun g N f" and N: "finite N" "\<And>n. set (graph_deps g n) \<subseteq> N"
    and D: "\<And>n. distinct (graph_deps g n)" and out: "\<And>n. n \<notin> N \<Longrightarrow> graph_deps g n = []"
    and "dependents_ok r (graph_deps g)" and "kahn_inv N (graph_deps g) ind order current"
    and "batches N f order k" and "sorted current" and "kahn r ind order current = (order', ind')"
  shows "\<exists>k'. batches N f order' k'"
  using assms(6-)
proof (induction r ind order current arbitrary: k rule: kahn.induct)
  case (1 r ind order current)
  show ?case
  proof (cases "current = []")
    case True
    with 1 show ?thesis by (auto simp: kahn.simps)
  next
    case False
    obtain ind1 nxt where fr: "foldl (relax r) (ind, []) current = (ind1, nxt)" by fastforce
    have "current = level_nodes N f k" by (rule current_level [OF f N 1(3,4,5)])
    with 1(4) have "batches N f (order @ current) (Suc k)" by (simp add: batches_def)
    moreover have "kahn_inv N (graph_deps g) ind1 (order @ current) (sort nxt)"
      by (rule kahn_inv_step [OF 1(3,2) D out fr])
    moreover from False fr 1(6) have "kahn r ind1 (order @ current) (sort nxt) = (order', ind')"
      by (subst (asm) kahn.simps) simp
    ultimately show ?thesis
      using 1(2) by (intro 1(1) [OF False fr [symmetric] refl]) simp_all
  qed
qed

lemma kahn_result_batches:
  assumes wf: "graph_wf g" and f: "level_fun g (graph_nodes g) f"
  shows "\<exists>k. batches (graph_nodes g) f (fst (kahn_result g)) k"
proof -
  from wf have w: "finite (graph_nodes g)" "\<And>n. set (graph_deps g n) \<subseteq> graph_nodes g"
    "\<And>n. distinct (graph_deps g n)"
    by (auto simp: graph_wf_def graph_nodes_def)
  have b: "batches (graph_nodes g) f [] 0" by (simp add: batches_def)
  have k: "kahn (init_dependents (gm_keys (g_deps g)) g) (init_indegree (gm_keys (g_tasks g)) g) []
     (sort (filter (\<lambda>n. gm_get_or 0 (init_indegree (gm_keys (g_tasks g)) g) n = 0)
        (gm_keys (g_tasks g)))) = (fst (kahn_result g), snd (kahn_result g))"
    by (simp add: kahn_result_def Let_def)
  show ?thesis
    by (rule kahn_batches [OF f w graph_deps_outside [OF wf] init_dependents_ok [OF wf]
        kahn_inv_init [OF wf] b _ k]) simp_all
qed

section \<open>Build as a whole\<close>

text \<open>The facts about an accepted graph on which every later proof rests.\<close>

definition built :: "workflow_spec \<Rightarrow> graph \<Rightarrow> bool" where
  "built spec g \<longleftrightarrow> spec_ok spec \<and> graph_wf g \<and>
     g_tasks g = g_tasks (raw_graph spec) \<and> g_deps g = g_deps (raw_graph spec) \<and>
     distinct (g_order g) \<and> set (g_order g) = wt_name ` set (wsp_tasks spec) \<and>
     dep_ordered (graph_deps g) {} (g_order g) \<and>
     (\<exists>f k. level_fun g (set (g_order g)) f \<and>
        g_levels g = map (level_nodes (set (g_order g)) f) [0..<k] \<and>
        g_order g = concat (g_levels g) \<and> (\<forall>n \<in> set (g_order g). f n < k) \<and>
        (\<forall>i < k. \<exists>n \<in> set (g_order g). f n = i))"

lemma level_attained:
  assumes "level_fun g N f" and "\<And>n. set (graph_deps g n) \<subseteq> N" and "n \<in> N" and "i \<le> f n"
  shows "\<exists>m \<in> N. f m = i"
  using assms(3,4)
proof (induction "f n" arbitrary: n)
  case 0
  then show ?case by auto
next
  case (Suc l)
  show ?case
  proof (cases "i = f n")
    case True
    with Suc show ?thesis by auto
  next
    case False
    from Suc.hyps(2) Suc.prems assms(1) obtain d where d: "d \<in> set (graph_deps g n)" "f n = Suc (f d)"
      unfolding level_fun_def by (metis Zero_neq_Suc)
    with Suc False assms(2) show ?thesis by (intro Suc.hyps(1) [of d]) auto
  qed
qed

lemma graph_deps_update [simp]:
  "graph_deps (g\<lparr>g_order := xs\<rparr>) = graph_deps g" "graph_deps (g\<lparr>g_levels := ls\<rparr>) = graph_deps g"
  by (auto simp: graph_deps_def)

lemma graph_nodes_update [simp]:
  "graph_nodes (g\<lparr>g_order := xs\<rparr>) = graph_nodes g" "graph_nodes (g\<lparr>g_levels := ls\<rparr>) = graph_nodes g"
  by (auto simp: graph_nodes_def)

lemma graph_wf_update [simp]:
  "graph_wf (g\<lparr>g_order := xs\<rparr>) = graph_wf g" "graph_wf (g\<lparr>g_levels := ls\<rparr>) = graph_wf g"
  by (auto simp: graph_wf_def)

lemma level_fun_update [simp]:
  "level_fun (g\<lparr>g_order := xs\<rparr>) N f = level_fun g N f"
  "level_fun (g\<lparr>g_levels := ls\<rparr>) N f = level_fun g N f"
  by (auto simp: level_fun_def)

lemma build_run_acyclic:
  assumes ok: "spec_ok spec" and ac: "acyclic (spec_edges spec)"
  shows "\<exists>g. build_run spec = Some (Inr g) \<and> built spec g"
proof -
  let ?g = "raw_graph spec" and ?o = "fst (kahn_result (raw_graph spec))"
  note wf = raw_graph_wf [OF ok]
  from ac have all: "set ?o = graph_nodes ?g"
    by (simp add: kahn_complete_acyclic [OF wf] raw_edges [OF ok])
  then have order: "compute_order ?g = Inr (?g\<lparr>g_order := ?o\<rparr>)"
    by (simp add: compute_order_result kahn_complete_iff [OF wf])
  obtain f k where lv: "compute_levels (?g\<lparr>g_order := ?o\<rparr>) =
      Some (?g\<lparr>g_order := ?o, g_levels := map (\<lambda>i. filter (\<lambda>n. f n = i) ?o) [0..<k]\<rparr>)"
    and f: "level_fun ?g (set ?o) f" and k: "\<forall>n \<in> set ?o. f n < k"
      "k \<noteq> 0 \<longrightarrow> (\<exists>n \<in> set ?o. Suc (f n) = k)"
    using compute_levels_Some [of "?g\<lparr>g_order := ?o\<rparr>"] kahn_distinct [OF wf] kahn_ordered [OF wf]
    by auto
  have deps: "set (graph_deps ?g n) \<subseteq> set ?o" for n
    using wf by (simp add: graph_wf_def all)
  have onto: "\<exists>n \<in> set ?o. f n = i" if "i < k" for i
    using k(2) that level_attained [OF f deps, of _ i] by (metis less_Suc_eq_le not_less_zero)
  obtain j where j: "batches (set ?o) f ?o j"
    using kahn_result_batches [OF wf, of f] f all by auto
  have "k \<le> j"
    using onto [of j] set_batches [OF _ j] by (cases "j < k") auto
  then have b: "?o = concat (map (level_nodes (set ?o) f) [0..<k])"
    using batches_cut [OF _ j] k(1) by (simp add: batches_def)
  then have filt: "filter (\<lambda>n. f n = i) ?o = level_nodes (set ?o) f i" if "i < k" for i
    using filter_level_nodes [of "set ?o" f i k] that by simp
  let ?h = "?g\<lparr>g_order := ?o, g_levels := map (\<lambda>i. filter (\<lambda>n. f n = i) ?o) [0..<k]\<rparr>"
  have levels: "g_levels ?h = map (level_nodes (set ?o) f) [0..<k]"
    by (simp add: filt)
  have "build_run spec = Some (Inr ?h)"
    by (simp add: build_run_spec_ok [OF ok] order lv)
  moreover have "built spec ?h"
    unfolding built_def levels
    using ok wf f k(1) onto kahn_distinct [OF wf] kahn_ordered [OF wf] all b
    by (auto simp: raw_nodes [OF ok])
  ultimately show ?thesis by blast
qed

lemma build_run_cyclic:
  assumes ok: "spec_ok spec" and cyc: "\<not> acyclic (spec_edges spec)"
  shows "build_run spec = Some (Inl (invalidf ReasonCyclicDependency
     (''workflow contains a dependency cycle involving '' @ show_strings (stuck_nodes (raw_graph spec)))))"
proof -
  note wf = raw_graph_wf [OF ok]
  from cyc have "set (fst (kahn_result (raw_graph spec))) \<noteq> graph_nodes (raw_graph spec)"
    by (simp add: kahn_complete_acyclic [OF wf] raw_edges [OF ok])
  then show ?thesis
    by (simp add: build_run_spec_ok [OF ok] compute_order_result kahn_complete_iff [OF wf])
qed

lemma build_run_total: "build_run spec = Some (build spec)"
proof (cases "spec_ok spec")
  case True
  then show ?thesis
    using build_run_acyclic [OF True] build_run_cyclic [OF True]
    by (cases "acyclic (spec_edges spec)") (auto simp: build_def)
next
  case False
  then show ?thesis using build_run_not_ok [OF False] by (auto simp: build_def)
qed

lemma build_built: "build spec = Inr g \<Longrightarrow> built spec g"
  using build_run_total [of spec] build_run_acyclic [of spec] build_run_cyclic [of spec]
    build_run_not_ok [of spec]
  by (cases "spec_ok spec"; cases "acyclic (spec_edges spec)") auto

section \<open>Levels and chains of dependencies\<close>

lemma chain_le_level:
  assumes f: "level_fun g N f" and N: "\<And>n. set (graph_deps g n) \<subseteq> N"
  shows "(d, n) \<in> graph_edges g ^^ k \<Longrightarrow> n \<in> N \<Longrightarrow> k \<le> f n"
proof (induction k arbitrary: n)
  case 0
  show ?case by simp
next
  case (Suc k)
  from Suc.prems(1) obtain m where m: "(d, m) \<in> graph_edges g ^^ k" "m \<in> set (graph_deps g n)"
    by (auto simp: graph_edges_def)
  with Suc.IH [of m] N have "k \<le> f m" by auto
  moreover from f m(2) Suc.prems(2) have "f m < f n" by (auto simp: level_fun_def)
  ultimately show ?case by simp
qed

lemma chain_of_level:
  assumes f: "level_fun g N f" and N: "\<And>n. set (graph_deps g n) \<subseteq> N"
  shows "n \<in> N \<Longrightarrow> \<exists>d. (d, n) \<in> graph_edges g ^^ f n"
proof (induction "f n" arbitrary: n)
  case 0
  then show ?case by simp
next
  case (Suc k)
  from Suc.hyps(2) Suc.prems f obtain m where m: "m \<in> set (graph_deps g n)" "f n = Suc (f m)"
    unfolding level_fun_def by (metis Zero_neq_Suc)
  with Suc N obtain d where "(d, m) \<in> graph_edges g ^^ f m" by (metis Suc_inject subsetD)
  with m show ?case by (auto simp: graph_edges_def)
qed

lemma level_longest_chain:
  assumes f: "level_fun g N f" and N: "\<And>n. set (graph_deps g n) \<subseteq> N" and n: "n \<in> N"
  shows "f n = i \<longleftrightarrow> (\<exists>d. (d, n) \<in> graph_edges g ^^ i) \<and> (\<forall>k>i. \<forall>d. (d, n) \<notin> graph_edges g ^^ k)"
  using chain_le_level [OF f N _ n] chain_of_level [OF f N n]
  by (metis le_neq_implies_less not_less)

lemma built_nodes: "built spec g \<Longrightarrow> graph_nodes g = set (g_order g)"
  using raw_nodes [of spec] by (simp add: built_def graph_nodes_def)

lemma built_deps_subset: "built spec g \<Longrightarrow> set (graph_deps g n) \<subseteq> set (g_order g)"
proof -
  assume b: "built spec g"
  then have "graph_wf g" by (simp add: built_def)
  then have "set (graph_deps g n) \<subseteq> graph_nodes g" using graph_wf_def [of g] by blast
  with built_nodes [OF b] show ?thesis by simp
qed

lemma built_deps:
  assumes "built spec g" and "t \<in> set (wsp_tasks spec)"
  shows "graph_deps g (wt_name t) = wt_depends_on t"
  using assms raw_deps [of spec t] by (simp add: built_def graph_deps_def)

lemma built_task:
  assumes "built spec g" and "t \<in> set (wsp_tasks spec)"
  shows "graph_task g (wt_name t) = Some t"
  using assms raw_task [of spec t] by (simp add: built_def graph_task_def)

lemma built_order_ordered:
  "built spec g \<Longrightarrow> g_order g = xs @ n # ys \<Longrightarrow> set (graph_deps g n) \<subseteq> set xs"
  using dep_ordered_split [of "graph_deps g" "{}" xs n ys] by (simp add: built_def)

section \<open>The defect each error names\<close>

fun defect :: "workflow_spec \<Rightarrow> string \<Rightarrow> bool" where
  "defect spec reason =
     (let ts = set (wsp_tasks spec); names = wt_name ` ts in
      if reason = ReasonNoTasks then ts = {}
      else if reason = ReasonDuplicateTaskName then \<not> distinct (map wt_name (wsp_tasks spec))
      else if reason = ReasonInvalidTask then
        \<exists>t \<in> ts. wt_name t = [] \<or> ((wt_template t \<noteq> []) = (wt_task_spec t \<noteq> None))
      else if reason = ReasonMissingTemplate then
        \<exists>t \<in> ts. wt_template t \<noteq> [] \<and> gm_get (wsp_task_templates spec) (wt_template t) = None
      else if reason = ReasonEmptyDependency then \<exists>t \<in> ts. [] \<in> set (wt_depends_on t)
      else if reason = ReasonSelfDependency then \<exists>t \<in> ts. wt_name t \<in> set (wt_depends_on t)
      else if reason = ReasonUnknownDependency then \<exists>t \<in> ts. \<not> set (wt_depends_on t) \<subseteq> names
      else if reason = ReasonDuplicateDependency then \<exists>t \<in> ts. \<not> distinct (wt_depends_on t)
      else reason = ReasonCyclicDependency \<and> \<not> acyclic (spec_edges spec))"

declare defect.simps [simp del]

lemma index_tasks_defect:
  "index_tasks spec i ts m = Inl e \<Longrightarrow> wsp_tasks spec = us @ ts \<Longrightarrow> set (gm_keys m) = wt_name ` set us \<Longrightarrow>
   defect spec (ve_reason e)"
proof (induction spec i ts m arbitrary: us rule: index_tasks.induct)
  case (1 spec i m)
  then show ?case by simp
next
  case (2 spec i t ts m)
  have dup: "gm_get m (wt_name t) \<noteq> None \<longleftrightarrow> wt_name t \<in> wt_name ` set us"
    using gm.keys_get [of "wt_name t" m] 2(4) by simp
  let ?bad = "wt_name t = [] \<or> gm_get m (wt_name t) \<noteq> None \<or>
    (wt_template t \<noteq> []) = (wt_task_spec t \<noteq> None) \<or>
    wt_template t \<noteq> [] \<and> gm_get (wsp_task_templates spec) (wt_template t) = None"
  show ?case
  proof (cases ?bad)
    case True
    from 2(3) have "t \<in> set (wsp_tasks spec)" by simp
    with True 2(2,3) dup show ?thesis by (auto simp: defect.simps Let_def split: if_splits)
  next
    case False
    with 2(2) have "index_tasks spec (Suc i) ts (gm_put (wt_name t) t m) = Inl e" by auto
    with False 2(3,4) show ?thesis
      by (intro 2(1) [of "us @ [t]"]) (auto simp: gm.set_keys_put)
  qed
qed

lemma check_deps_defect:
  "check_deps tasks (wt_name t) ds seen deps = Inl e \<Longrightarrow> t \<in> set (wsp_tasks spec) \<Longrightarrow>
   wt_depends_on t = us @ ds \<Longrightarrow> set (gm_keys seen) = set us \<Longrightarrow>
   set (gm_keys tasks) = wt_name ` set (wsp_tasks spec) \<Longrightarrow> defect spec (ve_reason e)"
proof (induction ds arbitrary: seen deps us)
  case Nil
  then show ?case by simp
next
  case (Cons d ds)
  have seen: "gm_get seen d \<noteq> None \<longleftrightarrow> d \<in> set us"
    using gm.keys_get [of d seen] Cons.prems(4) by simp
  have known: "gm_get tasks d = None \<longleftrightarrow> d \<notin> wt_name ` set (wsp_tasks spec)"
    using gm.keys_get [of d tasks] Cons.prems(5) by auto
  show ?case
  proof (cases "d = [] \<or> d = wt_name t \<or> gm_get tasks d = None \<or> gm_get seen d \<noteq> None")
    case True
    from Cons.prems(3) have "d \<in> set (wt_depends_on t)" by simp
    with True Cons.prems(1-3) seen known show ?thesis
      by (auto simp: defect.simps Let_def intro!: bexI [of _ t] split: if_splits)
  next
    case False
    with Cons.prems(1) have "check_deps tasks (wt_name t) ds (gm_put d () seen)
        (gm_put (wt_name t) (gm_get_or [] deps (wt_name t) @ [d]) deps) = Inl e" by auto
    with Cons.prems(2-) show ?thesis
      by (intro Cons.IH [of _ _ "us @ [d]"]) (auto simp: gm.set_keys_put)
  qed
qed

lemma collect_deps_defect:
  assumes "collect_deps tasks ts deps = Inl e" and "set ts \<subseteq> set (wsp_tasks spec)"
    and "set (gm_keys tasks) = wt_name ` set (wsp_tasks spec)"
  shows "defect spec (ve_reason e)"
  using assms(1,2)
proof (induction ts arbitrary: deps)
  case (Cons t ts)
  then show ?case
    using check_deps_defect [of tasks t "wt_depends_on t" gm_empty deps e spec "[]"] assms(3)
    by (auto simp: gm.keys_emp split: sum.splits)
qed simp

lemma build_error_defect:
  assumes "build spec = Inl e"
  shows "defect spec (ve_reason e)"
proof (cases "spec_ok spec")
  case True
  with assms build_run_total [of spec] build_run_acyclic [OF True] build_run_cyclic [OF True]
  show ?thesis by (cases "acyclic (spec_edges spec)") (auto simp: defect.simps)
next
  case False
  from assms build_run_total [of spec] have run: "build_run spec = Some (Inl e)" by simp
  show ?thesis
  proof (cases "wsp_tasks spec = []")
    case True
    with run show ?thesis by (auto simp: build_run_def defect.simps)
  next
    case nonempty: False
    show ?thesis
    proof (cases "index_tasks spec 0 (wsp_tasks spec) gm_empty")
      case (Inl e')
      with run nonempty have "e' = e" by (simp add: build_run_def)
      with Inl index_tasks_defect [of spec 0 "wsp_tasks spec" gm_empty e "[]"] show ?thesis
        by (simp add: gm.keys_emp)
    next
      case (Inr m)
      then have m: "m = g_tasks (raw_graph spec)" "\<forall>t \<in> set (wsp_tasks spec). task_ok spec t"
        "distinct (map wt_name (wsp_tasks spec))" by (auto simp: index_tasks_spec)
      then have keys: "gm_keys m = map wt_name (wsp_tasks spec)"
        using keys_foldl_put_task [of "wsp_tasks spec" gm_empty]
        by (simp add: gm.keys_emp raw_graph_def)
      with m False nonempty have "collect_deps m (wsp_tasks spec) gm_empty \<noteq> Inr d" for d
        by (auto simp: collect_deps_Inr spec_ok_def)
      then obtain e' where "collect_deps m (wsp_tasks spec) gm_empty = Inl e'"
        by (cases "collect_deps m (wsp_tasks spec) gm_empty") auto
      with run Inr nonempty collect_deps_defect [of m "wsp_tasks spec" gm_empty e' spec] keys
      show ?thesis by (simp add: build_run_def)
    qed
  qed
qed

section \<open>Properties of Build\<close>

text \<open>
  C2. \<open>Build\<close> accepts a spec exactly when the spec meets the declared rules (a task list that
  is not empty, unique non-empty names, exactly one of template and inline spec, known
  templates, and known, distinct, non-empty dependencies other than the task itself) and the
  dependency relation has no cycle.
\<close>

theorem build_accepts_iff:
  "(\<exists>g. build spec = Inr g) \<longleftrightarrow> spec_ok spec \<and> acyclic (spec_edges spec)"
  using build_run_total [of spec] build_run_acyclic [of spec] build_run_cyclic [of spec]
    build_run_not_ok [of spec]
  by (cases "spec_ok spec"; cases "acyclic (spec_edges spec)") auto

text \<open>
  C8. The order of an accepted graph is a topological order of exactly the declared tasks:
  every task occurs once, and all its dependencies stand before it.
\<close>

theorem build_order_topological:
  assumes "build spec = Inr g"
  shows "mset (graph_order g) = mset (map wt_name (wsp_tasks spec)) \<and>
    (\<forall>xs n ys. graph_order g = xs @ n # ys \<longrightarrow> set (graph_deps g n) \<subseteq> set xs) \<and>
    (\<forall>t \<in> set (wsp_tasks spec). graph_task g (wt_name t) = Some t \<and>
       graph_deps g (wt_name t) = wt_depends_on t)"
proof -
  note b = build_built [OF assms]
  then have d: "distinct (g_order g)" "distinct (map wt_name (wsp_tasks spec))"
    and s: "set (g_order g) = set (map wt_name (wsp_tasks spec))"
    by (auto simp: built_def spec_ok_def)
  have "mset (g_order g) = mset (map wt_name (wsp_tasks spec))"
    by (rule iffD1 [OF set_eq_iff_mset_eq_distinct, OF d s])
  then show ?thesis
    using built_order_ordered [OF b] built_task [OF b] built_deps [OF b]
    by (auto simp: graph_order_def)
qed

text \<open>
  C11. The parallel levels: put one after the other they are the order; no level is empty;
  each level is sorted by name; and level \<open>i\<close> holds exactly the tasks whose longest chain of
  dependencies has length \<open>i\<close>, so tasks of one level do not depend on each other and every
  task stands on the earliest level its dependencies allow.
\<close>

theorem build_levels_longest_chain:
  assumes "build spec = Inr g"
  shows "concat (graph_levels g) = graph_order g \<and>
    (\<forall>i < length (graph_levels g). graph_levels g ! i \<noteq> [] \<and> sorted (graph_levels g ! i) \<and>
       set (graph_levels g ! i) = {n \<in> set (graph_order g).
         (\<exists>d. (d, n) \<in> graph_edges g ^^ i) \<and> (\<forall>k>i. \<forall>d. (d, n) \<notin> graph_edges g ^^ k)})"
proof -
  note b = build_built [OF assms]
  define N where "N = set (g_order g)"
  from b obtain f k where f: "level_fun g N f"
    and lv: "g_levels g = map (level_nodes N f) [0..<k]" "g_order g = concat (g_levels g)"
    and onto: "\<forall>i < k. \<exists>n \<in> N. f n = i"
    unfolding built_def N_def by blast
  have chain: "{n \<in> N. f n = i} = {n \<in> N. (\<exists>d. (d, n) \<in> graph_edges g ^^ i) \<and>
      (\<forall>k>i. \<forall>d. (d, n) \<notin> graph_edges g ^^ k)}" for i
    using level_longest_chain [OF f built_deps_subset [OF b, folded N_def]] by blast
  have "level_nodes N f i \<noteq> [] \<and> sorted (level_nodes N f i) \<and>
      set (level_nodes N f i) = {n \<in> N. f n = i}" if "i < k" for i
  proof -
    have "finite {n \<in> N. f n = i}" by (simp add: N_def)
    moreover have "{n \<in> N. f n = i} \<noteq> {}" using onto that by auto
    moreover have "finite N" by (simp add: N_def)
    moreover have "sorted (level_nodes N f i)" by (simp add: level_nodes_def)
    ultimately show ?thesis using set_level_nodes [of N f i] by fastforce
  qed
  then have "\<forall>i < length (g_levels g). g_levels g ! i \<noteq> [] \<and> sorted (g_levels g ! i) \<and>
      set (g_levels g ! i) = {n \<in> N. f n = i}"
    unfolding lv(1) by simp
  then show ?thesis
    unfolding chain using lv(2) [symmetric]
    by (simp add: graph_levels_def graph_order_def N_def)
qed

text \<open>
  C26. A spec that breaks no rule but has a cycle is rejected with \<open>CyclicDependency\<close>, and
  the message names, sorted and without repetition, exactly the tasks that lie on a cycle or
  downstream of one.
\<close>

theorem build_cycle_error:
  assumes "spec_ok spec" and "\<not> acyclic (spec_edges spec)"
  shows "\<exists>ns. build spec = Inl (invalidf ''CyclicDependency''
      (''workflow contains a dependency cycle involving '' @ show_strings ns)) \<and>
    sorted ns \<and> distinct ns \<and>
    (\<forall>n. n \<in> set ns \<longleftrightarrow> (\<exists>c. (c, c) \<in> (spec_edges spec)\<^sup>+ \<and> (c, n) \<in> (spec_edges spec)\<^sup>*))"
proof (intro exI conjI)
  let ?ns = "stuck_nodes (raw_graph spec)"
  note wf = raw_graph_wf [OF assms(1)]
  show "build spec = Inl (invalidf ''CyclicDependency''
      (''workflow contains a dependency cycle involving '' @ show_strings ?ns))"
    using build_run_cyclic [OF assms] build_run_total [of spec] by simp
  show "sorted ?ns" by (simp add: stuck_nodes_def)
  show "distinct ?ns" using wf by (simp add: stuck_nodes_def graph_wf_def gm.ok_keys)
  show "\<forall>n. n \<in> set ?ns \<longleftrightarrow> (\<exists>c. (c, c) \<in> (spec_edges spec)\<^sup>+ \<and> (c, n) \<in> (spec_edges spec)\<^sup>*)"
    using stuck_nodes_iff [OF wf] by (simp add: raw_edges [OF assms(1)])
qed

text \<open>
  Every rejection names a defect the spec really has: the reason of the error is one of
  the nine stable codes, and the rule that code stands for is broken.
\<close>

theorem build_error_names_defect:
  assumes "build spec = Inl e"
  shows "defect spec (ve_reason e)"
  using assms by (rule build_error_defect)

text \<open>
  C27. Go visits maps in an unspecified order; whatever orders the four loops of
  \<open>computeOrder\<close> see, the result is the same.
\<close>

theorem compute_order_deterministic:
  assumes "graph_wf g"
    and "mset k1 = mset (gm_keys (g_tasks g))" "mset k2 = mset (gm_keys (g_deps g))"
    and "mset k3 = mset (gm_keys (g_tasks g))" "mset k4 = mset (gm_keys (g_tasks g))"
  shows "compute_order_iter k1 k2 k3 k4 g = compute_order g"
  using assms by (rule compute_order_perm)

text \<open>
  \<open>Build\<close> never panics: the index into the level slices is always in range.
\<close>

theorem build_never_panics: "\<exists>r. build_run spec = Some r"
  using build_run_total by blast

text \<open>
  \<open>ValidateChildTaskNames\<close> lets a Workflow pass exactly when every child Task name
  derived from its nodes is within the limit from which Job and Pod names stay legal, and two
  different nodes of one Workflow never share a child name.
\<close>

theorem validate_child_task_names_iff:
  "(validate_child_task_names w g = None \<longleftrightarrow>
      (\<forall>n \<in> set (graph_order g). length (child_task_name w n) \<le> MaxTaskNameLength)) \<and>
   (child_task_name w n1 = child_task_name w n2 \<longleftrightarrow> n1 = n2)"
  by (auto simp: validate_child_task_names_def Let_def child_task_name_def filter_empty_conv not_less)

section \<open>Witnesses\<close>

definition sample_task :: "string \<Rightarrow> string list \<Rightarrow> workflow_task" where
  "sample_task n ds = \<lparr>wt_name = n, wt_depends_on = ds, wt_template = ''t'', wt_task_spec = None,
     wt_run_on_failure = False\<rparr>"

definition sample_spec :: "(string \<times> string list) list \<Rightarrow> workflow_spec" where
  "sample_spec ts = \<lparr>wsp_max_parallel = 2, wsp_tasks = map (\<lambda>(n, ds). sample_task n ds) ts,
     wsp_task_templates = [(''t'', empty_task_spec)]\<rparr>"

definition diamond :: workflow_spec where
  "diamond = sample_spec [(''d'', [''b'', ''c'']), (''b'', [''a'']), (''c'', [''a'']), (''a'', [])]"

definition diamond_graph :: graph where
  "diamond_graph = \<lparr>
     g_tasks = [(''d'', sample_task ''d'' [''b'', ''c'']), (''b'', sample_task ''b'' [''a'']),
       (''c'', sample_task ''c'' [''a'']), (''a'', sample_task ''a'' [])],
     g_deps = [(''d'', [''b'', ''c'']), (''b'', [''a'']), (''c'', [''a''])],
     g_order = [''a'', ''b'', ''c'', ''d''],
     g_levels = [[''a''], [''b'', ''c''], [''d'']]\<rparr>"

lemma build_diamond: "build diamond = Inr diamond_graph"
  by code_simp

theorem build_order_topological_witness:
  "mset (graph_order diamond_graph) = {#''d'', ''b'', ''c'', ''a''#} \<and>
   graph_task diamond_graph ''d'' = Some (sample_task ''d'' [''b'', ''c'']) \<and>
   set (graph_deps diamond_graph ''d'') \<subseteq> {''a'', ''b'', ''c''}"
proof -
  note p = build_order_topological [OF build_diamond]
  have t: "sample_task ''d'' [''b'', ''c''] \<in> set (wsp_tasks diamond)"
    by (simp add: diamond_def sample_spec_def)
  have n: "map wt_name (wsp_tasks diamond) = [''d'', ''b'', ''c'', ''a'']"
    by (simp add: diamond_def sample_spec_def sample_task_def)
  have o: "graph_order diamond_graph = [''a'', ''b'', ''c''] @ ''d'' # []"
    by (simp add: graph_order_def diamond_graph_def)
  from p have "set (graph_deps diamond_graph ''d'') \<subseteq> set [''a'', ''b'', ''c'']"
    using o by blast
  moreover from p t have "graph_task diamond_graph (wt_name (sample_task ''d'' [''b'', ''c''])) =
      Some (sample_task ''d'' [''b'', ''c''])" by blast
  ultimately show ?thesis using p by (simp add: n sample_task_def)
qed

theorem build_levels_longest_chain_witness:
  "concat (graph_levels diamond_graph) = graph_order diamond_graph \<and>
   graph_levels diamond_graph ! 1 = [''b'', ''c''] \<and> sorted (graph_levels diamond_graph ! 1)"
proof -
  have "1 < length (graph_levels diamond_graph)"
    and "graph_levels diamond_graph ! 1 = [''b'', ''c'']"
    by (simp_all add: graph_levels_def diamond_graph_def)
  with build_levels_longest_chain [OF build_diamond] show ?thesis by blast
qed

definition knot :: workflow_spec where
  "knot = sample_spec [(''a'', [''b'']), (''b'', [''a'']), (''c'', [''b''])]"

lemma knot_ok: "spec_ok knot"
  by (simp add: knot_def sample_spec_def sample_task_def spec_ok_def task_ok_def deps_ok_def gm_get_def)

lemma knot_edges: "{(''a'', ''b''), (''b'', ''a''), (''b'', ''c'')} \<subseteq> spec_edges knot"
  by (simp add: knot_def sample_spec_def sample_task_def spec_edges_def
      conj_disj_distribL conj_disj_distribR ex_disj_distrib)

lemma knot_loop: "(''b'', ''b'') \<in> (spec_edges knot)\<^sup>+" "(''b'', ''c'') \<in> (spec_edges knot)\<^sup>*"
  using knot_edges by (auto intro: trancl_trans)

lemma knot_cyclic: "\<not> acyclic (spec_edges knot)"
  using knot_loop by (auto simp: acyclic_def)

theorem build_cycle_error_witness:
  "\<exists>ns. build knot = Inl (invalidf ''CyclicDependency''
     (''workflow contains a dependency cycle involving '' @ show_strings ns)) \<and> ''c'' \<in> set ns"
  using build_cycle_error [OF knot_ok knot_cyclic] knot_loop by blast

theorem build_error_names_defect_witness: "defect knot ReasonCyclicDependency"
proof -
  have "build knot = Inl (invalidf ReasonCyclicDependency
      ''workflow contains a dependency cycle involving [a b c]'')"
    by code_simp
  from build_error_names_defect [OF this] show ?thesis by simp
qed

theorem compute_order_deterministic_witness:
  "let g = diamond_graph; ks = [''a'', ''d'', ''b'', ''c''] in
   compute_order_iter ks [''b'', ''c'', ''d''] ks [''c'', ''d'', ''b'', ''a''] g = compute_order g"
  unfolding Let_def
proof (rule compute_order_deterministic)
  show "graph_wf diamond_graph"
    using build_built [OF build_diamond] by (simp add: built_def)
qed (simp_all add: diamond_graph_def gm_keys_def)

theorem validate_child_task_names_iff_witness:
  "validate_child_task_names ''wf'' diamond_graph = None \<and>
   child_task_name ''wf'' ''a'' \<noteq> child_task_name ''wf'' ''b''"
proof -
  have "\<forall>n \<in> set (graph_order diamond_graph). length (child_task_name ''wf'' n) \<le> MaxTaskNameLength"
    by code_simp
  then show ?thesis
    using validate_child_task_names_iff [of "''wf''" diamond_graph "''a''" "''b''"] by simp
qed

end
