(* ===== verification/DagInterface.thy ===== *)
theory DagInterface
  imports DagLevels
begin

text \<open>
  What the Workflow controller relies on when it walks a graph that \<open>workflow.Build\<close> returned,
  stated as an interface: the order has no repetitions and lists every node after its
  dependencies, every node has its task, and only nodes have dependencies.
\<close>

locale dag_interface =
  fixes valid :: "'g \<Rightarrow> bool"
    and order :: "'g \<Rightarrow> string list"
    and deps :: "'g \<Rightarrow> string \<Rightarrow> string list"
    and task :: "'g \<Rightarrow> string \<Rightarrow> workflow_task option"
  assumes order_distinct: "valid g \<Longrightarrow> distinct (order g)"
    and order_deps: "valid g \<Longrightarrow> order g = xs @ n # ys \<Longrightarrow> set (deps g n) \<subseteq> set xs"
    and order_task: "valid g \<Longrightarrow> n \<in> set (order g) \<longleftrightarrow> task g n \<noteq> None"
    and order_named: "valid g \<Longrightarrow> [] \<notin> set (order g)"
    and deps_outside: "valid g \<Longrightarrow> n \<notin> set (order g) \<Longrightarrow> deps g n = []"
begin

lemma deps_known:
  assumes "valid g" and "d \<in> set (deps g n)"
  shows "d \<in> set (order g)"
proof -
  have "n \<in> set (order g)" using assms deps_outside by fastforce
  then obtain xs ys where "order g = xs @ n # ys" by (auto simp: in_set_conv_decomp)
  with order_deps [OF assms(1) this] assms(2) show ?thesis by auto
qed

lemma deps_named: "valid g \<Longrightarrow> [] \<notin> set (deps g n)"
  using deps_known order_named by blast

lemma deps_self:
  assumes "valid g"
  shows "n \<notin> set (deps g n)"
proof
  assume n: "n \<in> set (deps g n)"
  then have "n \<in> set (order g)" using assms deps_known by blast
  then obtain xs ys where "order g = xs @ n # ys" by (auto simp: in_set_conv_decomp)
  with n order_deps [OF assms this] order_distinct [OF assms] show False by auto
qed

text \<open>A fact that a node inherits from its dependencies holds for every node.\<close>

lemma order_induct [consumes 2]:
  assumes "valid g" and "n \<in> set (order g)"
    and step: "\<And>n. n \<in> set (order g) \<Longrightarrow> (\<And>d. d \<in> set (deps g n) \<Longrightarrow> P d) \<Longrightarrow> P n"
  shows "P n"
proof -
  have "\<forall>n \<in> set xs. P n" if "order g = xs @ ys" for xs ys
    using that
  proof (induction xs arbitrary: ys rule: rev_induct)
    case Nil
    show ?case by simp
  next
    case (snoc x xs)
    then have "set (deps g x) \<subseteq> set xs" using order_deps [OF assms(1)] by simp
    moreover have "\<forall>n \<in> set xs. P n" using snoc.IH [of "x # ys"] snoc.prems by simp
    moreover have "x \<in> set (order g)" using snoc.prems by simp
    ultimately show ?case using step [of x] by auto
  qed
  from this [of "order g" "[]"] assms(2) show ?thesis by simp
qed

end

definition built_graph :: "graph \<Rightarrow> bool" where
  "built_graph g \<longleftrightarrow> (\<exists>spec. build spec = Inr g)"

lemma built_graphI: "build spec = Inr g \<Longrightarrow> built_graph g"
  by (auto simp: built_graph_def)

lemma built_facts:
  assumes "built spec g"
  shows "set (g_order g) = wt_name ` set (wsp_tasks spec)" "distinct (g_order g)" "graph_wf g" "spec_ok spec"
  using assms unfolding built_def by blast+

interpretation dag: dag_interface built_graph graph_order graph_deps graph_task
proof unfold_locales
  fix g assume "built_graph g"
  then obtain spec where b: "built spec g" by (auto simp: built_graph_def dest: build_built)
  then have nodes: "graph_nodes g = set (g_order g)" by (rule built_nodes)
  note f = built_facts [OF b]
  show "distinct (graph_order g)" using f(2) by (simp add: graph_order_def)
  show "graph_order g = xs @ n # ys \<Longrightarrow> set (graph_deps g n) \<subseteq> set xs" for xs n ys
    using built_order_ordered [OF b] by (simp add: graph_order_def)
  show "n \<in> set (graph_order g) \<longleftrightarrow> graph_task g n \<noteq> None" for n
    using nodes gm.keys_get [of n "g_tasks g"]
    by (auto simp: graph_order_def graph_task_def graph_nodes_def)
  show "[] \<notin> set (graph_order g)"
    unfolding graph_order_def f(1) using f(4) by (force simp: spec_ok_def task_ok_def)
  show "n \<notin> set (graph_order g) \<Longrightarrow> graph_deps g n = []" for n
    using graph_deps_outside [OF f(3), of n] nodes by (simp add: graph_order_def)
qed

end
