(* ===== verification/WorkflowCtl.thy ===== *)
theory WorkflowCtl
  imports DagInterface Tenant
begin

text \<open>
  The definitions of \<open>internal/controller/workflow_controller.go\<close>: one reconcile of a
  Workflow, from the read of the object to the write of its status.  The two loops of
  \<open>advanceNodes\<close> are recursions over the node list that carry the loop's variables and the
  world; \<open>WorkflowNodes\<close> and \<open>WorkflowSpec\<close> hold the proofs.
\<close>

abbreviation workflow_finalizer :: string where
  "workflow_finalizer \<equiv> ''kubetask.kubetask.io/workflow-finalizer''"

abbreviation workflow_label :: string where "workflow_label \<equiv> ''kubetask.io/workflow''"
abbreviation workflow_node_label :: string where "workflow_node_label \<equiv> ''kubetask.io/workflow-node''"

definition workflow_cleanup_requeue :: duration where
  "workflow_cleanup_requeue = 2 * second"

section \<open>The environment of a reconcile\<close>

text \<open>
  Beside the client a reconcile reads the clock and ranges over a map.  Each \<open>metav1.Now()\<close>
  of the source has a site of its own, so that the clock may give any times; \<open>we_visit\<close> gives
  the order in which Go visits the keys of the map of children.
\<close>

datatype now_site =
  NowStart | NowSummary | NowFailed
| NowNodeStart string | NowNodeDone string | NowNodeSkipped string

record 'w wf_env =
  we_kube :: "'w kube"
  we_now :: "now_site \<Rightarrow> time"
  we_visit :: "string list \<Rightarrow> string list"

section \<open>Node state helpers\<close>

datatype node_action = NodeWait | NodeReady | NodeSkip

definition scan_dep ::
  "(string, node_phase) gomap \<Rightarrow> string \<times> nat \<Rightarrow> string \<Rightarrow> string \<times> nat" where
  "scan_dep phases = (\<lambda>(blocked_by, waiting) dep.
     case gm_get_or (NodePhaseOther []) phases dep of
       NodeSucceeded \<Rightarrow> (blocked_by, waiting)
     | NodeFailed \<Rightarrow> (if blocked_by = [] then dep else blocked_by, waiting)
     | NodeSkipped \<Rightarrow> (if blocked_by = [] then dep else blocked_by, waiting)
     | _ \<Rightarrow> (blocked_by, Suc waiting))"

definition decide_node ::
  "graph \<Rightarrow> (string, node_phase) gomap \<Rightarrow> string \<Rightarrow> node_action \<times> string" where
  "decide_node g phases name =
     (case graph_task g name of
        None \<Rightarrow> (NodeWait, [])
      | Some t \<Rightarrow>
          (case foldl (scan_dep phases) ([], 0) (graph_deps g name) of (blocked_by, waiting) \<Rightarrow>
             if wt_run_on_failure t then
               (if 0 < waiting then (NodeWait, [])
                else if blocked_by = [] then (NodeSkip, ''all dependencies succeeded'')
                else (NodeReady, []))
             else
               (if blocked_by \<noteq> [] then
                  (NodeSkip, ''dependency '' @ quote blocked_by @ '' did not succeed'')
                else if 0 < waiting then (NodeWait, [])
                else (NodeReady, []))))"

definition mark_node_running ::
  "time \<Rightarrow> workflow_node_status \<Rightarrow> task \<Rightarrow> workflow_node_status" where
  "mark_node_running now node t =
     (let node' = node\<lparr>wn_phase := NodeRunning, wn_task_name := tk_name t, wn_message := []\<rparr>
      in if wn_start_time node = None
         then node'\<lparr>wn_start_time := Some (case st_last_start_time (tk_status t) of
                                           None \<Rightarrow> now | Some s \<Rightarrow> s)\<rparr>
         else node')"

definition mark_node_skipped ::
  "time \<Rightarrow> workflow_node_status \<Rightarrow> string \<Rightarrow> workflow_node_status" where
  "mark_node_skipped now node reason =
     (let node' = node\<lparr>wn_phase := NodeSkipped, wn_message := reason\<rparr>
      in if wn_completion_time node = None then node'\<lparr>wn_completion_time := Some now\<rparr> else node')"

definition task_completion_time :: "time \<Rightarrow> task \<Rightarrow> time" where
  "task_completion_time now t =
     (case st_last_completion_time (tk_status t) of Some c \<Rightarrow> c | None \<Rightarrow> now)"

definition task_failure_message :: "task \<Rightarrow> string" where
  "task_failure_message t =
     (if st_message (tk_status t) \<noteq> [] then st_message (tk_status t)
      else ''task '' @ tk_name t @ '' failed'')"

definition sync_node_from_task ::
  "time \<Rightarrow> workflow_node_status \<Rightarrow> task \<Rightarrow> workflow_node_status \<times> bool" where
  "sync_node_from_task now node t =
     (case st_phase (tk_status t) of
        TaskSucceeded \<Rightarrow>
          if wn_phase node = NodeSucceeded then (node, False)
          else (node\<lparr>wn_phase := NodeSucceeded,
                     wn_completion_time := Some (task_completion_time now t), wn_message := []\<rparr>, True)
      | TaskFailed \<Rightarrow>
          let message = task_failure_message t in
          if wn_phase node = NodeFailed \<and> wn_message node = message then (node, False)
          else (node\<lparr>wn_phase := NodeFailed,
                     wn_completion_time := Some (task_completion_time now t), wn_message := message\<rparr>, True)
      | _ \<Rightarrow> (node, False))"

definition is_workflow_terminal :: "workflow_phase \<Rightarrow> bool" where
  "is_workflow_terminal p \<longleftrightarrow> p = WorkflowSucceeded \<or> p = WorkflowFailed"

definition can_retry_after_validation_failure :: "workflow \<Rightarrow> bool" where
  "can_retry_after_validation_failure wfl \<longleftrightarrow>
     ws_phase (wf_status wfl) = WorkflowFailed \<and> ws_nodes (wf_status wfl) = []"

definition fail_workflow :: "time \<Rightarrow> workflow \<Rightarrow> string \<Rightarrow> workflow \<times> bool" where
  "fail_workflow now wfl message =
     (let st = wf_status wfl in
      if ws_phase st = WorkflowFailed \<and> ws_message st = message then (wfl, False)
      else (wfl\<lparr>wf_status := st\<lparr>ws_phase := WorkflowFailed, ws_message := message,
                 ws_completion_time := (case ws_completion_time st of None \<Rightarrow> Some now | c \<Rightarrow> c)\<rparr>\<rparr>, True))"

section \<open>Child Tasks\<close>

definition child_task_spec :: "workflow \<Rightarrow> graph \<Rightarrow> string \<Rightarrow> task_spec" where
  "child_task_spec wfl g node_name =
     (case graph_task g node_name of
        None \<Rightarrow> empty_task_spec
      | Some t \<Rightarrow>
          let spec = (if wt_template t \<noteq> []
                      then gm_get_or empty_task_spec (wsp_task_templates (wf_spec wfl)) (wt_template t)
                      else case wt_task_spec t of Some s \<Rightarrow> s | None \<Rightarrow> empty_task_spec)
          in spec\<lparr>ts_type := TaskTypeOneTime, ts_schedule := [], ts_delay := None, ts_suspend := None\<rparr>)"

definition list_child_tasks ::
  "'w kube \<Rightarrow> workflow \<Rightarrow> 'w \<Rightarrow> (api_error + (string, task) gomap) \<times> 'w" where
  "list_child_tasks K wfl w =
     (let namespace = meta_namespace (wf_meta wfl);
          labels = gm_put workflow_label (wf_name wfl) gm_empty;
          labels = (if namespace \<noteq> [] then gm_put tenant_label namespace labels else labels)
      in case k_list_tasks K labels w of
           (Inl e, w') \<Rightarrow> (Inl e, w')
         | (Inr items, w') \<Rightarrow>
             (Inr (foldl (\<lambda>m t. if meta_namespace (tk_meta t) = namespace \<and>
                                   k_is_controlled_by K (tk_meta t) (wf_meta wfl)
                                then gm_put (tk_name t) t m else m) gm_empty items), w'))"

definition new_child_task :: "workflow \<Rightarrow> graph \<Rightarrow> string \<Rightarrow> task" where
  "new_child_task wfl g node_name =
     \<lparr>tk_api_version = [], tk_kind = [],
      tk_meta = set_namespace (empty_meta\<lparr>om_name := child_task_name (wf_name wfl) node_name,
        om_labels := gm_put workflow_node_label node_name (gm_put workflow_label (wf_name wfl) gm_empty)\<rparr>)
        (meta_namespace (wf_meta wfl)),
      tk_spec = child_task_spec wfl g node_name, tk_status = empty_task_status\<rparr>"

definition conflict_error :: "string \<Rightarrow> string \<Rightarrow> ctl_error" where
  "conflict_error name workflow_name = TaskNameConflict
     (''child task name conflict: task '' @ quote name @
      '' already exists and is not controlled by workflow '' @ quote workflow_name)"

definition create_child_task ::
  "'w kube \<Rightarrow> workflow \<Rightarrow> graph \<Rightarrow> string \<Rightarrow> 'w \<Rightarrow> (ctl_error + task) \<times> 'w" where
  "create_child_task K wfl g node_name w =
     (let name = child_task_name (wf_name wfl) node_name;
          t = new_child_task wfl g node_name
      in case k_set_controller_reference K (wf_meta wfl) (tk_meta t) of
           Inl e \<Rightarrow> (Inl (OwnerReferenceError
             (''failed to set owner reference on task '' @ quote name @ '': '' @ e)), w)
         | Inr meta \<Rightarrow>
             (case k_create_task K (t\<lparr>tk_meta := meta\<rparr>) w of
                (Inr created, w1) \<Rightarrow> (Inr created, w1)
              | (Inl e, w1) \<Rightarrow>
                  if \<not> is_already_exists e then (Inl (ClientError e), w1)
                  else (case k_get_task K name w1 of
                          (Inl e', w2) \<Rightarrow> (Inl (ClientError e'), w2)
                        | (Inr existing, w2) \<Rightarrow>
                            if meta_namespace (tk_meta existing) \<noteq> meta_namespace (wf_meta wfl) \<or>
                               \<not> k_is_controlled_by K (tk_meta existing) (wf_meta wfl)
                            then (Inl (conflict_error name (wf_name wfl)), w2)
                            else (Inr existing, w2))))"

section \<open>Scheduling\<close>

definition init_node ::
  "(string, workflow_node_status) gomap \<Rightarrow> string \<Rightarrow> workflow_node_status" where
  "init_node existing name =
     (case gm_get existing name of
        None \<Rightarrow> \<lparr>wn_name = name, wn_phase = NodePending, wn_task_name = [], wn_start_time = None,
                  wn_completion_time = None, wn_message = []\<rparr>
      | Some node \<Rightarrow> if wn_phase node = NodePhaseOther [] then node\<lparr>wn_phase := NodePending\<rparr> else node)"

definition initialize_status :: "time \<Rightarrow> workflow \<Rightarrow> graph \<Rightarrow> workflow \<times> bool" where
  "initialize_status now wfl g =
     (let st = wf_status wfl;
          c1 = (ws_phase st \<noteq> WorkflowRunning);
          st1 = (if c1 then st\<lparr>ws_phase := WorkflowRunning, ws_message := [], ws_completion_time := None\<rparr>
                 else st);
          c2 = (ws_start_time st1 = None);
          st2 = (if c2 then st1\<lparr>ws_start_time := Some now\<rparr> else st1);
          c3 = (ws_observed_generation st2 \<noteq> om_generation (wf_meta wfl));
          st3 = (if c3 then st2\<lparr>ws_observed_generation := om_generation (wf_meta wfl)\<rparr> else st2);
          existing = foldl (\<lambda>m node. gm_put (wn_name node) node m) gm_empty (ws_nodes st3);
          nodes = map (init_node existing) (graph_order g);
          c4 = (nodes \<noteq> ws_nodes st3);
          st4 = (if c4 then st3\<lparr>ws_nodes := nodes\<rparr> else st3)
      in (wfl\<lparr>wf_status := st4\<rparr>, c1 \<or> c2 \<or> c3 \<or> c4))"

text \<open>
  The variables of \<open>advanceNodes\<close> that its two loops share, and how a loop ends: normally, with
  a name conflict (the Workflow is failed, and what the pass did so far is kept), or with an
  error (the pass is given up and nothing is written).
\<close>

record loop_state =
  lp_phases :: "(string, node_phase) gomap"
  lp_running :: int
  lp_changed :: bool

datatype loop_end = LoopDone | LoopConflict string | LoopError ctl_error

type_synonym 'w loop_result = "workflow_node_status list \<times> loop_state \<times> loop_end \<times> 'w"

definition cons_node :: "workflow_node_status \<Rightarrow> 'w loop_result \<Rightarrow> 'w loop_result" where
  "cons_node node r = (node # fst r, snd r)"

definition stop_loop :: "ctl_error \<Rightarrow> loop_end" where
  "stop_loop e = (case e of TaskNameConflict m \<Rightarrow> LoopConflict m | _ \<Rightarrow> LoopError e)"

text \<open>The first loop: nodes that run.\<close>

fun sync_running ::
  "'w wf_env \<Rightarrow> workflow \<Rightarrow> graph \<Rightarrow> (string, task) gomap \<Rightarrow> workflow_node_status list \<Rightarrow>
   loop_state \<Rightarrow> 'w \<Rightarrow> 'w loop_result" where
  "sync_running E wfl g children [] st w = ([], st, LoopDone, w)"
| "sync_running E wfl g children (node # nodes) st w =
     (if wn_phase node \<noteq> NodeRunning
      then cons_node node (sync_running E wfl g children nodes st w)
      else case gm_get children (child_task_name (wf_name wfl) (wn_name node)) of
        None \<Rightarrow>
          (case create_child_task (we_kube E) wfl g (wn_name node) w of
             (Inl e, w') \<Rightarrow> (node # nodes, st, stop_loop e, w')
           | (Inr _, w') \<Rightarrow> cons_node node (sync_running E wfl g children nodes st w'))
      | Some child \<Rightarrow>
          (case sync_node_from_task (we_now E (NowNodeDone (wn_name node))) node child of (node', synced) \<Rightarrow>
             let st' = (if synced then
                          \<lparr>lp_phases = gm_put (wn_name node') (wn_phase node') (lp_phases st),
                           lp_running = (if wn_phase node' \<noteq> NodeRunning then lp_running st - 1
                                         else lp_running st),
                           lp_changed = True\<rparr>
                        else st)
             in cons_node node' (sync_running E wfl g children nodes st' w)))"

text \<open>The second loop: nodes that wait, in topological order.\<close>

fun schedule_pending ::
  "'w wf_env \<Rightarrow> workflow \<Rightarrow> graph \<Rightarrow> workflow_node_status list \<Rightarrow> loop_state \<Rightarrow> 'w \<Rightarrow>
   'w loop_result" where
  "schedule_pending E wfl g [] st w = ([], st, LoopDone, w)"
| "schedule_pending E wfl g (node # nodes) st w =
     (if wn_phase node \<noteq> NodePending
      then cons_node node (schedule_pending E wfl g nodes st w)
      else case decide_node g (lp_phases st) (wn_name node) of
        (NodeSkip, reason) \<Rightarrow>
          (let node' = mark_node_skipped (we_now E (NowNodeSkipped (wn_name node))) node reason;
               st' = st\<lparr>lp_phases := gm_put (wn_name node') (wn_phase node') (lp_phases st),
                        lp_changed := True\<rparr>
           in cons_node node' (schedule_pending E wfl g nodes st' w))
      | (NodeReady, _) \<Rightarrow>
          if 0 < wsp_max_parallel (wf_spec wfl) \<and> wsp_max_parallel (wf_spec wfl) \<le> lp_running st
          then cons_node node (schedule_pending E wfl g nodes st w)
          else (case create_child_task (we_kube E) wfl g (wn_name node) w of
             (Inl e, w') \<Rightarrow> (node # nodes, st, stop_loop e, w')
           | (Inr child, w') \<Rightarrow>
               (case sync_node_from_task (we_now E (NowNodeDone (wn_name node)))
                       (mark_node_running (we_now E (NowNodeStart (wn_name node))) node child) child of
                  (node', synced) \<Rightarrow>
                    let st' = \<lparr>lp_phases = gm_put (wn_name node') (wn_phase node') (lp_phases st),
                              lp_running = (if synced then lp_running st else lp_running st + 1),
                              lp_changed = True\<rparr>
                    in cons_node node' (schedule_pending E wfl g nodes st' w')))
      | (NodeWait, _) \<Rightarrow> cons_node node (schedule_pending E wfl g nodes st w))"

definition initial_loop_state :: "workflow_node_status list \<Rightarrow> loop_state" where
  "initial_loop_state nodes =
     \<lparr>lp_phases = foldl (\<lambda>m node. gm_put (wn_name node) (wn_phase node) m) gm_empty nodes,
      lp_running = int (length (filter (\<lambda>node. wn_phase node = NodeRunning) nodes)),
      lp_changed = False\<rparr>"

text \<open>Both loops; the second starts where the first ends.\<close>

definition advance_loops ::
  "'w wf_env \<Rightarrow> workflow \<Rightarrow> graph \<Rightarrow> (string, task) gomap \<Rightarrow> 'w \<Rightarrow> 'w loop_result" where
  "advance_loops E wfl g children w =
     (let nodes = ws_nodes (wf_status wfl)
      in case sync_running E wfl g children nodes (initial_loop_state nodes) w of
           (nodes1, st1, LoopDone, w1) \<Rightarrow> schedule_pending E wfl g nodes1 st1 w1
         | r \<Rightarrow> r)"

abbreviation with_nodes :: "workflow \<Rightarrow> workflow_node_status list \<Rightarrow> workflow" where
  "with_nodes wfl nodes \<equiv> wfl\<lparr>wf_status := (wf_status wfl)\<lparr>ws_nodes := nodes\<rparr>\<rparr>"

definition advance_nodes ::
  "'w wf_env \<Rightarrow> workflow \<Rightarrow> graph \<Rightarrow> 'w \<Rightarrow> (ctl_error + workflow \<times> bool) \<times> 'w" where
  "advance_nodes E wfl g w =
     (case list_child_tasks (we_kube E) wfl w of
        (Inl e, w1) \<Rightarrow> (Inl (ClientError e), w1)
      | (Inr children, w1) \<Rightarrow>
          (case advance_loops E wfl g children w1 of
             (nodes, st, LoopDone, w2) \<Rightarrow> (Inr (with_nodes wfl nodes, lp_changed st), w2)
           | (nodes, st, LoopConflict m, w2) \<Rightarrow>
               (case fail_workflow (we_now E NowFailed) (with_nodes wfl nodes) m of
                  (wfl', failed) \<Rightarrow> (Inr (wfl', failed \<or> lp_changed st), w2))
           | (nodes, st, LoopError e, w2) \<Rightarrow> (Inl e, w2)))"

definition summarize :: "time \<Rightarrow> workflow \<Rightarrow> workflow \<times> bool" where
  "summarize now wfl =
     (let st = wf_status wfl;
          failed = map wn_name (filter (\<lambda>node. wn_phase node = NodeFailed) (ws_nodes st));
          pending = length (filter (\<lambda>node. \<not> node_terminal (wn_phase node)) (ws_nodes st))
      in if is_workflow_terminal (ws_phase st) then (wfl, False)
         else if 0 < pending then (wfl, False)
         else if failed \<noteq> [] then
           (wfl\<lparr>wf_status := st\<lparr>ws_completion_time := Some now, ws_phase := WorkflowFailed,
              ws_message := ''nodes failed: '' @ join '', '' failed\<rparr>\<rparr>, True)
         else
           (wfl\<lparr>wf_status := st\<lparr>ws_completion_time := Some now, ws_phase := WorkflowSucceeded,
              ws_message := []\<rparr>\<rparr>, True))"

text \<open>What \<open>reconcileGraph\<close> computes before it writes.\<close>

definition graph_pass ::
  "'w wf_env \<Rightarrow> workflow \<Rightarrow> graph \<Rightarrow> 'w \<Rightarrow> (ctl_error + workflow \<times> bool) \<times> 'w" where
  "graph_pass E wfl g w =
     (case initialize_status (we_now E NowStart) wfl g of (wf1, initialized) \<Rightarrow>
        case advance_nodes E wf1 g w of
          (Inl e, w1) \<Rightarrow> (Inl e, w1)
        | (Inr (wf2, advanced), w1) \<Rightarrow>
            (case summarize (we_now E NowSummary) wf2 of (wf3, summarized) \<Rightarrow>
               (Inr (wf3, advanced \<or> initialized \<or> summarized), w1)))"

definition update_status ::
  "'w kube \<Rightarrow> workflow \<Rightarrow> 'w \<Rightarrow> (ctl_error + result) \<times> 'w" where
  "update_status K wfl w =
     (case k_update_workflow_status K wfl w of
        (Inl e, w') \<Rightarrow> (Inl (ClientError e), w')
      | (Inr _, w') \<Rightarrow> (Inr no_result, w'))"

definition reconcile_graph ::
  "'w wf_env \<Rightarrow> workflow \<Rightarrow> graph \<Rightarrow> 'w \<Rightarrow> (ctl_error + result) \<times> 'w" where
  "reconcile_graph E wfl g w =
     (case graph_pass E wfl g w of
        (Inl e, w1) \<Rightarrow> (Inl e, w1)
      | (Inr (wfl', changed), w1) \<Rightarrow>
          if \<not> changed then (Inr no_result, w1) else update_status (we_kube E) wfl' w1)"

section \<open>Validation failures\<close>

text \<open>The error is the validation error of \<open>workflow.Build\<close>, or another one, given by its text.\<close>

definition workflow_failure_message :: "validation_error + string \<Rightarrow> string" where
  "workflow_failure_message e =
     (case e of Inl v \<Rightarrow> ve_reason v @ '': '' @ ve_message v | Inr text \<Rightarrow> text)"

definition mark_workflow_failed ::
  "'w wf_env \<Rightarrow> workflow \<Rightarrow> string \<Rightarrow> 'w \<Rightarrow> (ctl_error + result) \<times> 'w" where
  "mark_workflow_failed E wfl message w =
     (let st = wf_status wfl in
      if ws_phase st = WorkflowFailed \<and> ws_message st = message \<and>
         ws_observed_generation st = om_generation (wf_meta wfl)
      then (Inr no_result, w)
      else update_status (we_kube E)
        (wfl\<lparr>wf_status := st\<lparr>ws_phase := WorkflowFailed, ws_message := message,
           ws_observed_generation := om_generation (wf_meta wfl),
           ws_completion_time := (case ws_completion_time st of None \<Rightarrow> Some (we_now E NowFailed)
                                  | c \<Rightarrow> c)\<rparr>\<rparr>) w)"

section \<open>Deletion\<close>

fun delete_children :: "'w kube \<Rightarrow> task list \<Rightarrow> nat \<Rightarrow> 'w \<Rightarrow> (api_error + nat) \<times> 'w" where
  "delete_children K [] remaining w = (Inr remaining, w)"
| "delete_children K (child # rest) remaining w =
     (if \<not> is_zero_time (om_deletion_timestamp (tk_meta child))
      then delete_children K rest (Suc remaining) w
      else case k_delete_task K child (Some (om_uid (tk_meta child))) w of
        (Some e, w') \<Rightarrow>
          if \<not> is_not_found e then (Inl e, w') else delete_children K rest remaining w'
      | (None, w') \<Rightarrow> delete_children K rest (Suc remaining) w')"

definition visited_children :: "'w wf_env \<Rightarrow> (string, task) gomap \<Rightarrow> task list" where
  "visited_children E children = List.map_filter (gm_get children) (we_visit E (gm_keys children))"

definition handle_deletion ::
  "'w wf_env \<Rightarrow> workflow \<Rightarrow> 'w \<Rightarrow> (ctl_error + result) \<times> 'w" where
  "handle_deletion E wfl w =
     (let K = we_kube E in
      case list_child_tasks K wfl w of
        (Inl e, w1) \<Rightarrow> (Inl (ClientError e), w1)
      | (Inr children, w1) \<Rightarrow>
          (case delete_children K (visited_children E children) 0 w1 of
             (Inl e, w2) \<Rightarrow> (Inl (ClientError e), w2)
           | (Inr remaining, w2) \<Rightarrow>
               if 0 < remaining then (Inr (requeue workflow_cleanup_requeue), w2)
               else if k_contains_finalizer K (wf_meta wfl) workflow_finalizer then
                 (case k_update_workflow K
                     (wfl\<lparr>wf_meta := k_remove_finalizer K (wf_meta wfl) workflow_finalizer\<rparr>) w2 of
                    (Inl e, w3) \<Rightarrow> (Inl (ClientError e), w3)
                  | (Inr _, w3) \<Rightarrow> (Inr no_result, w3))
               else (Inr no_result, w2)))"

section \<open>Reconcile\<close>

definition reconcile_spec ::
  "'w wf_env \<Rightarrow> workflow \<Rightarrow> 'w \<Rightarrow> (ctl_error + result) \<times> 'w" where
  "reconcile_spec E wfl w =
     (case build (wf_spec wfl) of
        Inl e \<Rightarrow> mark_workflow_failed E wfl (workflow_failure_message (Inl e)) w
      | Inr g \<Rightarrow>
          (case validate_child_task_names (wf_name wfl) g of
             Some e \<Rightarrow> mark_workflow_failed E wfl (workflow_failure_message (Inl e)) w
           | None \<Rightarrow> reconcile_graph E wfl g w))"

definition reconcile :: "'w wf_env \<Rightarrow> string \<Rightarrow> 'w \<Rightarrow> (ctl_error + result) \<times> 'w" where
  "reconcile E name w =
     (let K = we_kube E in
      case k_get_workflow K name w of
        (Inl e, w1) \<Rightarrow> if is_not_found e then (Inr no_result, w1) else (Inl (ClientError e), w1)
      | (Inr wfl, w1) \<Rightarrow>
          if \<not> is_zero_time (om_deletion_timestamp (wf_meta wfl)) then handle_deletion E wfl w1
          else if \<not> k_contains_finalizer K (wf_meta wfl) workflow_finalizer then
            (case k_update_workflow K
                (wfl\<lparr>wf_meta := k_add_finalizer K (wf_meta wfl) workflow_finalizer\<rparr>) w1 of
               (Inl e, w2) \<Rightarrow> (Inl (ClientError e), w2)
             | (Inr _, w2) \<Rightarrow> (Inr no_result, w2))
          else if is_workflow_terminal (ws_phase (wf_status wfl)) then
            (if ws_observed_generation (wf_status wfl) = om_generation (wf_meta wfl)
             then (Inr no_result, w1)
             else if can_retry_after_validation_failure wfl then reconcile_spec E wfl w1
             else update_status K (wfl\<lparr>wf_status := (wf_status wfl)\<lparr>
                    ws_observed_generation := om_generation (wf_meta wfl)\<rparr>\<rparr>) w1)
          else reconcile_spec E wfl w1)"

end
