(* ===== verification/NodeMachine.thy ===== *)
theory NodeMachine
  imports WorkflowCtl
begin

text \<open>
  The abstract view of a running Workflow: a transition system on the phases of its nodes, in
  which a node starts, is skipped or finishes.  \<open>WorkflowNodes\<close> shows that the two loops of
  \<open>advanceNodes\<close> only take steps of this system, so that its invariants hold for the program.
\<close>

type_synonym phase_map = "string \<Rightarrow> node_phase"

section \<open>The contract of a node\<close>

text \<open>When a node may start and when it may be skipped, as the documentation states it.\<close>

definition unsuccessful :: "node_phase \<Rightarrow> bool" where
  "unsuccessful p \<longleftrightarrow> p = NodeFailed \<or> p = NodeSkipped"

definition may_start :: "graph \<Rightarrow> phase_map \<Rightarrow> string \<Rightarrow> bool" where
  "may_start g P n = (case graph_task g n of
     None \<Rightarrow> False
   | Some t \<Rightarrow> if wt_run_on_failure t
               then (\<forall>d \<in> set (graph_deps g n). node_terminal (P d)) \<and>
                    (\<exists>d \<in> set (graph_deps g n). unsuccessful (P d))
               else \<forall>d \<in> set (graph_deps g n). P d = NodeSucceeded)"

definition may_skip :: "graph \<Rightarrow> phase_map \<Rightarrow> string \<Rightarrow> bool" where
  "may_skip g P n = (case graph_task g n of
     None \<Rightarrow> False
   | Some t \<Rightarrow> if wt_run_on_failure t
               then \<forall>d \<in> set (graph_deps g n). P d = NodeSucceeded
               else \<exists>d \<in> set (graph_deps g n). unsuccessful (P d))"

definition running_count :: "graph \<Rightarrow> phase_map \<Rightarrow> nat" where
  "running_count g P = length (filter (\<lambda>n. P n = NodeRunning) (graph_order g))"

inductive node_step :: "graph \<Rightarrow> int \<Rightarrow> phase_map \<Rightarrow> phase_map \<Rightarrow> bool" for g m where
  start: "n \<in> set (graph_order g) \<Longrightarrow> P n = NodePending \<Longrightarrow> may_start g P n \<Longrightarrow>
    m \<le> 0 \<or> int (running_count g P) < m \<Longrightarrow> node_step g m P (P(n := NodeRunning))"
| skip: "n \<in> set (graph_order g) \<Longrightarrow> P n = NodePending \<Longrightarrow> may_skip g P n \<Longrightarrow>
    node_step g m P (P(n := NodeSkipped))"
| finish: "n \<in> set (graph_order g) \<Longrightarrow> P n = NodeRunning \<Longrightarrow> p = NodeSucceeded \<or> p = NodeFailed \<Longrightarrow>
    node_step g m P (P(n := p))"

inductive_cases node_stepE: "node_step g m P Q"

abbreviation node_steps :: "graph \<Rightarrow> int \<Rightarrow> phase_map \<Rightarrow> phase_map \<Rightarrow> bool" where
  "node_steps g m \<equiv> (node_step g m)\<^sup>*\<^sup>*"

lemma unsuccessful_simps [simp]:
  "unsuccessful NodeFailed" "unsuccessful NodeSkipped" "\<not> unsuccessful NodeSucceeded"
  "\<not> unsuccessful NodePending" "\<not> unsuccessful NodeRunning" "\<not> unsuccessful (NodePhaseOther s)"
  by (simp_all add: unsuccessful_def)

lemma terminal_cases: "node_terminal p \<longleftrightarrow> p = NodeSucceeded \<or> unsuccessful p"
  by (auto simp: node_terminal_def unsuccessful_def)

section \<open>Terminal phases are final\<close>

lemma node_step_terminal: "node_step g m P Q \<Longrightarrow> node_terminal (P d) \<Longrightarrow> Q d = P d"
  by (auto elim!: node_stepE)

lemma node_steps_terminal: "node_steps g m P Q \<Longrightarrow> node_terminal (P d) \<Longrightarrow> Q d = P d"
proof (induction rule: rtranclp_induct)
  case base
  show ?case by simp
next
  case (step Q R)
  with node_step_terminal [OF step(2), of d] show ?case by simp
qed

lemma may_start_stable:
  assumes "may_start g P n" and "\<And>d. node_terminal (P d) \<Longrightarrow> Q d = P d"
  shows "may_start g Q n"
  using assms by (auto simp: may_start_def terminal_cases split: option.splits if_splits)

lemma may_skip_stable:
  assumes "may_skip g P n" and "\<And>d. node_terminal (P d) \<Longrightarrow> Q d = P d"
  shows "may_skip g Q n"
  using assms unfolding may_skip_def terminal_cases
  by (auto split: option.splits if_splits) (metis)

section \<open>Invariants\<close>

definition started :: "node_phase \<Rightarrow> bool" where
  "started p \<longleftrightarrow> p = NodeRunning \<or> p = NodeSucceeded \<or> p = NodeFailed"

lemma started_simps [simp]:
  "started NodeRunning" "started NodeSucceeded" "started NodeFailed"
  "\<not> started NodePending" "\<not> started NodeSkipped" "\<not> started (NodePhaseOther s)"
  by (simp_all add: started_def)

definition justified :: "graph \<Rightarrow> phase_map \<Rightarrow> bool" where
  "justified g P \<longleftrightarrow> (\<forall>n \<in> set (graph_order g).
     (started (P n) \<longrightarrow> may_start g P n) \<and> (P n = NodeSkipped \<longrightarrow> may_skip g P n))"

lemma justified_step:
  assumes "node_step g m P Q" and "justified g P"
  shows "justified g Q"
proof -
  have T: "\<And>d. node_terminal (P d) \<Longrightarrow> Q d = P d" using assms(1) by (rule node_step_terminal)
  have keep: "(started (P n) \<longrightarrow> may_start g Q n) \<and> (P n = NodeSkipped \<longrightarrow> may_skip g Q n)"
    if "n \<in> set (graph_order g)" for n
    using assms(2) that may_start_stable [OF _ T] may_skip_stable [OF _ T]
    by (auto simp: justified_def)
  from assms(1) show ?thesis
  proof cases
    case (start n)
    with may_start_stable [OF start(4) T] keep show ?thesis
      by (simp add: justified_def del: fun_upd_apply) (metis fun_upd_same fun_upd_other node_phase.simps)
  next
    case (skip n)
    with may_skip_stable [OF skip(4) T] keep show ?thesis
      unfolding justified_def by (metis fun_upd_other fun_upd_same started_simps(5))
  next
    case (finish n p)
    with keep [of n] have "may_start g Q n" by simp
    with finish keep show ?thesis by (auto simp: justified_def)
  qed
qed

lemma justified_steps: "node_steps g m P Q \<Longrightarrow> justified g P \<Longrightarrow> justified g Q"
  by (induction rule: rtranclp_induct) (auto intro: justified_step)

lemma filter_fun_upd_length:
  "distinct xs \<Longrightarrow> length (filter (\<lambda>x. R ((P(n := p)) x)) xs) + (if n \<in> set xs \<and> R (P n) then 1 else 0) =
     length (filter (\<lambda>x. R (P x)) xs) + (if n \<in> set xs \<and> R p then 1 else 0)"
proof (induction xs)
  case Nil
  show ?case by simp
next
  case (Cons x xs)
  show ?case
  proof (cases "x = n")
    case True
    with Cons.prems have "filter (\<lambda>x. R ((P(n := p)) x)) xs = filter (\<lambda>x. R (P x)) xs"
      by (intro filter_cong) auto
    with True Cons.prems show ?thesis by (simp del: fun_upd_apply add: fun_upd_same)
  next
    case False
    with Cons show ?thesis by (auto simp del: fun_upd_apply simp add: fun_upd_other split: if_splits)
  qed
qed

lemma running_count_upd:
  assumes "distinct (graph_order g)" and "n \<in> set (graph_order g)"
  shows "running_count g (P(n := p)) + (if P n = NodeRunning then 1 else 0) =
    running_count g P + (if p = NodeRunning then 1 else 0)"
  using filter_fun_upd_length [OF assms(1), of "\<lambda>p. p = NodeRunning" P n p] assms(2)
  unfolding running_count_def by (simp del: fun_upd_apply)

lemma running_count_step:
  assumes "node_step g m P Q" and "distinct (graph_order g)"
  shows "running_count g Q \<le> running_count g P \<or> m \<le> 0 \<or> int (running_count g Q) \<le> m"
  using assms(1)
proof cases
  case (start n)
  with running_count_upd [OF assms(2), of n P NodeRunning] show ?thesis by auto
next
  case (skip n)
  with running_count_upd [OF assms(2), of n P NodeSkipped] show ?thesis by auto
next
  case (finish n p)
  with running_count_upd [OF assms(2), of n P p] show ?thesis by auto
qed

lemma running_count_steps:
  assumes "node_steps g m P Q" and "distinct (graph_order g)" and "0 < m"
  shows "int (running_count g Q) \<le> max m (int (running_count g P))"
  using assms(1)
proof (induction rule: rtranclp_induct)
  case base
  show ?case by simp
next
  case (step Q R)
  with running_count_step [OF step(2) assms(2)] assms(3) show ?case by auto
qed

section \<open>Every run is short\<close>

text \<open>A node takes at most two steps: it starts and it finishes.\<close>

fun phase_weight :: "node_phase \<Rightarrow> nat" where
  "phase_weight NodePending = 2"
| "phase_weight NodeRunning = 1"
| "phase_weight _ = 0"

definition work_left :: "graph \<Rightarrow> phase_map \<Rightarrow> nat" where
  "work_left g P = sum_list (map (\<lambda>n. phase_weight (P n)) (graph_order g))"

lemma sum_list_fun_upd_less:
  "distinct xs \<Longrightarrow> n \<in> set xs \<Longrightarrow> f p < f (P n) \<Longrightarrow>
   sum_list (map (\<lambda>x. f ((P(n := p)) x)) xs) < (sum_list (map (\<lambda>x. f (P x)) xs) :: nat)"
proof (induction xs)
  case Nil
  then show ?case by simp
next
  case (Cons x xs)
  show ?case
  proof (cases "x = n")
    case True
    with Cons.prems have "map (\<lambda>x. f ((P(n := p)) x)) xs = map (\<lambda>x. f (P x)) xs"
      by (intro map_cong) auto
    then have "sum_list (map (\<lambda>x. f ((P(n := p)) x)) xs) = sum_list (map (\<lambda>x. f (P x)) xs)"
      by (rule arg_cong)
    with True Cons.prems show ?thesis by (simp del: fun_upd_apply) simp
  next
    case False
    with Cons show ?thesis by simp
  qed
qed

lemma work_left_step:
  assumes "node_step g m P Q" and "distinct (graph_order g)"
  shows "work_left g Q < work_left g P"
  using assms(1) unfolding work_left_def
  by cases (auto intro!: sum_list_fun_upd_less [OF assms(2)] simp del: fun_upd_apply)

lemma work_left_relpow:
  "(node_step g m ^^ k) P Q \<Longrightarrow> distinct (graph_order g) \<Longrightarrow> work_left g Q + k \<le> work_left g P"
proof (induction k arbitrary: Q)
  case 0
  then show ?case by simp
next
  case (Suc k)
  then obtain R where "(node_step g m ^^ k) P R" "node_step g m R Q" by auto
  with Suc work_left_step [of g m R Q] show ?case by force
qed

end
