(* ===== verification/WorkflowNodes.thy ===== *)
theory WorkflowNodes
  imports NodeMachine
begin

text \<open>
  The simulation: on a Workflow whose nodes are those of its graph, both loops of
  \<open>advanceNodes\<close> take steps of the node machine and keep the loop's variables in line with the
  nodes, whatever the API server answers.  The properties of scheduling follow from the
  invariants of the machine.
\<close>

section \<open>Decisions\<close>

definition phase_of :: "(string, node_phase) gomap \<Rightarrow> phase_map" where
  "phase_of phases n = gm_get_or (NodePhaseOther []) phases n"

lemma phase_of_put: "phase_of (gm_put k p phases) = (phase_of phases)(k := p)"
  by (auto simp: phase_of_def gm_get_or_put)

lemma scan_dep_step:
  "scan_dep phases (b, w) d =
     (if b = [] \<and> unsuccessful (phase_of phases d) then d else b,
      if node_terminal (phase_of phases d) then w else Suc w)"
  by (cases "gm_get_or (NodePhaseOther []) phases d") (simp_all add: scan_dep_def phase_of_def)

lemma scan_deps:
  "foldl (scan_dep phases) (b, w) ds =
     (if b \<noteq> [] then b else case filter (\<lambda>d. d \<noteq> [] \<and> unsuccessful (phase_of phases d)) ds of
        [] \<Rightarrow> [] | d # _ \<Rightarrow> d,
      w + length (filter (\<lambda>d. \<not> node_terminal (phase_of phases d)) ds))"
proof (induction ds arbitrary: b w)
  case Nil
  show ?case by simp
next
  case (Cons d ds)
  show ?case by (auto simp: Cons scan_dep_step)
qed

text \<open>The first dependency that did not succeed.\<close>

definition first_unsuccessful :: "phase_map \<Rightarrow> string list \<Rightarrow> string" where
  "first_unsuccessful P ds = (case filter (\<lambda>d. d \<noteq> [] \<and> unsuccessful (P d)) ds of [] \<Rightarrow> [] | d # _ \<Rightarrow> d)"

lemma first_unsuccessful_iff:
  "[] \<notin> set ds \<Longrightarrow> first_unsuccessful P ds \<noteq> [] \<longleftrightarrow> (\<exists>d \<in> set ds. unsuccessful (P d))"
proof (induction ds)
  case Nil
  show ?case by (simp add: first_unsuccessful_def)
next
  case (Cons d ds)
  then show ?case by (auto simp: first_unsuccessful_def)
qed

lemma decide_node_eq:
  "decide_node g phases n = (case graph_task g n of
     None \<Rightarrow> (NodeWait, [])
   | Some t \<Rightarrow>
       (let P = phase_of phases; ds = graph_deps g n; b = first_unsuccessful P ds;
            all_done = (\<forall>d \<in> set ds. node_terminal (P d))
        in if wt_run_on_failure t
           then (if \<not> all_done then (NodeWait, [])
                 else if b = [] then (NodeSkip, ''all dependencies succeeded'') else (NodeReady, []))
           else (if b \<noteq> [] then (NodeSkip, ''dependency '' @ quote b @ '' did not succeed'')
                 else if \<not> all_done then (NodeWait, []) else (NodeReady, []))))"
  by (auto simp: decide_node_def scan_deps first_unsuccessful_def Let_def filter_empty_conv
      split: option.splits)

definition named_deps :: "graph \<Rightarrow> bool" where
  "named_deps g \<longleftrightarrow> (\<forall>n. [] \<notin> set (graph_deps g n))"

lemma decide_start:
  "named_deps g \<Longrightarrow> fst (decide_node g phases n) = NodeReady \<longleftrightarrow> may_start g (phase_of phases) n"
  using first_unsuccessful_iff [of "graph_deps g n" "phase_of phases"]
  by (auto simp: named_deps_def decide_node_eq may_start_def Let_def terminal_cases split: option.splits)
    (metis unsuccessful_simps(3))+

lemma decide_skip:
  "named_deps g \<Longrightarrow> fst (decide_node g phases n) = NodeSkip \<longleftrightarrow> may_skip g (phase_of phases) n"
  using first_unsuccessful_iff [of "graph_deps g n" "phase_of phases"]
  by (auto simp: named_deps_def decide_node_eq may_skip_def Let_def terminal_cases split: option.splits)
    (metis unsuccessful_simps(3))+


section \<open>The simulation\<close>

text \<open>
  The nodes are those of the graph in its order, the phase map agrees with them, and
  \<open>running\<close> counts the running ones.
\<close>

definition nodes_match :: "graph \<Rightarrow> workflow_node_status list \<Rightarrow> loop_state \<Rightarrow> bool" where
  "nodes_match g nodes st \<longleftrightarrow> map wn_name nodes = graph_order g \<and>
     (\<forall>node \<in> set nodes. phase_of (lp_phases st) (wn_name node) = wn_phase node) \<and>
     lp_running st = int (running_count g (phase_of (lp_phases st)))"

definition graph_fit :: "graph \<Rightarrow> bool" where
  "graph_fit g \<longleftrightarrow> distinct (graph_order g) \<and> named_deps g"

lemma nodes_match_in_order: "nodes_match g nodes st \<Longrightarrow> node \<in> set nodes \<Longrightarrow> wn_name node \<in> set (graph_order g)"
  by (metis nodes_match_def image_eqI set_map)

text \<open>One node changes: the others keep their phases, because names are distinct.\<close>

lemma nodes_match_change:
  assumes m: "nodes_match g (pre @ node # rest) st" and d: "distinct (graph_order g)"
    and n: "wn_name node' = wn_name node"
    and ph: "lp_phases st' = gm_put (wn_name node) (wn_phase node') (lp_phases st)"
    and r: "lp_running st' + (if wn_phase node = NodeRunning then 1 else 0) =
      lp_running st + (if wn_phase node' = NodeRunning then 1 else 0)"
  shows "nodes_match g (pre @ node' # rest) st'"
proof -
  from m d have D: "distinct (map wn_name (pre @ node # rest))" by (simp add: nodes_match_def)
  have p: "phase_of (lp_phases st) (wn_name node) = wn_phase node"
    using m by (simp add: nodes_match_def)
  have "wn_name node \<in> set (graph_order g)" using m by (rule nodes_match_in_order) simp
  from running_count_upd [OF d this, of "phase_of (lp_phases st)" "wn_phase node'"] m r
  have "lp_running st' = int (running_count g ((phase_of (lp_phases st))(wn_name node := wn_phase node')))"
    unfolding p by (simp add: nodes_match_def split: if_splits)
  then have "lp_running st' = int (running_count g (phase_of (lp_phases st')))"
    by (simp add: ph phase_of_put)
  moreover have "map wn_name (pre @ node' # rest) = graph_order g"
    using m n by (simp add: nodes_match_def)
  moreover have "phase_of (lp_phases st') (wn_name x) = wn_phase x" if "x \<in> set (pre @ node' # rest)" for x
  proof (cases "x = node'")
    case True
    then show ?thesis by (simp add: ph phase_of_put n)
  next
    case False
    with that have x: "x \<in> set (pre @ node # rest)" "x \<in> set (pre @ rest)" by auto
    from D have "wn_name node \<notin> wn_name ` set (pre @ rest)" by auto
    with x(2) have "wn_name x \<noteq> wn_name node" by (metis imageI)
    moreover have "phase_of (lp_phases st) (wn_name x) = wn_phase x"
      using m x(1) unfolding nodes_match_def by blast
    ultimately show ?thesis by (simp add: ph phase_of_put)
  qed
  ultimately show ?thesis by (simp add: nodes_match_def)
qed

definition simulates ::
  "graph \<Rightarrow> int \<Rightarrow> workflow_node_status list \<Rightarrow> loop_state \<Rightarrow> 'w loop_result \<Rightarrow> bool" where
  "simulates g m pre st r \<longleftrightarrow> (case r of (nodes', st', e, w') \<Rightarrow>
     nodes_match g (pre @ nodes') st' \<and>
     node_steps g m (phase_of (lp_phases st)) (phase_of (lp_phases st')))"

lemma simulates_cons: "simulates g m pre st (cons_node node r) \<longleftrightarrow> simulates g m (pre @ [node]) st r"
  by (cases r) (simp add: simulates_def cons_node_def)

lemma simulates_step:
  "node_steps g m (phase_of (lp_phases st)) (phase_of (lp_phases st')) \<Longrightarrow> simulates g m pre st' r \<Longrightarrow>
   simulates g m pre st r"
  by (cases r) (auto simp: simulates_def)

lemma simulates_one_step:
  assumes "node_step g m (phase_of (lp_phases st)) (phase_of (lp_phases st'))"
    and "simulates g m pre st' r"
  shows "simulates g m pre st r"
proof -
  have "node_steps g m (phase_of (lp_phases st)) (phase_of (lp_phases st'))"
    using assms(1) by blast
  then show ?thesis using assms(2) by (rule simulates_step)
qed

lemma simulates_stop: "nodes_match g (pre @ nodes) st \<Longrightarrow> simulates g m pre st (nodes, st, e, w)"
  by (simp add: simulates_def)

lemma sync_name [simp]: "wn_name (fst (sync_node_from_task now node t)) = wn_name node"
  by (auto simp: sync_node_from_task_def Let_def split: task_phase.splits)

definition task_finished :: "task \<Rightarrow> bool" where
  "task_finished t \<longleftrightarrow> st_phase (tk_status t) = TaskSucceeded \<or> st_phase (tk_status t) = TaskFailed"

text \<open>A running node stays as it is, or its Task has finished and it ends as the Task did.\<close>

lemma sync_node_cases:
  assumes "sync_node_from_task now node t = (node', synced)" and "wn_phase node = NodeRunning"
  obtains (stays) "\<not> synced" "node' = node" "\<not> task_finished t"
  | (ends) "synced" "wn_name node' = wn_name node" "task_finished t"
    "wn_phase node' = NodeSucceeded \<or> wn_phase node' = NodeFailed"
  using assms that
  by (auto simp: sync_node_from_task_def task_finished_def Let_def split: task_phase.splits if_splits)

lemma sync_running_simulates:
  assumes "nodes_match g (pre @ nodes) st" and "graph_fit g"
  shows "simulates g m pre st (sync_running E wfl g children nodes st w)"
  using assms(1)
proof (induction nodes arbitrary: pre st w)
  case Nil
  then show ?case by (simp add: simulates_stop)
next
  case (Cons node nodes)
  note IH = Cons.IH [of "pre @ [_]", simplified, folded simulates_cons]
  have stay: "simulates g m pre st (cons_node node (sync_running E wfl g children nodes st w'))" for w'
    by (rule IH) (rule Cons.prems)
  show ?case
  proof (cases "wn_phase node = NodeRunning")
    case False
    with stay show ?thesis by simp
  next
    case run: True
    show ?thesis
    proof (cases "gm_get children (child_task_name (wf_name wfl) (wn_name node))")
      case None
      obtain r w' where "create_child_task (we_kube E) wfl g (wn_name node) w = (r, w')"
        by (metis surj_pair)
      with run stay None simulates_stop [OF Cons.prems] show ?thesis by (cases r) simp_all
    next
      case (Some child)
      obtain node' synced where s:
        "sync_node_from_task (we_now E (NowNodeDone (wn_name node))) node child = (node', synced)"
        by (metis surj_pair)
      from s run show ?thesis
      proof (cases rule: sync_node_cases)
        case stays
        with s run Some stay show ?thesis by simp
      next
        case ends
        define st' where "st' = \<lparr>lp_phases = gm_put (wn_name node) (wn_phase node') (lp_phases st),
          lp_running = lp_running st - 1, lp_changed = True\<rparr>"
        have "nodes_match g (pre @ node' # nodes) st'"
          by (rule nodes_match_change [OF Cons.prems])
            (use assms(2) run ends in \<open>auto simp: st'_def graph_fit_def\<close>)
        then have "simulates g m pre st' (cons_node node' (sync_running E wfl g children nodes st' w))"
          by (rule IH)
        moreover have step: "node_step g m (phase_of (lp_phases st)) (phase_of (lp_phases st'))"
          unfolding st'_def phase_of_put loop_state.select_convs
          by (rule node_step.finish [OF nodes_match_in_order [OF Cons.prems]])
            (use Cons.prems run ends in \<open>auto simp: nodes_match_def\<close>)
        moreover have "sync_running E wfl g children (node # nodes) st w =
            cons_node node' (sync_running E wfl g children nodes st' w)"
          using s run Some ends by (auto simp: st'_def)
        ultimately show ?thesis using simulates_one_step [OF step] by metis
      qed
    qed
  qed
qed

lemma mark_running_simps [simp]:
  "wn_name (mark_node_running now node t) = wn_name node"
  "wn_phase (mark_node_running now node t) = NodeRunning"
  by (simp_all add: mark_node_running_def Let_def)

lemma mark_skipped_simps [simp]:
  "wn_name (mark_node_skipped now node reason) = wn_name node"
  "wn_phase (mark_node_skipped now node reason) = NodeSkipped"
  by (simp_all add: mark_node_skipped_def Let_def)

lemma nodes_match_phase:
  "nodes_match g (pre @ node # nodes) st \<Longrightarrow> phase_of (lp_phases st) (wn_name node) = wn_phase node"
  by (simp add: nodes_match_def)

text \<open>A Pending node starts; its child may turn out to have finished already.\<close>

lemma start_simulates:
  assumes m: "nodes_match g (pre @ node # nodes) st" and fit: "graph_fit g"
    and pend: "wn_phase node = NodePending"
    and ready: "fst (decide_node g (lp_phases st) (wn_name node)) = NodeReady"
    and cap: "mx \<le> 0 \<or> lp_running st < mx"
    and s: "sync_node_from_task now (mark_node_running now' node child) child = (node', synced)"
    and st': "st' = \<lparr>lp_phases = gm_put (wn_name node') (wn_phase node') (lp_phases st),
      lp_running = (if synced then lp_running st else lp_running st + 1), lp_changed = True\<rparr>"
  shows "nodes_match g (pre @ node' # nodes) st' \<and>
    node_steps g mx (phase_of (lp_phases st)) (phase_of (lp_phases st'))"
proof -
  let ?P = "phase_of (lp_phases st)" and ?n = "wn_name node"
  have n: "?n \<in> set (graph_order g)" using m by (rule nodes_match_in_order) simp
  have "may_start g ?P ?n" using ready fit decide_start by (simp add: graph_fit_def)
  moreover have "mx \<le> 0 \<or> int (running_count g ?P) < mx" using cap m by (simp add: nodes_match_def)
  ultimately have start: "node_step g mx ?P (?P(?n := NodeRunning))"
    using n nodes_match_phase [OF m] pend by (auto intro: node_step.start)
  have d: "distinct (graph_order g)" using fit by (simp add: graph_fit_def)
  have "wn_phase (mark_node_running now' node child) = NodeRunning" by simp
  with s show ?thesis
  proof (cases rule: sync_node_cases)
    case stays
    have "nodes_match g (pre @ node' # nodes) st'"
      by (intro nodes_match_change [OF m d]) (use stays in \<open>simp_all add: st' pend\<close>)
    moreover from stays have "phase_of (lp_phases st') = ?P(?n := NodeRunning)"
      by (simp add: st' phase_of_put)
    ultimately show ?thesis using start by auto
  next
    case ends
    have "nodes_match g (pre @ node' # nodes) st'"
      by (intro nodes_match_change [OF m d]) (use ends in \<open>auto simp: st' pend\<close>)
    moreover have "node_step g mx (?P(?n := NodeRunning)) ((?P(?n := NodeRunning))(?n := wn_phase node'))"
      using n ends by (intro node_step.finish) auto
    moreover from ends have "phase_of (lp_phases st') = (?P(?n := NodeRunning))(?n := wn_phase node')"
      by (simp add: st' phase_of_put)
    ultimately show ?thesis using start by (auto intro: converse_rtranclp_into_rtranclp)
  qed
qed

lemma skip_simulates:
  assumes m: "nodes_match g (pre @ node # nodes) st" and fit: "graph_fit g"
    and pend: "wn_phase node = NodePending"
    and skip: "fst (decide_node g (lp_phases st) (wn_name node)) = NodeSkip"
    and node': "node' = mark_node_skipped now node reason"
    and st': "st' = st\<lparr>lp_phases := gm_put (wn_name node') (wn_phase node') (lp_phases st), lp_changed := True\<rparr>"
  shows "nodes_match g (pre @ node' # nodes) st' \<and>
    node_steps g mx (phase_of (lp_phases st)) (phase_of (lp_phases st'))"
proof -
  have d: "distinct (graph_order g)" using fit by (simp add: graph_fit_def)
  have "nodes_match g (pre @ node' # nodes) st'"
    by (intro nodes_match_change [OF m d]) (simp_all add: st' node' pend)
  moreover have "node_step g mx (phase_of (lp_phases st)) (phase_of (lp_phases st'))"
  proof -
    have "phase_of (lp_phases st') = (phase_of (lp_phases st))(wn_name node := NodeSkipped)"
      by (simp add: st' node' phase_of_put)
    moreover have "wn_name node \<in> set (graph_order g)" using m by (rule nodes_match_in_order) simp
    moreover have "may_skip g (phase_of (lp_phases st)) (wn_name node)"
      using skip fit decide_skip by (simp add: graph_fit_def)
    ultimately show ?thesis using nodes_match_phase [OF m] pend by (auto intro: node_step.skip)
  qed
  ultimately show ?thesis by auto
qed

lemma schedule_pending_simulates:
  assumes "nodes_match g (pre @ nodes) st" and "graph_fit g"
  shows "simulates g (wsp_max_parallel (wf_spec wfl)) pre st (schedule_pending E wfl g nodes st w)"
  using assms(1)
proof (induction nodes arbitrary: pre st w)
  case Nil
  then show ?case by (simp add: simulates_stop)
next
  case (Cons node nodes)
  let ?mx = "wsp_max_parallel (wf_spec wfl)"
  note IH = Cons.IH [of "pre @ [_]", simplified, folded simulates_cons]
  have stay: "simulates g ?mx pre st (cons_node node (schedule_pending E wfl g nodes st w'))" for w'
    by (rule IH) (rule Cons.prems)
  have change: "simulates g ?mx pre st (cons_node node' (schedule_pending E wfl g nodes st' w'))"
    if "nodes_match g (pre @ node' # nodes) st' \<and>
      node_steps g ?mx (phase_of (lp_phases st)) (phase_of (lp_phases st'))" for node' st' w'
    using that IH simulates_step by blast
  obtain act reason where dec: "decide_node g (lp_phases st) (wn_name node) = (act, reason)"
    by (metis surj_pair)
  show ?case
  proof (cases "wn_phase node = NodePending")
    case False
    with stay show ?thesis by simp
  next
    case pend: True
    show ?thesis
    proof (cases act)
      case NodeWait
      with dec pend stay show ?thesis by simp
    next
      case NodeSkip
      show ?thesis
        using change [OF skip_simulates [OF Cons.prems assms(2) pend _ refl refl]] pend dec NodeSkip
        by (simp add: Let_def)
    next
      case NodeReady
      show ?thesis
      proof (cases "0 < ?mx \<and> ?mx \<le> lp_running st")
        case True
        with dec pend stay NodeReady show ?thesis by simp
      next
        case cap: False
        obtain r w' where c: "create_child_task (we_kube E) wfl g (wn_name node) w = (r, w')"
          by (metis surj_pair)
        show ?thesis
        proof (cases r)
          case (Inl e)
          with c dec pend NodeReady cap simulates_stop [OF Cons.prems] show ?thesis by auto
        next
          case (Inr child)
          obtain node' synced where s: "sync_node_from_task (we_now E (NowNodeDone (wn_name node)))
              (mark_node_running (we_now E (NowNodeStart (wn_name node))) node child) child = (node', synced)"
            by (metis surj_pair)
          from cap have "?mx \<le> 0 \<or> lp_running st < ?mx" by linarith
          from change [OF start_simulates [OF Cons.prems assms(2) pend _ this s refl]]
          show ?thesis using s c dec pend NodeReady cap Inr by (auto simp: Let_def)
        qed
      qed
    qed
  qed
qed

lemma phase_of_initial:
  assumes "distinct (map wn_name nodes)" and "node \<in> set nodes"
  shows "phase_of (lp_phases (initial_loop_state nodes)) (wn_name node) = wn_phase node"
proof -
  have *: "phase_of (foldl (\<lambda>m node. gm_put (wn_name node) (wn_phase node) m) m0 nodes) (wn_name node) =
      wn_phase node"
    if "distinct (map wn_name nodes)" "node \<in> set nodes \<or>
      (wn_name node \<notin> wn_name ` set nodes \<and> phase_of m0 (wn_name node) = wn_phase node)" for m0
    using that
  proof (induction nodes arbitrary: m0)
    case Nil
    then show ?case by simp
  next
    case (Cons x xs)
    show ?case
      unfolding foldl_Cons by (rule Cons.IH) (use Cons.prems in \<open>auto simp: phase_of_put\<close>)
  qed
  show ?thesis unfolding initial_loop_state_def loop_state.simps by (rule *) (use assms in simp_all)
qed

lemma initial_loop_state_match:
  assumes "map wn_name nodes = graph_order g" and "distinct (graph_order g)"
  shows "nodes_match g nodes (initial_loop_state nodes)"
proof -
  have p: "\<forall>node \<in> set nodes. phase_of (lp_phases (initial_loop_state nodes)) (wn_name node) = wn_phase node"
    using phase_of_initial assms by simp
  have "running_count g (phase_of (lp_phases (initial_loop_state nodes))) =
      length (filter (\<lambda>node. phase_of (lp_phases (initial_loop_state nodes)) (wn_name node) = NodeRunning) nodes)"
    unfolding running_count_def assms(1) [symmetric] by (simp add: filter_map o_def)
  also have "\<dots> = length (filter (\<lambda>node. wn_phase node = NodeRunning) nodes)"
    using p by (intro arg_cong [where f = length] filter_cong) auto
  finally show ?thesis using assms p by (simp add: nodes_match_def initial_loop_state_def)
qed

lemma advance_loops_simulates:
  assumes "map wn_name (ws_nodes (wf_status wfl)) = graph_order g" and "graph_fit g"
  shows "simulates g (wsp_max_parallel (wf_spec wfl)) [] (initial_loop_state (ws_nodes (wf_status wfl)))
    (advance_loops E wfl g children w)"
proof -
  let ?nodes = "ws_nodes (wf_status wfl)" and ?mx = "wsp_max_parallel (wf_spec wfl)"
  let ?st = "initial_loop_state ?nodes"
  have "nodes_match g ([] @ ?nodes) ?st"
    using initial_loop_state_match assms by (simp add: graph_fit_def)
  from sync_running_simulates [OF this assms(2)]
  have sync: "simulates g ?mx [] ?st (sync_running E wfl g children ?nodes ?st w)" .
  obtain nodes1 st1 e w1 where r: "sync_running E wfl g children ?nodes ?st w = (nodes1, st1, e, w1)"
    by (metis prod_cases4)
  show ?thesis
  proof (cases e)
    case LoopDone
    from sync r have m: "nodes_match g ([] @ nodes1) st1"
      and s: "node_steps g ?mx (phase_of (lp_phases ?st)) (phase_of (lp_phases st1))"
      by (simp_all add: simulates_def)
    from simulates_step [OF s schedule_pending_simulates [OF m assms(2)]]
    show ?thesis by (simp add: advance_loops_def r LoopDone)
  qed (use sync r in \<open>simp_all add: advance_loops_def\<close>)
qed

end
