(* ===== verification/Sample.thy ===== *)
theory Sample
  imports WorkflowCtl
begin

text \<open>
  A small API server held in memory.  It shows that the theorems about the controllers, which
  hold for every client, speak about something: the witnesses run the model against it.
\<close>

record cluster =
  cl_workflows :: "(string, workflow) gomap"
  cl_tasks :: "(string, task) gomap"
  cl_jobs :: "(string, job) gomap"

definition empty_cluster :: cluster where
  "empty_cluster = \<lparr>cl_workflows = [], cl_tasks = [], cl_jobs = []\<rparr>"

abbreviation missing :: "string \<Rightarrow> api_error" where
  "missing name \<equiv> ApiError NotFound (name @ '' not found'')"

definition lookup :: "(string, 'a) gomap \<Rightarrow> string \<Rightarrow> 'c \<Rightarrow> (api_error + 'a) \<times> 'c" where
  "lookup m name c = (case gm_get m name of None \<Rightarrow> (Inl (missing name), c) | Some x \<Rightarrow> (Inr x, c))"

definition has_labels :: "(string, string) gomap \<Rightarrow> object_meta \<Rightarrow> bool" where
  "has_labels want meta \<longleftrightarrow> list_all (\<lambda>(k, v). gm_get (om_labels meta) k = Some v) want"

definition sample_controlled :: "object_meta \<Rightarrow> object_meta \<Rightarrow> bool" where
  "sample_controlled obj owner \<longleftrightarrow>
     list_ex (\<lambda>r. or_controller r \<and> or_uid r = om_uid owner) (om_owner_references obj)"

definition sample_reference :: "object_meta \<Rightarrow> object_meta \<Rightarrow> string + object_meta" where
  "sample_reference owner obj = Inr (obj\<lparr>om_owner_references := om_owner_references obj @
     [\<lparr>or_api_version = [], or_kind = [], or_name = om_name owner, or_uid = om_uid owner,
       or_controller = True\<rparr>]\<rparr>)"

definition minute :: duration where "minute = 60 * second"

definition sample_cron :: "string \<Rightarrow> (time \<Rightarrow> time) option" where
  "sample_cron s = (if s = ''* * * * *'' then Some (\<lambda>t. (t div minute + 1) * minute)
                    else if s = ''0 0 30 2 *'' then Some (\<lambda>t. zero_time) else None)"

definition sample_kube :: "cluster kube" where
  "sample_kube = \<lparr>
     k_get_workflow = (\<lambda>n c. lookup (cl_workflows c) n c),
     k_update_workflow = (\<lambda>x c. (Inr x, c\<lparr>cl_workflows := gm_put (wf_name x) x (cl_workflows c)\<rparr>)),
     k_update_workflow_status = (\<lambda>x c. (Inr x, c\<lparr>cl_workflows := gm_put (wf_name x) x (cl_workflows c)\<rparr>)),
     k_get_task = (\<lambda>n c. lookup (cl_tasks c) n c),
     k_list_tasks = (\<lambda>l c. (Inr (filter (\<lambda>t. has_labels l (tk_meta t)) (map snd (cl_tasks c))), c)),
     k_create_task = (\<lambda>t c. if gm_get (cl_tasks c) (tk_name t) = None
        then (Inr t, c\<lparr>cl_tasks := gm_put (tk_name t) t (cl_tasks c)\<rparr>)
        else (Inl (ApiError AlreadyExists (tk_name t @ '' already exists'')), c)),
     k_update_task = (\<lambda>t c. (Inr t, c\<lparr>cl_tasks := gm_put (tk_name t) t (cl_tasks c)\<rparr>)),
     k_update_task_status = (\<lambda>t c. (Inr t, c\<lparr>cl_tasks := gm_put (tk_name t) t (cl_tasks c)\<rparr>)),
     k_delete_task = (\<lambda>t uid c. (None, c\<lparr>cl_tasks := gm_del (tk_name t) (cl_tasks c)\<rparr>)),
     k_list_jobs = (\<lambda>ns l c. (Inr (filter (\<lambda>j. om_namespace (jb_meta j) = ns \<and> has_labels l (jb_meta j))
        (map snd (cl_jobs c))), c)),
     k_create_job = (\<lambda>j c. if gm_get (cl_jobs c) (jb_name j) = None
        then (Inr j, c\<lparr>cl_jobs := gm_put (jb_name j) j (cl_jobs c)\<rparr>)
        else (Inl (ApiError AlreadyExists (jb_name j @ '' already exists'')), c)),
     k_delete_job = (\<lambda>j c. (None, c\<lparr>cl_jobs := gm_del (jb_name j) (cl_jobs c)\<rparr>)),
     k_is_controlled_by = sample_controlled,
     k_set_controller_reference = sample_reference,
     k_contains_finalizer = (\<lambda>m f. f \<in> set (om_finalizers m)),
     k_add_finalizer = (\<lambda>m f. m\<lparr>om_finalizers := om_finalizers m @ [f]\<rparr>),
     k_remove_finalizer = (\<lambda>m f. m\<lparr>om_finalizers := removeAll f (om_finalizers m)\<rparr>),
     k_parse_cron = sample_cron\<rparr>"

definition sample_env :: "cluster wf_env" where
  "sample_env = \<lparr>we_kube = sample_kube, we_now = (\<lambda>_. 0), we_visit = (\<lambda>ks. ks)\<rparr>"

definition sample_workflow :: "workflow_spec \<Rightarrow> workflow" where
  "sample_workflow spec = \<lparr>wf_api_version = [], wf_kind = [],
     wf_meta = empty_meta\<lparr>om_name := ''wf'', om_uid := ''u1'', om_finalizers := [workflow_finalizer]\<rparr>,
     wf_spec = spec, wf_status = empty_workflow_status\<rparr>"

definition finish_tasks :: "task_phase \<Rightarrow> cluster \<Rightarrow> cluster" where
  "finish_tasks p c = c\<lparr>cl_tasks := map (\<lambda>(n, t). (n, t\<lparr>tk_status := (tk_status t)\<lparr>st_phase := p\<rparr>\<rparr>)) (cl_tasks c)\<rparr>"

end
