(* ===== verification/WorkflowRuns.thy ===== *)
theory WorkflowRuns
  imports WorkflowNodes Sample
begin

text \<open>
  The properties of scheduling, over whole lives of a Workflow: \<open>run_passes\<close> is any sequence of
  passes of \<open>reconcileGraph\<close> over one accepted graph, each against whatever the API server
  then answers, with or without the status being stored afterwards.
\<close>

section \<open>Status initialisation\<close>

lemma init_node_name: "gm_get existing n = Some node \<Longrightarrow> wn_name node = n \<Longrightarrow> wn_name (init_node existing n) = n"
  by (simp add: init_node_def)

definition nodes_by_name :: "workflow_node_status list \<Rightarrow> (string, workflow_node_status) gomap" where
  "nodes_by_name nodes = foldl (\<lambda>m node. gm_put (wn_name node) node m) gm_empty nodes"

lemma nodes_by_name_snoc:
  "nodes_by_name (nodes @ [node]) = gm_put (wn_name node) node (nodes_by_name nodes)"
  by (simp add: nodes_by_name_def)

lemma nodes_by_name_Some:
  "gm_get (nodes_by_name nodes) n = Some node \<Longrightarrow> wn_name node = n \<and> node \<in> set nodes"
proof (induction nodes rule: rev_induct)
  case Nil
  then show ?case by (simp add: nodes_by_name_def gm.get_emp)
next
  case (snoc x xs)
  then show ?case by (auto simp: nodes_by_name_snoc gm.get_put split: if_splits)
qed

lemma nodes_by_name_distinct:
  "distinct (map wn_name nodes) \<Longrightarrow> node \<in> set nodes \<Longrightarrow> gm_get (nodes_by_name nodes) (wn_name node) = Some node"
proof (induction nodes rule: rev_induct)
  case Nil
  then show ?case by simp
next
  case (snoc x xs)
  show ?case
  proof (cases "node = x")
    case True
    then show ?thesis by (simp add: nodes_by_name_snoc gm.get_put)
  next
    case False
    with snoc.prems have n: "node \<in> set xs" by simp
    moreover have "wn_name x \<notin> wn_name ` set xs" using snoc.prems by simp
    ultimately have "wn_name node \<noteq> wn_name x" by (metis imageI)
    with n snoc show ?thesis by (simp add: nodes_by_name_snoc gm.get_put)
  qed
qed

lemma init_nodes_names: "map wn_name (map (init_node (nodes_by_name nodes)) ns) = ns"
  by (induction ns) (auto simp: init_node_def dest: nodes_by_name_Some split: option.splits)

definition status_nodes :: "workflow \<Rightarrow> workflow_node_status list" where
  "status_nodes wfl = ws_nodes (wf_status wfl)"

lemma initialize_status_nodes:
  "status_nodes (fst (initialize_status now wfl g)) =
   map (init_node (nodes_by_name (status_nodes wfl))) (graph_order g)"
  by (auto simp: initialize_status_def status_nodes_def nodes_by_name_def Let_def)

lemma initialize_status_keeps [simp]:
  "wf_spec (fst (initialize_status now wfl g)) = wf_spec wfl"
  "wf_meta (fst (initialize_status now wfl g)) = wf_meta wfl"
  "ws_phase (wf_status (fst (initialize_status now wfl g))) = WorkflowRunning"
  by (simp_all add: initialize_status_def Let_def)

definition fresh_or_match :: "graph \<Rightarrow> workflow_node_status list \<Rightarrow> bool" where
  "fresh_or_match g nodes \<longleftrightarrow> nodes = [] \<or> map wn_name nodes = graph_order g"

definition proper :: "node_phase \<Rightarrow> bool" where
  "proper p \<longleftrightarrow> p = NodePending \<or> p = NodeRunning \<or> node_terminal p"

lemma init_nodes_match:
  assumes "map wn_name nodes = graph_order g" and "distinct (graph_order g)"
    and "\<forall>node \<in> set nodes. wn_phase node \<noteq> NodePhaseOther []"
  shows "map (init_node (nodes_by_name nodes)) (graph_order g) = nodes"
proof -
  have "init_node (nodes_by_name nodes) (wn_name node) = node" if "node \<in> set nodes" for node
    using nodes_by_name_distinct [OF _ that] that assms by (auto simp: init_node_def proper_def)
  then show ?thesis unfolding assms(1) [symmetric] by (simp add: map_idI)
qed

lemma init_nodes_fresh:
  "\<forall>node \<in> set (map (init_node (nodes_by_name [])) ns). wn_phase node = NodePending"
  by (simp add: init_node_def nodes_by_name_def gm.get_emp)

definition fresh_node :: "string \<Rightarrow> workflow_node_status" where
  "fresh_node name = \<lparr>wn_name = name, wn_phase = NodePending, wn_task_name = [], wn_start_time = None,
     wn_completion_time = None, wn_message = []\<rparr>"

lemma init_node_cases:
  "let known = {node \<in> set nodes. wn_name node = n}; node' = init_node (nodes_by_name nodes) n in
   if known = {} then node' = fresh_node n
   else \<exists>node \<in> known. node' = node \<or> wn_phase node = NodePhaseOther [] \<and> node' = node\<lparr>wn_phase := NodePending\<rparr>"
proof (cases "gm_get (nodes_by_name nodes) n")
  case None
  have "n \<notin> wn_name ` set nodes"
  proof -
    have "wn_name ` set nodes = set (gm_keys (nodes_by_name nodes))"
      by (induction nodes rule: rev_induct)
        (auto simp: nodes_by_name_snoc gm.set_keys_put nodes_by_name_def gm.keys_emp)
    then show ?thesis using None gm.keys_get [of n "nodes_by_name nodes"] by simp
  qed
  then have "{node \<in> set nodes. wn_name node = n} = {}" by auto
  with None show ?thesis by (simp add: init_node_def fresh_node_def)
next
  case (Some node)
  then have "node \<in> set nodes" "wn_name node = n" by (auto dest: nodes_by_name_Some)
  with Some show ?thesis by (auto simp: init_node_def Let_def)
qed

lemma init_node_not_blank: "wn_phase (init_node existing n) \<noteq> NodePhaseOther []"
  by (auto simp: init_node_def split: option.splits)

lemma initialize_status_again:
  assumes "ws_phase (wf_status wfl) = WorkflowRunning" and "ws_start_time (wf_status wfl) \<noteq> None"
    and "ws_observed_generation (wf_status wfl) = om_generation (wf_meta wfl)"
    and "map (init_node (nodes_by_name (status_nodes wfl))) (graph_order g) = status_nodes wfl"
  shows "initialize_status now wfl g = (wfl, False)"
  using assms by (simp add: initialize_status_def Let_def status_nodes_def nodes_by_name_def)

lemma initialize_status_fields:
  "ws_start_time (wf_status (fst (initialize_status now wfl g))) \<noteq> None"
  "ws_observed_generation (wf_status (fst (initialize_status now wfl g))) = om_generation (wf_meta wfl)"
  by (simp_all add: initialize_status_def Let_def)

text \<open>
  \<open>initializeStatus\<close> gives the Workflow exactly the nodes of its graph in topological order:
  a node already known keeps its record (an empty phase becomes Pending), any other node is
  fresh, and nodes outside the graph are dropped.  The Workflow is Running at its current
  generation, and doing it again changes nothing.
\<close>

theorem initialize_status_correct:
  assumes "built_graph g" and "wfl' = fst (initialize_status now wfl g)"
  shows "map wn_name (status_nodes wfl') = graph_order g \<and>
    (\<forall>node' \<in> set (status_nodes wfl').
       let known = {node \<in> set (status_nodes wfl). wn_name node = wn_name node'} in
       if known = {} then node' = fresh_node (wn_name node')
       else \<exists>node \<in> known. node' = node \<or>
              wn_phase node = NodePhaseOther [] \<and> node' = node\<lparr>wn_phase := NodePending\<rparr>) \<and>
    ws_phase (wf_status wfl') = WorkflowRunning \<and>
    ws_observed_generation (wf_status wfl') = om_generation (wf_meta wfl) \<and>
    initialize_status now' wfl' g = (wfl', False)"
proof -
  let ?ns = "map (init_node (nodes_by_name (status_nodes wfl))) (graph_order g)"
  have nodes: "status_nodes wfl' = ?ns" by (simp add: assms(2) initialize_status_nodes)
  have names: "map wn_name ?ns = graph_order g" by (rule init_nodes_names)
  have "map (init_node (nodes_by_name ?ns)) (graph_order g) = ?ns"
    by (rule init_nodes_match [OF names dag.order_distinct [OF assms(1)]])
      (simp add: init_node_not_blank)
  then have again: "initialize_status now' wfl' g = (wfl', False)"
    by (intro initialize_status_again) (use initialize_status_fields in \<open>simp_all add: assms(2) initialize_status_nodes\<close>)
  have K: "let known = {node \<in> set (status_nodes wfl). wn_name node = wn_name node'} in
       if known = {} then node' = fresh_node (wn_name node')
       else \<exists>node \<in> known. node' = node \<or>
              wn_phase node = NodePhaseOther [] \<and> node' = node\<lparr>wn_phase := NodePending\<rparr>"
    if "node' \<in> set ?ns" for node'
  proof -
    from that obtain n where n: "node' = init_node (nodes_by_name (status_nodes wfl)) n" by auto
    have "wn_name node' = n" using init_nodes_names [of "status_nodes wfl" "[n]"] n by simp
    with init_node_cases [of "status_nodes wfl" n, folded n] show ?thesis by (simp only: Let_def)
  qed
  have "ws_phase (wf_status wfl') = WorkflowRunning"
    "ws_observed_generation (wf_status wfl') = om_generation (wf_meta wfl)"
    by (simp_all add: assms(2) initialize_status_fields)
  with again names show ?thesis unfolding nodes by (intro conjI ballI K)
qed

section \<open>Passes\<close>

fun run_passes :: "graph \<Rightarrow> workflow \<Rightarrow> ('w wf_env \<times> 'w \<times> bool) list \<Rightarrow> workflow" where
  "run_passes g wfl [] = wfl"
| "run_passes g wfl ((E, w, stored) # ps) =
     (case fst (graph_pass E wfl g w) of
        Inl _ \<Rightarrow> run_passes g wfl ps
      | Inr (wfl', _) \<Rightarrow> run_passes g (if stored then wfl' else wfl) ps)"

definition nodes_phases :: "workflow_node_status list \<Rightarrow> phase_map" where
  "nodes_phases nodes = phase_of (lp_phases (initial_loop_state nodes))"

lemma nodes_phases_node:
  "distinct (map wn_name nodes) \<Longrightarrow> node \<in> set nodes \<Longrightarrow> nodes_phases nodes (wn_name node) = wn_phase node"
  unfolding nodes_phases_def by (rule phase_of_initial)

lemma nodes_phases_outside: "n \<notin> wn_name ` set nodes \<Longrightarrow> nodes_phases nodes n = NodePhaseOther []"
proof -
  have "phase_of (foldl (\<lambda>m node. gm_put (wn_name node) (wn_phase node) m) m0 nodes) n = phase_of m0 n"
    if "n \<notin> wn_name ` set nodes" for m0
    using that by (induction nodes arbitrary: m0) (simp_all add: phase_of_put)
  then show "n \<notin> wn_name ` set nodes \<Longrightarrow> ?thesis"
    by (simp add: nodes_phases_def initial_loop_state_def phase_of_def gm_get_or_emp)
qed

lemma node_steps_outside:
  "node_steps g m P Q \<Longrightarrow> n \<notin> set (graph_order g) \<Longrightarrow> Q n = P n"
proof (induction rule: rtranclp_induct)
  case base
  show ?case by simp
next
  case (step Q R)
  from step(2) have "R n = Q n" using step.prems by (auto elim!: node_stepE)
  with step show ?case by simp
qed

lemma nodes_match_phases:
  assumes "nodes_match g nodes st" and "distinct (graph_order g)"
    and "\<And>n. n \<notin> set (graph_order g) \<Longrightarrow> phase_of (lp_phases st) n = NodePhaseOther []"
  shows "phase_of (lp_phases st) = nodes_phases nodes"
proof
  fix n
  have names: "map wn_name nodes = graph_order g" using assms(1) by (simp add: nodes_match_def)
  then have set: "wn_name ` set nodes = set (graph_order g)" by (metis set_map)
  show "phase_of (lp_phases st) n = nodes_phases nodes n"
  proof (cases "n \<in> set (graph_order g)")
    case True
    then obtain node where "node \<in> set nodes" "n = wn_name node" using set by auto
    then show ?thesis
      using assms(1,2) names nodes_phases_node [of nodes node] by (simp add: nodes_match_def)
  next
    case False
    then show ?thesis using assms(3) nodes_phases_outside [of n nodes] set by simp
  qed
qed

lemma built_graph_fit: "built_graph g \<Longrightarrow> graph_fit g"
  using dag.order_distinct dag.deps_named by (simp add: graph_fit_def named_deps_def)

lemma advance_loops_steps:
  assumes g: "built_graph g" and names: "map wn_name (status_nodes wfl) = graph_order g"
    and loops: "advance_loops E wfl g children w = (nodes, st, e, w')"
  shows "map wn_name nodes = graph_order g" "nodes_match g nodes st"
    "node_steps g (wsp_max_parallel (wf_spec wfl)) (nodes_phases (status_nodes wfl)) (nodes_phases nodes)"
proof -
  let ?m = "wsp_max_parallel (wf_spec wfl)"
  have d: "distinct (graph_order g)" using g by (rule dag.order_distinct)
  from advance_loops_simulates [OF names [unfolded status_nodes_def] built_graph_fit [OF g],
      of E children w] loops
  have m: "nodes_match g nodes st"
    and s: "node_steps g ?m (nodes_phases (status_nodes wfl)) (phase_of (lp_phases st))"
    by (simp_all add: simulates_def nodes_phases_def status_nodes_def)
  show "map wn_name nodes = graph_order g" "nodes_match g nodes st"
    using m by (simp_all add: nodes_match_def)
  have "phase_of (lp_phases st) n = NodePhaseOther []" if "n \<notin> set (graph_order g)" for n
    using node_steps_outside [OF s that] nodes_phases_outside [of n "status_nodes wfl"] that
    by (simp flip: names)
  with s nodes_match_phases [OF m d]
  show "node_steps g ?m (nodes_phases (status_nodes wfl)) (nodes_phases nodes)" by simp
qed

lemma summarize_keeps [simp]:
  "status_nodes (fst (summarize now wfl)) = status_nodes wfl"
  "wf_spec (fst (summarize now wfl)) = wf_spec wfl"
  "wf_meta (fst (summarize now wfl)) = wf_meta wfl"
  by (simp_all add: summarize_def status_nodes_def Let_def)

lemma fail_workflow_keeps [simp]:
  "status_nodes (fst (fail_workflow now wfl m)) = status_nodes wfl"
  "wf_spec (fst (fail_workflow now wfl m)) = wf_spec wfl"
  "wf_meta (fst (fail_workflow now wfl m)) = wf_meta wfl"
  "ws_phase (wf_status (fst (fail_workflow now wfl m))) = WorkflowFailed"
  by (simp_all add: fail_workflow_def status_nodes_def Let_def)

lemma advance_nodes_cases:
  assumes "advance_nodes E wfl g w = (Inr (wfl', changed), w')"
  obtains children w1 nodes st e where "advance_loops E wfl g children w1 = (nodes, st, e, w')"
    "status_nodes wfl' = nodes" "wf_spec wfl' = wf_spec wfl" "wf_meta wfl' = wf_meta wfl"
    "e = LoopDone \<and> wfl' = with_nodes wfl nodes \<or>
     (\<exists>m. e = LoopConflict m) \<and> ws_phase (wf_status wfl') = WorkflowFailed"
proof -
  from assms obtain children w1 where c: "list_child_tasks (we_kube E) wfl w = (Inr children, w1)"
    by (auto simp: advance_nodes_def split: prod.splits sum.splits)
  obtain nodes st e w2 where l: "advance_loops E wfl g children w1 = (nodes, st, e, w2)"
    by (metis prod_cases4)
  have w2: "w2 = w'"
    using assms c l by (auto simp: advance_nodes_def split: loop_end.splits prod.splits)
  show ?thesis
    using assms c by (intro that [OF l [unfolded w2]])
      (auto simp: advance_nodes_def l status_nodes_def fail_workflow_def Let_def
        split: loop_end.splits prod.splits if_splits)
qed

lemma graph_pass_cases:
  assumes "graph_pass E wfl g w = (Inr (wfl', changed), w')"
  obtains children w1 nodes st e wf1 where "wf1 = fst (initialize_status (we_now E NowStart) wfl g)"
    "advance_loops E wf1 g children w1 = (nodes, st, e, w')"
    "status_nodes wfl' = nodes" "wf_spec wfl' = wf_spec wfl" "wf_meta wfl' = wf_meta wfl"
    "e = LoopDone \<and> wfl' = fst (summarize (we_now E NowSummary) (with_nodes wf1 nodes)) \<or>
     (\<exists>m. e = LoopConflict m) \<and> ws_phase (wf_status wfl') = WorkflowFailed"
proof -
  let ?wf1 = "fst (initialize_status (we_now E NowStart) wfl g)"
  from assms obtain wf2 adv where a: "advance_nodes E ?wf1 g w = (Inr (wf2, adv), w')"
    and s: "wfl' = fst (summarize (we_now E NowSummary) wf2)"
    by (auto simp: graph_pass_def split: prod.splits sum.splits)
  from a obtain children w1 nodes st e where
    l: "advance_loops E ?wf1 g children w1 = (nodes, st, e, w')" and n: "status_nodes wf2 = nodes"
    and k: "wf_spec wf2 = wf_spec ?wf1" "wf_meta wf2 = wf_meta ?wf1"
    and e: "e = LoopDone \<and> wf2 = with_nodes ?wf1 nodes \<or>
      (\<exists>m. e = LoopConflict m) \<and> ws_phase (wf_status wf2) = WorkflowFailed"
    by (rule advance_nodes_cases)
  have failed: "ws_phase (wf_status wf2) = WorkflowFailed \<Longrightarrow> wfl' = wf2"
    by (simp add: s summarize_def is_workflow_terminal_def)
  show ?thesis
    by (rule that [OF refl l]) (use n k e s failed in auto)
qed

definition all_pending :: "graph \<Rightarrow> phase_map" where
  "all_pending g n = (if n \<in> set (graph_order g) then NodePending else NodePhaseOther [])"

text \<open>What every Workflow that started fresh on the graph keeps true.\<close>

definition alive :: "graph \<Rightarrow> int \<Rightarrow> workflow \<Rightarrow> bool" where
  "alive g m wfl \<longleftrightarrow> wsp_max_parallel (wf_spec wfl) = m \<and>
     (status_nodes wfl = [] \<or>
      map wn_name (status_nodes wfl) = graph_order g \<and>
      node_steps g m (all_pending g) (nodes_phases (status_nodes wfl)))"

lemma proper_step: "node_step g m P Q \<Longrightarrow> proper (P n) \<Longrightarrow> proper (Q n)"
  by (auto simp: proper_def elim!: node_stepE split: if_splits)

lemma proper_steps: "node_steps g m P Q \<Longrightarrow> proper (P n) \<Longrightarrow> proper (Q n)"
proof (induction rule: rtranclp_induct)
  case base
  then show ?case by simp
next
  case (step Q R)
  then show ?case using proper_step [OF step(2)] by simp
qed

lemma alive_proper:
  assumes "alive g m wfl" and "built_graph g" and "node \<in> set (status_nodes wfl)"
  shows "proper (wn_phase node)"
proof -
  from assms have names: "map wn_name (status_nodes wfl) = graph_order g"
    and s: "node_steps g m (all_pending g) (nodes_phases (status_nodes wfl))"
    by (auto simp: alive_def)
  have "wn_name node \<in> set (graph_order g)" using assms(3) names by (metis image_eqI set_map)
  then have "proper (nodes_phases (status_nodes wfl) (wn_name node))"
    by (intro proper_steps [OF s]) (simp add: all_pending_def proper_def)
  then show ?thesis
    using nodes_phases_node [OF _ assms(3)] names dag.order_distinct [OF assms(2)] by simp
qed

lemma proper_not_blank: "proper p \<Longrightarrow> p \<noteq> NodePhaseOther []"
  by (auto simp: proper_def)

text \<open>A pass starts from the nodes as they are, or from a fresh list.\<close>

lemma alive_initialize:
  assumes "alive g m wfl" and "built_graph g"
  shows "map wn_name (status_nodes (fst (initialize_status now wfl g))) = graph_order g"
    "node_steps g m (all_pending g) (nodes_phases (status_nodes (fst (initialize_status now wfl g))))"
    "status_nodes wfl \<noteq> [] \<Longrightarrow> status_nodes (fst (initialize_status now wfl g)) = status_nodes wfl"
proof -
  let ?ns = "map (init_node (nodes_by_name (status_nodes wfl))) (graph_order g)"
  have d: "distinct (graph_order g)" using assms(2) by (rule dag.order_distinct)
  show names: "map wn_name (status_nodes (fst (initialize_status now wfl g))) = graph_order g"
    unfolding initialize_status_nodes by (rule init_nodes_names)
  show keep: "status_nodes (fst (initialize_status now wfl g)) = status_nodes wfl" if "status_nodes wfl \<noteq> []"
    unfolding initialize_status_nodes
    by (rule init_nodes_match) (use assms that d alive_proper proper_not_blank in \<open>auto simp: alive_def\<close>)
  show "node_steps g m (all_pending g) (nodes_phases (status_nodes (fst (initialize_status now wfl g))))"
  proof (cases "status_nodes wfl = []")
    case False
    with keep assms show ?thesis by (simp add: alive_def)
  next
    case True
    have "nodes_phases ?ns = all_pending g"
    proof
      fix n
      show "nodes_phases ?ns n = all_pending g n"
      proof (cases "n \<in> set (graph_order g)")
        case t: True
        let ?node = "init_node (nodes_by_name (status_nodes wfl)) n"
        have "wn_name ?node = n" "wn_phase ?node = NodePending"
          using True by (simp_all add: init_node_def nodes_by_name_def gm.get_emp)
        moreover have "?node \<in> set ?ns" using t by simp
        moreover have "distinct (map wn_name ?ns)" unfolding init_nodes_names by (rule d)
        ultimately show ?thesis using nodes_phases_node [of ?ns ?node] t by (simp add: all_pending_def)
      next
        case False
        have "wn_name ` set ?ns = set (graph_order g)" by (metis init_nodes_names set_map)
        then show ?thesis using False nodes_phases_outside [of n ?ns] by (simp add: all_pending_def)
      qed
    qed
    then show ?thesis by (simp add: initialize_status_nodes)
  qed
qed

lemma graph_pass_alive:
  assumes "graph_pass E wfl g w = (Inr (wfl', changed), w')" and "alive g m wfl" and "built_graph g"
  shows "alive g m wfl'" "status_nodes wfl' \<noteq> [] \<or> graph_order g = []"
proof -
  from assms(1) obtain children w1 nodes st e wf1 where
    wf1: "wf1 = fst (initialize_status (we_now E NowStart) wfl g)"
    and l: "advance_loops E wf1 g children w1 = (nodes, st, e, w')"
    and n: "status_nodes wfl' = nodes" and k: "wf_spec wfl' = wf_spec wfl"
    by (rule graph_pass_cases)
  note i = alive_initialize [OF assms(2,3), of "we_now E NowStart", folded wf1]
  have mx: "wsp_max_parallel (wf_spec wf1) = m" using assms(2) by (simp add: wf1 alive_def)
  note s = advance_loops_steps [OF assms(3) i(1) l, unfolded mx]
  have "node_steps g m (all_pending g) (nodes_phases nodes)" using i(2) s(3) by (rule rtranclp_trans)
  with s(1) n k assms(2) show "alive g m wfl'" by (simp add: alive_def)
  show "status_nodes wfl' \<noteq> [] \<or> graph_order g = []" using s(1) n by auto
qed

lemma run_passes_alive:
  "alive g m wfl \<Longrightarrow> built_graph g \<Longrightarrow> alive g m (run_passes g wfl ps)"
proof (induction g wfl ps rule: run_passes.induct)
  case (1 g wfl)
  then show ?case by simp
next
  case (2 g wfl E w stored ps)
  show ?case
  proof (cases "graph_pass E wfl g w")
    case (Pair r w')
    show ?thesis
    proof (cases r)
      case (Inl e)
      with 2 Pair show ?thesis by simp
    next
      case (Inr p)
      obtain wfl' c where p: "p = (wfl', c)" by (metis surj_pair)
      have "alive g m wfl'" using graph_pass_alive [of E wfl g w wfl' c w'] Pair Inr p 2 by simp
      with 2 Pair Inr p show ?thesis by simp
    qed
  qed
qed

section \<open>What a loop leaves alone\<close>

lemma fst_cons_node [simp]: "fst (cons_node node r) = node # fst r" "snd (cons_node node r) = snd r"
  by (simp_all add: cons_node_def)

lemma sync_running_keeps:
  "list_all2 (\<lambda>n n'. wn_phase n \<noteq> NodeRunning \<longrightarrow> n' = n) nodes (fst (sync_running E wfl g children nodes st w))"
proof (induction nodes arbitrary: st w)
  case Nil
  show ?case by simp
next
  case (Cons node nodes)
  then show ?case by (auto simp: Let_def list_all2_refl split: option.splits prod.splits sum.splits)
qed

lemma schedule_pending_keeps:
  "list_all2 (\<lambda>n n'. wn_phase n \<noteq> NodePending \<longrightarrow> n' = n) nodes (fst (schedule_pending E wfl g nodes st w))"
proof (induction nodes arbitrary: st w)
  case Nil
  show ?case by simp
next
  case (Cons node nodes)
  then show ?case
    by (auto simp: Let_def list_all2_refl split: prod.splits sum.splits node_action.splits)
qed

lemma advance_loops_keeps:
  assumes "advance_loops E wfl g children w = (nodes, st, e, w')"
  shows "list_all2 (\<lambda>n n'. node_terminal (wn_phase n) \<longrightarrow> n' = n) (status_nodes wfl) nodes"
proof -
  let ?ns = "ws_nodes (wf_status wfl)"
  obtain nodes1 st1 e1 w1 where s: "sync_running E wfl g children ?ns (initial_loop_state ?ns) w = (nodes1, st1, e1, w1)"
    by (metis prod_cases4)
  have 1: "list_all2 (\<lambda>n n'. wn_phase n \<noteq> NodeRunning \<longrightarrow> n' = n) ?ns nodes1"
    using sync_running_keeps [of ?ns E wfl g children "initial_loop_state ?ns" w] s by simp
  have 2: "list_all2 (\<lambda>n n'. wn_phase n \<noteq> NodePending \<longrightarrow> n' = n) nodes1 nodes \<or> nodes = nodes1"
    using assms s schedule_pending_keeps [of nodes1 E wfl g st1 w1]
    by (auto simp: advance_loops_def split: loop_end.splits)
  have 3: "list_all2 (\<lambda>n n'. wn_phase n \<noteq> NodePending \<longrightarrow> n' = n) nodes1 nodes"
    using 2 by (auto simp: list_all2_refl)
  show ?thesis unfolding status_nodes_def
    by (rule list_all2_trans [OF _ 1 3]) auto
qed

section \<open>No pass gets stuck\<close>

lemma decide_not_wait:
  assumes "graph_task g n \<noteq> None" and "\<forall>d \<in> set (graph_deps g n). node_terminal (phase_of phases d)"
  shows "fst (decide_node g phases n) \<noteq> NodeWait"
  using assms by (auto simp: decide_node_eq Let_def split: if_splits)

lemma schedule_pending_no_stall:
  assumes g: "built_graph g"
    and loop: "schedule_pending E wfl g nodes st w = (nodes', st', LoopDone, w')"
    and m: "nodes_match g (pre @ nodes) st"
    and pre: "\<forall>node \<in> set pre. node_terminal (wn_phase node)"
    and ph: "\<forall>node \<in> set nodes. wn_phase node = NodePending \<or> node_terminal (wn_phase node)"
    and stop: "\<forall>node \<in> set nodes'. wn_phase node \<noteq> NodeRunning"
  shows "\<forall>node \<in> set nodes'. node_terminal (wn_phase node)"
  using loop m pre ph stop
proof (induction nodes arbitrary: pre st w nodes')
  case Nil
  then show ?case by simp
next
  case (Cons node nodes)
  note fit = built_graph_fit [OF g]
  have names: "graph_order g = map wn_name pre @ wn_name node # map wn_name nodes"
    using Cons.prems(2) by (simp add: nodes_match_def)
  show ?case
  proof (cases "wn_phase node = NodePending")
    case False
    then have t: "node_terminal (wn_phase node)" using Cons.prems(4) by simp
    from False Cons.prems(1) obtain ns where ns: "schedule_pending E wfl g nodes st w = (ns, st', LoopDone, w')"
      "nodes' = node # ns"
      by (cases "schedule_pending E wfl g nodes st w") (auto simp: cons_node_def)
    have "\<forall>x \<in> set ns. node_terminal (wn_phase x)"
      by (intro Cons.IH [OF ns(1), of "pre @ [node]"]) (use Cons.prems(2-5) t ns(2) in simp_all)
    with t ns(2) show ?thesis by simp
  next
    case pend: True
    have known: "graph_task g (wn_name node) \<noteq> None"
      using dag.order_task [OF g, of "wn_name node"] names by simp
    have deps: "\<forall>d \<in> set (graph_deps g (wn_name node)). node_terminal (phase_of (lp_phases st) d)"
    proof
      fix d assume "d \<in> set (graph_deps g (wn_name node))"
      then obtain x where x: "x \<in> set pre" "d = wn_name x" using dag.order_deps [OF g names] by auto
      then have "phase_of (lp_phases st) d = wn_phase x" using Cons.prems(2) by (simp add: nodes_match_def)
      then show "node_terminal (phase_of (lp_phases st) d)" using x(1) Cons.prems(3) by simp
    qed
    have "running_count g (phase_of (lp_phases st)) = 0"
    proof -
      have "phase_of (lp_phases st) n \<noteq> NodeRunning" if "n \<in> set (graph_order g)" for n
      proof -
        from that names obtain x where x: "x \<in> set (pre @ node # nodes)" "n = wn_name x" by auto
        then have "phase_of (lp_phases st) n = wn_phase x"
          using Cons.prems(2) unfolding nodes_match_def by blast
        then show ?thesis using x(1) Cons.prems(3,4) pend by auto
      qed
      then show ?thesis by (simp add: running_count_def filter_empty_conv)
    qed
    then have free: "lp_running st = 0" using Cons.prems(2) by (simp add: nodes_match_def)
    obtain act reason where dec: "decide_node g (lp_phases st) (wn_name node) = (act, reason)"
      by (metis surj_pair)
    have "act \<noteq> NodeWait" using decide_not_wait [OF known deps] dec by simp
    then show ?thesis
    proof (cases act)
      case NodeSkip
      let ?node' = "mark_node_skipped (we_now E (NowNodeSkipped (wn_name node))) node reason"
      let ?st' = "st\<lparr>lp_phases := gm_put (wn_name ?node') (wn_phase ?node') (lp_phases st), lp_changed := True\<rparr>"
      have "nodes_match g (pre @ ?node' # nodes) ?st'"
        using skip_simulates [OF Cons.prems(2) fit pend _ refl refl] dec NodeSkip by simp
      moreover obtain ns where ns: "schedule_pending E wfl g nodes ?st' w = (ns, st', LoopDone, w')"
        "nodes' = ?node' # ns"
        using Cons.prems(1) pend dec NodeSkip
        by (cases "schedule_pending E wfl g nodes ?st' w") (auto simp: cons_node_def Let_def)
      ultimately have "\<forall>x \<in> set ns. node_terminal (wn_phase x)"
        by (intro Cons.IH [OF ns(1), of "pre @ [?node']"]) (use Cons.prems(3-5) in simp_all)
      with ns(2) show ?thesis by simp
    next
      case NodeReady
      obtain r w1 where c: "create_child_task (we_kube E) wfl g (wn_name node) w = (r, w1)"
        by (metis surj_pair)
      with Cons.prems(1) pend dec NodeReady free obtain child where r: "r = Inr child"
        by (cases r) (auto simp: stop_loop_def split: ctl_error.splits if_splits)
      obtain node' synced where s: "sync_node_from_task (we_now E (NowNodeDone (wn_name node)))
          (mark_node_running (we_now E (NowNodeStart (wn_name node))) node child) child = (node', synced)"
        by (metis surj_pair)
      let ?st' = "\<lparr>lp_phases = gm_put (wn_name node') (wn_phase node') (lp_phases st),
        lp_running = (if synced then lp_running st else lp_running st + 1), lp_changed = True\<rparr>"
      have "wsp_max_parallel (wf_spec wfl) \<le> 0 \<or> lp_running st < wsp_max_parallel (wf_spec wfl)"
        using free by simp linarith
      then have "nodes_match g (pre @ node' # nodes) ?st'"
        using start_simulates [OF Cons.prems(2) fit pend _ _ s refl] dec NodeReady by simp
      moreover obtain ns where ns: "schedule_pending E wfl g nodes ?st' w1 = (ns, st', LoopDone, w')"
        "nodes' = node' # ns"
        using Cons.prems(1) pend dec NodeReady c r s free
        by (cases "schedule_pending E wfl g nodes ?st' w1") (auto simp: cons_node_def Let_def split: if_splits)
      moreover have t: "node_terminal (wn_phase node')"
      proof -
        have "wn_phase (mark_node_running (we_now E (NowNodeStart (wn_name node))) node child) = NodeRunning"
          by simp
        with s show ?thesis
        proof (cases rule: sync_node_cases)
          case stays
          then show ?thesis using Cons.prems(5) ns by simp
        qed auto
      qed
      ultimately have "\<forall>x \<in> set ns. node_terminal (wn_phase x)"
        by (intro Cons.IH [OF ns(1), of "pre @ [node']"]) (use Cons.prems(3-5) in simp_all)
      with t ns(2) show ?thesis by simp
    qed simp
  qed
qed

lemma advance_loops_no_stall:
  assumes g: "built_graph g" and names: "map wn_name (status_nodes wfl) = graph_order g"
    and ph: "\<forall>node \<in> set (status_nodes wfl). proper (wn_phase node)"
    and loop: "advance_loops E wfl g children w = (nodes, st, LoopDone, w')"
    and stop: "\<forall>node \<in> set nodes. wn_phase node \<noteq> NodeRunning"
  shows "\<forall>node \<in> set nodes. node_terminal (wn_phase node)"
proof -
  let ?ns = "status_nodes wfl"
  obtain nodes1 st1 e1 w1 where s: "sync_running E wfl g children ?ns (initial_loop_state ?ns) w = (nodes1, st1, e1, w1)"
    by (metis prod_cases4)
  with loop have e: "e1 = LoopDone" and s2: "schedule_pending E wfl g nodes1 st1 w1 = (nodes, st, LoopDone, w')"
    by (auto simp: advance_loops_def status_nodes_def split: loop_end.splits)
  have "nodes_match g ([] @ ?ns) (initial_loop_state ?ns)"
    using initial_loop_state_match [OF names dag.order_distinct [OF g]] by simp
  from sync_running_simulates [OF this built_graph_fit [OF g], of 0 E wfl children w] s
  have m: "nodes_match g ([] @ nodes1) st1"
    and steps: "node_steps g 0 (phase_of (lp_phases (initial_loop_state ?ns))) (phase_of (lp_phases st1))"
    by (simp_all add: simulates_def)
  have "\<forall>node \<in> set nodes1. wn_phase node = NodePending \<or> node_terminal (wn_phase node)"
  proof
    fix node assume n: "node \<in> set nodes1"
    have "wn_name ` set nodes1 = wn_name ` set ?ns"
      unfolding set_map [symmetric] names using m by (simp add: nodes_match_def flip: set_map)
    then have "wn_name node \<in> wn_name ` set ?ns" using n by blast
    then obtain x where x: "x \<in> set ?ns" "wn_name x = wn_name node" by auto
    have "proper (phase_of (lp_phases (initial_loop_state ?ns)) (wn_name node))"
    proof -
      have "distinct (map wn_name ?ns)" unfolding names using g by (rule dag.order_distinct)
      from phase_of_initial [OF this x(1)] show ?thesis using ph x by simp
    qed
    from proper_steps [OF steps this] have p: "proper (wn_phase node)"
      using m n by (simp add: nodes_match_def)
    obtain i where i: "i < length nodes1" "node = nodes1 ! i" using n by (metis in_set_conv_nth)
    have k: "list_all2 (\<lambda>n n'. wn_phase n \<noteq> NodePending \<longrightarrow> n' = n) nodes1 nodes"
      using schedule_pending_keeps [of nodes1 E wfl g st1 w1] s2 by simp
    then have "wn_phase node = NodePending \<or> nodes ! i = node" "i < length nodes"
      using i by (auto simp: list_all2_conv_all_nth)
    with stop have "wn_phase node \<noteq> NodeRunning" using nth_mem [of i nodes] by auto
    with p show "wn_phase node = NodePending \<or> node_terminal (wn_phase node)" by (auto simp: proper_def)
  qed
  with schedule_pending_no_stall [OF g s2 m] stop show ?thesis by simp
qed

lemma comprehension_filter: "[f x. x \<leftarrow> xs, Q x] = map f (filter Q xs)"
  by (induction xs) auto

section \<open>Properties\<close>

text \<open>
  A pass reaches a verdict only when every node has: as long as the Workflow is not terminal,
  \<open>summarize\<close> changes nothing while some node is not terminal; otherwise it sets Failed exactly
  when some node failed, naming the failed nodes in order, and Succeeded in every other case.
\<close>

theorem summarize_correct:
  assumes "\<not> is_workflow_terminal (ws_phase (wf_status wfl))"
  shows "let all_done = (\<forall>node \<in> set (status_nodes wfl). node_terminal (wn_phase node));
             failed = [wn_name node. node \<leftarrow> status_nodes wfl, wn_phase node = NodeFailed];
             st = wf_status (fst (summarize now wfl)) in
    status_nodes (fst (summarize now wfl)) = status_nodes wfl \<and>
    snd (summarize now wfl) = all_done \<and>
    (\<not> all_done \<longrightarrow> fst (summarize now wfl) = wfl) \<and>
    (all_done \<longrightarrow> ws_completion_time st = Some now \<and>
       (if failed = [] then ws_phase st = WorkflowSucceeded \<and> ws_message st = []
        else ws_phase st = WorkflowFailed \<and> ws_message st = ''nodes failed: '' @ join '', '' failed))"
proof -
  have eq: "[wn_name node. node \<leftarrow> status_nodes wfl, wn_phase node = NodeFailed] =
      map wn_name (filter (\<lambda>node. wn_phase node = NodeFailed) (ws_nodes (wf_status wfl)))"
    unfolding status_nodes_def by (rule comprehension_filter)
  show ?thesis unfolding eq Let_def
    using assms by (auto simp: summarize_def Let_def status_nodes_def filter_empty_conv)
qed

definition fresh_workflow :: "workflow \<Rightarrow> bool" where
  "fresh_workflow wfl \<longleftrightarrow> status_nodes wfl = []"

lemma fresh_alive: "fresh_workflow wfl \<Longrightarrow> alive g (wsp_max_parallel (wf_spec wfl)) wfl"
  by (simp add: fresh_workflow_def alive_def)

text \<open>
  C6. A positive \<open>maxParallel\<close> is a bound on the nodes that run at the same time: whatever
  passes a Workflow goes through, with whatever answers of the API server, and whichever of
  them are stored, its status never shows more Running nodes.
\<close>

theorem workflow_max_parallel:
  assumes "built_graph g" and "fresh_workflow wfl" and "0 < wsp_max_parallel (wf_spec wfl)"
  shows "int (length (filter (\<lambda>node. wn_phase node = NodeRunning) (status_nodes (run_passes g wfl ps))))
    \<le> wsp_max_parallel (wf_spec wfl)"
proof -
  let ?m = "wsp_max_parallel (wf_spec wfl)" and ?ns = "status_nodes (run_passes g wfl ps)"
  have "alive g ?m (run_passes g wfl ps)"
    using fresh_alive [OF assms(2)] assms(1) by (rule run_passes_alive)
  then consider "?ns = []" | "map wn_name ?ns = graph_order g" "node_steps g ?m (all_pending g) (nodes_phases ?ns)"
    by (auto simp: alive_def)
  then show ?thesis
  proof cases
    case 1
    with assms(3) show ?thesis by simp
  next
    case 2
    note d = dag.order_distinct [OF assms(1)]
    have "running_count g (all_pending g) = 0"
      by (auto simp: running_count_def all_pending_def filter_empty_conv)
    moreover have "running_count g (nodes_phases ?ns) = length (filter (\<lambda>node. wn_phase node = NodeRunning) ?ns)"
      using initial_loop_state_match [OF 2(1) d]
      by (simp add: nodes_match_def nodes_phases_def initial_loop_state_def)
    ultimately show ?thesis using running_count_steps [OF 2(2) d assms(3)] assms(3) by simp
  qed
qed

text \<open>
  C3. Dependencies are respected in every status a Workflow can reach: a node that has started
  (Running, Succeeded or Failed) has all its dependencies Succeeded, or, if it is a
  \<open>runOnFailure\<close> node, all of them terminal and one not successful; a node is Skipped only when
  a dependency did not succeed, or, for \<open>runOnFailure\<close>, when all succeeded.
\<close>

theorem workflow_dependencies_respected:
  assumes "built_graph g" and "fresh_workflow wfl"
    and "node \<in> set (status_nodes (run_passes g wfl ps))"
  shows "let P = nodes_phases (status_nodes (run_passes g wfl ps)) in
    P (wn_name node) = wn_phase node \<and>
    (started (wn_phase node) \<longrightarrow> may_start g P (wn_name node)) \<and>
    (wn_phase node = NodeSkipped \<longrightarrow> may_skip g P (wn_name node))"
proof -
  let ?m = "wsp_max_parallel (wf_spec wfl)" and ?ns = "status_nodes (run_passes g wfl ps)"
  have "alive g ?m (run_passes g wfl ps)"
    using fresh_alive [OF assms(2)] assms(1) by (rule run_passes_alive)
  with assms(3) have n: "map wn_name ?ns = graph_order g"
    and s: "node_steps g ?m (all_pending g) (nodes_phases ?ns)"
    by (auto simp: alive_def)
  have "justified g (all_pending g)" by (auto simp: justified_def all_pending_def)
  with s have "justified g (nodes_phases ?ns)" by (rule justified_steps)
  moreover have "wn_name node \<in> set (graph_order g)" using assms(3) n by (metis image_eqI set_map)
  moreover have "nodes_phases ?ns (wn_name node) = wn_phase node"
    using nodes_phases_node [OF _ assms(3)] n dag.order_distinct [OF assms(1)] by simp
  ultimately show ?thesis by (simp add: justified_def Let_def)
qed

lemma run_passes_append: "run_passes g wfl (ps @ qs) = run_passes g (run_passes g wfl ps) qs"
  by (induction g wfl ps rule: run_passes.induct) (auto split: sum.splits prod.splits)

lemma graph_pass_keeps_terminal:
  assumes "graph_pass E wfl g w = (Inr (wfl', changed), w')" and "alive g m wfl" and "built_graph g"
    and "node \<in> set (status_nodes wfl)" and "node_terminal (wn_phase node)"
  shows "node \<in> set (status_nodes wfl')"
proof -
  from assms(1) obtain children w1 nodes st e wf1 where
    wf1: "wf1 = fst (initialize_status (we_now E NowStart) wfl g)"
    and l: "advance_loops E wf1 g children w1 = (nodes, st, e, w')"
    and n: "status_nodes wfl' = nodes"
    by (rule graph_pass_cases)
  have "status_nodes wf1 = status_nodes wfl"
    unfolding wf1 by (rule alive_initialize(3) [OF assms(2,3)]) (use assms(4) in auto)
  with advance_loops_keeps [OF l] n
  have k: "list_all2 (\<lambda>n n'. node_terminal (wn_phase n) \<longrightarrow> n' = n) (status_nodes wfl) (status_nodes wfl')"
    by simp
  obtain i where "i < length (status_nodes wfl)" "node = status_nodes wfl ! i"
    using assms(4) by (metis in_set_conv_nth)
  with k assms(5) have "status_nodes wfl' ! i = node" "i < length (status_nodes wfl')"
    by (auto simp: list_all2_conv_all_nth)
  then show ?thesis by (metis nth_mem)
qed

lemma run_passes_keep:
  assumes "alive g m wfl" and "built_graph g" and "node \<in> set (status_nodes wfl)"
    and "node_terminal (wn_phase node)"
  shows "node \<in> set (status_nodes (run_passes g wfl ps))"
  using assms(1,3)
proof (induction ps arbitrary: wfl)
  case Nil
  then show ?case by simp
next
  case (Cons p ps)
  obtain E w stored where p: "p = (E, w, stored)" by (metis prod_cases3)
  obtain r w' where gp: "graph_pass E wfl g w = (r, w')" by (metis surj_pair)
  show ?case
  proof (cases r)
    case (Inl e)
    with Cons p gp show ?thesis by simp
  next
    case (Inr q)
    obtain wfl' c where q: "q = (wfl', c)" by (metis surj_pair)
    note gp' = gp [unfolded Inr q]
    have "alive g m wfl'" by (rule graph_pass_alive [OF gp' Cons.prems(1) assms(2)])
    moreover have "node \<in> set (status_nodes wfl')"
      by (rule graph_pass_keeps_terminal [OF gp' Cons.prems(1) assms(2) Cons.prems(2) assms(4)])
    ultimately show ?thesis using Cons p gp' by simp
  qed
qed

text \<open>
  C16. A node's verdict is final: once its record is terminal it stays in the status, unchanged in
  every field, through all later passes.
\<close>

theorem workflow_terminal_nodes_final:
  assumes "built_graph g" and "fresh_workflow wfl"
    and "node \<in> set (status_nodes (run_passes g wfl ps))" and "node_terminal (wn_phase node)"
  shows "node \<in> set (status_nodes (run_passes g wfl (ps @ qs)))"
proof -
  have "alive g (wsp_max_parallel (wf_spec wfl)) (run_passes g wfl ps)"
    using fresh_alive [OF assms(2)] assms(1) by (rule run_passes_alive)
  then show ?thesis
    unfolding run_passes_append using assms(3) by (rule run_passes_keep [OF _ assms(1) _ assms(4)])
qed

lemma graph_pass_settles:
  assumes "graph_pass E wfl g w = (Inr (wfl', changed), w')" and "alive g m wfl" and "built_graph g"
  shows "is_workflow_terminal (ws_phase (wf_status wfl')) \<or>
    (\<exists>node \<in> set (status_nodes wfl'). wn_phase node = NodeRunning)"
proof -
  from assms(1) obtain children w1 nodes st e wf1 where
    wf1: "wf1 = fst (initialize_status (we_now E NowStart) wfl g)"
    and l: "advance_loops E wf1 g children w1 = (nodes, st, e, w')"
    and n: "status_nodes wfl' = nodes"
    and e: "e = LoopDone \<and> wfl' = fst (summarize (we_now E NowSummary) (with_nodes wf1 nodes)) \<or>
      (\<exists>m. e = LoopConflict m) \<and> ws_phase (wf_status wfl') = WorkflowFailed"
    by (rule graph_pass_cases)
  note i = alive_initialize [OF assms(2,3), of "we_now E NowStart", folded wf1]
  have p: "\<forall>node \<in> set (status_nodes wf1). proper (wn_phase node)"
  proof
    fix node assume "node \<in> set (status_nodes wf1)"
    moreover have "alive g m wf1" using i(1,2) assms(2) by (simp add: alive_def wf1)
    ultimately show "proper (wn_phase node)" using assms(3) alive_proper by blast
  qed
  from e show ?thesis
  proof
    assume "(\<exists>m. e = LoopConflict m) \<and> ws_phase (wf_status wfl') = WorkflowFailed"
    then show ?thesis by (simp add: is_workflow_terminal_def)
  next
    assume d: "e = LoopDone \<and> wfl' = fst (summarize (we_now E NowSummary) (with_nodes wf1 nodes))"
    show ?thesis
    proof (cases "\<exists>node \<in> set nodes. wn_phase node = NodeRunning")
      case True
      with n show ?thesis by simp
    next
      case False
      have "\<forall>node \<in> set nodes. node_terminal (wn_phase node)"
        using advance_loops_no_stall [OF assms(3) i(1) p l [unfolded conjunct1 [OF d]]] False by blast
      moreover have "ws_phase (wf_status wf1) = WorkflowRunning" by (simp add: wf1)
      ultimately have "ws_phase (wf_status wfl') \<in> {WorkflowFailed, WorkflowSucceeded}"
        using d by (auto simp: summarize_def Let_def is_workflow_terminal_def filter_empty_conv)
      then show ?thesis by (auto simp: is_workflow_terminal_def)
    qed
  qed
qed

text \<open>Once a pass is stored, every status that is reached is terminal or has a Running node.\<close>

lemma run_passes_settled:
  assumes "built_graph g" and "fresh_workflow wfl" and "\<not> fresh_workflow (run_passes g wfl ps)"
  shows "is_workflow_terminal (ws_phase (wf_status (run_passes g wfl ps))) \<or>
    (\<exists>node \<in> set (status_nodes (run_passes g wfl ps)). wn_phase node = NodeRunning)"
proof -
  let ?m = "wsp_max_parallel (wf_spec wfl)"
  let ?ok = "\<lambda>v. fresh_workflow v \<or> is_workflow_terminal (ws_phase (wf_status v)) \<or>
    (\<exists>node \<in> set (status_nodes v). wn_phase node = NodeRunning)"
  have "?ok (run_passes g v ps)" if "alive g ?m v" "?ok v" for v
    using that
  proof (induction ps arbitrary: v)
    case Nil
    then show ?case by simp
  next
    case (Cons p ps)
    obtain E w stored where p: "p = (E, w, stored)" by (metis prod_cases3)
    obtain r w' where gp: "graph_pass E v g w = (r, w')" by (metis surj_pair)
    show ?case
    proof (cases r)
      case (Inl e)
      with Cons p gp show ?thesis by simp
    next
      case (Inr q)
      obtain v' c where q: "q = (v', c)" by (metis surj_pair)
      note gp' = gp [unfolded Inr q]
      have "alive g ?m v'" by (rule graph_pass_alive [OF gp' Cons.prems(1) assms(1)])
      moreover have "?ok v'" using graph_pass_settles [OF gp' Cons.prems(1) assms(1)] by blast
      ultimately have "?ok (run_passes g (if stored then v' else v) ps)"
        using Cons by (cases stored) simp_all
      with p gp' show ?thesis by simp
    qed
  qed
  from this [OF fresh_alive [OF assms(2)]] assms(2,3) show ?thesis by blast
qed

text \<open>How often the phases of the nodes change in the stored status.\<close>

fun phase_changes :: "graph \<Rightarrow> workflow \<Rightarrow> ('w wf_env \<times> 'w \<times> bool) list \<Rightarrow> nat" where
  "phase_changes g wfl [] = 0"
| "phase_changes g wfl (p # ps) =
     (let wfl' = run_passes g wfl [p]
      in (if map wn_phase (status_nodes wfl') \<noteq> map wn_phase (status_nodes wfl) then 1 else 0) +
         phase_changes g wfl' ps)"

definition workflow_work :: "graph \<Rightarrow> workflow \<Rightarrow> nat" where
  "workflow_work g wfl =
     (if status_nodes wfl = [] then Suc (2 * length (graph_order g))
      else work_left g (nodes_phases (status_nodes wfl)))"

lemma node_steps_work:
  "node_steps g m P Q \<Longrightarrow> distinct (graph_order g) \<Longrightarrow> Q = P \<or> work_left g Q < work_left g P"
proof (induction rule: rtranclp_induct)
  case base
  then show ?case by simp
next
  case (step Q R)
  then show ?case using work_left_step [OF step(2)] by force
qed

lemma work_left_all_pending: "work_left g (all_pending g) = 2 * length (graph_order g)"
proof -
  have "map (\<lambda>n. phase_weight (all_pending g n)) (graph_order g) = map (\<lambda>_. 2) (graph_order g)"
    by (rule map_cong) (simp_all add: all_pending_def)
  then show ?thesis unfolding work_left_def by (simp only:) (simp add: sum_list_triv)
qed

lemma nodes_phases_map:
  assumes "map wn_name nodes = graph_order g" and "distinct (graph_order g)"
  shows "map wn_phase nodes = map (nodes_phases nodes) (graph_order g)"
  unfolding assms(1) [symmetric] map_map
  by (rule map_cong) (use assms nodes_phases_node in auto)

lemma graph_pass_work:
  assumes "graph_pass E wfl g w = (Inr (wfl', changed), w')" and "alive g m wfl" and "built_graph g"
  shows "(if map wn_phase (status_nodes wfl') \<noteq> map wn_phase (status_nodes wfl) then 1 else 0) +
    workflow_work g wfl' \<le> workflow_work g wfl"
proof -
  from assms(1) obtain children w1 nodes st e wf1 where
    wf1: "wf1 = fst (initialize_status (we_now E NowStart) wfl g)"
    and l: "advance_loops E wf1 g children w1 = (nodes, st, e, w')"
    and n: "status_nodes wfl' = nodes"
    by (rule graph_pass_cases)
  note i = alive_initialize [OF assms(2,3), of "we_now E NowStart", folded wf1]
  note d = dag.order_distinct [OF assms(3)]
  have mx: "wsp_max_parallel (wf_spec wf1) = m" using assms(2) by (simp add: wf1 alive_def)
  note s = advance_loops_steps [OF assms(3) i(1) l, unfolded mx]
  show ?thesis
  proof (cases "status_nodes wfl = []")
    case True
    have "node_steps g m (all_pending g) (nodes_phases nodes)" using i(2) s(3) by (rule rtranclp_trans)
    from node_steps_work [OF this d] have "work_left g (nodes_phases nodes) \<le> 2 * length (graph_order g)"
      by (auto simp: work_left_all_pending)
    with True n show ?thesis by (auto simp: workflow_work_def)
  next
    case False
    with i(3) have same: "status_nodes wf1 = status_nodes wfl" by simp
    then have names: "map wn_name (status_nodes wfl) = graph_order g" using i(1) by simp
    have ne: "nodes \<noteq> []" using s(1) names False by auto
    from node_steps_work [OF s(3) d] same
    consider "nodes_phases nodes = nodes_phases (status_nodes wfl)"
      | "work_left g (nodes_phases nodes) < work_left g (nodes_phases (status_nodes wfl))" by auto
    then show ?thesis
    proof cases
      case 1
      then have "map wn_phase nodes = map wn_phase (status_nodes wfl)"
        by (simp add: nodes_phases_map [OF s(1) d] nodes_phases_map [OF names d])
      with 1 False ne n show ?thesis by (simp add: workflow_work_def)
    next
      case 2
      with False ne n show ?thesis by (simp add: workflow_work_def)
    qed
  qed
qed

text \<open>
  C15. A Workflow comes to rest: over any number of passes the phases of its nodes change at most
  \<open>2n + 1\<close> times, once to list the \<open>n\<close> nodes and twice for each of them.
\<close>

theorem workflow_comes_to_rest:
  assumes "built_graph g" and "fresh_workflow wfl"
  shows "phase_changes g wfl ps \<le> 2 * length (graph_order g) + 1"
proof -
  let ?m = "wsp_max_parallel (wf_spec wfl)"
  have "phase_changes g v ps \<le> workflow_work g v" if "alive g ?m v" for v
    using that
  proof (induction ps arbitrary: v)
    case Nil
    then show ?case by simp
  next
    case (Cons p ps)
    obtain E w stored where p: "p = (E, w, stored)" by (metis prod_cases3)
    obtain r w' where gp: "graph_pass E v g w = (r, w')" by (metis surj_pair)
    show ?case
    proof (cases "\<exists>v' c. r = Inr (v', c) \<and> stored")
      case True
      then obtain v' c where gp': "graph_pass E v g w = (Inr (v', c), w')" and st: "stored"
        using gp by auto
      have "alive g ?m v'" by (rule graph_pass_alive [OF gp' Cons.prems assms(1)])
      with Cons.IH have "phase_changes g v' ps \<le> workflow_work g v'" by blast
      with graph_pass_work [OF gp' Cons.prems assms(1)] gp' st p show ?thesis by simp
    next
      case False
      with gp p have "run_passes g v [p] = v" by (cases r) auto
      with Cons show ?thesis by simp
    qed
  qed
  from this [OF fresh_alive [OF assms(2)]] assms(2) show ?thesis
    by (simp add: workflow_work_def fresh_workflow_def)
qed

section \<open>Witnesses\<close>

text \<open>The diamond is run: \<open>a\<close> starts; when it has finished, \<open>b\<close> and \<open>c\<close> start.\<close>

definition sample_passes :: "(cluster wf_env \<times> cluster \<times> bool) list" where
  "sample_passes =
     (let wfl = sample_workflow diamond; w1 = empty_cluster;
          w2 = finish_tasks TaskSucceeded (snd (graph_pass sample_env wfl diamond_graph w1))
      in [(sample_env, w1, True), (sample_env, w2, True)])"

abbreviation "sample_run \<equiv> run_passes diamond_graph (sample_workflow diamond) sample_passes"

lemma sample_run_phases:
  "map (\<lambda>n. (wn_name n, wn_phase n)) (status_nodes sample_run) =
   [(''a'', NodeSucceeded), (''b'', NodeRunning), (''c'', NodeRunning), (''d'', NodePending)]"
  by code_simp

lemmas diamond_built = built_graphI [OF build_diamond]

lemma sample_fresh: "fresh_workflow (sample_workflow diamond)"
  by (simp add: fresh_workflow_def status_nodes_def sample_workflow_def empty_workflow_status_def)

lemma sample_node:
  assumes "(n, p) \<in> set (map (\<lambda>n. (wn_name n, wn_phase n)) (status_nodes sample_run))"
  obtains node where "node \<in> set (status_nodes sample_run)" "wn_name node = n" "wn_phase node = p"
  using assms by auto

theorem initialize_status_correct_witness:
  "map wn_name (status_nodes (fst (initialize_status 5 (sample_workflow diamond) diamond_graph))) =
   [''a'', ''b'', ''c'', ''d'']"
  using initialize_status_correct [OF diamond_built refl, of 5 "sample_workflow diamond" 7]
  by (simp add: graph_order_def diamond_graph_def)

theorem summarize_correct_witness:
  "snd (summarize 5 sample_run) = (\<forall>node \<in> set (status_nodes sample_run). node_terminal (wn_phase node))"
proof -
  have "\<not> is_workflow_terminal (ws_phase (wf_status sample_run))" by code_simp
  from summarize_correct [OF this, of 5] show ?thesis by (simp add: Let_def)
qed

theorem workflow_max_parallel_witness:
  "int (length (filter (\<lambda>node. wn_phase node = NodeRunning) (status_nodes sample_run))) \<le> 2"
  using workflow_max_parallel [OF diamond_built sample_fresh, of sample_passes]
  by (simp add: sample_workflow_def diamond_def sample_spec_def)

theorem workflow_dependencies_respected_witness:
  "may_start diamond_graph (nodes_phases (status_nodes sample_run)) ''b''"
proof -
  obtain node where "node \<in> set (status_nodes sample_run)" "wn_name node = ''b''" "wn_phase node = NodeRunning"
    by (rule sample_node [of "''b''" NodeRunning]) (simp_all add: sample_run_phases)
  with workflow_dependencies_respected [OF diamond_built sample_fresh, of node sample_passes]
  show ?thesis by (simp add: Let_def)
qed

theorem workflow_terminal_nodes_final_witness:
  "\<exists>node \<in> set (status_nodes (run_passes diamond_graph (sample_workflow diamond) (sample_passes @ sample_passes))).
     wn_name node = ''a'' \<and> wn_phase node = NodeSucceeded"
proof -
  obtain node where n: "node \<in> set (status_nodes sample_run)" "wn_name node = ''a''" "wn_phase node = NodeSucceeded"
    by (rule sample_node [of "''a''" NodeSucceeded]) (simp_all add: sample_run_phases)
  with workflow_terminal_nodes_final [OF diamond_built sample_fresh n(1), of sample_passes]
  show ?thesis by auto
qed

theorem workflow_comes_to_rest_witness:
  "phase_changes diamond_graph (sample_workflow diamond) sample_passes \<le> 9"
  using workflow_comes_to_rest [OF diamond_built sample_fresh, of sample_passes]
  by (simp add: graph_order_def diamond_graph_def)

end
