(* ===== verification/WorkflowSpec.thy ===== *)
theory WorkflowSpec
  imports WorkflowRuns
begin

text \<open>
  Properties of one reconcile of a Workflow outside scheduling: the spec of child Tasks, validation
  failures, the single run of a Workflow, and name conflicts.  What a handler
  writes is read off the log of the recording client of \<open>Kube\<close>.
\<close>

section \<open>The recording client\<close>

lemma recording_reads [simp]:
  "k_get_workflow (recording K) n (w, l) = (case k_get_workflow K n w of (r, w') \<Rightarrow> (r, w', l))"
  "k_get_task (recording K) n (w, l) = (case k_get_task K n w of (r, w') \<Rightarrow> (r, w', l))"
  "k_list_tasks (recording K) m (w, l) = (case k_list_tasks K m w of (r, w') \<Rightarrow> (r, w', l))"
  "k_list_jobs (recording K) ns m (w, l) = (case k_list_jobs K ns m w of (r, w') \<Rightarrow> (r, w', l))"
  by (simp_all add: recording_def unlogged_def)

lemma recording_writes [simp]:
  "k_update_workflow (recording K) x (w, l) =
     (case k_update_workflow K x w of (r, w') \<Rightarrow> (r, w', l @ [UpdateWorkflow x]))"
  "k_update_workflow_status (recording K) x (w, l) =
     (case k_update_workflow_status K x w of (r, w') \<Rightarrow> (r, w', l @ [UpdateWorkflowStatus x]))"
  "k_create_task (recording K) t (w, l) =
     (case k_create_task K t w of (r, w') \<Rightarrow> (r, w', l @ [CreateTask t]))"
  "k_delete_task (recording K) t uid (w, l) =
     (case k_delete_task K t uid w of (r', w') \<Rightarrow> (r', w', l @ [DeleteTask (tk_name t) uid]))"
  "k_update_task (recording K) t (w, l) =
     (case k_update_task K t w of (r, w') \<Rightarrow> (r, w', l @ [UpdateTask t]))"
  "k_update_task_status (recording K) t (w, l) =
     (case k_update_task_status K t w of (r, w') \<Rightarrow> (r, w', l @ [UpdateTaskStatus t]))"
  "k_create_job (recording K) j (w, l) =
     (case k_create_job K j w of (r, w') \<Rightarrow> (r, w', l @ [CreateJob j]))"
  "k_delete_job (recording K) j (w, l) =
     (case k_delete_job K j w of (r', w') \<Rightarrow> (r', w', l @ [DeleteJob (jb_name j)]))"
  by (simp_all add: recording_def logged_def)

lemma recording_helpers [simp]:
  "k_is_controlled_by (recording K) = k_is_controlled_by K"
  "k_set_controller_reference (recording K) = k_set_controller_reference K"
  "k_contains_finalizer (recording K) = k_contains_finalizer K"
  "k_add_finalizer (recording K) = k_add_finalizer K"
  "k_remove_finalizer (recording K) = k_remove_finalizer K"
  "k_parse_cron (recording K) = k_parse_cron K"
  by (simp_all add: recording_def)

definition recording_env :: "'w wf_env \<Rightarrow> ('w \<times> call list) wf_env" where
  "recording_env E = \<lparr>we_kube = recording (we_kube E), we_now = we_now E, we_visit = we_visit E\<rparr>"

lemma recording_env_simps [simp]:
  "we_kube (recording_env E) = recording (we_kube E)"
  "we_now (recording_env E) = we_now E" "we_visit (recording_env E) = we_visit E"
  by (simp_all add: recording_env_def)

section \<open>Child Tasks\<close>

text \<open>
  The child Task of a node is a snapshot of the node's template or inline spec in every
  field but those that schedule it: it is a OneTime task with no schedule, no delay and no
  suspension, so that it runs exactly once whatever the template says.
\<close>

theorem child_task_spec_one_time:
  assumes "build (wf_spec wfl) = Inr g" and "t \<in> set (wsp_tasks (wf_spec wfl))"
  shows "\<exists>source.
    (if wt_template t \<noteq> [] then gm_get (wsp_task_templates (wf_spec wfl)) (wt_template t) = Some source
     else wt_task_spec t = Some source) \<and>
    child_task_spec wfl g (wt_name t) =
      source\<lparr>ts_type := TaskTypeOneTime, ts_schedule := [], ts_delay := None, ts_suspend := None\<rparr>"
proof -
  note b = build_built [OF assms(1)]
  have task: "graph_task g (wt_name t) = Some t" using b assms(2) by (rule built_task)
  have ok: "task_ok (wf_spec wfl) t" using built_facts(4) [OF b] assms(2) by (simp add: spec_ok_def)
  show ?thesis
  proof (cases "wt_template t = []")
    case True
    with ok obtain source where "wt_task_spec t = Some source" by (auto simp: task_ok_def)
    with True task show ?thesis by (simp add: child_task_spec_def)
  next
    case False
    with ok obtain source where "gm_get (wsp_task_templates (wf_spec wfl)) (wt_template t) = Some source"
      by (auto simp: task_ok_def)
    with False task show ?thesis by (simp add: child_task_spec_def gm_get_or_def)
  qed
qed

definition owned :: "'w kube \<Rightarrow> workflow \<Rightarrow> task \<Rightarrow> bool" where
  "owned K wfl t \<longleftrightarrow> k_is_controlled_by K (tk_meta t) (wf_meta wfl) \<and>
     meta_namespace (tk_meta t) = meta_namespace (wf_meta wfl)"

lemma foldl_put_owned:
  "gm_get (foldl (\<lambda>m t. if Q t then gm_put (tk_name t) t m else m) m0 items) n = Some t \<Longrightarrow>
   (\<And>n t. gm_get m0 n = Some t \<Longrightarrow> Q t \<and> tk_name t = n) \<Longrightarrow> Q t \<and> tk_name t = n"
proof (induction items arbitrary: m0)
  case Nil
  then show ?case by simp
next
  case (Cons x items)
  show ?case
    by (rule Cons.IH [OF Cons.prems(1) [unfolded foldl_Cons]])
      (use Cons.prems(2) in \<open>auto simp: gm.get_put split: if_splits\<close>)
qed

section \<open>Validation failures\<close>

text \<open>Why a spec is not scheduled.\<close>

definition rejection :: "workflow \<Rightarrow> validation_error option" where
  "rejection wfl = (case build (wf_spec wfl) of
     Inl e \<Rightarrow> Some e
   | Inr g \<Rightarrow> validate_child_task_names (wf_name wfl) g)"

lemma reconcile_spec_rejected:
  "rejection wfl = Some e \<Longrightarrow>
   reconcile_spec E wfl w = mark_workflow_failed E wfl (ve_reason e @ '': '' @ ve_message e) w"
  by (auto simp: rejection_def reconcile_spec_def workflow_failure_message_def split: sum.splits option.splits)

definition active :: "'w kube \<Rightarrow> workflow \<Rightarrow> bool" where
  "active K wfl \<longleftrightarrow> is_zero_time (om_deletion_timestamp (wf_meta wfl)) \<and>
     k_contains_finalizer K (wf_meta wfl) workflow_finalizer"

lemma reconcile_active:
  assumes "k_get_workflow (we_kube E) name w = (Inr wfl, w1)" and "active (we_kube E) wfl"
    and "\<not> is_workflow_terminal (ws_phase (wf_status wfl))"
  shows "reconcile E name w = reconcile_spec E wfl w1"
  using assms by (simp add: reconcile_def active_def Let_def)

text \<open>
  C23. A Workflow whose spec is rejected fails at once and for good: the only call the reconcile
  makes is one status update to Failed with the reason and the message of the defect, the
  generation and a completion time; no Task is created; and a reconcile that reads this status
  back writes nothing, so that the update does not feed itself.
\<close>

theorem rejected_workflow_fails_once:
  assumes "rejection wfl = Some e" and "active (we_kube E) wfl"
    and "\<not> is_workflow_terminal (ws_phase (wf_status wfl))"
    and "k_get_workflow (we_kube E) name w = (Inr wfl, w1)"
  shows "\<exists>v r w2. reconcile (recording_env E) name (w, []) = (r, w2, [UpdateWorkflowStatus v]) \<and>
    ws_phase (wf_status v) = WorkflowFailed \<and>
    ws_message (wf_status v) = ve_reason e @ '': '' @ ve_message e \<and>
    ws_observed_generation (wf_status v) = om_generation (wf_meta v) \<and>
    ws_completion_time (wf_status v) \<noteq> None \<and> wf_spec v = wf_spec wfl \<and> wf_meta v = wf_meta wfl \<and>
    (\<forall>w3 w4. k_get_workflow (we_kube E) name w3 = (Inr v, w4) \<longrightarrow>
       reconcile (recording_env E) name (w3, []) = (Inr no_result, w4, []))"
proof -
  let ?m = "ve_reason e @ '': '' @ ve_message e"
  let ?st = "wf_status wfl"
  define v where "v = wfl\<lparr>wf_status := ?st\<lparr>ws_phase := WorkflowFailed, ws_message := ?m,
    ws_observed_generation := om_generation (wf_meta wfl),
    ws_completion_time := (case ws_completion_time ?st of None \<Rightarrow> Some (we_now E NowFailed) | c \<Rightarrow> c)\<rparr>\<rparr>"
  obtain q w2 where u: "k_update_workflow_status (we_kube E) v w1 = (q, w2)" by (metis surj_pair)
  have "reconcile (recording_env E) name (w, []) = reconcile_spec (recording_env E) wfl (w1, [])"
    by (rule reconcile_active) (use assms in \<open>simp_all add: active_def\<close>)
  also have "\<dots> = mark_workflow_failed (recording_env E) wfl ?m (w1, [])"
    using assms(1) by (rule reconcile_spec_rejected)
  also have "\<dots> = update_status (recording (we_kube E)) v (w1, [])"
    using assms(3)
    by (simp add: mark_workflow_failed_def v_def Let_def is_workflow_terminal_def cong: option.case_cong)
  also have "\<exists>r. \<dots> = (r, w2, [UpdateWorkflowStatus v])"
    by (cases q) (simp_all add: update_status_def u)
  finally have "\<exists>r. reconcile (recording_env E) name (w, []) = (r, w2, [UpdateWorkflowStatus v])" .
  moreover have "reconcile (recording_env E) name (w3, []) = (Inr no_result, w4, [])"
    if "k_get_workflow (we_kube E) name w3 = (Inr v, w4)" for w3 w4
    using that assms(2) by (simp add: reconcile_def active_def Let_def v_def is_workflow_terminal_def)
  ultimately show ?thesis
    by (intro exI [of _ v]) (auto simp: v_def split: option.splits)
qed

section \<open>One run\<close>

text \<open>
  C24. A Workflow runs once: when it is terminal and has had nodes, a reconcile creates and
  deletes nothing.  It makes no call at all for the generation it has observed, and otherwise,
  after a change of the spec, one status update that changes only the observed generation.
\<close>

theorem terminal_workflow_runs_once:
  assumes "active (we_kube E) wfl" and "is_workflow_terminal (ws_phase (wf_status wfl))"
    and "status_nodes wfl \<noteq> []" and "k_get_workflow (we_kube E) name w = (Inr wfl, w1)"
  shows "snd (snd (reconcile (recording_env E) name (w, []))) =
    (if ws_observed_generation (wf_status wfl) = om_generation (wf_meta wfl) then []
     else [UpdateWorkflowStatus (wfl\<lparr>wf_status := (wf_status wfl)\<lparr>
             ws_observed_generation := om_generation (wf_meta wfl)\<rparr>\<rparr>)])"
  using assms
  by (auto simp: reconcile_def active_def Let_def can_retry_after_validation_failure_def
      status_nodes_def update_status_def split: prod.splits sum.splits)

section \<open>Name conflicts\<close>

text \<open>
  The name of a child Task is the Workflow's name and the node's joined by a dash, so two
  Workflows can want the same one: \<open>a-b\<close> with node \<open>c\<close> and \<open>a\<close> with node \<open>b-c\<close>.  The one that
  comes second does not take the other's Task over: its pass ends as Failed with the conflict
  in the message.
\<close>

theorem child_name_conflict_fails:
  assumes "ws_nodes (wf_status wfl) = node # rest" and "wn_phase node = NodePending"
    and "\<forall>x \<in> set rest. wn_phase x = NodePending"
    and "graph_task g (wn_name node) = Some t" and "graph_deps g (wn_name node) = []"
    and "\<not> wt_run_on_failure t"
    and "list_child_tasks (we_kube E) wfl w = (Inr children, w1)"
    and "k_set_controller_reference (we_kube E) (wf_meta wfl)
      (tk_meta (new_child_task wfl g (wn_name node))) = Inr meta"
    and "k_create_task (we_kube E) ((new_child_task wfl g (wn_name node))\<lparr>tk_meta := meta\<rparr>) w1 =
      (Inl (ApiError AlreadyExists text), w2)"
    and "k_get_task (we_kube E) (child_task_name (wf_name wfl) (wn_name node)) w2 = (Inr other, w3)"
    and "\<not> owned (we_kube E) wfl other"
  shows "child_task_name (xs @ ''-'' @ ys) zs = child_task_name xs (ys @ ''-'' @ zs) \<and>
    (\<exists>v ch. advance_nodes E wfl g w = (Inr (v, ch), w3) \<and>
      ws_phase (wf_status v) = WorkflowFailed \<and> status_nodes v = status_nodes wfl \<and>
      ws_message (wf_status v) =
        ''child task name conflict: task '' @ quote (child_task_name (wf_name wfl) (wn_name node)) @
        '' already exists and is not controlled by workflow '' @ quote (wf_name wfl))"
proof -
  let ?ns = "node # rest"
  have idle: "sync_running E wfl g children ns st w = (ns, st, LoopDone, w)"
    if "\<forall>x \<in> set ns. wn_phase x = NodePending" for ns st w
    using that by (induction ns arbitrary: st w) (simp_all add: cons_node_def)
  have c: "create_child_task (we_kube E) wfl g (wn_name node) w1 =
      (Inl (conflict_error (child_task_name (wf_name wfl) (wn_name node)) (wf_name wfl)), w3)"
    using assms(8-11) by (auto simp: create_child_task_def Let_def is_already_exists_def owned_def)
  have dec: "decide_node g phases (wn_name node) = (NodeReady, [])" for phases
    using assms(4-6) by (simp add: decide_node_def)
  have r0: "lp_running (initial_loop_state ?ns) = 0"
    using assms(2,3) by (auto simp: initial_loop_state_def filter_empty_conv)
  have "advance_loops E wfl g children w1 = (?ns, initial_loop_state ?ns,
      stop_loop (conflict_error (child_task_name (wf_name wfl) (wn_name node)) (wf_name wfl)), w3)"
    using assms(1-3) r0
    by (auto simp: advance_loops_def idle dec c Let_def simp del: sync_running.simps)
  then show ?thesis
    using assms(1,7) by (auto simp: advance_nodes_def stop_loop_def conflict_error_def fail_workflow_def
        Let_def status_nodes_def child_task_name_def)
qed

section \<open>Witnesses\<close>

theorem child_task_spec_one_time_witness:
  "child_task_spec (sample_workflow diamond) diamond_graph ''b'' =
   empty_task_spec\<lparr>ts_type := TaskTypeOneTime, ts_schedule := [], ts_delay := None, ts_suspend := None\<rparr>"
proof -
  have "build (wf_spec (sample_workflow diamond)) = Inr diamond_graph"
    by (simp add: sample_workflow_def build_diamond)
  moreover have "sample_task ''b'' [''a''] \<in> set (wsp_tasks (wf_spec (sample_workflow diamond)))"
    by (simp add: sample_workflow_def diamond_def sample_spec_def)
  ultimately show ?thesis
    using child_task_spec_one_time [of "sample_workflow diamond" diamond_graph "sample_task ''b'' [''a'']"]
    by (simp add: sample_task_def sample_workflow_def diamond_def sample_spec_def gm_get_def)
qed

definition busy_cluster :: cluster where
  "busy_cluster = snd (graph_pass sample_env (sample_workflow diamond) diamond_graph empty_cluster)"

definition busy_children :: "(string, task) gomap" where
  "busy_children = (case list_child_tasks sample_kube (sample_workflow diamond) busy_cluster of
     (Inr children, _) \<Rightarrow> children | _ \<Rightarrow> [])"

theorem rejected_workflow_fails_once_witness:
  "\<exists>v r w. reconcile (recording_env sample_env) ''wf''
     (empty_cluster\<lparr>cl_workflows := [(''wf'', sample_workflow knot)]\<rparr>, []) = (r, w, [UpdateWorkflowStatus v]) \<and>
   ws_message (wf_status v) = ''CyclicDependency: workflow contains a dependency cycle involving [a b c]''"
proof -
  let ?w = "sample_workflow knot" and ?c = "empty_cluster\<lparr>cl_workflows := [(''wf'', sample_workflow knot)]\<rparr>"
  have 1: "rejection ?w = Some (invalidf ReasonCyclicDependency
      ''workflow contains a dependency cycle involving [a b c]'')" by code_simp
  have 2: "active (we_kube sample_env) ?w" by code_simp
  have 3: "\<not> is_workflow_terminal (ws_phase (wf_status ?w))" by code_simp
  have 4: "k_get_workflow (we_kube sample_env) ''wf'' ?c = (Inr ?w, ?c)"
    by (simp add: sample_env_def sample_kube_def lookup_def gm_get_def)
  from rejected_workflow_fails_once [OF 1 2 3 4] show ?thesis by auto
qed

definition done_workflow :: workflow where
  "done_workflow = (let wfl = sample_workflow diamond in
     wfl\<lparr>wf_meta := (wf_meta wfl)\<lparr>om_generation := 2\<rparr>,
         wf_status := (wf_status wfl)\<lparr>ws_phase := WorkflowSucceeded, ws_observed_generation := 1,
           ws_nodes := [(fresh_node ''a'')\<lparr>wn_phase := NodeSucceeded\<rparr>]\<rparr>\<rparr>)"

theorem terminal_workflow_runs_once_witness:
  "snd (snd (reconcile (recording_env sample_env) ''wf''
     (empty_cluster\<lparr>cl_workflows := [(''wf'', done_workflow)]\<rparr>, []))) =
   [UpdateWorkflowStatus (done_workflow\<lparr>wf_status := (wf_status done_workflow)\<lparr>
      ws_observed_generation := 2\<rparr>\<rparr>)]"
proof -
  let ?c = "empty_cluster\<lparr>cl_workflows := [(''wf'', done_workflow)]\<rparr>"
  have 1: "active (we_kube sample_env) done_workflow" by code_simp
  have 2: "is_workflow_terminal (ws_phase (wf_status done_workflow))" by code_simp
  have 3: "status_nodes done_workflow \<noteq> []" by code_simp
  have 4: "k_get_workflow (we_kube sample_env) ''wf'' ?c = (Inr done_workflow, ?c)"
    by (simp add: sample_env_def sample_kube_def lookup_def gm_get_def)
  from terminal_workflow_runs_once [OF 1 2 3 4] show ?thesis
    by (simp add: done_workflow_def Let_def)
qed

text \<open>Workflow \<open>a-b\<close> has created its Task \<open>a-b-c\<close>, which Workflow \<open>a\<close> needs for its node \<open>b-c\<close>.\<close>

definition named_workflow :: "string \<Rightarrow> string \<Rightarrow> workflow" where
  "named_workflow name node = (let wfl = sample_workflow (sample_spec [(node, [])]) in
     wfl\<lparr>wf_meta := (wf_meta wfl)\<lparr>om_name := name, om_uid := name\<rparr>,
         wf_status := (wf_status wfl)\<lparr>ws_nodes := [fresh_node node]\<rparr>\<rparr>)"

definition single_graph :: "string \<Rightarrow> graph" where
  "single_graph node = \<lparr>g_tasks = [(node, sample_task node [])], g_deps = [], g_order = [node],
     g_levels = [[node]]\<rparr>"

definition taken_cluster :: cluster where
  "taken_cluster = snd (graph_pass sample_env (named_workflow ''a-b'' ''c'') (single_graph ''c'') empty_cluster)"

theorem child_name_conflict_fails_witness:
  "\<exists>v ch w. advance_nodes sample_env (named_workflow ''a'' ''b-c'') (single_graph ''b-c'') taken_cluster =
     (Inr (v, ch), w) \<and> ws_phase (wf_status v) = WorkflowFailed"
proof -
  let ?w = "named_workflow ''a'' ''b-c''" and ?g = "single_graph ''b-c''"
  let ?n = "fresh_node ''b-c''"
  let ?t = "new_child_task ?w ?g (wn_name ?n)"
  let ?meta = "projr (k_set_controller_reference (we_kube sample_env) (wf_meta ?w) (tk_meta ?t))"
  let ?other = "the (gm_get (cl_tasks taken_cluster) ''a-b-c'')"
  let ?text = "''a-b-c already exists''"
  have 1: "ws_nodes (wf_status ?w) = ?n # []" by code_simp
  have 2: "wn_phase ?n = NodePending" by code_simp
  have 4: "graph_task ?g (wn_name ?n) = Some (sample_task ''b-c'' [])" by code_simp
  have 5: "graph_deps ?g (wn_name ?n) = []" by code_simp
  have 6: "\<not> wt_run_on_failure (sample_task ''b-c'' [])" by code_simp
  have 7: "list_child_tasks (we_kube sample_env) ?w taken_cluster = (Inr [], taken_cluster)" by code_simp
  have 8: "k_set_controller_reference (we_kube sample_env) (wf_meta ?w) (tk_meta ?t) = Inr ?meta" by code_simp
  have 9: "k_create_task (we_kube sample_env) (?t\<lparr>tk_meta := ?meta\<rparr>) taken_cluster =
    (Inl (ApiError AlreadyExists ?text), taken_cluster)" by code_simp
  have 10: "k_get_task (we_kube sample_env) (child_task_name (wf_name ?w) (wn_name ?n)) taken_cluster =
    (Inr ?other, taken_cluster)" by code_simp
  have 11: "\<not> owned (we_kube sample_env) ?w ?other" by code_simp
  show ?thesis
    using child_name_conflict_fails [OF 1 2 _ 4 5 6 7 8 9 10 11, of "''a''" "''b''" "''c''"] by auto
qed

end
