(* ===== verification/TaskRuns.thy ===== *)
theory TaskRuns
  imports TaskSync WorkflowSpec
begin

text \<open>
  Properties of one reconcile of a Task: which Jobs it creates, when a Cron Task fires, the
  concurrency policy, the single execution of a OneTime Task, suspension and deletion.  What a
  handler writes is read off the log of the recording client.
\<close>

section \<open>The recording client\<close>

definition recording_task_env :: "'w task_env \<Rightarrow> ('w \<times> call list) task_env" where
  "recording_task_env E = \<lparr>te_kube = recording (te_kube E), te_now = te_now E\<rparr>"

lemma recording_task_env_simps [simp]:
  "te_kube (recording_task_env E) = recording (te_kube E)"
  "te_now (recording_task_env E) = te_now E"
  by (simp_all add: recording_task_env_def)

lemma list_task_jobs_recording [simp]:
  "list_task_jobs (recording K) t (w, l) = (case list_task_jobs K t w of (r, w') \<Rightarrow> (r, w', l))"
  by (simp add: list_task_jobs_def split: prod.splits sum.splits)

lemma construct_job_recording [simp]: "construct_job (recording_task_env E) t = construct_job E t"
  by (simp add: construct_job_def Let_def)

fun is_create_job :: "call \<Rightarrow> bool" where
  "is_create_job (CreateJob _) = True"
| "is_create_job _ = False"

text \<open>
  What the API server is documented to do: an update of the status subresource leaves the spec
  and the metadata of the object alone, and setting an owner reference changes nothing else.
\<close>

definition status_only :: "'w kube \<Rightarrow> bool" where
  "status_only K \<longleftrightarrow> (\<forall>t w t' w'. k_update_task_status K t w = (Inr t', w') \<longrightarrow>
     tk_spec t' = tk_spec t \<and> tk_meta t' = tk_meta t)"

definition reference_only :: "'w kube \<Rightarrow> bool" where
  "reference_only K \<longleftrightarrow> (\<forall>owner m m'. k_set_controller_reference K owner m = Inr m' \<longrightarrow>
     om_name m' = om_name m \<and> om_namespace m' = om_namespace m \<and> om_labels m' = om_labels m)"

section \<open>The Jobs a reconcile creates\<close>

text \<open>A handler that was given the log \<open>l\<close> adds calls with at most one Job, that of the Task.\<close>

definition at_most_its_job :: "'w task_env \<Rightarrow> task \<Rightarrow> call list \<Rightarrow> call list \<Rightarrow> bool" where
  "at_most_its_job E t l l' \<longleftrightarrow> (\<exists>cs. l' = l @ cs \<and>
     (filter is_create_job cs = [] \<or> (\<exists>j. construct_job E t = Inr j \<and> filter is_create_job cs = [CreateJob j])))"

definition no_job :: "call list \<Rightarrow> call list \<Rightarrow> bool" where
  "no_job l l' \<longleftrightarrow> (\<exists>cs. l' = l @ cs \<and> filter is_create_job cs = [])"

lemma no_job_refl [simp]: "no_job l l" by (simp add: no_job_def)

lemma no_job_snoc [simp]: "\<not> is_create_job c \<Longrightarrow> no_job l (l @ [c])" by (simp add: no_job_def)

lemma no_job_at_most: "no_job l l' \<Longrightarrow> at_most_its_job E t l l'"
  by (auto simp: no_job_def at_most_its_job_def)

lemma no_job_trans: "no_job l l1 \<Longrightarrow> no_job l1 l2 \<Longrightarrow> no_job l l2"
  by (force simp: no_job_def)

lemma no_job_then: "no_job l l1 \<Longrightarrow> at_most_its_job E t l1 l2 \<Longrightarrow> at_most_its_job E t l l2"
  by (force simp: no_job_def at_most_its_job_def)

lemma construct_job_cong:
  "tk_spec t' = tk_spec t \<Longrightarrow> tk_meta t' = tk_meta t \<Longrightarrow> construct_job E t' = construct_job E t"
  by (simp add: construct_job_def job_namespace_def Let_def)

lemma at_most_cong:
  "tk_spec t' = tk_spec t \<Longrightarrow> tk_meta t' = tk_meta t \<Longrightarrow> at_most_its_job E t' l l' = at_most_its_job E t l l'"
  using construct_job_cong [of t' t E] by (simp add: at_most_its_job_def)

lemma write_task_status_log:
  "snd (snd (write_task_status (recording K) t (w, l))) = l @ [UpdateTaskStatus t]"
  by (simp add: write_task_status_def split: prod.splits sum.splits)

lemma create_job_log:
  "at_most_its_job E t l (snd (snd (create_job_and_update_status (recording_task_env E) t (w, l))))"
proof (cases "construct_job E t")
  case (Inl e)
  then show ?thesis by (simp add: create_job_and_update_status_def no_job_at_most)
next
  case (Inr j)
  then show ?thesis
    by (auto simp: create_job_and_update_status_def at_most_its_job_def write_task_status_log
        split: prod.splits sum.splits)
qed

lemma sync_job_status_log:
  assumes "sync_job_status (recording_task_env E) t (w, l) = (r, w', l')"
  shows "no_job l l'"
  using assms by (auto simp: sync_job_status_def split: prod.splits sum.splits if_splits)

lemma status_onlyD:
  "status_only K \<Longrightarrow> k_update_task_status K t w = (Inr t', w') \<Longrightarrow>
   tk_spec t' = tk_spec t \<and> tk_meta t' = tk_meta t"
  unfolding status_only_def by blast

lemma sync_job_status_task:
  assumes "sync_job_status E t w = (Inr t', w')" and "status_only (te_kube E)"
  shows "tk_spec t' = tk_spec t \<and> tk_meta t' = tk_meta t"
  using assms(1) status_onlyD [OF assms(2)]
  by (auto simp: sync_job_status_def split: prod.splits sum.splits if_splits)

lemma status_only_recording: "status_only (recording K) \<longleftrightarrow> status_only K"
proof
  assume r: "status_only (recording K)"
  show "status_only K" unfolding status_only_def
  proof (intro allI impI)
    fix t w t' w' assume "k_update_task_status K t w = (Inr t', w')"
    then have "k_update_task_status (recording K) t (w, []) = (Inr t', w', [UpdateTaskStatus t])" by simp
    with r show "tk_spec t' = tk_spec t \<and> tk_meta t' = tk_meta t" unfolding status_only_def by blast
  qed
next
  assume k: "status_only K"
  show "status_only (recording K)" unfolding status_only_def
  proof (intro allI impI)
    fix t w t' w' assume u: "k_update_task_status (recording K) t w = (Inr t', w')"
    obtain w0 l where w: "w = (w0, l)" by (cases w)
    with u obtain w1 where "k_update_task_status K t w0 = (Inr t', w1)" by (auto split: prod.splits)
    with k show "tk_spec t' = tk_spec t \<and> tk_meta t' = tk_meta t" unfolding status_only_def by blast
  qed
qed

lemma delete_active_jobs_log:
  "\<exists>w' ds. delete_active_jobs (recording K) js (w, l) = (w', l @ ds) \<and> filter is_create_job ds = []"
proof (induction js arbitrary: w l)
  case Nil
  then show ?case by simp
next
  case (Cons j js)
  show ?case
  proof (cases "job_active j")
    case True
    obtain r w1 where d: "k_delete_job K j w = (r, w1)" by (metis surj_pair)
    obtain w' ds where "delete_active_jobs (recording K) js (w1, l @ [DeleteJob (jb_name j)]) =
        (w', (l @ [DeleteJob (jb_name j)]) @ ds)" "filter is_create_job ds = []" using Cons by blast
    with True d show ?thesis by auto
  next
    case False
    with Cons show ?thesis by simp
  qed
qed

lemma concurrency_log:
  assumes "concurrency_allowed (recording K) t (w, l) = (r, w', l')"
  shows "no_job l l'"
proof -
  obtain q w1 where q: "list_task_jobs K t w = (q, w1)" by (metis surj_pair)
  show ?thesis
  proof (cases q)
    case (Inl e)
    with assms q show ?thesis by (simp add: concurrency_allowed_def)
  next
    case (Inr jobs)
    obtain w2 ds where "delete_active_jobs (recording K) jobs (w1, l) = (w2, l @ ds)"
      "filter is_create_job ds = []" using delete_active_jobs_log [of K jobs w1 l] by auto
    with assms q Inr show ?thesis
      by (auto simp: concurrency_allowed_def no_job_def split: if_splits concurrency_policy.splits)
  qed
qed

lemma schedule_cron_log:
  "at_most_its_job E t l (snd (snd (schedule_cron (recording_task_env E) t (w, l))))"
proof -
  obtain r w' l' where c: "concurrency_allowed (recording (te_kube E)) t (w, l) = (r, w', l')"
    by (metis prod_cases3)
  from no_job_then [OF concurrency_log [OF c] create_job_log]
  have "at_most_its_job E t l (snd (snd (create_job_and_update_status (recording_task_env E) t (w', l'))))" .
  with c concurrency_log [OF c] show ?thesis
    by (auto simp: schedule_cron_def fail_task_def write_task_status_log Let_def no_job_at_most
        split: option.split)
qed

lemma job_exists_recording [simp]:
  "job_exists (recording K) t (w, l) = (case job_exists K t w of (r, w') \<Rightarrow> (r, w', l))"
  by (simp add: job_exists_def split: prod.splits sum.splits)

lemma handle_cron_log:
  assumes "status_only (te_kube E)"
  shows "at_most_its_job E t l (snd (snd (handle_cron (recording_task_env E) t (w, l))))"
proof -
  obtain ex w1 where e: "job_exists (te_kube E) t w = (ex, w1)" by (metis surj_pair)
  show ?thesis
  proof (cases ex)
    case False
    with e schedule_cron_log show ?thesis by (simp add: handle_cron_def)
  next
    case True
    obtain r w2 l2 where s: "sync_job_status (recording_task_env E) t (w1, l) = (r, w2, l2)"
      by (metis prod_cases3)
    note n = sync_job_status_log [OF s]
    show ?thesis
    proof (cases r)
      case (Inl e')
      with e True s n show ?thesis by (simp add: handle_cron_def no_job_at_most)
    next
      case (Inr t')
      have same: "tk_spec t' = tk_spec t" "tk_meta t' = tk_meta t"
        using sync_job_status_task [OF s [unfolded Inr]] assms by (simp_all add: status_only_recording)
      have "at_most_its_job E t' l (snd (snd (schedule_cron (recording_task_env E) t' (w2, l2))))"
        by (rule no_job_then [OF n schedule_cron_log])
      then have "at_most_its_job E t l (snd (snd (schedule_cron (recording_task_env E) t' (w2, l2))))"
        unfolding at_most_cong [OF same] .
      with e True s Inr show ?thesis by (simp add: handle_cron_def)
    qed
  qed
qed

lemma sync_result_log:
  assumes "sync_job_status (recording_task_env E) t (w, l) = (r, w', l')"
  shows "snd (snd (sync_result (sync_job_status (recording_task_env E) t (w, l)))) = l'"
  by (cases r) (simp_all add: assms sync_result_def)

lemma sync_result_no_job:
  "no_job l (snd (snd (sync_result (sync_job_status (recording_task_env E) t (w, l)))))"
proof -
  obtain r w' l' where s: "sync_job_status (recording_task_env E) t (w, l) = (r, w', l')"
    by (metis prod_cases3)
  show ?thesis unfolding sync_result_log [OF s] using s by (rule sync_job_status_log)
qed

lemma handle_one_time_log:
  "at_most_its_job E t l (snd (snd (handle_one_time (recording_task_env E) t (w, l))))"
  by (simp add: handle_one_time_def no_job_at_most sync_result_no_job create_job_log split: prod.split)

lemma handle_delay_log:
  "at_most_its_job E t l (snd (snd (handle_delay (recording_task_env E) t (w, l))))"
  by (simp add: handle_delay_def Let_def no_job_at_most sync_result_no_job create_job_log fail_task_def
      write_task_status_log split: prod.split option.split)

lemma reconcile_type_log:
  assumes "status_only (te_kube E)"
  shows "at_most_its_job E t l (snd (snd (reconcile_type (recording_task_env E) t (w, l))))"
  by (auto simp: reconcile_type_def handle_name_too_long_def fail_task_def write_task_status_log Let_def
      no_job_at_most handle_one_time_log handle_delay_log handle_cron_log [OF assms] split: task_type.split)

lemma reconcile_type_too_long:
  "MaxTaskNameLength < length (tk_name t) \<Longrightarrow>
   no_job l (snd (snd (reconcile_type (recording_task_env E) t (w, l))))"
  by (simp add: reconcile_type_def handle_name_too_long_def fail_task_def write_task_status_log Let_def)

definition schedulable :: "'w kube \<Rightarrow> task \<Rightarrow> bool" where
  "schedulable K t \<longleftrightarrow> is_zero_time (om_deletion_timestamp (tk_meta t)) \<and>
     k_contains_finalizer K (tk_meta t) task_finalizer \<and> ts_suspend (tk_spec t) \<noteq> Some True \<and>
     length (tk_name t) \<le> MaxTaskNameLength"

lemma delete_jobs_log:
  "\<exists>r w' ds. delete_jobs (recording K) js (w, l) = (r, w', l @ ds) \<and> filter is_create_job ds = [] \<and>
     (\<forall>c \<in> set ds. \<exists>n. c = DeleteJob n) \<and> delete_jobs K js w = (r, w')"
proof (induction js arbitrary: w l)
  case Nil
  then show ?case by simp
next
  case (Cons j js)
  show ?case
  proof (cases "is_zero_time (om_deletion_timestamp (jb_meta j))")
    case False
    with Cons show ?thesis by simp
  next
    case True
    obtain q w1 where d: "k_delete_job K j w = (q, w1)" by (metis surj_pair)
    obtain r w' ds where "delete_jobs (recording K) js (w1, l @ [DeleteJob (jb_name j)]) =
        (r, w', (l @ [DeleteJob (jb_name j)]) @ ds)" "filter is_create_job ds = []"
      "\<forall>c \<in> set ds. \<exists>n. c = DeleteJob n" "delete_jobs K js w1 = (r, w')" using Cons by blast
    with True d show ?thesis by (cases q) auto
  qed
qed

lemma handle_task_deletion_log:
  "no_job l (snd (snd (handle_task_deletion (recording_task_env E) t (w, l))))"
proof -
  obtain q w1 where q: "list_task_jobs (te_kube E) t w = (q, w1)" by (metis surj_pair)
  show ?thesis
  proof (cases q)
    case (Inl e)
    with q show ?thesis by (simp add: handle_task_deletion_def)
  next
    case (Inr jobs)
    obtain r w2 ds where "delete_jobs (recording (te_kube E)) jobs (w1, l) = (r, w2, l @ ds)"
      "filter is_create_job ds = []" using delete_jobs_log [of "te_kube E" jobs w1 l] by blast
    with q Inr show ?thesis
      by (auto simp: handle_task_deletion_def Let_def no_job_def split: option.split prod.splits sum.splits)
  qed
qed

lemma reconcile_task_log:
  assumes "status_only (te_kube E)" and g: "k_get_task (te_kube E) name w = (Inr t, w1)"
  shows "at_most_its_job E t l (snd (snd (reconcile_task (recording_task_env E) name (w, l))))"
    "\<not> schedulable (te_kube E) t \<Longrightarrow> no_job l (snd (snd (reconcile_task (recording_task_env E) name (w, l))))"
proof -
  let ?K = "te_kube E" and ?st = "(tk_status t)\<lparr>st_phase := TaskPending, st_message := []\<rparr>"
  obtain r w2 where u: "k_update_task_status ?K (set_status t ?st) w1 = (r, w2)" by (metis surj_pair)
  have same: "tk_spec t' = tk_spec t" "tk_meta t' = tk_meta t" if "r = Inr t'" for t'
    using status_onlyD [OF assms(1) u [unfolded that]] by simp_all
  let ?l = "l @ [UpdateTaskStatus (set_status t ?st)]"
  have resumed: "at_most_its_job E t l (snd (snd (reconcile_type (recording_task_env E) t' (w2, ?l))))"
    if "r = Inr t'" for t'
  proof -
    have "at_most_its_job E t' l (snd (snd (reconcile_type (recording_task_env E) t' (w2, ?l))))"
      by (rule no_job_then [OF _ reconcile_type_log [OF assms(1)]]) simp
    then show ?thesis unfolding at_most_cong [OF same [OF that]] .
  qed
  have resumed_long: "no_job l (snd (snd (reconcile_type (recording_task_env E) t' (w2, ?l))))"
    if "r = Inr t'" "MaxTaskNameLength < length (tk_name t)" for t'
    using no_job_trans [OF _ reconcile_type_too_long, of l ?l t' E w2] that same [OF that(1)] by simp
  let ?R = "snd (snd (reconcile_task (recording_task_env E) name (w, l)))"
  let ?T = "\<lambda>t w l. snd (snd (reconcile_type (recording_task_env E) t (w, l)))"
  consider (deleted) "?R = snd (snd (handle_task_deletion (recording_task_env E) t (w1, l)))"
      "\<not> is_zero_time (om_deletion_timestamp (tk_meta t))"
    | (unchanged) "no_job l ?R"
    | (resume) t' where "r = Inr t'" "?R = ?T t' w2 ?l" "schedulable ?K t \<or> MaxTaskNameLength < length (tk_name t)"
    | (type) "?R = ?T t w1 l" "schedulable ?K t \<or> MaxTaskNameLength < length (tk_name t)"
  proof (cases "is_zero_time (om_deletion_timestamp (tk_meta t)) \<and>
      k_contains_finalizer ?K (tk_meta t) task_finalizer \<and> ts_suspend (tk_spec t) \<noteq> Some True")
    case True
    then have s: "schedulable ?K t \<or> MaxTaskNameLength < length (tk_name t)"
      by (auto simp: schedulable_def)
    show ?thesis
    proof (cases "st_phase (tk_status t) = TaskSuspended")
      case sus: True
      show ?thesis
      proof (cases r)
        case (Inl e)
        with True sus g u show ?thesis by (intro unchanged) (simp add: reconcile_task_def)
      next
        case (Inr t')
        with True sus g u s show ?thesis by (intro resume) (simp_all add: reconcile_task_def)
      qed
    next
      case False
      with True g s show ?thesis by (intro type) (simp_all add: reconcile_task_def)
    qed
  next
    case F: False
    show ?thesis
    proof (cases "is_zero_time (om_deletion_timestamp (tk_meta t))")
      case False
      with g show ?thesis by (intro deleted) (simp_all add: reconcile_task_def)
    next
      case True
      with F g show ?thesis
        by (intro unchanged) (auto simp: reconcile_task_def Let_def handle_suspend_def write_task_status_log
            split: prod.splits sum.splits)
    qed
  qed
  note cases = this
  from cases show "at_most_its_job E t l ?R"
  proof cases
    case deleted
    show ?thesis unfolding deleted(1) by (rule no_job_at_most) (rule handle_task_deletion_log)
  next
    case unchanged
    then show ?thesis by (rule no_job_at_most)
  next
    case (resume t')
    show ?thesis unfolding resume(2) using resume(1) by (rule resumed)
  next
    case type
    show ?thesis unfolding type(1) using assms(1) by (rule reconcile_type_log)
  qed
  from cases show "no_job l ?R" if "\<not> schedulable ?K t"
  proof cases
    case deleted
    show ?thesis unfolding deleted(1) by (rule handle_task_deletion_log)
  next
    case (resume t')
    with that show ?thesis unfolding resume(2) by (intro resumed_long) auto
  next
    case type
    with that show ?thesis unfolding type(1) by (intro reconcile_type_too_long) auto
  qed
qed

lemma construct_job_shape:
  assumes "construct_job E t = Inr j" and "reference_only (te_kube E)"
  shows "jb_name j = tk_name t @ ''-'' @ show_int (unix_seconds (te_now E NowJobName))"
    "om_namespace (jb_meta j) = job_namespace t"
    "om_labels (jb_meta j) = [(task_label, tk_name t)]"
    "jsp_restart_policy (jb_spec j) = ''Never''"
  using assms
  by (auto simp: construct_job_def Let_def reference_only_def gm_put_def gm_empty_def split: sum.splits)

text \<open>
  C9. A reconcile of a Task creates at most one Job, and only for a Task that is not being
  deleted, carries the finalizer, is not suspended and has a name short enough.  That Job has a
  name from which the Pod name stays within 63 characters, lives in the Namespace of the Task's
  tenant, carries the Task's label, and never restarts a Pod in place.
\<close>

theorem task_creates_legal_jobs:
  assumes "status_only (te_kube E)" and "reference_only (te_kube E)"
    and "0 \<le> unix_seconds (te_now E NowJobName)" and "unix_seconds (te_now E NowJobName) < 10 ^ 10"
    and "k_get_task (te_kube E) name w = (Inr t, w1)"
    and "snd (snd (reconcile_task (recording_task_env E) name (w, []))) = calls"
  shows "length (filter is_create_job calls) \<le> 1 \<and>
    (\<forall>j. CreateJob j \<in> set calls \<longrightarrow> schedulable (te_kube E) t \<and>
       length (jb_name j @ ''-'' @ replicate 5 (CHR ''x'')) \<le> 63 \<and>
       om_namespace (jb_meta j) = job_namespace t \<and>
       om_labels (jb_meta j) = [(task_label, tk_name t)] \<and>
       jsp_restart_policy (jb_spec j) = ''Never'')"
proof -
  note R = reconcile_task_log [OF assms(1,5), of "[]", unfolded assms(6)]
  from R(1) have one: "filter is_create_job calls = [] \<or>
      (\<exists>j. construct_job E t = Inr j \<and> filter is_create_job calls = [CreateJob j])"
    by (auto simp: at_most_its_job_def)
  have "schedulable (te_kube E) t \<and> length (jb_name j @ ''-'' @ replicate 5 (CHR ''x'')) \<le> 63 \<and>
      om_namespace (jb_meta j) = job_namespace t \<and>
      om_labels (jb_meta j) = [(task_label, tk_name t)] \<and> jsp_restart_policy (jb_spec j) = ''Never''"
    if "CreateJob j \<in> set calls" for j
  proof -
    from that have f: "CreateJob j \<in> set (filter is_create_job calls)" by simp
    from one have c: "construct_job E t = Inr j"
    proof
      assume "filter is_create_job calls = []"
      with f show ?thesis by (metis empty_iff empty_set)
    next
      assume "\<exists>j. construct_job E t = Inr j \<and> filter is_create_job calls = [CreateJob j]"
      then obtain j' where "construct_job E t = Inr j'" "filter is_create_job calls = [CreateJob j']" by blast
      with f show ?thesis by (metis call.inject(7) empty_iff empty_set set_ConsD)
    qed
    have s: "schedulable (te_kube E) t"
    proof (rule ccontr)
      assume "\<not> schedulable (te_kube E) t"
      with R(2) have "filter is_create_job calls = []" by (auto simp: no_job_def)
      with f show False by simp
    qed
    note sh = construct_job_shape [OF c assms(2)]
    have "length (show_int (unix_seconds (te_now E NowJobName))) \<le> 10"
      using assms(3,4) by (auto simp: show_int_def intro!: length_show_nat)
    with s sh pod_name_fits [of "tk_name t" "show_int (unix_seconds (te_now E NowJobName))" "replicate 5 (CHR ''x'')"]
    show ?thesis by (simp add: schedulable_def)
  qed
  with one show ?thesis by auto
qed

section \<open>Cron Tasks\<close>

definition cron_base :: "task \<Rightarrow> time" where
  "cron_base t = (case st_last_schedule_time (tk_status t) of
     None \<Rightarrow> om_creation_timestamp (tk_meta t) | Some s \<Rightarrow> s)"



lemma create_job_logged:
  assumes "construct_job E t = Inr j"
  shows "CreateJob j \<in> set (snd (snd (create_job_and_update_status (recording_task_env E) t (w, l))))"
  using assms by (auto simp: create_job_and_update_status_def write_task_status_log split: prod.splits sum.splits)

text \<open>
  A schedule with no next time runs wild.  For an expression such as \<open>0 0 30 2 *\<close>, which
  names a day that never comes, the cron library gives the zero time; the code takes it for a
  time that has passed, and every reconcile creates a Job.
\<close>

theorem cron_without_next_time_always_fires:
  assumes "k_parse_cron (te_kube E) (ts_schedule (tk_spec t)) = Some (\<lambda>s. zero_time)"
    and "zero_time \<le> te_now E NowCron" and "ts_concurrency_policy (tk_spec t) = ConcurrencyAllow"
    and "construct_job E t = Inr j"
  shows "CreateJob j \<in> set (snd (snd (schedule_cron (recording_task_env E) t (w, l))))"
proof -
  obtain q w1 where "list_task_jobs (te_kube E) t w = (q, w1)" by (metis surj_pair)
  then have "concurrency_allowed (recording (te_kube E)) t (w, l) = (True, w1, l)"
    using assms(3) by (cases q) (simp_all add: concurrency_allowed_def)
  then show ?thesis using assms create_job_logged [OF assms(4)] by (simp add: schedule_cron_def Let_def)
qed

section \<open>The concurrency policy\<close>

text \<open>
  C30. Under the policy Forbid a Cron Task with an active Job does not start another one; it asks
  to be called again for the next time instead.
\<close>

theorem forbid_starts_no_second_job:
  assumes "ts_concurrency_policy (tk_spec t) = ConcurrencyForbid"
    and "list_task_jobs (te_kube E) t w = (Inr jobs, w1)" and "\<exists>j \<in> set jobs. job_active j"
  shows "no_job l (snd (snd (schedule_cron (recording_task_env E) t (w, l))))"
proof -
  have "concurrency_allowed (recording (te_kube E)) t (w, l) = (False, w1, l)"
    using assms by (auto simp: concurrency_allowed_def filter_empty_conv)
  then show ?thesis
    by (auto simp: schedule_cron_def Let_def fail_task_def write_task_status_log split: option.split)
qed

text \<open>
  The policy is not enforced when the Jobs cannot be listed: if that read fails, a due Task
  starts a Job under Forbid too, although one may be active.
\<close>

theorem forbid_fails_open:
  assumes "ts_concurrency_policy (tk_spec t) = ConcurrencyForbid"
    and "list_task_jobs (te_kube E) t w = (Inl e, w1)" and "construct_job E t = Inr j"
    and "k_parse_cron (te_kube E) (ts_schedule (tk_spec t)) = Some next_time"
    and "next_time (cron_base t) \<le> te_now E NowCron"
  shows "CreateJob j \<in> set (snd (snd (schedule_cron (recording_task_env E) t (w, l))))"
proof -
  have "concurrency_allowed (recording (te_kube E)) t (w, l) = (True, w1, l)"
    using assms(2) by (simp add: concurrency_allowed_def)
  then show ?thesis
    using assms(4,5) create_job_logged [OF assms(3)] by (simp add: schedule_cron_def Let_def cron_base_def)
qed

section \<open>OneTime Tasks\<close>

text \<open>
  Exactly when a OneTime Task starts a Job: none is listed for it (or listing them failed)
  and its execution is not recorded as finished.
\<close>

theorem one_time_starts_iff:
  assumes "construct_job E t = Inr j"
  shows "CreateJob j \<in> set (snd (snd (handle_one_time (recording_task_env E) t (w, [])))) \<longleftrightarrow>
    (case list_task_jobs (te_kube E) t w of (Inl _, _) \<Rightarrow> True | (Inr jobs, _) \<Rightarrow> jobs = []) \<and>
    \<not> task_execution_finished t"
proof -
  obtain q w1 where q: "list_task_jobs (te_kube E) t w = (q, w1)" by (metis surj_pair)
  define ex where "ex = (case q of Inl _ \<Rightarrow> False | Inr jobs \<Rightarrow> jobs \<noteq> [])"
  have ex: "job_exists (te_kube E) t w = (ex, w1)" by (cases q) (simp_all add: job_exists_def q ex_def)
  have none: "CreateJob j \<notin> set (snd (snd (sync_result (sync_job_status (recording_task_env E) t (w1, [])))))"
  proof
    assume "CreateJob j \<in> set (snd (snd (sync_result (sync_job_status (recording_task_env E) t (w1, [])))))"
      (is "_ \<in> set ?l")
    moreover have "filter is_create_job ?l = []"
      using sync_result_no_job [of "[]" E t w1] by (simp add: no_job_def)
    ultimately show False by (auto simp: filter_empty_conv)
  qed
  have "CreateJob j \<in> set (snd (snd (handle_one_time (recording_task_env E) t (w, [])))) \<longleftrightarrow>
      \<not> ex \<and> \<not> task_execution_finished t"
    using none create_job_logged [OF assms, of w1 "[]"] by (auto simp: handle_one_time_def ex)
  then show ?thesis by (cases q) (simp_all add: q ex_def)
qed

text \<open>
  C31. Suspending and resuming a OneTime Task forgets that it has run: the resume resets the phase
  to Pending, and when the Job has been removed after its time to live, the Task starts another
  one, whatever its history, counters and completion time say.
\<close>

theorem resume_runs_finished_task_again:
  assumes "k_get_task (te_kube E) name w = (Inr t, w1)" and "schedulable (te_kube E) t"
    and "ts_type (tk_spec t) = TaskTypeOneTime" and "st_phase (tk_status t) = TaskSuspended"
    and "t' = set_status t ((tk_status t)\<lparr>st_phase := TaskPending, st_message := []\<rparr>)"
    and "k_update_task_status (te_kube E) t' w1 = (Inr t', w2)"
    and "list_task_jobs (te_kube E) t' w2 = (Inr [], w3)" and "construct_job E t' = Inr j"
  shows "CreateJob j \<in> set (snd (snd (reconcile_task (recording_task_env E) name (w, []))))"
proof -
  have "reconcile_task (recording_task_env E) name (w, []) =
      handle_one_time (recording_task_env E) t' (w2, [UpdateTaskStatus t'])"
    using assms(1-6) by (simp add: reconcile_task_def schedulable_def reconcile_type_def Let_def)
  also have "\<dots> = create_job_and_update_status (recording_task_env E) t' (w3, [UpdateTaskStatus t'])"
    using assms(5,7) by (simp add: handle_one_time_def job_exists_def task_execution_finished_def
        split: prod.splits)
  finally show ?thesis using create_job_logged [OF assms(8)] by simp
qed

section \<open>Suspension and deletion\<close>

text \<open>
  A suspended Task makes no progress: a reconcile writes its status once, to Suspended, and
  nothing after that; no Job is created or deleted.
\<close>

theorem suspended_task_rests:
  assumes "k_get_task (te_kube E) name w = (Inr t, w1)" and "ts_suspend (tk_spec t) = Some True"
    and "is_zero_time (om_deletion_timestamp (tk_meta t))"
    and "k_contains_finalizer (te_kube E) (tk_meta t) task_finalizer"
  shows "snd (snd (reconcile_task (recording_task_env E) name (w, []))) =
    (if st_phase (tk_status t) = TaskSuspended then []
     else [UpdateTaskStatus (set_status t ((tk_status t)\<lparr>st_phase := TaskSuspended,
             st_message := ''Task is suspended''\<rparr>))])"
  using assms by (simp add: reconcile_task_def handle_suspend_def write_task_status_log)

text \<open>
  A deleted Task leaves no Job behind: its finalizer is taken off only after a list of its
  Jobs came back empty, and no other update of the Task is made.
\<close>

theorem task_deletion_waits_for_jobs:
  assumes "handle_task_deletion (recording_task_env E) t (w, []) = (r, w', calls)"
    and "UpdateTask v \<in> set calls"
  shows "v = t\<lparr>tk_meta := k_remove_finalizer (te_kube E) (tk_meta t) task_finalizer\<rparr> \<and>
    (\<exists>w2 w3. list_task_jobs (te_kube E) t w2 = (Inr [], w3))"
proof -
  obtain q w1 where q: "list_task_jobs (te_kube E) t w = (q, w1)" by (metis surj_pair)
  show ?thesis
  proof (cases q)
    case (Inl e)
    with assms q show ?thesis by (simp add: handle_task_deletion_def)
  next
    case (Inr jobs)
    obtain d w2 ds where d: "delete_jobs (recording (te_kube E)) jobs (w1, []) = (d, w2, ds)"
      and only: "\<forall>c \<in> set ds. \<exists>n. c = DeleteJob n"
      using delete_jobs_log [of "te_kube E" jobs w1 "[]"] by auto
    obtain q2 w3 where q2: "list_task_jobs (te_kube E) t w2 = (q2, w3)" by (metis surj_pair)
    show ?thesis
      using assms q Inr d only q2
      by (auto simp: handle_task_deletion_def Let_def split: option.splits sum.splits prod.splits if_splits)
  qed
qed

section \<open>Witnesses\<close>

definition sample_task_env :: "time \<Rightarrow> cluster task_env" where
  "sample_task_env now = \<lparr>te_kube = sample_kube, te_now = (\<lambda>_. now)\<rparr>"

definition the_task :: "task_spec \<Rightarrow> task_status \<Rightarrow> task" where
  "the_task spec st = \<lparr>tk_api_version = [], tk_kind = [],
     tk_meta = empty_meta\<lparr>om_name := ''t'', om_uid := ''u'', om_finalizers := [task_finalizer]\<rparr>,
     tk_spec = spec, tk_status = st\<rparr>"

definition cluster_with :: "task \<Rightarrow> job list \<Rightarrow> cluster" where
  "cluster_with t jobs = \<lparr>cl_workflows = [], cl_tasks = [(tk_name t, t)],
     cl_jobs = map (\<lambda>j. (jb_name j, j)) jobs\<rparr>"

definition cron_spec :: "string \<Rightarrow> concurrency_policy \<Rightarrow> task_spec" where
  "cron_spec schedule policy = empty_task_spec\<lparr>ts_type := TaskTypeCron, ts_schedule := schedule,
     ts_concurrency_policy := policy\<rparr>"

definition one_time_spec :: task_spec where
  "one_time_spec = empty_task_spec\<lparr>ts_type := TaskTypeOneTime\<rparr>"

definition active_job :: job where
  "active_job = (let j = sample_job ''t-0'' [] None in
     j\<lparr>jb_meta := (jb_meta j)\<lparr>om_namespace := ''default'', om_labels := [(task_label, ''t'')]\<rparr>\<rparr>)"

lemma sample_status_only: "status_only sample_kube"
  by (auto simp: status_only_def sample_kube_def)

lemma sample_reference_only: "reference_only sample_kube"
  by (auto simp: reference_only_def sample_kube_def sample_reference_def)

definition sample_job_of :: "time \<Rightarrow> task \<Rightarrow> job" where
  "sample_job_of now t = projr (construct_job (sample_task_env now) t)"

lemma sample_construct: "construct_job (sample_task_env now) t = Inr (sample_job_of now t)"
  by (simp add: sample_job_of_def construct_job_def sample_task_env_def sample_kube_def sample_reference_def Let_def)

abbreviation sample_log :: "'r \<times> 'w \<times> call list \<Rightarrow> call list" where
  "sample_log r \<equiv> snd (snd r)"

theorem task_creates_legal_jobs_witness:
  "\<exists>calls. sample_log (reconcile_task (recording_task_env (sample_task_env (9 * second))) ''t''
       (cluster_with (the_task one_time_spec empty_task_status) [], [])) = calls \<and>
     length (filter is_create_job calls) \<le> 1 \<and> CreateJob (sample_job_of (9 * second)
       (the_task one_time_spec empty_task_status)) \<in> set calls"
proof -
  let ?t = "the_task one_time_spec empty_task_status" and ?E = "sample_task_env (9 * second)"
  let ?r = "reconcile_task (recording_task_env ?E) ''t'' (cluster_with ?t [], [])"
  have g: "k_get_task (te_kube ?E) ''t'' (cluster_with ?t []) = (Inr ?t, cluster_with ?t [])" by code_simp
  have "length (filter is_create_job (sample_log ?r)) \<le> 1"
    using task_creates_legal_jobs [of ?E "''t''" "cluster_with ?t []" ?t, OF _ _ _ _ g refl]
    by (simp add: sample_task_env_def sample_status_only sample_reference_only unix_seconds_def)
  moreover have "CreateJob (sample_job_of (9 * second) ?t) \<in> set (sample_log ?r)" by code_simp
  ultimately show ?thesis by blast
qed


theorem cron_without_next_time_always_fires_witness:
  "CreateJob (sample_job_of 5 (the_task (cron_spec ''0 0 30 2 *'' ConcurrencyAllow) empty_task_status)) \<in>
   set (sample_log (schedule_cron (recording_task_env (sample_task_env 5))
     (the_task (cron_spec ''0 0 30 2 *'' ConcurrencyAllow) empty_task_status) (empty_cluster, [])))"
  by (rule cron_without_next_time_always_fires [OF _ _ _ sample_construct])
    (simp_all add: sample_task_env_def sample_kube_def sample_cron_def the_task_def cron_spec_def zero_time_def)

theorem forbid_starts_no_second_job_witness:
  "no_job [] (sample_log (schedule_cron (recording_task_env (sample_task_env (70 * second)))
     (the_task (cron_spec ''* * * * *'' ConcurrencyForbid) empty_task_status)
     (cluster_with (the_task (cron_spec ''* * * * *'' ConcurrencyForbid) empty_task_status) [active_job], [])))"
proof -
  let ?t = "the_task (cron_spec ''* * * * *'' ConcurrencyForbid) empty_task_status"
  let ?c = "cluster_with ?t [active_job]" and ?E = "sample_task_env (70 * second)"
  have 1: "ts_concurrency_policy (tk_spec ?t) = ConcurrencyForbid" by (simp add: the_task_def cron_spec_def)
  have 2: "list_task_jobs (te_kube ?E) ?t ?c = (Inr [active_job], ?c)" by code_simp
  have 3: "\<exists>j \<in> set [active_job]. job_active j" by code_simp
  show ?thesis by (rule forbid_starts_no_second_job [OF 1 2 3])
qed

text \<open>A server that cannot list Jobs.\<close>

definition broken_env :: "time \<Rightarrow> cluster task_env" where
  "broken_env now = \<lparr>te_kube = sample_kube\<lparr>k_list_jobs := (\<lambda>ns l c. (Inl (ApiError OtherReason ''timeout''), c))\<rparr>,
     te_now = (\<lambda>_. now)\<rparr>"

theorem forbid_fails_open_witness:
  "\<exists>j. CreateJob j \<in> set (sample_log (schedule_cron (recording_task_env (broken_env (70 * second)))
     (the_task (cron_spec ''* * * * *'' ConcurrencyForbid) empty_task_status) (empty_cluster, [])))"
proof -
  let ?t = "the_task (cron_spec ''* * * * *'' ConcurrencyForbid) empty_task_status"
  let ?E = "broken_env (70 * second)"
  have 1: "ts_concurrency_policy (tk_spec ?t) = ConcurrencyForbid" by (simp add: the_task_def cron_spec_def)
  have 2: "list_task_jobs (te_kube ?E) ?t empty_cluster = (Inl (ApiError OtherReason ''timeout''), empty_cluster)"
    by code_simp
  have 3: "construct_job ?E ?t = Inr (projr (construct_job ?E ?t))" by code_simp
  have 4: "k_parse_cron (te_kube ?E) (ts_schedule (tk_spec ?t)) = Some (\<lambda>t. (t div minute + 1) * minute)"
    by (simp add: broken_env_def sample_kube_def sample_cron_def the_task_def cron_spec_def)
  have 5: "(cron_base ?t div minute + 1) * minute \<le> te_now ?E NowCron" by code_simp
  show ?thesis using forbid_fails_open [OF 1 2 3 4 5] by blast
qed

theorem one_time_starts_iff_witness:
  "CreateJob (sample_job_of 5 (the_task one_time_spec empty_task_status)) \<in>
   set (sample_log (handle_one_time (recording_task_env (sample_task_env 5))
     (the_task one_time_spec empty_task_status) (empty_cluster, [])))"
proof -
  let ?t = "the_task one_time_spec empty_task_status"
  have "list_task_jobs (te_kube (sample_task_env 5)) ?t empty_cluster = (Inr [], empty_cluster)" by code_simp
  moreover have "\<not> task_execution_finished ?t" by code_simp
  ultimately show ?thesis
    using one_time_starts_iff [OF sample_construct, of 5 ?t empty_cluster] by simp
qed

definition finished_status :: task_status where
  "finished_status = empty_task_status\<lparr>st_phase := TaskSuspended, st_succeeded := 1,
     st_last_completion_time := Some 3,
     st_execution_history := [execution_record_of 3 (sample_job ''t-0'' ''Complete'' (Some 3))]\<rparr>"

theorem resume_runs_finished_task_again_witness:
  "\<exists>j. CreateJob j \<in> set (sample_log (reconcile_task (recording_task_env (sample_task_env 5)) ''t''
     (cluster_with (the_task one_time_spec finished_status) [], [])))"
proof -
  let ?t = "the_task one_time_spec finished_status" and ?E = "sample_task_env 5"
  let ?c = "cluster_with ?t []"
  let ?t' = "set_status ?t ((tk_status ?t)\<lparr>st_phase := TaskPending, st_message := []\<rparr>)"
  let ?c' = "?c\<lparr>cl_tasks := [(''t'', ?t')]\<rparr>"
  have 1: "k_get_task (te_kube ?E) ''t'' ?c = (Inr ?t, ?c)" by code_simp
  have 2: "schedulable (te_kube ?E) ?t" by code_simp
  have 3: "ts_type (tk_spec ?t) = TaskTypeOneTime" by code_simp
  have 4: "st_phase (tk_status ?t) = TaskSuspended" by code_simp
  have 5: "k_update_task_status (te_kube ?E) ?t' ?c = (Inr ?t', ?c')" by code_simp
  have 6: "list_task_jobs (te_kube ?E) ?t' ?c' = (Inr [], ?c')" by code_simp
  show ?thesis
    using resume_runs_finished_task_again [OF 1 2 3 4 refl 5 6 sample_construct] by blast
qed

theorem suspended_task_rests_witness:
  "sample_log (reconcile_task (recording_task_env (sample_task_env 5)) ''t''
     (cluster_with (the_task (one_time_spec\<lparr>ts_suspend := Some True\<rparr>) finished_status) [], [])) = []"
proof -
  let ?t = "the_task (one_time_spec\<lparr>ts_suspend := Some True\<rparr>) finished_status" and ?E = "sample_task_env 5"
  have 1: "k_get_task (te_kube ?E) ''t'' (cluster_with ?t []) = (Inr ?t, cluster_with ?t [])" by code_simp
  have 2: "ts_suspend (tk_spec ?t) = Some True" by code_simp
  have 3: "is_zero_time (om_deletion_timestamp (tk_meta ?t))" by code_simp
  have 4: "k_contains_finalizer (te_kube ?E) (tk_meta ?t) task_finalizer" by code_simp
  have "st_phase (tk_status ?t) = TaskSuspended" by code_simp
  with suspended_task_rests [OF 1 2 3 4] show ?thesis by simp
qed

theorem task_deletion_waits_for_jobs_witness:
  "\<exists>w2 w3. list_task_jobs sample_kube (the_task one_time_spec finished_status) w2 = (Inr [], w3)"
proof -
  let ?t = "the_task one_time_spec finished_status" and ?E = "sample_task_env 5"
  let ?r = "handle_task_deletion (recording_task_env ?E) ?t (cluster_with ?t [active_job], [])"
  let ?v = "?t\<lparr>tk_meta := k_remove_finalizer (te_kube ?E) (tk_meta ?t) task_finalizer\<rparr>"
  have r: "?r = (fst ?r, fst (snd ?r), snd (snd ?r))" by simp
  have "UpdateTask ?v \<in> set (snd (snd ?r))" by code_simp
  from task_deletion_waits_for_jobs [OF r this] show ?thesis by (simp add: sample_task_env_def)
qed

end
