(* ===== verification/GraphView.thy ===== *)
theory GraphView
  imports DagInterface
begin

text \<open>
  The graph data of a Workflow's detail page, \<open>internal/api/handler/workflow_graph.go\<close>: declared
  nodes with their runtime status, nodes that are only in the status, edges, and the order and
  levels when the spec is valid.
\<close>

section \<open>Data\<close>

record workflow_graph_node =
  gn_name :: string
  gn_depends_on :: "string list"
  gn_run_on_failure :: bool
  gn_phase :: node_phase
  gn_task_name :: string
  gn_start_time :: "time option"
  gn_completion_time :: "time option"
  gn_message :: string

record workflow_graph_edge =
  ge_from :: string
  ge_to :: string

record workflow_graph =
  wg_nodes :: "workflow_graph_node list"
  wg_edges :: "workflow_graph_edge list"
  wg_order :: "string list"
  wg_levels :: "string list list"
  wg_validation_error :: string

section \<open>Construction\<close>

definition new_graph_node ::
  "string \<Rightarrow> string list \<Rightarrow> bool \<Rightarrow> workflow_node_status option \<Rightarrow> workflow_graph_node" where
  "new_graph_node name depends_on run_on_failure status =
     (let node = \<lparr>gn_name = name, gn_depends_on = depends_on, gn_run_on_failure = run_on_failure,
            gn_phase = NodePending, gn_task_name = [], gn_start_time = None, gn_completion_time = None,
            gn_message = []\<rparr>;
          node = (case status of
             None \<Rightarrow> node
           | Some st \<Rightarrow> node\<lparr>gn_phase := wn_phase st, gn_task_name := wn_task_name st,
               gn_start_time := wn_start_time st, gn_completion_time := wn_completion_time st,
               gn_message := wn_message st\<rparr>)
      in if gn_phase node = NodePhaseOther [] then node\<lparr>gn_phase := NodePending\<rparr> else node)"

definition workflow_validation_text :: "validation_error \<Rightarrow> string" where
  "workflow_validation_text e = ve_reason e @ '': '' @ ve_message e"

type_synonym status_map = "(string, workflow_node_status) gomap"

definition status_by_node :: "workflow_node_status list \<Rightarrow> status_map" where
  "status_by_node nodes = foldl (\<lambda>m node. gm_put (wn_name node) node m) gm_empty nodes"

text \<open>The loop over the declared tasks, which takes the status entries it uses out of the map.\<close>

fun declared_nodes :: "workflow_task list \<Rightarrow> status_map \<Rightarrow> workflow_graph_node list \<times> status_map" where
  "declared_nodes [] m = ([], m)"
| "declared_nodes (t # ts) m =
     (let status = gm_get m (wt_name t);
          m' = (if status = None then m else gm_del (wt_name t) m);
          node = new_graph_node (wt_name t) (wt_depends_on t) (wt_run_on_failure t) status
      in case declared_nodes ts m' of (nodes, m'') \<Rightarrow> (node # nodes, m''))"

definition declared_edges :: "workflow_task list \<Rightarrow> workflow_graph_edge list" where
  "declared_edges ts =
     concat (map (\<lambda>t. map (\<lambda>dep. \<lparr>ge_from = dep, ge_to = wt_name t\<rparr>) (wt_depends_on t)) ts)"

fun leftover_nodes :: "workflow_node_status list \<Rightarrow> status_map \<Rightarrow> workflow_graph_node list" where
  "leftover_nodes [] m = []"
| "leftover_nodes (n # ns) m =
     (case gm_get m (wn_name n) of
        None \<Rightarrow> leftover_nodes ns m
      | Some status \<Rightarrow> new_graph_node (wn_name status) [] False (Some status) #
                        leftover_nodes ns (gm_del (wn_name n) m))"

definition build_workflow_graph :: "workflow \<Rightarrow> workflow_graph" where
  "build_workflow_graph wfl =
     (case declared_nodes (wsp_tasks (wf_spec wfl)) (status_by_node (ws_nodes (wf_status wfl))) of
        (nodes, rest) \<Rightarrow>
          let graph = \<lparr>wg_nodes = nodes @ leftover_nodes (ws_nodes (wf_status wfl)) rest,
                wg_edges = declared_edges (wsp_tasks (wf_spec wfl)),
                wg_order = [], wg_levels = [], wg_validation_error = []\<rparr>
          in case build (wf_spec wfl) of
               Inl e \<Rightarrow> graph\<lparr>wg_validation_error := workflow_validation_text e\<rparr>
             | Inr g \<Rightarrow> graph\<lparr>wg_order := graph_order g, wg_levels := graph_levels g\<rparr>)"

section \<open>Lemmas\<close>

lemma new_graph_node_name [simp]: "gn_name (new_graph_node n d r s) = n"
  by (auto simp: new_graph_node_def Let_def split: option.splits)

lemma new_graph_node_phase: "gn_phase (new_graph_node n d r s) \<noteq> NodePhaseOther []"
  by (auto simp: new_graph_node_def Let_def split: option.splits)

abbreviation use_status :: "workflow_task \<Rightarrow> status_map \<Rightarrow> status_map" where
  "use_status t m \<equiv> (if gm_get m (wt_name t) = None then m else gm_del (wt_name t) m)"

lemma declared_nodes_Cons:
  "fst (declared_nodes (t # ts) m) =
     new_graph_node (wt_name t) (wt_depends_on t) (wt_run_on_failure t) (gm_get m (wt_name t)) #
     fst (declared_nodes ts (use_status t m))"
  "snd (declared_nodes (t # ts) m) = snd (declared_nodes ts (use_status t m))"
  by (simp_all add: Let_def split: prod.splits)

lemma declared_nodes_names: "map gn_name (fst (declared_nodes ts m)) = map wt_name ts"
  by (induction ts arbitrary: m) (simp_all add: declared_nodes_Cons del: declared_nodes.simps(2))

lemma declared_nodes_rest:
  "gm_ok m \<Longrightarrow> gm_ok (snd (declared_nodes ts m)) \<and>
   gm_get (snd (declared_nodes ts m)) n = (if n \<in> wt_name ` set ts then None else gm_get m n)"
proof (induction ts arbitrary: m)
  case Nil
  then show ?case by simp
next
  case (Cons t ts)
  define m' where "m' = (if gm_get m (wt_name t) = None then m else gm_del (wt_name t) m)"
  from Cons.prems have "gm_ok m'" by (simp add: m'_def gm.ok_del)
  moreover have "gm_get m' n = (if n = wt_name t then None else gm_get m n)"
    using Cons.prems by (auto simp: m'_def gm.get_del)
  moreover have "snd (declared_nodes (t # ts) m) = snd (declared_nodes ts m')"
    by (simp only: m'_def declared_nodes_Cons)
  ultimately show ?case using Cons.IH by auto
qed

lemma declared_nodes_status:
  assumes "gm_ok m" "distinct (map wt_name ts)"
  shows "fst (declared_nodes ts m) = map (\<lambda>t. new_graph_node (wt_name t) (wt_depends_on t)
           (wt_run_on_failure t) (gm_get m (wt_name t))) ts"
  using assms
proof (induction ts arbitrary: m)
  case Nil
  then show ?case by simp
next
  case (Cons t ts)
  define m' where "m' = (if gm_get m (wt_name t) = None then m else gm_del (wt_name t) m)"
  from Cons.prems have "gm_ok m'" by (simp add: m'_def gm.ok_del)
  moreover have "gm_get m' (wt_name u) = gm_get m (wt_name u)" if "u \<in> set ts" for u
    using imageI [OF that, of wt_name] Cons.prems by (auto simp: m'_def gm.get_del)
  ultimately show ?case using Cons.IH [of m'] Cons.prems(2)
    by (simp add: declared_nodes_Cons m'_def [symmetric] del: declared_nodes.simps(2))
qed

lemma status_by_node_get:
  assumes "distinct (map wn_name nodes)"
  shows "gm_ok (status_by_node nodes) \<and>
    gm_get (status_by_node nodes) n = List.find (\<lambda>s. wn_name s = n) nodes"
  using assms
proof (induction nodes rule: rev_induct)
  case Nil
  show ?case by (simp add: status_by_node_def gm.get_emp gm.ok_keys gm.keys_emp)
next
  case (snoc x xs)
  have "status_by_node (xs @ [x]) = gm_put (wn_name x) x (status_by_node xs)"
    by (simp add: status_by_node_def)
  moreover have "List.find (\<lambda>s. wn_name s = n) (xs @ [x]) =
      (if wn_name x = n then Some x else List.find (\<lambda>s. wn_name s = n) xs)"
    using snoc.prems by (induction xs) auto
  ultimately show ?case using snoc by (auto simp: gm.get_put gm.ok_put)
qed

lemma leftover_nodes_exact:
  assumes "gm_ok m" "distinct (map wn_name ns)"
    and "\<And>n. n \<in> set ns \<Longrightarrow> gm_get m (wn_name n) = None \<or> gm_get m (wn_name n) = Some n"
  shows "leftover_nodes ns m = map (\<lambda>n. new_graph_node (wn_name n) [] False (Some n))
    (filter (\<lambda>n. gm_get m (wn_name n) \<noteq> None) ns)"
  using assms
proof (induction ns arbitrary: m)
  case Nil
  show ?case by simp
next
  case (Cons n ns)
  show ?case
  proof (cases "gm_get m (wn_name n)")
    case None
    with Cons show ?thesis by simp
  next
    case (Some s)
    then have s: "s = n" using Cons.prems(3) [of n] by simp
    define m' where "m' = gm_del (wn_name n) m"
    have ok: "gm_ok m'" using Cons.prems(1) by (simp add: m'_def gm.ok_del)
    have same: "gm_get m' (wn_name x) = gm_get m (wn_name x)" if "x \<in> set ns" for x
      using imageI [OF that, of wn_name] Cons.prems(1,2) by (auto simp: m'_def gm.get_del)
    have "leftover_nodes ns m' = map (\<lambda>n. new_graph_node (wn_name n) [] False (Some n))
        (filter (\<lambda>n. gm_get m' (wn_name n) \<noteq> None) ns)"
      using Cons.prems same by (intro Cons.IH ok) auto
    moreover have "filter (\<lambda>n. gm_get m' (wn_name n) \<noteq> None) ns = filter (\<lambda>n. gm_get m (wn_name n) \<noteq> None) ns"
      using same by (intro filter_cong) auto
    ultimately show ?thesis using Some s by (simp add: m'_def)
  qed
qed

lemma build_workflow_graph_fields:
  "wg_nodes (build_workflow_graph wfl) =
     (case declared_nodes (wsp_tasks (wf_spec wfl)) (status_by_node (ws_nodes (wf_status wfl))) of
        (nodes, rest) \<Rightarrow> nodes @ leftover_nodes (ws_nodes (wf_status wfl)) rest)"
  "wg_edges (build_workflow_graph wfl) = declared_edges (wsp_tasks (wf_spec wfl))"
  "build (wf_spec wfl) = Inr g \<Longrightarrow> wg_order (build_workflow_graph wfl) = graph_order g \<and>
     wg_levels (build_workflow_graph wfl) = graph_levels g \<and> wg_validation_error (build_workflow_graph wfl) = []"
  "build (wf_spec wfl) = Inl e \<Longrightarrow> wg_order (build_workflow_graph wfl) = [] \<and>
     wg_levels (build_workflow_graph wfl) = [] \<and>
     wg_validation_error (build_workflow_graph wfl) = workflow_validation_text e"
  by (auto simp: build_workflow_graph_def Let_def split: prod.splits sum.splits)

lemma find_by_name:
  "n \<in> set ns \<Longrightarrow> distinct (map wn_name ns) \<Longrightarrow> List.find (\<lambda>s. wn_name s = wn_name n) ns = Some n"
  by (induction ns) (auto dest: imageI [of _ _ wn_name])

lemma view_nodes_names:
  assumes "distinct (map wn_name (ws_nodes (wf_status wfl)))"
  shows "map gn_name (wg_nodes (build_workflow_graph wfl)) =
    map wt_name (wsp_tasks (wf_spec wfl)) @
    filter (\<lambda>n. n \<notin> wt_name ` set (wsp_tasks (wf_spec wfl))) (map wn_name (ws_nodes (wf_status wfl)))"
proof -
  let ?ts = "wsp_tasks (wf_spec wfl)" and ?ns = "ws_nodes (wf_status wfl)"
  obtain nodes rest where d: "declared_nodes ?ts (status_by_node ?ns) = (nodes, rest)" by (metis surj_pair)
  note st = status_by_node_get [OF assms]
  have find: "List.find (\<lambda>s. wn_name s = wn_name n) ?ns = Some n" if "n \<in> set ?ns" for n
    using that assms by (rule find_by_name)
  have rest: "gm_ok rest" "\<And>n. gm_get rest n = (if n \<in> wt_name ` set ?ts then None else List.find (\<lambda>s. wn_name s = n) ?ns)"
    using declared_nodes_rest [of "status_by_node ?ns" ?ts] st unfolding d snd_conv by auto
  have "leftover_nodes ?ns rest = map (\<lambda>n. new_graph_node (wn_name n) [] False (Some n))
      (filter (\<lambda>n. gm_get rest (wn_name n) \<noteq> None) ?ns)"
    using rest find by (intro leftover_nodes_exact assms) auto
  moreover have "filter (\<lambda>n. gm_get rest (wn_name n) \<noteq> None) ?ns = filter (\<lambda>n. wn_name n \<notin> wt_name ` set ?ts) ?ns"
    using rest find by (intro filter_cong) auto
  ultimately show ?thesis
    using declared_nodes_names [of ?ts "status_by_node ?ns"]
    by (simp add: build_workflow_graph_fields d filter_map o_def)
qed

lemma declared_edges_iff:
  "\<lparr>ge_from = d, ge_to = n\<rparr> \<in> set (declared_edges ts) \<longleftrightarrow>
   (\<exists>t \<in> set ts. wt_name t = n \<and> d \<in> set (wt_depends_on t))"
  by (auto simp: declared_edges_def)

lemma declared_edges_set: "e \<in> set (declared_edges ts) \<Longrightarrow> \<exists>d n. e = \<lparr>ge_from = d, ge_to = n\<rparr>"
  by (auto simp: declared_edges_def)

section \<open>Properties\<close>

lemma view_declared_nodes:
  assumes "distinct (map wn_name (ws_nodes (wf_status wfl)))" "distinct (map wt_name (wsp_tasks (wf_spec wfl)))"
  shows "take (length (wsp_tasks (wf_spec wfl))) (wg_nodes (build_workflow_graph wfl)) =
    map (\<lambda>t. new_graph_node (wt_name t) (wt_depends_on t) (wt_run_on_failure t)
           (List.find (\<lambda>s. wn_name s = wt_name t) (ws_nodes (wf_status wfl)))) (wsp_tasks (wf_spec wfl))"
proof -
  let ?ts = "wsp_tasks (wf_spec wfl)" and ?m = "status_by_node (ws_nodes (wf_status wfl))"
  obtain nodes rest where d: "declared_nodes ?ts ?m = (nodes, rest)" by (metis surj_pair)
  have "nodes = map (\<lambda>t. new_graph_node (wt_name t) (wt_depends_on t) (wt_run_on_failure t)
           (gm_get ?m (wt_name t))) ?ts"
    using declared_nodes_status [OF _ assms(2), of ?m] status_by_node_get [OF assms(1)] d by simp
  with d status_by_node_get [OF assms(1)] show ?thesis by (simp add: build_workflow_graph_fields)
qed

lemma edges_follow_order:
  assumes "build spec = Inr g" and "e \<in> set (declared_edges (wsp_tasks spec))"
  shows "\<exists>xs ys. graph_order g = xs @ ge_to e # ys \<and> ge_from e \<in> set xs"
proof -
  from assms(2) obtain t where t: "t \<in> set (wsp_tasks spec)" "ge_to e = wt_name t" "ge_from e \<in> set (wt_depends_on t)"
    by (auto simp: declared_edges_def)
  have b: "built spec g" by (rule build_built [OF assms(1)])
  have "wt_name t \<in> set (graph_order g)" using built_facts(1) [OF b] t(1) by (simp add: graph_order_def)
  then obtain xs ys where o: "graph_order g = xs @ wt_name t # ys" by (auto simp: in_set_conv_decomp)
  have "set (graph_deps g (wt_name t)) \<subseteq> set xs"
    by (rule dag.order_deps [OF built_graphI [OF assms(1)] o])
  with o t built_deps [OF b t(1)] show ?thesis by auto
qed

text \<open>
  The detail page shows a Workflow completely and without contradictions. Every declared node
  appears once, in the order of the spec and with its own status, followed by the nodes that are
  left in the status alone; the edges are exactly the declared dependencies; and when the spec is
  valid the order that is shown has the start of every edge before its end.
\<close>

theorem graph_view_correct:
  assumes "distinct (map wn_name (ws_nodes (wf_status wfl)))"
  defines "spec \<equiv> wf_spec wfl" and "view \<equiv> build_workflow_graph wfl"
  shows "map gn_name (wg_nodes view) = map wt_name (wsp_tasks spec) @
      filter (\<lambda>n. n \<notin> wt_name ` set (wsp_tasks spec)) (map wn_name (ws_nodes (wf_status wfl))) \<and>
    (\<forall>d n. \<lparr>ge_from = d, ge_to = n\<rparr> \<in> set (wg_edges view) \<longleftrightarrow>
       (\<exists>t \<in> set (wsp_tasks spec). wt_name t = n \<and> d \<in> set (wt_depends_on t))) \<and>
    (\<forall>g. build spec = Inr g \<longrightarrow>
       take (length (wsp_tasks spec)) (wg_nodes view) =
         map (\<lambda>t. new_graph_node (wt_name t) (wt_depends_on t) (wt_run_on_failure t)
                (List.find (\<lambda>s. wn_name s = wt_name t) (ws_nodes (wf_status wfl)))) (wsp_tasks spec) \<and>
       (\<forall>e \<in> set (wg_edges view). \<exists>xs ys. wg_order view = xs @ ge_to e # ys \<and> ge_from e \<in> set xs))"
proof (intro conjI allI impI)
  show "map gn_name (wg_nodes view) = map wt_name (wsp_tasks spec) @
      filter (\<lambda>n. n \<notin> wt_name ` set (wsp_tasks spec)) (map wn_name (ws_nodes (wf_status wfl)))"
    unfolding view_def spec_def by (rule view_nodes_names [OF assms(1)])
  show "\<lparr>ge_from = d, ge_to = n\<rparr> \<in> set (wg_edges view) \<longleftrightarrow>
       (\<exists>t \<in> set (wsp_tasks spec). wt_name t = n \<and> d \<in> set (wt_depends_on t))" for d n
    by (simp add: view_def spec_def build_workflow_graph_fields declared_edges_iff)
next
  fix g assume g: "build spec = Inr g"
  have b: "built spec g" by (rule build_built [OF g])
  have "distinct (map wt_name (wsp_tasks spec))" using built_facts(4) [OF b] by (simp add: spec_ok_def)
  then show "take (length (wsp_tasks spec)) (wg_nodes view) =
         map (\<lambda>t. new_graph_node (wt_name t) (wt_depends_on t) (wt_run_on_failure t)
                (List.find (\<lambda>s. wn_name s = wt_name t) (ws_nodes (wf_status wfl)))) (wsp_tasks spec)"
    unfolding view_def spec_def by (rule view_declared_nodes [OF assms(1)])
  show "\<forall>e \<in> set (wg_edges view). \<exists>xs ys. wg_order view = xs @ ge_to e # ys \<and> ge_from e \<in> set xs"
    using edges_follow_order [OF g] g
    by (simp add: view_def spec_def build_workflow_graph_fields)
qed

definition viewed_workflow :: workflow where
  "viewed_workflow = \<lparr>wf_api_version = [], wf_kind = [], wf_meta = empty_meta, wf_spec = diamond,
     wf_status = empty_workflow_status\<lparr>ws_nodes :=
       [\<lparr>wn_name = ''gone'', wn_phase = NodeSucceeded, wn_task_name = ''wf-gone'', wn_start_time = None,
         wn_completion_time = None, wn_message = []\<rparr>]\<rparr>\<rparr>"

theorem graph_view_correct_witness:
  "map gn_name (wg_nodes (build_workflow_graph viewed_workflow)) = map wt_name (wsp_tasks diamond) @ [''gone''] \<and>
   (\<exists>xs ys. wg_order (build_workflow_graph viewed_workflow) = xs @ ''d'' # ys \<and> ''b'' \<in> set xs)"
proof -
  have w: "distinct (map wn_name (ws_nodes (wf_status viewed_workflow)))" "wf_spec viewed_workflow = diamond"
    "map wn_name (ws_nodes (wf_status viewed_workflow)) = [''gone'']"
    "''gone'' \<notin> wt_name ` set (wsp_tasks diamond)"
    by (simp_all add: viewed_workflow_def diamond_def sample_spec_def sample_task_def)
  have t: "\<exists>t \<in> set (wsp_tasks diamond). wt_name t = ''d'' \<and> ''b'' \<in> set (wt_depends_on t)"
    by (simp add: diamond_def sample_spec_def sample_task_def)
  note view = graph_view_correct [OF w(1), unfolded w(2,3)]
  from view t have "\<lparr>ge_from = ''b'', ge_to = ''d''\<rparr> \<in> set (wg_edges (build_workflow_graph viewed_workflow))" by blast
  with view build_diamond have "\<exists>xs ys. wg_order (build_workflow_graph viewed_workflow) = xs @ ge_to \<lparr>ge_from = ''b'', ge_to = ''d''\<rparr> # ys \<and>
      ge_from \<lparr>ge_from = ''b'', ge_to = ''d''\<rparr> \<in> set xs" by blast
  with view w(4) show ?thesis by simp
qed

end
