(* ===== verification/GoStrings.thy ===== *)
theory GoStrings
  imports Tenant
begin

text \<open>
  What the HTTP side uses of Go's \<open>strings\<close> package: \<open>TrimSpace\<close> with the white space of Unicode
  in its UTF-8 form, \<open>TrimLeft\<close> and \<open>TrimRight\<close> of one byte, \<open>Split\<close> at a byte and
  \<open>EqualFold\<close> for ASCII text.
\<close>

section \<open>White space\<close>

definition bytes :: "nat list \<Rightarrow> string" where
  "bytes = map char_of"

text \<open>The runes of \<open>unicode.IsSpace\<close>, encoded.\<close>

definition space_runes :: "string list" where
  "space_runes = map bytes
     ([[9], [10], [11], [12], [13], [32], [194, 133], [194, 160], [225, 154, 128]] @
      map (\<lambda>b. [226, 128, b]) [128 ..< 139] @
      [[226, 128, 168], [226, 128, 169], [226, 128, 175], [226, 129, 159], [227, 128, 128]])"

function strip_prefixes :: "string list \<Rightarrow> string \<Rightarrow> string" where
  "strip_prefixes ps s =
     (case List.find (\<lambda>p. p \<noteq> [] \<and> has_prefix s p) ps of
        None \<Rightarrow> s
      | Some p \<Rightarrow> strip_prefixes ps (drop (length p) s))"
  by pat_completeness auto
termination
  by (relation "measure (\<lambda>(ps, s). length s)")
     (auto simp: find_Some_iff has_prefix_def intro!: diff_less)

declare strip_prefixes.simps [simp del]

definition trim_space :: "string \<Rightarrow> string" where
  "trim_space s = rev (strip_prefixes (map rev space_runes) (rev (strip_prefixes space_runes s)))"

lemma strip_prefixes_Nil [simp]: "strip_prefixes ps [] = []"
  by (subst strip_prefixes.simps) (auto simp: has_prefix_def find_Some_iff split: option.splits)

lemma trim_space_Nil [simp]: "trim_space [] = []"
  by (simp add: trim_space_def)

lemma strip_prefixes_suffix: "\<exists>p. s = p @ strip_prefixes ps s"
proof (induction ps s rule: strip_prefixes.induct)
  case (1 ps s)
  show ?case
  proof (cases "List.find (\<lambda>p. p \<noteq> [] \<and> has_prefix s p) ps")
    case None
    then have "strip_prefixes ps s = s" by (subst strip_prefixes.simps) simp
    then show ?thesis by simp
  next
    case (Some p)
    then have "strip_prefixes ps s = strip_prefixes ps (drop (length p) s)"
      by (subst strip_prefixes.simps) simp
    with "1.IH" [OF Some] show ?thesis by (metis append.assoc append_take_drop_id)
  qed
qed

lemma trim_space_infix: "\<exists>a b. s = a @ trim_space s @ b"
proof -
  obtain a where a: "s = a @ strip_prefixes space_runes s" using strip_prefixes_suffix by blast
  obtain b where "rev (strip_prefixes space_runes s) = b @ rev (trim_space s)"
    unfolding trim_space_def rev_rev_ident using strip_prefixes_suffix by blast
  then have "strip_prefixes space_runes s = trim_space s @ rev b"
    by (metis rev_append rev_rev_ident)
  with a show ?thesis by metis
qed

lemma strip_prefixes_stop:
  "p \<in> set ps \<Longrightarrow> p \<noteq> [] \<Longrightarrow> \<not> has_prefix (strip_prefixes ps s) p"
proof (induction ps s rule: strip_prefixes.induct)
  case (1 ps s)
  show ?case
  proof (cases "List.find (\<lambda>p. p \<noteq> [] \<and> has_prefix s p) ps")
    case None
    then have "strip_prefixes ps s = s" by (subst strip_prefixes.simps) simp
    with None 1 show ?thesis by (auto simp: find_None_iff)
  next
    case (Some q)
    then have "strip_prefixes ps s = strip_prefixes ps (drop (length q) s)"
      by (subst strip_prefixes.simps) simp
    with "1.IH" [OF Some] "1.prems" show ?thesis by simp
  qed
qed

lemma strip_prefixes_id:
  assumes "\<And>p. p \<in> set ps \<Longrightarrow> p \<noteq> [] \<Longrightarrow> \<not> has_prefix s p"
  shows "strip_prefixes ps s = s"
proof -
  have "List.find (\<lambda>p. p \<noteq> [] \<and> has_prefix s p) ps = None"
    using assms by (auto simp: find_None_iff)
  then show ?thesis by (subst strip_prefixes.simps) simp
qed

lemma strip_prefixes_idem: "strip_prefixes ps (strip_prefixes ps s) = strip_prefixes ps s"
  by (rule strip_prefixes_id) (rule strip_prefixes_stop)

lemma has_prefix_append: "has_prefix s p \<Longrightarrow> has_prefix (s @ t) p"
  by (auto simp: has_prefix_iff)

text \<open>Trimming from the right leaves a front of the text, so the left end stays trimmed.\<close>

lemma trim_space_idem [simp]: "trim_space (trim_space s) = trim_space s"
proof -
  define l where "l = strip_prefixes space_runes s"
  have t: "rev (trim_space s) = strip_prefixes (map rev space_runes) (rev l)"
    by (simp add: trim_space_def l_def)
  then obtain b where "rev l = b @ rev (trim_space s)" using strip_prefixes_suffix by metis
  then have l: "l = trim_space s @ rev b" by (metis rev_append rev_rev_ident)
  have "strip_prefixes space_runes (trim_space s) = trim_space s"
  proof (rule strip_prefixes_id)
    fix p assume "p \<in> set space_runes" "p \<noteq> []"
    then have "\<not> has_prefix l p" unfolding l_def by (rule strip_prefixes_stop)
    then show "\<not> has_prefix (trim_space s) p" using has_prefix_append l by metis
  qed
  moreover have "strip_prefixes (map rev space_runes) (rev (trim_space s)) = rev (trim_space s)"
    unfolding t by (rule strip_prefixes_idem)
  ultimately show ?thesis unfolding trim_space_def [of "trim_space s"] by simp
qed

text \<open>Text that starts and ends with a visible ASCII character has nothing to trim.\<close>

definition visible :: "char \<Rightarrow> bool" where
  "visible c \<longleftrightarrow> 32 < (of_char c :: nat) \<and> (of_char c :: nat) < 127"

lemma space_runes_invisible:
  "list_all (\<lambda>p. p \<noteq> [] \<and> \<not> visible (hd p) \<and> \<not> visible (last p)) space_runes"
  by (simp add: space_runes_def bytes_def visible_def upt_rec)

lemma has_prefix_hd: "has_prefix s p \<Longrightarrow> p \<noteq> [] \<Longrightarrow> hd s = hd p"
  by (auto simp: has_prefix_iff)

lemma trim_space_visible:
  assumes "visible (hd s)" "visible (last s)"
  shows "trim_space s = s"
proof (cases "s = []")
  case False
  have l: "strip_prefixes space_runes s = s"
    using space_runes_invisible assms(1) has_prefix_hd by (intro strip_prefixes_id) (metis list.pred_set)
  have "strip_prefixes (map rev space_runes) (rev s) = rev s"
  proof (rule strip_prefixes_id)
    fix p assume "p \<in> set (map rev space_runes)" "p \<noteq> []"
    then obtain q where q: "q \<in> set space_runes" "q \<noteq> []" "p = rev q" by auto
    then have "\<not> visible (hd p)" using space_runes_invisible by (auto simp: list.pred_set hd_rev)
    moreover have "hd (rev s) = last s" using False by (simp add: hd_rev)
    ultimately show "\<not> has_prefix (rev s) p" using assms(2) has_prefix_hd \<open>p \<noteq> []\<close> by metis
  qed
  with l show ?thesis by (simp add: trim_space_def)
qed simp

section \<open>Cutting and splitting\<close>

definition trim_left_char :: "char \<Rightarrow> string \<Rightarrow> string" where
  "trim_left_char c s = dropWhile (\<lambda>x. x = c) s"

definition trim_right_char :: "char \<Rightarrow> string \<Rightarrow> string" where
  "trim_right_char c s = rev (dropWhile (\<lambda>x. x = c) (rev s))"

fun split_at :: "char \<Rightarrow> string \<Rightarrow> string list" where
  "split_at c [] = [[]]"
| "split_at c (x # xs) =
     (if x = c then [] # split_at c xs
      else case split_at c xs of [] \<Rightarrow> [[x]] | p # ps \<Rightarrow> (x # p) # ps)"

fun lower :: "char \<Rightarrow> char" where
  "lower c = (let n = (of_char c :: nat) in if 65 \<le> n \<and> n \<le> 90 then char_of (n + 32) else c)"

text \<open>Exact where one side has no letter with a folding outside ASCII, as \<open>Bearer\<close> has none.\<close>

definition equal_fold :: "string \<Rightarrow> string \<Rightarrow> bool" where
  "equal_fold s t \<longleftrightarrow> map lower s = map lower t"

lemma split_at_not_Nil [simp]: "split_at c s \<noteq> []"
  by (induction s) (auto split: list.splits)

lemma split_at_no_sep: "p \<in> set (split_at c s) \<Longrightarrow> c \<notin> set p"
proof (induction s arbitrary: p)
  case Nil
  then show ?case by simp
next
  case (Cons x xs)
  obtain q qs where q: "split_at c xs = q # qs" by (metis split_at_not_Nil list.exhaust)
  show ?case
  proof (cases "x = c")
    case True
    with Cons show ?thesis by auto
  next
    case False
    with Cons.prems q have "p = x # q \<or> p \<in> set qs" by simp
    with Cons.IH q False show ?thesis by auto
  qed
qed

lemma split_at_join: "join [c] (split_at c s) = s"
proof (induction s)
  case Nil
  show ?case by simp
next
  case (Cons x xs)
  obtain q qs where q: "split_at c xs = q # qs" by (metis split_at_not_Nil list.exhaust)
  with Cons show ?case by (cases qs) auto
qed

end
