(* ===== verification/Auth.thy ===== *)
theory Auth
  imports GoStrings
begin

text \<open>
  Who a caller is and what it may do, \<open>internal/auth\<close>: the check of ServiceAccount tokens by
  TokenReview (\<open>serviceaccount.go\<close>), API keys bound to ServiceAccounts (\<open>apikey.go\<close>) and the
  check of single resource operations by SubjectAccessReview (\<open>authorization.go\<close>).  The answers
  of the API server, the file with the key bindings, its JSON decoding and SHA-256 are the
  fields of one record of functions.
\<close>

section \<open>Data\<close>

record user_info =
  ui_username :: string
  ui_uid :: string
  ui_groups :: "string list"
  ui_extra :: "(string, string list) gomap"

text \<open>The sentinel an error wraps, with the whole text of the error.\<close>

datatype auth_error =
  Unauthenticated
| AuthenticationUnavailable string
| Forbidden
| AuthorizationUnavailable string

record token_review_status =
  tr_authenticated :: bool
  tr_user :: user_info
  tr_audiences :: "string list"
  tr_error :: string

record api_key_binding =
  kb_id :: string
  kb_sha256 :: string
  kb_namespace :: string
  kb_service_account :: string
  kb_uid :: string

record resource_attributes =
  ra_namespace :: string
  ra_verb :: string
  ra_group :: string
  ra_version :: string
  ra_resource :: string
  ra_subresource :: string
  ra_name :: string

record access_review_spec =
  ar_attributes :: resource_attributes
  ar_user :: string
  ar_groups :: "string list"
  ar_extra :: "(string, string list) gomap"
  ar_uid :: string

record access_review_status =
  av_allowed :: bool
  av_denied :: bool
  av_evaluation_error :: string

text \<open>
  A review that comes back as a nil pointer is \<open>None\<close>; an error of a client is its text, except
  for the read of the account, where the code asks for the reason.
\<close>

record 'w auth_env =
  au_review_token :: "string \<Rightarrow> string list \<Rightarrow> 'w \<Rightarrow> (string + token_review_status option) \<times> 'w"
  au_audience :: string
  au_keys_path :: string
  au_read_file :: "string \<Rightarrow> 'w \<Rightarrow> (string + string) \<times> 'w"
  au_unmarshal :: "string \<Rightarrow> api_key_binding list option"
  au_sha256_hex :: "string \<Rightarrow> string"
  au_get_account :: "string \<Rightarrow> string \<Rightarrow> 'w \<Rightarrow> (api_error + object_meta) \<times> 'w"
  au_review_access :: "access_review_spec \<Rightarrow> 'w \<Rightarrow> (string + access_review_status option) \<times> 'w"

abbreviation authentication_unavailable :: string where
  "authentication_unavailable \<equiv> ''authentication service unavailable''"
abbreviation authorization_unavailable :: string where
  "authorization_unavailable \<equiv> ''authorization service unavailable''"

section \<open>ServiceAccount tokens\<close>

definition new_service_account_authenticator :: "bool \<Rightarrow> string \<Rightarrow> string + string" where
  "new_service_account_authenticator has_client audience =
     (if \<not> has_client then Inl ''token review client is required''
      else if trim_space audience = [] then Inl ''token audience is required''
      else Inr audience)"

definition canonical_username :: "string \<Rightarrow> bool" where
  "canonical_username username =
     (let parts = split_at (CHR '':'') username in
      length parts = 4 \<and> parts ! 0 = ''system'' \<and> parts ! 1 = ''serviceaccount'' \<and>
      parts ! 2 \<noteq> [] \<and> parts ! 3 \<noteq> [])"

definition sa_authenticate :: "'w auth_env \<Rightarrow> string \<Rightarrow> 'w \<Rightarrow> (auth_error + user_info) \<times> 'w" where
  "sa_authenticate E token w =
     (if trim_space token = [] then (Inl Unauthenticated, w)
      else case au_review_token E token [au_audience E] w of
        (Inl e, w') \<Rightarrow> (Inl (AuthenticationUnavailable (authentication_unavailable @ '': '' @ e)), w')
      | (Inr None, w') \<Rightarrow> (Inl (AuthenticationUnavailable authentication_unavailable), w')
      | (Inr (Some st), w') \<Rightarrow>
          if tr_error st \<noteq> [] \<or> \<not> tr_authenticated st \<or> au_audience E \<notin> set (tr_audiences st)
          then (Inl Unauthenticated, w')
          else if \<not> canonical_username (ui_username (tr_user st)) then (Inl Unauthenticated, w')
          else (Inr (tr_user st), w'))"

section \<open>API keys\<close>

abbreviation api_key_prefix :: string where "api_key_prefix \<equiv> ''ktk_''"
abbreviation api_key_id_extra :: string where "api_key_id_extra \<equiv> ''kubetask.io/api-key-id''"

definition binding_user :: "api_key_binding \<Rightarrow> string \<Rightarrow> user_info" where
  "binding_user b uid = \<lparr>
     ui_username = ''system:serviceaccount:'' @ kb_namespace b @ '':'' @ kb_service_account b,
     ui_uid = uid,
     ui_groups = [''system:serviceaccounts'', ''system:serviceaccounts:'' @ kb_namespace b,
       ''system:authenticated''],
     ui_extra = gm_put api_key_id_extra [kb_id b] gm_empty\<rparr>"

definition authenticate_binding ::
  "'w auth_env \<Rightarrow> api_key_binding \<Rightarrow> 'w \<Rightarrow> (auth_error + user_info) \<times> 'w" where
  "authenticate_binding E b w =
     (if kb_id b = [] \<or> kb_namespace b = [] \<or> kb_service_account b = [] \<or> kb_uid b = []
      then (Inl (AuthenticationUnavailable (authentication_unavailable @
              '': API key binding requires id, namespace, serviceAccount and uid'')), w)
      else case au_get_account E (kb_namespace b) (kb_service_account b) w of
        (Inl e, w') \<Rightarrow>
          (Inl (if is_not_found e then Unauthenticated
                else AuthenticationUnavailable (authentication_unavailable @
                       '': read API key ServiceAccount: '' @ api_text e)), w')
      | (Inr account, w') \<Rightarrow>
          if om_uid account \<noteq> kb_uid b then (Inl Unauthenticated, w')
          else (Inr (binding_user b (om_uid account)), w'))"

definition key_authenticate :: "'w auth_env \<Rightarrow> string \<Rightarrow> 'w \<Rightarrow> (auth_error + user_info) \<times> 'w" where
  "key_authenticate E token w =
     (if \<not> has_prefix token api_key_prefix then sa_authenticate E token w
      else case au_read_file E (au_keys_path E) w of
        (Inl e, w') \<Rightarrow> (Inl (AuthenticationUnavailable (authentication_unavailable @
                            '': read API key bindings: '' @ e)), w')
      | (Inr contents, w') \<Rightarrow>
          (case au_unmarshal E contents of
             None \<Rightarrow> (Inl (AuthenticationUnavailable (authentication_unavailable @
                         '': invalid API key bindings JSON'')), w')
           | Some bindings \<Rightarrow>
               (case List.find (\<lambda>b. kb_sha256 b = au_sha256_hex E token) bindings of
                  None \<Rightarrow> (Inl Unauthenticated, w')
                | Some b \<Rightarrow> authenticate_binding E b w')))"

section \<open>Authorization\<close>

definition new_resource_authorizer :: "bool \<Rightarrow> string + unit" where
  "new_resource_authorizer has_client =
     (if \<not> has_client then Inl ''subject access review client is required'' else Inr ())"

definition access_spec :: "user_info \<Rightarrow> resource_attributes \<Rightarrow> access_review_spec" where
  "access_spec u a = \<lparr>ar_attributes = a, ar_user = ui_username u, ar_groups = ui_groups u,
     ar_extra = ui_extra u, ar_uid = ui_uid u\<rparr>"

text \<open>\<open>None\<close> is the nil error.\<close>

definition decide_access :: "access_review_status \<Rightarrow> auth_error option" where
  "decide_access st =
     (if av_allowed st \<and> av_denied st then Some (AuthorizationUnavailable authorization_unavailable)
      else if av_denied st then Some Forbidden
      else if av_allowed st then None
      else if av_evaluation_error st \<noteq> [] then Some (AuthorizationUnavailable authorization_unavailable)
      else Some Forbidden)"

definition authorize ::
  "'w auth_env \<Rightarrow> user_info option \<Rightarrow> resource_attributes \<Rightarrow> 'w \<Rightarrow> auth_error option \<times> 'w" where
  "authorize E user a w =
     (case user of
        None \<Rightarrow> (Some Unauthenticated, w)
      | Some u \<Rightarrow>
          if trim_space (ui_username u) = [] then (Some Unauthenticated, w)
          else if ra_resource a = [] \<or> ra_verb a = []
          then (Some (AuthorizationUnavailable (authorization_unavailable @
                  '': resource and verb are required'')), w)
          else case au_review_access E (access_spec u a) w of
            (Inl e, w') \<Rightarrow> (Some (AuthorizationUnavailable (authorization_unavailable @ '': '' @ e)), w')
          | (Inr None, w') \<Rightarrow> (Some (AuthorizationUnavailable authorization_unavailable), w')
          | (Inr (Some st), w') \<Rightarrow> (decide_access st, w'))"

section \<open>Canonical user names\<close>

lemma split_at_append:
  "c \<notin> set p \<Longrightarrow> split_at c (p @ c # r) = p # split_at c r"
  by (induction p) auto

lemma split_at_none: "c \<notin> set p \<Longrightarrow> split_at c p = [p]"
  by (induction p) auto

lemma canonical_username_iff:
  "canonical_username u \<longleftrightarrow>
   (\<exists>ns name. u = ''system:serviceaccount:'' @ ns @ '':'' @ name \<and> ns \<noteq> [] \<and> name \<noteq> [] \<and>
      CHR '':'' \<notin> set ns \<and> CHR '':'' \<notin> set name)"
proof
  assume c: "canonical_username u"
  define parts where "parts = split_at (CHR '':'') u"
  from c have l: "length parts = 4" "parts ! 0 = ''system''" "parts ! 1 = ''serviceaccount''"
    "parts ! 2 \<noteq> []" "parts ! 3 \<noteq> []"
    by (auto simp: canonical_username_def parts_def Let_def)
  from l(1) obtain a b ns name where parts: "parts = [a, b, ns, name]"
    by (auto simp: numeral_eq_Suc length_Suc_conv)
  have "join [CHR '':''] parts = u" unfolding parts_def by (rule split_at_join)
  with l parts have "u = ''system:serviceaccount:'' @ ns @ '':'' @ name" by simp
  moreover have "CHR '':'' \<notin> set ns" "CHR '':'' \<notin> set name"
    using split_at_no_sep [of _ "CHR '':''" u] parts unfolding parts_def by auto
  ultimately show "\<exists>ns name. u = ''system:serviceaccount:'' @ ns @ '':'' @ name \<and> ns \<noteq> [] \<and> name \<noteq> [] \<and>
      CHR '':'' \<notin> set ns \<and> CHR '':'' \<notin> set name"
    using l parts by auto
next
  assume "\<exists>ns name. u = ''system:serviceaccount:'' @ ns @ '':'' @ name \<and> ns \<noteq> [] \<and> name \<noteq> [] \<and>
      CHR '':'' \<notin> set ns \<and> CHR '':'' \<notin> set name"
  then obtain ns name where u: "u = ''system'' @ CHR '':'' # (''serviceaccount'' @ CHR '':'' # (ns @ CHR '':'' # name))"
    and n: "ns \<noteq> []" "name \<noteq> []" "CHR '':'' \<notin> set ns" "CHR '':'' \<notin> set name" by auto
  have "CHR '':'' \<notin> set ''system''" "CHR '':'' \<notin> set ''serviceaccount''" by simp_all
  with u n have "split_at (CHR '':'') u = [''system'', ''serviceaccount'', ns, name]"
    by (simp only: split_at_append split_at_none simp_thms)
  with n show "canonical_username u" by (simp add: canonical_username_def)
qed

lemma canonical_tenant:
  "canonical_username u \<Longrightarrow> service_account_namespace u \<noteq> []"
  unfolding canonical_username_iff by (auto simp: service_account_namespace_eq simp del: append.simps)

section \<open>The contract of an authenticator\<close>

text \<open>
  The middleware accepts any authenticator.  What it may rely on: an accepted identity has a
  canonical ServiceAccount name, provided the objects the authenticator looks up exist under
  lawful names (\<open>rely\<close>).
\<close>

locale authenticator =
  fixes rely :: bool
    and authenticate :: "string \<Rightarrow> 'w \<Rightarrow> (auth_error + user_info) \<times> 'w"
  assumes accepts_canonical:
    "rely \<Longrightarrow> authenticate token w = (Inr u, w') \<Longrightarrow> canonical_username (ui_username u)"
begin

lemma accepted_has_tenant:
  "rely \<Longrightarrow> authenticate token w = (Inr u, w') \<Longrightarrow> service_account_namespace (ui_username u) \<noteq> []"
  by (rule canonical_tenant [OF accepts_canonical])

end

lemma sa_authenticate_canonical:
  "sa_authenticate E token w = (Inr u, w') \<Longrightarrow> canonical_username (ui_username u)"
  by (auto simp: sa_authenticate_def split: if_splits prod.splits sum.splits option.splits)

text \<open>
  Kubernetes keeps ServiceAccounts under DNS names: an account that is found has a Namespace and
  a name without colons.
\<close>

definition dns_account_names :: "'w auth_env \<Rightarrow> bool" where
  "dns_account_names E \<longleftrightarrow> (\<forall>ns name w account w'.
     au_get_account E ns name w = (Inr account, w') \<longrightarrow> CHR '':'' \<notin> set ns \<and> CHR '':'' \<notin> set name)"

lemma authenticate_binding_cases:
  assumes "authenticate_binding E b w = (Inr u, w')"
  obtains account where "kb_id b \<noteq> []" "kb_namespace b \<noteq> []" "kb_service_account b \<noteq> []" "kb_uid b \<noteq> []"
    "au_get_account E (kb_namespace b) (kb_service_account b) w = (Inr account, w')"
    "om_uid account = kb_uid b" "u = binding_user b (kb_uid b)"
  using assms by (auto simp: authenticate_binding_def split: if_splits prod.splits sum.splits)

lemma authenticate_binding_canonical:
  assumes "dns_account_names E" and "authenticate_binding E b w = (Inr u, w')"
  shows "canonical_username (ui_username u)"
  using assms(2)
proof (rule authenticate_binding_cases)
  fix account
  assume "au_get_account E (kb_namespace b) (kb_service_account b) w = (Inr account, w')"
  with assms(1) have "CHR '':'' \<notin> set (kb_namespace b)" "CHR '':'' \<notin> set (kb_service_account b)"
    unfolding dns_account_names_def by blast+
  moreover assume "kb_namespace b \<noteq> []" "kb_service_account b \<noteq> []" "u = binding_user b (kb_uid b)"
  ultimately show ?thesis unfolding canonical_username_iff by (auto simp: binding_user_def)
qed

lemma key_authenticate_canonical:
  assumes "dns_account_names E" and "key_authenticate E token w = (Inr u, w')"
  shows "canonical_username (ui_username u)"
  using assms(2)
  by (auto simp: key_authenticate_def split: if_splits prod.splits sum.splits option.splits
      intro: sa_authenticate_canonical authenticate_binding_canonical [OF assms(1)])

interpretation sa: authenticator True "sa_authenticate E" for E
  by unfold_locales (rule sa_authenticate_canonical)

interpretation key: authenticator "dns_account_names E" "key_authenticate E" for E
  by unfold_locales (rule key_authenticate_canonical)

section \<open>Properties\<close>

text \<open>
  C34. Every identity that is accepted, by token or by API key, belongs to exactly one tenant: its
  user name is system:serviceaccount:ns:name with a Namespace and a name, and the tenant middleware
  reads the same Namespace from it.
\<close>

theorem accepted_identity_has_tenant:
  assumes "dns_account_names E" and "key_authenticate E token w = (Inr u, w')"
  shows "\<exists>ns name. ui_username u = ''system:serviceaccount:'' @ ns @ '':'' @ name \<and>
    service_account_namespace (ui_username u) = ns \<and> ns \<noteq> [] \<and> name \<noteq> [] \<and>
    CHR '':'' \<notin> set ns \<and> CHR '':'' \<notin> set name"
proof -
  have "canonical_username (ui_username u)" by (rule key.accepts_canonical [OF assms])
  then obtain ns name where n: "ui_username u = ''system:serviceaccount:'' @ ns @ '':'' @ name"
    "ns \<noteq> []" "name \<noteq> []" "CHR '':'' \<notin> set ns" "CHR '':'' \<notin> set name"
    unfolding canonical_username_iff by blast
  moreover from n have "service_account_namespace (ui_username u) = ns"
    by (simp add: service_account_namespace_eq del: append.simps)
  ultimately show ?thesis by blast
qed

text \<open>
  C33. An API key is accepted exactly when the bindings file that is read for this very request can
  be decoded, the first binding with the digest of the key is complete, and the ServiceAccount it
  names exists with the UID it was bound to. Removing the binding, or deleting or replacing the
  account, therefore revokes the key; and the identity is that of the bound account, marked with
  the id of the key.
\<close>

theorem api_key_accepted_iff:
  assumes "has_prefix token api_key_prefix"
  shows "key_authenticate E token w = (Inr u, w') \<longleftrightarrow>
    (\<exists>contents w\<^sub>1 earlier b later account.
       au_read_file E (au_keys_path E) w = (Inr contents, w\<^sub>1) \<and>
       au_unmarshal E contents = Some (earlier @ b # later) \<and>
       kb_sha256 b = au_sha256_hex E token \<and> (\<forall>x \<in> set earlier. kb_sha256 x \<noteq> au_sha256_hex E token) \<and>
       kb_id b \<noteq> [] \<and> kb_namespace b \<noteq> [] \<and> kb_service_account b \<noteq> [] \<and> kb_uid b \<noteq> [] \<and>
       au_get_account E (kb_namespace b) (kb_service_account b) w\<^sub>1 = (Inr account, w') \<and>
       om_uid account = kb_uid b \<and> u = binding_user b (kb_uid b))"
    (is "?l \<longleftrightarrow> ?r")
proof
  assume ?l
  with assms obtain contents w1 bindings b where
    read: "au_read_file E (au_keys_path E) w = (Inr contents, w1)" "au_unmarshal E contents = Some bindings"
      "List.find (\<lambda>b. kb_sha256 b = au_sha256_hex E token) bindings = Some b"
    and b: "authenticate_binding E b w1 = (Inr u, w')"
    by (auto simp: key_authenticate_def split: if_splits prod.splits sum.splits option.splits)
  from read(3) obtain i where i: "i < length bindings" "b = bindings ! i"
    "kb_sha256 b = au_sha256_hex E token" "\<forall>j<i. kb_sha256 (bindings ! j) \<noteq> au_sha256_hex E token"
    unfolding find_Some_iff by auto
  have parts: "bindings = take i bindings @ b # drop (Suc i) bindings"
    using i(1,2) by (simp add: id_take_nth_drop)
  have earlier: "\<forall>x \<in> set (take i bindings). kb_sha256 x \<noteq> au_sha256_hex E token"
    using i(1,4) by (auto simp: in_set_conv_nth)
  from b obtain account where "kb_id b \<noteq> [] \<and> kb_namespace b \<noteq> [] \<and> kb_service_account b \<noteq> [] \<and> kb_uid b \<noteq> []"
    "au_get_account E (kb_namespace b) (kb_service_account b) w1 = (Inr account, w')"
    "om_uid account = kb_uid b" "u = binding_user b (kb_uid b)"
    by (rule authenticate_binding_cases) auto
  moreover from read(2) parts have "au_unmarshal E contents = Some (take i bindings @ b # drop (Suc i) bindings)"
    by simp
  ultimately show ?r using read(1) i(3) earlier by blast
next
  assume ?r
  then obtain contents w1 earlier b later account where
    "au_read_file E (au_keys_path E) w = (Inr contents, w1)"
    "au_unmarshal E contents = Some (earlier @ b # later)"
    "kb_sha256 b = au_sha256_hex E token" "\<forall>x \<in> set earlier. kb_sha256 x \<noteq> au_sha256_hex E token"
    "kb_id b \<noteq> [] \<and> kb_namespace b \<noteq> [] \<and> kb_service_account b \<noteq> [] \<and> kb_uid b \<noteq> []"
    "au_get_account E (kb_namespace b) (kb_service_account b) w1 = (Inr account, w')"
    "om_uid account = kb_uid b" "u = binding_user b (kb_uid b)" by blast
  moreover from this(3,4) have
    "List.find (\<lambda>b. kb_sha256 b = au_sha256_hex E token) (earlier @ b # later) = Some b"
    by (induction earlier) auto
  ultimately show ?l using assms by (simp add: key_authenticate_def authenticate_binding_def)
qed

text \<open>The authorizer fails closed: only an unambiguous approval of the API server is one.\<close>

lemma authorize_allows_iff:
  "authorize E user a w = (None, w') \<longleftrightarrow>
   (\<exists>u st. user = Some u \<and> trim_space (ui_username u) \<noteq> [] \<and> ra_resource a \<noteq> [] \<and> ra_verb a \<noteq> [] \<and>
      au_review_access E (access_spec u a) w = (Inr (Some st), w') \<and> av_allowed st \<and> \<not> av_denied st)"
  by (auto simp: authorize_def decide_access_def split: option.splits if_splits prod.splits sum.splits)

section \<open>A sample API server\<close>

text \<open>
  One token and one API key are known, both of the ServiceAccount ci in team-a, which may do
  everything but delete.
\<close>

definition sample_user :: user_info where
  "sample_user = \<lparr>ui_username = ''system:serviceaccount:team-a:ci'', ui_uid = ''u7'', ui_groups = [], ui_extra = []\<rparr>"

definition sample_auth :: "'w auth_env" where
  "sample_auth = \<lparr>
     au_review_token = (\<lambda>token audiences w. (Inr (Some \<lparr>tr_authenticated = token = ''tok'', tr_user = sample_user,
        tr_audiences = audiences, tr_error = []\<rparr>), w)),
     au_audience = [], au_keys_path = [],
     au_read_file = (\<lambda>path w. (Inr path, w)),
     au_unmarshal = (\<lambda>s. Some [\<lparr>kb_id = ''build-ci'', kb_sha256 = ''d1'', kb_namespace = ''team-a'',
        kb_service_account = ''ci'', kb_uid = ''u7''\<rparr>]),
     au_sha256_hex = (\<lambda>s. if s = ''ktk_k'' then ''d1'' else ''d2''),
     au_get_account = (\<lambda>ns name w. (if ns = ''team-a'' \<and> name = ''ci'' then Inr (empty_meta\<lparr>om_uid := ''u7''\<rparr>)
        else Inl (ApiError NotFound name), w)),
     au_review_access = (\<lambda>spec w. (Inr (Some \<lparr>av_allowed = ra_verb (ar_attributes spec) \<noteq> ''delete'',
        av_denied = False, av_evaluation_error = []\<rparr>), w))\<rparr>"

lemma sample_key_accepted: "key_authenticate sample_auth ''ktk_k'' w = (Inr (binding_user
    \<lparr>kb_id = ''build-ci'', kb_sha256 = ''d1'', kb_namespace = ''team-a'', kb_service_account = ''ci'', kb_uid = ''u7''\<rparr> ''u7''), w)"
  by (simp add: key_authenticate_def has_prefix_def sample_auth_def authenticate_binding_def)

lemma sample_accounts_lawful: "dns_account_names sample_auth"
  by (auto simp: dns_account_names_def sample_auth_def split: if_splits)

theorem accepted_identity_has_tenant_witness:
  "\<exists>ns name. ''system:serviceaccount:team-a:ci'' = ''system:serviceaccount:'' @ ns @ '':'' @ name \<and>
     service_account_namespace ''system:serviceaccount:team-a:ci'' = ns"
  using accepted_identity_has_tenant [OF sample_accounts_lawful sample_key_accepted [of "()"]]
  by (simp add: binding_user_def) blast

abbreviation unit_auth :: "unit auth_env" where "unit_auth \<equiv> sample_auth"

theorem api_key_accepted_iff_witness:
  "\<exists>b account w. au_unmarshal unit_auth [] = Some [b] \<and>
     au_get_account unit_auth (kb_namespace b) (kb_service_account b) w = (Inr account, ()) \<and> om_uid account = kb_uid b"
proof -
  have p: "has_prefix ''ktk_k'' api_key_prefix" by (simp add: has_prefix_def)
  from sample_key_accepted [of "()", unfolded api_key_accepted_iff [OF p]]
  obtain contents w earlier b later account where
    f: "au_read_file unit_auth (au_keys_path unit_auth) () = (Inr contents, w)"
      "au_unmarshal unit_auth contents = Some (earlier @ b # later)"
    and a: "au_get_account unit_auth (kb_namespace b) (kb_service_account b) w = (Inr account, ())"
      "om_uid account = kb_uid b" by blast
  have "au_unmarshal unit_auth [] = au_unmarshal unit_auth contents" by (simp add: sample_auth_def)
  moreover have "\<exists>x. au_unmarshal unit_auth [] = Some [x]" by (simp add: sample_auth_def)
  ultimately have "au_unmarshal unit_auth [] = Some [b]"
    using f(2) by (auto simp: append_eq_Cons_conv)
  with a show ?thesis by blast
qed

end
