(* ===== verification/Http.thy ===== *)
theory Http
  imports GraphView Auth
begin

text \<open>
  Requests, responses and handlers of the HTTP API.  A gin context is a record of what the handlers
  and middlewares of this program read and set; a handler maps a context and the world to the
  context it leaves behind, or to \<open>None\<close> when it panics.  The decoded body of a request is part of
  the request: the result of \<open>ShouldBindJSON\<close>, as an error text or the object.
\<close>

section \<open>Requests and responses\<close>

record request =
  rq_method :: string
  rq_full_path :: string
  rq_authorization :: "string list"
  rq_name :: string
  rq_query :: "(string, string) gomap"
  rq_task :: "string + task"
  rq_workflow :: "string + workflow"

record trend_point =
  tp_date :: string
  tp_total :: int
  tp_succeeded :: int
  tp_failed :: int

datatype body =
  NoBody
| ErrorBody string
| ReasonBody string string               \<comment> \<open>the error and its reason\<close>
| MessageBody string "string option"     \<comment> \<open>a message, with the name of the object\<close>
| TaskBody task
| WorkflowBody workflow
| TaskPage "task list" int int int       \<comment> \<open>items, total, page, pageSize\<close>
| WorkflowPage "workflow list" int int int
| WorkflowDetail workflow workflow_graph
| StatsBody "(string, int) gomap"
| TrendBody "trend_point list"
| LogStream "string list"

record response =
  rs_status :: int
  rs_www_authenticate :: "string option"
  rs_body :: body

definition empty_response :: response where
  "empty_response = \<lparr>rs_status = 200, rs_www_authenticate = None, rs_body = NoBody\<rparr>"

section \<open>The context of a request\<close>

record gin_ctx =
  gc_request :: request
  gc_scope :: request_context
  gc_user :: "user_info option"
  gc_checked :: bool                                \<comment> \<open>the authorizer is in the context\<close>
  gc_audit_target :: "(string \<times> string) option"   \<comment> \<open>name and UID\<close>
  gc_response :: response

definition new_ctx :: "request \<Rightarrow> gin_ctx" where
  "new_ctx rq = \<lparr>gc_request = rq, gc_scope = None, gc_user = None, gc_checked = False,
     gc_audit_target = None, gc_response = empty_response\<rparr>"

text \<open>\<open>AuthenticatedUser\<close>; the copy it makes is the value.\<close>

definition authenticated_user :: "gin_ctx \<Rightarrow> user_info option" where
  "authenticated_user c = (case gc_user c of None \<Rightarrow> None | Some user \<Rightarrow> Some user)"

lemma authenticated_user_eq [simp]: "authenticated_user c = gc_user c"
  by (simp add: authenticated_user_def split: option.split)

type_synonym 'w handler = "gin_ctx \<Rightarrow> 'w \<Rightarrow> gin_ctx option \<times> 'w"
type_synonym 'w middleware = "'w handler \<Rightarrow> 'w handler"

definition respond :: "int \<Rightarrow> body \<Rightarrow> gin_ctx \<Rightarrow> gin_ctx" where
  "respond status body c =
     c\<lparr>gc_response := (gc_response c)\<lparr>rs_status := status, rs_body := body\<rparr>\<rparr>"

definition status_text :: "int \<Rightarrow> string" where
  "status_text status =
     (if status = 401 then ''Unauthorized'' else if status = 403 then ''Forbidden''
      else if status = 503 then ''Service Unavailable'' else [])"

lemma respond_simps [simp]:
  "gc_request (respond s b c) = gc_request c" "gc_scope (respond s b c) = gc_scope c"
  "gc_user (respond s b c) = gc_user c" "gc_checked (respond s b c) = gc_checked c"
  "rs_status (gc_response (respond s b c)) = s" "rs_body (gc_response (respond s b c)) = b"
  by (simp_all add: respond_def)

section \<open>Routes\<close>

text \<open>The endpoints of \<open>NewRouter\<close> under /api/v1.\<close>

definition v1_routes :: "(string \<times> string) list" where
  "v1_routes =
     [(''POST'', ''/tasks''), (''GET'', ''/tasks''), (''GET'', ''/tasks/:name''), (''PUT'', ''/tasks/:name''),
      (''DELETE'', ''/tasks/:name''), (''POST'', ''/tasks/:name/trigger''), (''POST'', ''/tasks/:name/suspend''),
      (''POST'', ''/tasks/:name/resume''), (''GET'', ''/tasks/:name/logs''), (''GET'', ''/stats''),
      (''GET'', ''/stats/trend''), (''POST'', ''/workflows''), (''GET'', ''/workflows''),
      (''GET'', ''/workflows/:name''), (''DELETE'', ''/workflows/:name'')]"

definition route_key :: "request \<Rightarrow> string" where
  "route_key rq = rq_method rq @ '' '' @ rq_full_path rq"

definition v1_keys :: "string list" where
  "v1_keys = map (\<lambda>(method, path). method @ '' /api/v1'' @ path) v1_routes"

end
