(* ===== verification/Config.thy ===== *)
theory Config
  imports GoStrings GoTime
begin

text \<open>
  The checks of \<open>internal/config/config.go\<close> on a configuration that has been read: the rules of
  authentication, \<open>validateWebhook\<close> and \<open>validateSMTP\<close>.  Reading files, flags and the environment
  belongs to viper.  The parsers of URLs and mail addresses are arguments; the splitting of host
  and port and the parsing of integers are written out.
\<close>

section \<open>Integers and addresses\<close>

text \<open>
  \<open>strconv.ParseInt\<close> in base 10 for 64 bits, which \<open>strconv.Atoi\<close> is on 64-bit machines: the value
  and whether it is without error.  A syntax error gives 0, a range error the nearest bound.
\<close>

definition parse_int64 :: "string \<Rightarrow> int \<times> bool" where
  "parse_int64 s =
     (let negative = s \<noteq> [] \<and> hd s = CHR ''-'';
          digits = (if s \<noteq> [] \<and> (hd s = CHR ''-'' \<or> hd s = CHR ''+'') then tl s else s) in
      if digits = [] \<or> \<not> list_all is_digit digits then (0, False)
      else let n = digits_value digits in
        if negative then (if n > 2 ^ 63 then (- (2 ^ 63), False) else (- n, True))
        else (if n \<ge> 2 ^ 63 then (2 ^ 63 - 1, False) else (n, True)))"

definition index_of :: "char \<Rightarrow> string \<Rightarrow> nat option" where
  "index_of c s = (if c \<in> set s then Some (length (takeWhile (\<lambda>x. x \<noteq> c) s)) else None)"

definition last_index_of :: "char \<Rightarrow> string \<Rightarrow> nat option" where
  "last_index_of c s = map_option (\<lambda>i. length s - Suc i) (index_of c (rev s))"

text \<open>\<open>net.SplitHostPort\<close>.\<close>

definition split_host_port :: "string \<Rightarrow> (string \<times> string) option" where
  "split_host_port s =
     (case last_index_of (CHR '':'') s of
        None \<Rightarrow> None
      | Some i \<Rightarrow>
          (let parts =
             (if hd s = CHR ''['' then
                (case index_of (CHR '']'') s of
                   None \<Rightarrow> None
                 | Some e \<Rightarrow> if Suc e = i then Some (slice s 1 e, 1, Suc e) else None)
              else (let host = take i s in
                    if CHR '':'' \<in> set host then None else Some (host, 0, 0)))
           in case parts of
                None \<Rightarrow> None
              | Some (host, j, k) \<Rightarrow>
                  if CHR ''['' \<in> set (drop j s) \<or> CHR '']'' \<in> set (drop k s) then None
                  else Some (host, drop (Suc i) s)))"

lemma split_host_port_examples:
  "split_host_port ''mail.example.com:587'' = Some (''mail.example.com'', ''587'')"
  "split_host_port ''[::1]:25'' = Some (''::1'', ''25'')"
  "split_host_port ''::1:25'' = None" "split_host_port ''mail'' = None"
  by code_simp+

record url_parts =
  up_scheme :: string
  up_hostname :: string
  up_has_user :: bool

text \<open>\<open>url.Parse\<close> and \<open>mail.ParseAddress\<close> (the name and the address); \<open>None\<close> is an error.\<close>

record parsers =
  ps_url :: "string \<Rightarrow> url_parts option"
  ps_mail :: "string \<Rightarrow> (string \<times> string) option"

section \<open>Configuration\<close>

record config =
  cf_metrics_addr :: string
  cf_health_probe_addr :: string
  cf_enable_leader_election :: bool
  cf_secure_metrics :: bool
  cf_enable_http2 :: bool
  cf_log_level :: string
  cf_log_format :: string
  cf_api_port :: int
  cf_api_host :: string
  cf_web_dir :: string
  cf_auth_enabled :: bool
  cf_auth_audience :: string
  cf_auth_api_keys_file :: string
  cf_tenant_isolation_enabled :: bool
  cf_webhook_enabled :: bool
  cf_webhook_url :: string
  cf_webhook_timeout :: duration
  cf_webhook_max_retries :: int
  cf_smtp_enabled :: bool
  cf_smtp_address :: string
  cf_smtp_tls :: string
  cf_smtp_username :: string
  cf_smtp_password :: string
  cf_smtp_from :: string
  cf_smtp_to :: "string list"
  cf_smtp_timeout :: duration
  cf_smtp_max_retries :: int
  cf_smtp_subject_template :: string
  cf_smtp_body_template :: string
  cf_database_host :: string
  cf_database_port :: int
  cf_database_user :: string
  cf_database_password :: string
  cf_database_name :: string
  cf_database_ssl_mode :: string
  cf_config_file :: string

definition webhook_url_ok :: "parsers \<Rightarrow> string \<Rightarrow> bool" where
  "webhook_url_ok P u =
     (case ps_url P u of
        None \<Rightarrow> False
      | Some parts \<Rightarrow> up_hostname parts \<noteq> [] \<and>
          (up_scheme parts = ''http'' \<or> up_scheme parts = ''https'') \<and>
          \<not> up_has_user parts \<and> CHR ''#'' \<notin> set u)"

definition validate_webhook :: "parsers \<Rightarrow> config \<Rightarrow> string + config" where
  "validate_webhook P cfg =
     (if \<not> cf_webhook_enabled cfg then Inr cfg
      else let cfg = cfg\<lparr>cf_webhook_url := trim_space (cf_webhook_url cfg)\<rparr> in
        if \<not> webhook_url_ok P (cf_webhook_url cfg)
        then Inl ''webhook-url must be an HTTP(S) URL with a host and without userinfo or fragment''
        else if cf_webhook_timeout cfg < second \<or> cf_webhook_timeout cfg > 30 * second
        then Inl ''webhook-timeout must be between 1s and 30s''
        else if cf_webhook_max_retries cfg < 0 \<or> cf_webhook_max_retries cfg > 5
        then Inl ''webhook-max-retries must be between 0 and 5''
        else Inr cfg)"

definition valid_smtp_address :: "parsers \<Rightarrow> string \<Rightarrow> bool" where
  "valid_smtp_address P value =
     (case ps_mail P value of
        None \<Rightarrow> False
      | Some (name, address) \<Rightarrow>
          name = [] \<and> address = value \<and>
          list_all (\<lambda>c. 32 < (of_char c :: nat) \<and> (of_char c :: nat) < 127) value)"

text \<open>The loop over the recipients: \<open>seen\<close> and the result grow together.\<close>

fun clean_recipients :: "parsers \<Rightarrow> string list \<Rightarrow> string list \<Rightarrow> string list option" where
  "clean_recipients P [] recipients = Some recipients"
| "clean_recipients P (r # rs) recipients =
     (let recipient = trim_space r in
      if \<not> valid_smtp_address P recipient then None
      else clean_recipients P rs
        (if recipient \<in> set recipients then recipients else recipients @ [recipient]))"

definition contains_any :: "string \<Rightarrow> nat list \<Rightarrow> bool" where
  "contains_any s chars = list_ex (\<lambda>c. of_char c \<in> set chars) s"

definition smtp_address_ok :: "string \<Rightarrow> bool" where
  "smtp_address_ok address =
     (case split_host_port address of
        None \<Rightarrow> False
      | Some (host, port_text) \<Rightarrow>
          (case parse_int64 port_text of (port, ok) \<Rightarrow>
             ok \<and> host \<noteq> [] \<and> \<not> contains_any host [47, 92, 64, 32, 9, 13, 10] \<and>
             1 \<le> port \<and> port \<le> 65535))"

definition validate_smtp :: "parsers \<Rightarrow> config \<Rightarrow> string + config" where
  "validate_smtp P cfg =
     (if \<not> cf_smtp_enabled cfg then Inr cfg
      else let cfg = cfg\<lparr>cf_smtp_address := trim_space (cf_smtp_address cfg)\<rparr> in
        if \<not> smtp_address_ok (cf_smtp_address cfg)
        then Inl ''smtp-address must contain a host and a port between 1 and 65535''
        else if cf_smtp_tls cfg \<noteq> ''starttls'' \<and> cf_smtp_tls cfg \<noteq> ''implicit''
        then Inl ''smtp-tls must be starttls or implicit''
        else if (cf_smtp_username cfg = []) \<noteq> (cf_smtp_password cfg = []) \<or>
                contains_any (cf_smtp_username cfg @ cf_smtp_password cfg) [0, 13, 10]
        then Inl ''smtp-username and smtp-password must both be set or both be empty, without NUL or line breaks''
        else let cfg = cfg\<lparr>cf_smtp_from := trim_space (cf_smtp_from cfg)\<rparr> in
          if \<not> valid_smtp_address P (cf_smtp_from cfg) then Inl ''smtp-from must be a bare ASCII email address''
          else if cf_smtp_to cfg = [] then Inl ''smtp-to must contain at least one email address''
          else case clean_recipients P (cf_smtp_to cfg) [] of
            None \<Rightarrow> Inl ''smtp-to must contain bare ASCII email addresses''
          | Some recipients \<Rightarrow>
              let cfg = cfg\<lparr>cf_smtp_to := recipients\<rparr> in
              if cf_smtp_timeout cfg < second \<or> cf_smtp_timeout cfg > 60 * second
              then Inl ''smtp-timeout must be between 1s and 60s''
              else if cf_smtp_max_retries cfg < 0 \<or> cf_smtp_max_retries cfg > 5
              then Inl ''smtp-max-retries must be between 0 and 5''
              else Inr cfg)"

text \<open>The end of \<open>LoadConfig\<close>, after the settings have been decoded.\<close>

definition validate_config :: "parsers \<Rightarrow> config \<Rightarrow> string + config" where
  "validate_config P cfg =
     (let cfg = cfg\<lparr>cf_auth_audience := trim_space (cf_auth_audience cfg)\<rparr> in
      if cf_auth_enabled cfg \<and> cf_auth_audience cfg = []
      then Inl ''auth-audience is required when auth-enabled is true''
      else if cf_tenant_isolation_enabled cfg \<and> \<not> cf_auth_enabled cfg
      then Inl ''tenant-isolation-enabled requires auth-enabled''
      else if cf_auth_api_keys_file cfg \<noteq> [] \<and> \<not> cf_auth_enabled cfg
      then Inl ''auth-api-keys-file requires auth-enabled''
      else case validate_webhook P cfg of
        Inl e \<Rightarrow> Inl e
      | Inr cfg \<Rightarrow> validate_smtp P cfg)"

section \<open>Properties\<close>

definition clean_address :: "parsers \<Rightarrow> string \<Rightarrow> bool" where
  "clean_address P r \<longleftrightarrow> valid_smtp_address P r \<and> trim_space r = r"

lemma clean_recipients_some:
  "clean_recipients P rs acc = Some out \<Longrightarrow> distinct acc \<Longrightarrow>
   (\<forall>r \<in> set acc. clean_address P r) \<Longrightarrow>
   distinct out \<and> (\<forall>r \<in> set out. clean_address P r) \<and>
   set out = set acc \<union> set (map trim_space rs)"
proof (induction rs arbitrary: acc)
  case Nil
  then show ?case by simp
next
  case (Cons r rs)
  define r' where "r' = trim_space r"
  define acc' where "acc' = (if r' \<in> set acc then acc else acc @ [r'])"
  from Cons.prems(1) have v: "valid_smtp_address P r'" and c: "clean_recipients P rs acc' = Some out"
    by (auto simp: Let_def r'_def acc'_def split: if_splits)
  from v have t: "clean_address P r'" by (simp add: clean_address_def r'_def)
  have "distinct acc'" "\<forall>r \<in> set acc'. clean_address P r"
    "set acc' = insert r' (set acc)"
    using Cons.prems(2,3) t by (auto simp: acc'_def)
  with Cons.IH [OF c] show ?case by (simp add: r'_def)
qed

lemma clean_recipients_clean:
  "distinct (acc @ rs) \<Longrightarrow> (\<forall>r \<in> set rs. clean_address P r) \<Longrightarrow>
   clean_recipients P rs acc = Some (acc @ rs)"
proof (induction rs arbitrary: acc)
  case Nil
  show ?case by simp
next
  case (Cons r rs)
  then have "clean_recipients P rs (acc @ [r]) = Some ((acc @ [r]) @ rs)" by (intro Cons.IH) auto
  with Cons.prems show ?case by (simp add: Let_def clean_address_def)
qed

lemma clean_recipients_idem:
  assumes "clean_recipients P rs [] = Some out"
  shows "clean_recipients P out [] = Some out" "distinct out" "set out = set (map trim_space rs)"
    "\<forall>r \<in> set out. valid_smtp_address P r"
proof -
  have o: "distinct out \<and> (\<forall>r \<in> set out. clean_address P r) \<and>
      set out = set [] \<union> set (map trim_space rs)"
    by (rule clean_recipients_some [OF assms]) simp_all
  then show "distinct out" "set out = set (map trim_space rs)" by simp_all
  show "\<forall>r \<in> set out. valid_smtp_address P r" using o unfolding clean_address_def by blast
  have d: "distinct ([] @ out)" using o by (simp only: append_Nil)
  have c: "\<forall>r \<in> set out. clean_address P r" using o by blast
  have "clean_recipients P out [] = Some ([] @ out)" by (rule clean_recipients_clean [OF d c])
  then show "clean_recipients P out [] = Some out" by simp
qed

lemma clean_recipients_not_Nil:
  assumes "clean_recipients P rs [] = Some out" "rs \<noteq> []"
  shows "out \<noteq> []"
  using clean_recipients_idem(3) [OF assms(1)] assms(2) by (cases rs) auto

lemma validate_webhook_iff:
  "validate_webhook P cfg = Inr cfg' \<longleftrightarrow>
   (if cf_webhook_enabled cfg
    then cfg' = cfg\<lparr>cf_webhook_url := trim_space (cf_webhook_url cfg)\<rparr> \<and>
      webhook_url_ok P (trim_space (cf_webhook_url cfg)) \<and>
      second \<le> cf_webhook_timeout cfg \<and> cf_webhook_timeout cfg \<le> 30 * second \<and>
      0 \<le> cf_webhook_max_retries cfg \<and> cf_webhook_max_retries cfg \<le> 5
    else cfg' = cfg)"
  by (auto simp: validate_webhook_def Let_def)

lemma validate_smtp_iff:
  "validate_smtp P cfg = Inr cfg' \<longleftrightarrow>
   (if cf_smtp_enabled cfg
    then (\<exists>recipients. clean_recipients P (cf_smtp_to cfg) [] = Some recipients \<and>
      cfg' = cfg\<lparr>cf_smtp_address := trim_space (cf_smtp_address cfg),
        cf_smtp_from := trim_space (cf_smtp_from cfg), cf_smtp_to := recipients\<rparr>) \<and>
      smtp_address_ok (trim_space (cf_smtp_address cfg)) \<and>
      (cf_smtp_tls cfg = ''starttls'' \<or> cf_smtp_tls cfg = ''implicit'') \<and>
      (cf_smtp_username cfg = [] \<longleftrightarrow> cf_smtp_password cfg = []) \<and>
      \<not> contains_any (cf_smtp_username cfg @ cf_smtp_password cfg) [0, 13, 10] \<and>
      valid_smtp_address P (trim_space (cf_smtp_from cfg)) \<and> cf_smtp_to cfg \<noteq> [] \<and>
      second \<le> cf_smtp_timeout cfg \<and> cf_smtp_timeout cfg \<le> 60 * second \<and>
      0 \<le> cf_smtp_max_retries cfg \<and> cf_smtp_max_retries cfg \<le> 5
    else cfg' = cfg)"
proof (cases "cf_smtp_enabled cfg")
  case False
  then show ?thesis by (auto simp: validate_smtp_def)
next
  case True
  show ?thesis
    by (cases "clean_recipients P (cf_smtp_to cfg) []")
      (simp_all add: validate_smtp_def Let_def True, auto)
qed

lemma validate_smtp_again:
  assumes "validate_smtp P cfg = Inr cfg'"
  shows "validate_smtp P cfg' = Inr cfg'"
proof (cases "cf_smtp_enabled cfg")
  case False
  with assms show ?thesis by (simp add: validate_smtp_iff)
next
  case True
  with assms obtain recipients where
    r: "clean_recipients P (cf_smtp_to cfg) [] = Some recipients" "cf_smtp_to cfg \<noteq> []"
    and c: "cfg' = cfg\<lparr>cf_smtp_address := trim_space (cf_smtp_address cfg),
        cf_smtp_from := trim_space (cf_smtp_from cfg), cf_smtp_to := recipients\<rparr>"
    by (auto simp: validate_smtp_iff)
  from True assms r clean_recipients_idem(1) [OF r(1)] clean_recipients_not_Nil [OF r] show ?thesis
    unfolding validate_smtp_iff by (simp add: c)
qed

lemma validate_smtp_facts:
  assumes "validate_smtp P cfg = Inr cfg'"
  shows "cf_smtp_enabled cfg' \<longrightarrow> second \<le> cf_smtp_timeout cfg' \<and> cf_smtp_timeout cfg' \<le> 60 * second \<and>
       0 \<le> cf_smtp_max_retries cfg' \<and> cf_smtp_max_retries cfg' \<le> 5 \<and>
       cf_smtp_to cfg' \<noteq> [] \<and> distinct (cf_smtp_to cfg') \<and>
       list_all (valid_smtp_address P) (cf_smtp_from cfg' # cf_smtp_to cfg') \<and>
       set (cf_smtp_to cfg') = set (map trim_space (cf_smtp_to cfg))"
proof (cases "cf_smtp_enabled cfg")
  case False
  with assms show ?thesis by (simp add: validate_smtp_iff)
next
  case True
  with assms obtain recipients where
    r: "clean_recipients P (cf_smtp_to cfg) [] = Some recipients" "cf_smtp_to cfg \<noteq> []"
    and c: "cfg' = cfg\<lparr>cf_smtp_address := trim_space (cf_smtp_address cfg),
        cf_smtp_from := trim_space (cf_smtp_from cfg), cf_smtp_to := recipients\<rparr>"
    by (auto simp: validate_smtp_iff)
  from True assms clean_recipients_idem(2,3,4) [OF r(1)] clean_recipients_not_Nil [OF r] show ?thesis
    by (simp add: c validate_smtp_iff list_all_iff)
qed

lemma validate_config_facts:
  assumes "validate_config P cfg = Inr cfg'"
  shows "validate_config P cfg' = Inr cfg' \<and>
    (cf_tenant_isolation_enabled cfg' \<or> cf_auth_api_keys_file cfg' \<noteq> [] \<longrightarrow> cf_auth_enabled cfg') \<and>
    (cf_auth_enabled cfg' \<longrightarrow> cf_auth_audience cfg' \<noteq> [] \<and> trim_space (cf_auth_audience cfg') = cf_auth_audience cfg') \<and>
    (cf_webhook_enabled cfg' \<longrightarrow> second \<le> cf_webhook_timeout cfg' \<and> cf_webhook_timeout cfg' \<le> 30 * second \<and>
       0 \<le> cf_webhook_max_retries cfg' \<and> cf_webhook_max_retries cfg' \<le> 5) \<and>
    (cf_smtp_enabled cfg' \<longrightarrow> second \<le> cf_smtp_timeout cfg' \<and> cf_smtp_timeout cfg' \<le> 60 * second \<and>
       0 \<le> cf_smtp_max_retries cfg' \<and> cf_smtp_max_retries cfg' \<le> 5 \<and>
       cf_smtp_to cfg' \<noteq> [] \<and> distinct (cf_smtp_to cfg') \<and>
       list_all (valid_smtp_address P) (cf_smtp_from cfg' # cf_smtp_to cfg') \<and>
       set (cf_smtp_to cfg') = set (map trim_space (cf_smtp_to cfg)))"
proof -
  define c0 where "c0 = cfg\<lparr>cf_auth_audience := trim_space (cf_auth_audience cfg)\<rparr>"
  from assms obtain c1 where
    checks: "cf_auth_enabled c0 \<longrightarrow> cf_auth_audience c0 \<noteq> []"
      "cf_tenant_isolation_enabled c0 \<longrightarrow> cf_auth_enabled c0"
      "cf_auth_api_keys_file c0 \<noteq> [] \<longrightarrow> cf_auth_enabled c0"
    and w: "validate_webhook P c0 = Inr c1" and s: "validate_smtp P c1 = Inr cfg'"
    unfolding validate_config_def Let_def c0_def [symmetric] by (auto split: if_splits sum.splits)
  have c1: "c1 = c0\<lparr>cf_webhook_url := cf_webhook_url c1\<rparr>"
    using w by (auto simp: validate_webhook_iff split: if_splits)
  have c2: "cfg' = c1\<lparr>cf_smtp_address := cf_smtp_address cfg', cf_smtp_from := cf_smtp_from cfg',
      cf_smtp_to := cf_smtp_to cfg'\<rparr>"
    using s by (auto simp: validate_smtp_iff split: if_splits)
  have same: "cf_auth_enabled cfg' = cf_auth_enabled c0" "cf_auth_audience cfg' = trim_space (cf_auth_audience cfg)"
    "cf_tenant_isolation_enabled cfg' = cf_tenant_isolation_enabled c0"
    "cf_auth_api_keys_file cfg' = cf_auth_api_keys_file c0"
    by (subst c2, subst c1, simp add: c0_def)+
  have same1: "cf_webhook_enabled cfg' = cf_webhook_enabled c1" "cf_webhook_timeout cfg' = cf_webhook_timeout c1"
    "cf_webhook_max_retries cfg' = cf_webhook_max_retries c1" "cf_webhook_url cfg' = cf_webhook_url c1"
    by (subst c2, simp)+
  have same2: "cf_smtp_to c1 = cf_smtp_to cfg" by (subst c1) (simp add: c0_def)
  have aud: "cfg'\<lparr>cf_auth_audience := trim_space (cf_auth_audience cfg')\<rparr> = cfg'"
    by (simp add: same(2))
  have web: "validate_webhook P cfg' = Inr cfg'"
    using w by (auto simp: validate_webhook_iff same1 split: if_splits)
  have again: "validate_config P cfg' = Inr cfg'"
    unfolding validate_config_def Let_def aud
    using checks web validate_smtp_again [OF s] by (auto simp: same c0_def)
  have auth: "cf_auth_enabled cfg' \<longrightarrow> cf_auth_audience cfg' \<noteq> [] \<and>
      trim_space (cf_auth_audience cfg') = cf_auth_audience cfg'"
    using checks(1) by (simp add: same c0_def)
  have webhook: "cf_webhook_enabled cfg' \<longrightarrow> second \<le> cf_webhook_timeout cfg' \<and>
      cf_webhook_timeout cfg' \<le> 30 * second \<and>
      0 \<le> cf_webhook_max_retries cfg' \<and> cf_webhook_max_retries cfg' \<le> 5"
    using web by (simp add: validate_webhook_iff split: if_splits)
  have smtp: "cf_smtp_enabled cfg' \<longrightarrow> second \<le> cf_smtp_timeout cfg' \<and> cf_smtp_timeout cfg' \<le> 60 * second \<and>
       0 \<le> cf_smtp_max_retries cfg' \<and> cf_smtp_max_retries cfg' \<le> 5 \<and>
       cf_smtp_to cfg' \<noteq> [] \<and> distinct (cf_smtp_to cfg') \<and>
       list_all (valid_smtp_address P) (cf_smtp_from cfg' # cf_smtp_to cfg') \<and>
       set (cf_smtp_to cfg') = set (map trim_space (cf_smtp_to cfg))"
    by (rule validate_smtp_facts [OF s, unfolded same2])
  show ?thesis using again auth webhook smtp checks(2,3) unfolding same by blast
qed

text \<open>What the rules leave of an address, of a credential and of the URL of the webhook.\<close>

lemma contains_any_iff: "contains_any s cs \<longleftrightarrow> (\<exists>c \<in> set s. of_char c \<in> set cs)"
  by (simp add: contains_any_def list_ex_iff)

lemma smtp_address_okD:
  assumes "smtp_address_ok a"
  shows "\<exists>host port_text port. split_host_port a = Some (host, port_text) \<and> parse_int64 port_text = (port, True) \<and>
    host \<noteq> [] \<and> (\<forall>c \<in> set host. (of_char c :: nat) \<notin> {47, 92, 64, 32, 9, 13, 10}) \<and> 1 \<le> port \<and> port \<le> 65535"
  using assms by (auto simp: smtp_address_ok_def contains_any_iff split: option.splits prod.splits)

lemma webhook_url_okD:
  assumes "webhook_url_ok P u"
  shows "\<exists>parts. ps_url P u = Some parts \<and> up_hostname parts \<noteq> [] \<and> up_scheme parts \<in> {''http'', ''https''} \<and>
    \<not> up_has_user parts \<and> CHR ''#'' \<notin> set u"
  using assms by (auto simp: webhook_url_ok_def split: option.splits)

lemma valid_smtp_addressD:
  assumes "valid_smtp_address P a"
  shows "ps_mail P a = Some ([], a) \<and> (\<forall>c \<in> set a. 32 < (of_char c :: nat) \<and> (of_char c :: nat) < 127)"
  using assms by (auto simp: valid_smtp_address_def list_all_iff split: option.splits)

lemma validate_config_split:
  assumes "validate_config P cfg = Inr cfg'"
  obtains c0 c1 where "validate_webhook P c0 = Inr c1" "validate_smtp P c1 = Inr cfg'"
  using assms unfolding validate_config_def Let_def by (auto split: if_splits sum.splits)

lemma validated_webhook:
  assumes "validate_config P cfg = Inr cfg'" "cf_webhook_enabled cfg'"
  shows "webhook_url_ok P (cf_webhook_url cfg')"
proof -
  obtain c0 c1 where w: "validate_webhook P c0 = Inr c1" and s: "validate_smtp P c1 = Inr cfg'"
    by (rule validate_config_split [OF assms(1)])
  have same: "cf_webhook_enabled cfg' = cf_webhook_enabled c1" "cf_webhook_url cfg' = cf_webhook_url c1"
    using s by (auto simp: validate_smtp_iff split: if_splits)
  with assms(2) w show ?thesis by (auto simp: validate_webhook_iff split: if_splits)
qed

lemma validated_smtp:
  assumes "validate_smtp P cfg = Inr cfg" "cf_smtp_enabled cfg"
  shows "smtp_address_ok (cf_smtp_address cfg) \<and> cf_smtp_tls cfg \<in> {''starttls'', ''implicit''} \<and>
    (cf_smtp_username cfg = [] \<longleftrightarrow> cf_smtp_password cfg = []) \<and>
    (\<forall>c \<in> set (cf_smtp_username cfg) \<union> set (cf_smtp_password cfg). (of_char c :: nat) \<notin> {0, 13, 10})"
proof -
  have c: "\<not> contains_any (cf_smtp_username cfg @ cf_smtp_password cfg) [0, 13, 10]"
    and t: "smtp_address_ok (trim_space (cf_smtp_address cfg))"
    and o: "cf_smtp_tls cfg = ''starttls'' \<or> cf_smtp_tls cfg = ''implicit''"
    "cf_smtp_username cfg = [] \<longleftrightarrow> cf_smtp_password cfg = []"
    using assms by (simp_all add: validate_smtp_iff)
  from assms obtain recipients where "cfg = cfg\<lparr>cf_smtp_address := trim_space (cf_smtp_address cfg),
      cf_smtp_from := trim_space (cf_smtp_from cfg), cf_smtp_to := recipients\<rparr>" by (auto simp: validate_smtp_iff)
  then have "cf_smtp_address cfg = cf_smtp_address (cfg\<lparr>cf_smtp_address := trim_space (cf_smtp_address cfg),
      cf_smtp_from := trim_space (cf_smtp_from cfg), cf_smtp_to := recipients\<rparr>)" by (rule arg_cong)
  then have "cf_smtp_address cfg = trim_space (cf_smtp_address cfg)" by simp
  with c t o show ?thesis by (auto simp: contains_any_iff)
qed

text \<open>
  C35. A configuration that is accepted is safe to run with and stays as it is when it is checked
  again. Tenant isolation and API keys only come with authentication and a non-blank audience. A
  webhook has an HTTP or HTTPS URL with a host and without user or fragment. Mail goes to a host
  without slashes, spaces or line breaks and a port from 1 to 65535, encrypted in one of two ways, with
  both credentials or none and no line break in them, from a bare printable address to at least one
  and to no address twice, all of them bare and printable. The retries of each channel lie
  between 0 and 5 and the time of an attempt is bounded.
\<close>

theorem accepted_config_safe:
  assumes "validate_config P cfg = Inr cfg'"
  shows "validate_config P cfg' = Inr cfg' \<and>
    (cf_tenant_isolation_enabled cfg' \<or> cf_auth_api_keys_file cfg' \<noteq> [] \<longrightarrow> cf_auth_enabled cfg') \<and>
    (cf_auth_enabled cfg' \<longrightarrow> cf_auth_audience cfg' \<noteq> [] \<and> trim_space (cf_auth_audience cfg') = cf_auth_audience cfg') \<and>
    (cf_webhook_enabled cfg' \<longrightarrow>
       (\<exists>parts. ps_url P (cf_webhook_url cfg') = Some parts \<and> up_hostname parts \<noteq> [] \<and>
          up_scheme parts \<in> {''http'', ''https''} \<and> \<not> up_has_user parts \<and> CHR ''#'' \<notin> set (cf_webhook_url cfg')) \<and>
       second \<le> cf_webhook_timeout cfg' \<and> cf_webhook_timeout cfg' \<le> 30 * second \<and>
       0 \<le> cf_webhook_max_retries cfg' \<and> cf_webhook_max_retries cfg' \<le> 5) \<and>
    (cf_smtp_enabled cfg' \<longrightarrow>
       (\<exists>host port_text port. split_host_port (cf_smtp_address cfg') = Some (host, port_text) \<and>
          parse_int64 port_text = (port, True) \<and> host \<noteq> [] \<and>
          (\<forall>c \<in> set host. (of_char c :: nat) \<notin> {47, 92, 64, 32, 9, 13, 10}) \<and> 1 \<le> port \<and> port \<le> 65535) \<and>
       cf_smtp_tls cfg' \<in> {''starttls'', ''implicit''} \<and>
       (cf_smtp_username cfg' = [] \<longleftrightarrow> cf_smtp_password cfg' = []) \<and>
       (\<forall>c \<in> set (cf_smtp_username cfg') \<union> set (cf_smtp_password cfg'). (of_char c :: nat) \<notin> {0, 13, 10}) \<and>
       second \<le> cf_smtp_timeout cfg' \<and> cf_smtp_timeout cfg' \<le> 60 * second \<and>
       0 \<le> cf_smtp_max_retries cfg' \<and> cf_smtp_max_retries cfg' \<le> 5 \<and>
       cf_smtp_to cfg' \<noteq> [] \<and> distinct (cf_smtp_to cfg') \<and>
       (\<forall>a \<in> insert (cf_smtp_from cfg') (set (cf_smtp_to cfg')). ps_mail P a = Some ([], a) \<and>
          (\<forall>c \<in> set a. 32 < (of_char c :: nat) \<and> (of_char c :: nat) < 127)) \<and>
       set (cf_smtp_to cfg') = set (map trim_space (cf_smtp_to cfg)))"
proof -
  note facts = validate_config_facts [OF assms]
  obtain c0 c1 where "validate_smtp P c1 = Inr cfg'"
    by (rule validate_config_split [OF conjunct1 [OF facts]])
  then have smtp: "validate_smtp P cfg' = Inr cfg'" by (rule validate_smtp_again)
  have web: "webhook_url_ok P (cf_webhook_url cfg')" if "cf_webhook_enabled cfg'"
    using validated_webhook [OF conjunct1 [OF facts] that] .
  have mail: "smtp_address_ok (cf_smtp_address cfg')" "cf_smtp_tls cfg' \<in> {''starttls'', ''implicit''}"
    "cf_smtp_username cfg' = [] \<longleftrightarrow> cf_smtp_password cfg' = []"
    "\<forall>c \<in> set (cf_smtp_username cfg') \<union> set (cf_smtp_password cfg'). (of_char c :: nat) \<notin> {0, 13, 10}"
    if "cf_smtp_enabled cfg'"
    using validated_smtp [OF smtp that] by simp_all
  have addr: "\<forall>a \<in> insert (cf_smtp_from cfg') (set (cf_smtp_to cfg')). ps_mail P a = Some ([], a) \<and>
      (\<forall>c \<in> set a. 32 < (of_char c :: nat) \<and> (of_char c :: nat) < 127)"
    if "cf_smtp_enabled cfg'"
  proof
    fix a assume "a \<in> insert (cf_smtp_from cfg') (set (cf_smtp_to cfg'))"
    moreover have "list_all (valid_smtp_address P) (cf_smtp_from cfg' # cf_smtp_to cfg')" using facts that by blast
    ultimately have "valid_smtp_address P a" by (auto simp: list_all_iff)
    then show "ps_mail P a = Some ([], a) \<and> (\<forall>c \<in> set a. 32 < (of_char c :: nat) \<and> (of_char c :: nat) < 127)"
      by (rule valid_smtp_addressD)
  qed
  show ?thesis
    using facts webhook_url_okD [OF web] smtp_address_okD [OF mail(1)] mail(2-4) addr by blast
qed

text \<open>A configuration with both channels, on parsers that accept everything.\<close>

definition sample_parsers :: parsers where
  "sample_parsers = \<lparr>ps_url = (\<lambda>s. Some \<lparr>up_scheme = ''https'', up_hostname = ''hooks.example.org'', up_has_user = False\<rparr>),
     ps_mail = (\<lambda>s. Some ([], s))\<rparr>"

definition sample_config :: config where
  "sample_config = \<lparr>cf_metrics_addr = '':8443'', cf_health_probe_addr = '':8081'', cf_enable_leader_election = True,
     cf_secure_metrics = True, cf_enable_http2 = False, cf_log_level = ''info'', cf_log_format = ''console'',
     cf_api_port = 8080, cf_api_host = ''0.0.0.0'', cf_web_dir = ''/web/dist'', cf_auth_enabled = True, cf_auth_audience = ''kubetask'', cf_auth_api_keys_file = ''/keys.json'',
     cf_tenant_isolation_enabled = True, cf_webhook_enabled = True,
     cf_webhook_url = ''https://hooks.example.org/x'', cf_webhook_timeout = 5 * second, cf_webhook_max_retries = 3,
     cf_smtp_enabled = True, cf_smtp_address = ''mail.example.org:587'', cf_smtp_tls = ''starttls'',
     cf_smtp_username = [], cf_smtp_password = [], cf_smtp_from = ''bot@example.org'',
     cf_smtp_to = [''ops@example.org'', ''ops@example.org''], cf_smtp_timeout = 10 * second, cf_smtp_max_retries = 3,
     cf_smtp_subject_template = [], cf_smtp_body_template = [], cf_database_host = ''localhost'',
     cf_database_port = 5432, cf_database_user = ''kubetask'', cf_database_password = ''kubetask'',
     cf_database_name = ''kubetask'', cf_database_ssl_mode = ''disable'', cf_config_file = []\<rparr>"

definition sample_accepted :: config where
  "sample_accepted = sample_config\<lparr>cf_auth_audience := ''kubetask'', cf_smtp_to := [''ops@example.org'']\<rparr>"

lemma validate_sample_config: "validate_config sample_parsers sample_config = Inr sample_accepted"
proof -
  have trim: "trim_space ''kubetask'' = ''kubetask''" "trim_space ''mail.example.org:587'' = ''mail.example.org:587''"
    "trim_space ''https://hooks.example.org/x'' = ''https://hooks.example.org/x''"
    "trim_space ''bot@example.org'' = ''bot@example.org''" "trim_space ''ops@example.org'' = ''ops@example.org''"
    by (rule trim_space_visible; simp add: visible_def)+
  have "smtp_address_ok ''mail.example.org:587''" by code_simp
  moreover have "webhook_url_ok sample_parsers ''https://hooks.example.org/x''" by code_simp
  moreover have "valid_smtp_address sample_parsers ''bot@example.org''"
    "valid_smtp_address sample_parsers ''ops@example.org''" by code_simp+
  ultimately show ?thesis
    by (simp add: validate_config_def validate_webhook_def validate_smtp_def Let_def trim contains_any_def
        sample_config_def sample_accepted_def)
qed

theorem accepted_config_safe_witness:
  "validate_config sample_parsers sample_accepted = Inr sample_accepted \<and>
   cf_smtp_to sample_accepted = [''ops@example.org''] \<and> distinct (cf_smtp_to sample_accepted) \<and>
   cf_smtp_max_retries sample_accepted \<le> 5 \<and>
   (\<exists>host port_text port. split_host_port (cf_smtp_address sample_accepted) = Some (host, port_text) \<and>
      parse_int64 port_text = (port, True) \<and> 1 \<le> port \<and> port \<le> 65535)"
proof -
  have e: "cf_smtp_enabled sample_accepted" "cf_smtp_to sample_accepted = [''ops@example.org'']"
    by (simp_all add: sample_accepted_def sample_config_def)
  from accepted_config_safe [OF validate_sample_config] e show ?thesis by auto
qed

end
