(* ===== verification/Middleware.thy ===== *)
theory Middleware
  imports Http Config
begin

text \<open>
  The middlewares of \<open>internal/api/middleware\<close>: authentication, tenant isolation, audit and
  authorization, and the chain \<open>authenticationMiddleware\<close> of \<open>cmd/main.go\<close> builds of them.
\<close>

section \<open>Environment\<close>

text \<open>
  The authenticator and the authorizer are interfaces that may be nil.  \<open>me_expired\<close> is the test of
  the request's deadline after a call, \<open>me_create_event\<close> the client of the events API.
\<close>

record audit_event =
  ae_namespace :: string
  ae_generate_name :: string
  ae_event_time :: time
  ae_reporting_controller :: string
  ae_reporting_instance :: string
  ae_action :: string
  ae_reason :: string
  ae_account :: string              \<comment> \<open>name and UID of the regarded ServiceAccount\<close>
  ae_account_uid :: string
  ae_type :: string
  ae_note :: string
  ae_key_id :: "string option"
  ae_related :: "(string \<times> string \<times> string) option"   \<comment> \<open>kind, name and UID\<close>

record 'w mw_env =
  me_authenticate :: "(string \<Rightarrow> 'w \<Rightarrow> (auth_error + user_info option) \<times> 'w) option"
  me_authorize :: "(user_info option \<Rightarrow> resource_attributes \<Rightarrow> 'w \<Rightarrow> auth_error option \<times> 'w) option"
  me_expired :: "'w \<Rightarrow> bool \<times> 'w"
  me_create_event :: "string \<Rightarrow> audit_event \<Rightarrow> 'w \<Rightarrow> api_error option \<times> 'w"
  me_instance :: string
  me_now :: "'w \<Rightarrow> time"

section \<open>Authentication\<close>

definition reject_authentication :: "int \<Rightarrow> gin_ctx \<Rightarrow> gin_ctx" where
  "reject_authentication status c =
     (let c = (if status = 401
               then c\<lparr>gc_response := (gc_response c)\<lparr>rs_www_authenticate := Some ''Bearer''\<rparr>\<rparr> else c)
      in respond status (ErrorBody (status_text status)) c)"

definition b64_char :: "char \<Rightarrow> bool" where
  "b64_char ch \<longleftrightarrow> (let n = (of_char ch :: nat) in
     (97 \<le> n \<and> n \<le> 122) \<or> (65 \<le> n \<and> n \<le> 90) \<or> (48 \<le> n \<and> n \<le> 57) \<or> ch \<in> set ''-._~+/'')"

definition bearer_token :: "string list \<Rightarrow> string option" where
  "bearer_token values =
     (case values of
        [v] \<Rightarrow>
          (case cut v (CHR '' '') of (scheme, token, ok) \<Rightarrow>
             if \<not> ok \<or> \<not> equal_fold scheme ''Bearer'' then None
             else let token = trim_left_char (CHR '' '') token;
                      content = trim_right_char (CHR ''='') token
                  in if content = [] \<or> \<not> list_all b64_char content then None else Some token)
      | _ \<Rightarrow> None)"

definition authentication :: "'w mw_env \<Rightarrow> 'w middleware" where
  "authentication M next c w =
     (case bearer_token (rq_authorization (gc_request c)) of
        None \<Rightarrow> (Some (reject_authentication 401 c), w)
      | Some token \<Rightarrow>
          (case me_authenticate M of
             None \<Rightarrow> (Some (reject_authentication 503 c), w)
           | Some authenticate \<Rightarrow>
               (case authenticate token w of (r, w1) \<Rightarrow>
                case me_expired M w1 of (expired, w2) \<Rightarrow>
                  if expired then (Some (reject_authentication 503 c), w2)
                  else case r of
                    Inl e \<Rightarrow> (Some (reject_authentication (if e = Unauthenticated then 401 else 503) c), w2)
                  | Inr None \<Rightarrow> (Some (reject_authentication 503 c), w2)
                  | Inr (Some user) \<Rightarrow> next (c\<lparr>gc_user := Some user\<rparr>) w2)))"

section \<open>Tenant isolation\<close>

definition tenant_isolation :: "'w middleware" where
  "tenant_isolation next c w =
     (case authenticated_user c of
        None \<Rightarrow> (Some (reject_authentication 401 c), w)
      | Some user \<Rightarrow>
          (let namespace = service_account_namespace (ui_username user) in
           if namespace = [] then (Some (reject_authentication 401 c), w)
           else next (c\<lparr>gc_scope := with_namespace (gc_scope c) namespace\<rparr>) w))"

section \<open>Authorization\<close>

record resource_permission =
  rp_resource :: string
  rp_verb :: string
  rp_subresource :: string

definition perm :: "string \<Rightarrow> string \<Rightarrow> string \<Rightarrow> resource_permission" where
  "perm r v s = \<lparr>rp_resource = r, rp_verb = v, rp_subresource = s\<rparr>"

definition route_permissions :: "(string, resource_permission list) gomap" where
  "route_permissions =
     [(''POST /api/v1/tasks'', [perm ''tasks'' ''create'' []]),
      (''GET /api/v1/tasks'', [perm ''tasks'' ''list'' []]),
      (''GET /api/v1/tasks/:name'', [perm ''tasks'' ''get'' []]),
      (''PUT /api/v1/tasks/:name'', [perm ''tasks'' ''get'' [], perm ''tasks'' ''update'' []]),
      (''DELETE /api/v1/tasks/:name'', [perm ''tasks'' ''delete'' []]),
      (''POST /api/v1/tasks/:name/trigger'',
         [perm ''tasks'' ''get'' [], perm ''tasks'' ''update'' [], perm ''tasks'' ''update'' ''status'']),
      (''POST /api/v1/tasks/:name/suspend'', [perm ''tasks'' ''get'' [], perm ''tasks'' ''update'' []]),
      (''POST /api/v1/tasks/:name/resume'', [perm ''tasks'' ''get'' [], perm ''tasks'' ''update'' []]),
      (''GET /api/v1/tasks/:name/logs'', [perm ''tasks'' ''get'' []]),
      (''GET /api/v1/stats'', [perm ''tasks'' ''list'' []]),
      (''GET /api/v1/stats/trend'', [perm ''tasks'' ''list'' []]),
      (''POST /api/v1/workflows'', [perm ''workflows'' ''create'' []]),
      (''GET /api/v1/workflows'', [perm ''workflows'' ''list'' []]),
      (''GET /api/v1/workflows/:name'', [perm ''workflows'' ''get'' []]),
      (''DELETE /api/v1/workflows/:name'', [perm ''workflows'' ''get'' [], perm ''workflows'' ''delete'' []])]"

definition route_attributes :: "gin_ctx \<Rightarrow> resource_permission \<Rightarrow> resource_attributes" where
  "route_attributes c p = \<lparr>ra_namespace = ctx_namespace (gc_scope c), ra_verb = rp_verb p,
     ra_group = api_group, ra_version = ''v1'', ra_resource = rp_resource p,
     ra_subresource = rp_subresource p, ra_name = rq_name (gc_request c)\<rparr>"

text \<open>The loop of \<open>checkResourceAccess\<close>: the status to reject with, \<open>None\<close> when all is granted.\<close>

fun check_each ::
  "'w mw_env \<Rightarrow> (user_info option \<Rightarrow> resource_attributes \<Rightarrow> 'w \<Rightarrow> auth_error option \<times> 'w) \<Rightarrow>
   user_info \<Rightarrow> resource_attributes list \<Rightarrow> 'w \<Rightarrow> int option \<times> 'w" where
  "check_each M authorize_one user [] w = (None, w)"
| "check_each M authorize_one user (a # as) w =
     (case authorize_one (Some user) a w of (err, w1) \<Rightarrow>
      case me_expired M w1 of (expired, w2) \<Rightarrow>
        if expired then (Some 503, w2)
        else case err of
          Some Unauthenticated \<Rightarrow> (Some 401, w2)
        | Some Forbidden \<Rightarrow> (Some 403, w2)
        | None \<Rightarrow> check_each M authorize_one user as w2
        | Some _ \<Rightarrow> (Some 503, w2))"

definition check_resource_access ::
  "'w mw_env \<Rightarrow> (user_info option \<Rightarrow> resource_attributes \<Rightarrow> 'w \<Rightarrow> auth_error option \<times> 'w) \<Rightarrow>
   gin_ctx \<Rightarrow> resource_attributes list \<Rightarrow> 'w \<Rightarrow> int option \<times> 'w" where
  "check_resource_access M authorize_one c as w =
     (case authenticated_user c of
        None \<Rightarrow> (Some 401, w)
      | Some user \<Rightarrow> check_each M authorize_one user as w)"

definition authorization :: "'w mw_env \<Rightarrow> 'w middleware" where
  "authorization M next c w =
     (case (gm_get route_permissions (route_key (gc_request c)), me_authorize M) of
        (Some permissions, Some authorize_one) \<Rightarrow>
          (case check_resource_access M authorize_one c (map (route_attributes c) permissions) w of
             (Some status, w') \<Rightarrow> (Some (reject_authentication status c), w')
           | (None, w') \<Rightarrow> next (c\<lparr>gc_checked := True\<rparr>) w')
      | _ \<Rightarrow> (Some (reject_authentication 503 c), w))"

text \<open>The check of a target a handler has found out itself; \<open>None\<close> means that it may go on.\<close>

definition authorize_resource ::
  "'w mw_env \<Rightarrow> gin_ctx \<Rightarrow> resource_attributes \<Rightarrow> 'w \<Rightarrow> int option \<times> 'w" where
  "authorize_resource M c a w =
     (if \<not> gc_checked c then (None, w)
      else case me_authorize M of
        None \<Rightarrow> (Some 503, w)
      | Some authorize_one \<Rightarrow> check_resource_access M authorize_one c [a] w)"

section \<open>Audit\<close>

record audit_operation =
  ao_kind :: string
  ao_action :: string

definition audit_op :: "string \<Rightarrow> string \<Rightarrow> audit_operation" where
  "audit_op kind action = \<lparr>ao_kind = kind, ao_action = action\<rparr>"

definition audit_operations :: "(string, audit_operation) gomap" where
  "audit_operations =
     [(''POST /api/v1/tasks'', audit_op ''Task'' ''Create''),
      (''PUT /api/v1/tasks/:name'', audit_op ''Task'' ''Update''),
      (''DELETE /api/v1/tasks/:name'', audit_op ''Task'' ''Delete''),
      (''POST /api/v1/tasks/:name/trigger'', audit_op ''Task'' ''Trigger''),
      (''POST /api/v1/tasks/:name/suspend'', audit_op ''Task'' ''Suspend''),
      (''POST /api/v1/tasks/:name/resume'', audit_op ''Task'' ''Resume''),
      (''POST /api/v1/workflows'', audit_op ''Workflow'' ''Create''),
      (''DELETE /api/v1/workflows/:name'', audit_op ''Workflow'' ''Delete'')]"

definition set_audit_target :: "object_meta \<Rightarrow> gin_ctx \<Rightarrow> gin_ctx" where
  "set_audit_target obj c = c\<lparr>gc_audit_target := Some (om_name obj, om_uid obj)\<rparr>"

definition audit_event_of :: "'w mw_env \<Rightarrow> audit_operation \<Rightarrow> user_info \<Rightarrow> gin_ctx \<Rightarrow> 'w \<Rightarrow> audit_event" where
  "audit_event_of M op user c w =
     (let namespace = service_account_namespace (ui_username user);
          account = fst (cut_prefix (ui_username user) (''system:serviceaccount:'' @ namespace @ '':''));
          status = rs_status (gc_response c);
          event_type = (if status \<ge> 400 then ''Warning'' else ''Normal'');
          reason = (if status = 403 then ''APIRequestDenied''
                    else if status \<ge> 400 then ''APIRequestFailed'' else ''APIRequestSucceeded'');
          ids = gm_get_or [] (ui_extra user) api_key_id_extra;
          target = (case gc_audit_target c of Some t \<Rightarrow> t | None \<Rightarrow> (rq_name (gc_request c), []))
      in \<lparr>ae_namespace = namespace, ae_generate_name = ''kubetask-audit-'', ae_event_time = me_now M w,
          ae_reporting_controller = ''kubetask.io/api-audit'', ae_reporting_instance = me_instance M,
          ae_action = ao_action op, ae_reason = reason, ae_account = account, ae_account_uid = ui_uid user,
          ae_type = event_type,
          ae_note = ao_kind op @ '' request returned HTTP '' @ show_int status,
          ae_key_id = (if ids \<noteq> [] then Some (hd ids) else None),
          ae_related = (if fst target \<noteq> [] then Some (ao_kind op, fst target, snd target) else None)\<rparr>)"

text \<open>An event that cannot be created is only logged.  A panic skips everything after \<open>c.Next()\<close>.\<close>

definition audit :: "'w mw_env \<Rightarrow> 'w middleware" where
  "audit M next c w =
     (case gm_get audit_operations (route_key (gc_request c)) of
        None \<Rightarrow> next c w
      | Some op \<Rightarrow>
          (case next c w of
             (None, w') \<Rightarrow> (None, w')
           | (Some c', w') \<Rightarrow>
               (case authenticated_user c' of
                  None \<Rightarrow> (Some c', w')
                | Some user \<Rightarrow>
                    (let event = audit_event_of M op user c' w'
                     in (Some c', snd (me_create_event M (ae_namespace event) event w'))))))"

section \<open>The chain of an API request\<close>

definition configured_auth :: "config \<Rightarrow> string \<Rightarrow> 'w auth_env \<Rightarrow> 'w auth_env" where
  "configured_auth cfg audience E =
     E\<lparr>au_audience := audience, au_keys_path := cf_auth_api_keys_file cfg\<rparr>"

definition configured_authenticate ::
  "config \<Rightarrow> 'w auth_env \<Rightarrow> string \<Rightarrow> 'w \<Rightarrow> (auth_error + user_info) \<times> 'w" where
  "configured_authenticate cfg E = (if cf_auth_api_keys_file cfg \<noteq> [] then key_authenticate E else sa_authenticate E)"

definition configured_env :: "config \<Rightarrow> 'w auth_env \<Rightarrow> 'w mw_env \<Rightarrow> 'w mw_env" where
  "configured_env cfg E M = M\<lparr>
     me_authenticate := Some (\<lambda>token w. case configured_authenticate cfg E token w of (r, w') \<Rightarrow> (map_sum id Some r, w')),
     me_authorize := Some (authorize E)\<rparr>"

definition authentication_middleware ::
  "config \<Rightarrow> 'w auth_env \<Rightarrow> 'w mw_env \<Rightarrow> string + 'w middleware" where
  "authentication_middleware cfg E M =
     (if \<not> cf_auth_enabled cfg then Inr (\<lambda>next. next)
      else case new_service_account_authenticator True (cf_auth_audience cfg) of
        Inl e \<Rightarrow> Inl (''initialize API authentication: '' @ e)
      | Inr audience \<Rightarrow>
          (case new_resource_authorizer True of
             Inl e \<Rightarrow> Inl (''initialize API authorization: '' @ e)
           | Inr _ \<Rightarrow>
               (let M' = configured_env cfg (configured_auth cfg audience E) M in
                Inr (\<lambda>next. authentication M'
                  ((if cf_tenant_isolation_enabled cfg then tenant_isolation else (\<lambda>h. h))
                     (audit M' (authorization M' next)))))))"

text \<open>A request to an endpoint under /api/v1; \<open>gin.Recovery\<close> answers a panic.\<close>

definition serve :: "'w middleware \<Rightarrow> 'w handler \<Rightarrow> request \<Rightarrow> 'w \<Rightarrow> response \<times> 'w" where
  "serve chain handler rq w =
     (case chain handler (new_ctx rq) w of
        (Some c, w') \<Rightarrow> (gc_response c, w')
      | (None, w') \<Rightarrow> (empty_response\<lparr>rs_status := 500\<rparr>, w'))"

section \<open>What the chain lets through\<close>

text \<open>The reviews of the API server, one after the other, all answered with an approval in time.\<close>

fun granted :: "'w auth_env \<Rightarrow> 'w mw_env \<Rightarrow> user_info \<Rightarrow> resource_attributes list \<Rightarrow> 'w \<Rightarrow> 'w option" where
  "granted E M user [] w = Some w"
| "granted E M user (a # as) w =
     (case au_review_access E (access_spec user a) w of
        (Inr (Some st), w1) \<Rightarrow>
          if av_allowed st \<and> \<not> av_denied st
          then (case me_expired M w1 of (expired, w2) \<Rightarrow> if expired then None else granted E M user as w2)
          else None
      | _ \<Rightarrow> None)"

lemma check_each_granted:
  "me_expired M' = me_expired M \<Longrightarrow> check_each M' (authorize E) user as w = (None, w') \<Longrightarrow>
   granted E M user as w = Some w'"
proof (induction as arbitrary: w)
  case Nil
  then show ?case by simp
next
  case (Cons a as)
  obtain err w1 where a: "authorize E (Some user) a w = (err, w1)" by (metis surj_pair)
  obtain expired w2 where x: "me_expired M w1 = (expired, w2)" by (metis surj_pair)
  from Cons.prems a x have ok: "\<not> expired" "err = None" "check_each M' (authorize E) user as w2 = (None, w')"
    by (auto split: if_splits option.splits auth_error.splits)
  from a ok(2) obtain st where "au_review_access E (access_spec user a) w = (Inr (Some st), w1)"
    "av_allowed st" "\<not> av_denied st"
    using authorize_allows_iff [of E "Some user" a w w1] by auto
  with x ok Cons.IH [OF Cons.prems(1) ok(3)] show ?case by simp
qed

text \<open>If the handlers behind a middleware make a difference, then the middleware went on to them.\<close>

lemma authentication_differ:
  assumes "authentication M next c w \<noteq> authentication M next' c w"
  obtains token authenticate user w1 w2 where
    "bearer_token (rq_authorization (gc_request c)) = Some token" "me_authenticate M = Some authenticate"
    "authenticate token w = (Inr (Some user), w1)" "me_expired M w1 = (False, w2)"
    "next (c\<lparr>gc_user := Some user\<rparr>) w2 \<noteq> next' (c\<lparr>gc_user := Some user\<rparr>) w2"
proof -
  from assms obtain token where t: "bearer_token (rq_authorization (gc_request c)) = Some token"
    by (cases "bearer_token (rq_authorization (gc_request c))") (auto simp: authentication_def)
  with assms obtain authenticate where a: "me_authenticate M = Some authenticate"
    by (cases "me_authenticate M") (auto simp: authentication_def)
  obtain r w1 where r: "authenticate token w = (r, w1)" by (metis surj_pair)
  obtain expired w2 where x: "me_expired M w1 = (expired, w2)" by (metis surj_pair)
  from assms t a r x obtain user where "r = Inr (Some user)" "\<not> expired"
    by (auto simp: authentication_def split: sum.splits option.splits if_splits)
  with assms t a r x that show ?thesis by (simp add: authentication_def)
qed

lemma tenant_isolation_differ:
  assumes "tenant_isolation next c w \<noteq> tenant_isolation next' c w" and "gc_user c = Some user"
  shows "service_account_namespace (ui_username user) \<noteq> [] \<and>
    next (c\<lparr>gc_scope := Some (service_account_namespace (ui_username user))\<rparr>) w \<noteq>
    next' (c\<lparr>gc_scope := Some (service_account_namespace (ui_username user))\<rparr>) w"
  using assms by (auto simp: tenant_isolation_def with_namespace_def Let_def split: if_splits)

lemma audit_differ: "audit M next c w \<noteq> audit M next' c w \<Longrightarrow> next c w \<noteq> next' c w"
  by (auto simp: audit_def split: option.splits)

lemma authorization_differ:
  assumes "authorization M next c w \<noteq> authorization M next' c w" and "me_authorize M = Some f"
    and "gc_user c = Some user"
  obtains permissions w' where
    "gm_get route_permissions (route_key (gc_request c)) = Some permissions"
    "check_each M f user (map (route_attributes c) permissions) w = (None, w')"
    "next (c\<lparr>gc_checked := True\<rparr>) w' \<noteq> next' (c\<lparr>gc_checked := True\<rparr>) w'"
proof -
  from assms obtain permissions where p: "gm_get route_permissions (route_key (gc_request c)) = Some permissions"
    by (cases "gm_get route_permissions (route_key (gc_request c))") (auto simp: authorization_def)
  obtain st w' where k: "check_each M f user (map (route_attributes c) permissions) w = (st, w')"
    by (metis surj_pair)
  from assms p k have "st = None"
    by (cases st) (auto simp: authorization_def check_resource_access_def)
  with assms p k that show ?thesis
    by (auto simp: authorization_def check_resource_access_def)
qed

lemma map_sum_Inr_Some [simp]: "map_sum id Some r = Inr (Some u) \<longleftrightarrow> r = Inr u"
  by (cases r) auto

definition handler_ctx :: "config \<Rightarrow> request \<Rightarrow> user_info \<Rightarrow> gin_ctx" where
  "handler_ctx cfg rq user = (new_ctx rq)\<lparr>gc_user := Some user,
     gc_scope := (if cf_tenant_isolation_enabled cfg then Some (service_account_namespace (ui_username user)) else None),
     gc_checked := True\<rparr>"

definition permission_attributes :: "config \<Rightarrow> request \<Rightarrow> user_info \<Rightarrow> resource_permission list \<Rightarrow> resource_attributes list" where
  "permission_attributes cfg rq user = map (route_attributes (handler_ctx cfg rq user))"

text \<open>
  C10. No request reaches a handler of the API unless the caller is authenticated and the API server
  has approved every permission its route is registered with. If the answer or the effect of a
  request depends on the handler at all, then the request carried a bearer token that was accepted,
  each review for the route's resources, in the tenant of the caller, was answered with an
  unambiguous approval, and the handler ran as this caller and confined to this tenant.
\<close>

theorem handler_needs_permission:
  fixes H H' :: "'w handler"
  assumes "authentication_middleware cfg E M = Inr chain" and "cf_auth_enabled cfg"
    and "serve chain H rq w \<noteq> serve chain H' rq w"
  defines "E' \<equiv> configured_auth cfg (cf_auth_audience cfg) E"
  shows "\<exists>token user w\<^sub>1 w\<^sub>2 w\<^sub>3 permissions.
    bearer_token (rq_authorization rq) = Some token \<and>
    configured_authenticate cfg E' token w = (Inr user, w\<^sub>1) \<and> me_expired M w\<^sub>1 = (False, w\<^sub>2) \<and>
    gm_get route_permissions (route_key rq) = Some permissions \<and>
    granted E' M user (permission_attributes cfg rq user permissions) w\<^sub>2 = Some w\<^sub>3 \<and>
    (cf_tenant_isolation_enabled cfg \<longrightarrow> service_account_namespace (ui_username user) \<noteq> []) \<and>
    H (handler_ctx cfg rq user) w\<^sub>3 \<noteq> H' (handler_ctx cfg rq user) w\<^sub>3"
proof -
  define M' where "M' = configured_env cfg E' M"
  let ?tenant = "if cf_tenant_isolation_enabled cfg then tenant_isolation else (\<lambda>h. h)"
  have chain: "chain = (\<lambda>next. authentication M' (?tenant (audit M' (authorization M' next))))"
    using assms(1,2) by (auto simp: authentication_middleware_def new_service_account_authenticator_def new_resource_authorizer_def
        M'_def E'_def Let_def split: if_splits)
  have env: "me_expired M' = me_expired M" "me_authorize M' = Some (authorize E')"
    by (simp_all add: M'_def configured_env_def)
  from assms(3) have differ: "chain H (new_ctx rq) w \<noteq> chain H' (new_ctx rq) w"
    by (auto simp: serve_def)
  then obtain token authenticate user w1 w2 where
    auth: "bearer_token (rq_authorization rq) = Some token" "me_authenticate M' = Some authenticate"
      "authenticate token w = (Inr (Some user), w1)" "me_expired M w1 = (False, w2)"
    and d1: "?tenant (audit M' (authorization M' H)) ((new_ctx rq)\<lparr>gc_user := Some user\<rparr>) w2 \<noteq>
             ?tenant (audit M' (authorization M' H')) ((new_ctx rq)\<lparr>gc_user := Some user\<rparr>) w2"
    unfolding chain by (rule authentication_differ) (simp_all add: env new_ctx_def)
  define c where "c = (handler_ctx cfg rq user)\<lparr>gc_checked := False\<rparr>"
  have d2: "(cf_tenant_isolation_enabled cfg \<longrightarrow> service_account_namespace (ui_username user) \<noteq> []) \<and>
      audit M' (authorization M' H) c w2 \<noteq> audit M' (authorization M' H') c w2"
    using d1 by (auto simp: c_def handler_ctx_def new_ctx_def dest!: tenant_isolation_differ [where user = user] split: if_splits)
  then have "authorization M' H c w2 \<noteq> authorization M' H' c w2" by (blast dest: audit_differ)
  then obtain permissions w3 where
    perms: "gm_get route_permissions (route_key (gc_request c)) = Some permissions"
      "check_each M' (authorize E') user (map (route_attributes c) permissions) w2 = (None, w3)"
    and d3: "H (c\<lparr>gc_checked := True\<rparr>) w3 \<noteq> H' (c\<lparr>gc_checked := True\<rparr>) w3"
    by (rule authorization_differ [OF _ env(2), where user = user]) (simp_all add: c_def handler_ctx_def)
  have same: "gc_request c = rq" "c\<lparr>gc_checked := True\<rparr> = handler_ctx cfg rq user"
    "map (route_attributes c) permissions = permission_attributes cfg rq user permissions"
    by (simp_all add: c_def handler_ctx_def new_ctx_def permission_attributes_def route_attributes_def)
  have "configured_authenticate cfg E' token w = (Inr user, w1)"
    using auth(2,3) by (auto simp: M'_def configured_env_def split: prod.splits sum.splits)
  moreover have "granted E' M user (permission_attributes cfg rq user permissions) w2 = Some w3"
    using check_each_granted [OF env(1) perms(2)] by (simp only: same)
  ultimately show ?thesis using auth(1,4) perms(1) d2 d3 unfolding same by blast
qed

section \<open>What the audit records\<close>

text \<open>Every endpoint is registered with its permissions, and every one that writes is audited.\<close>

lemma routes_guarded:
  "set v1_keys = set (gm_keys route_permissions)" "gm_ok route_permissions" "gm_ok audit_operations"
  "set (gm_keys audit_operations) = set (filter (\<lambda>k. \<not> has_prefix k ''GET '') v1_keys)"
  "list_all (\<lambda>(k, ps). ps \<noteq> [] \<and> list_all (\<lambda>p. rp_resource p \<noteq> [] \<and> rp_verb p \<noteq> []) ps) route_permissions"
  by code_simp+

lemma audited_route:
  assumes "route_key rq \<in> set v1_keys" "\<not> has_prefix (route_key rq) ''GET ''"
  obtains op where "gm_get audit_operations (route_key rq) = Some op"
proof -
  have "route_key rq \<in> set (gm_keys audit_operations)" using assms routes_guarded(4) by simp
  with that show ?thesis by (metis gm.keys_get option.exhaust)
qed

section \<open>A sample API server\<close>

text \<open>
  The world is the list of audit notes, the reviews are those of the sample of Auth.
\<close>

definition sample_mw :: "string list mw_env" where
  "sample_mw = \<lparr>me_authenticate = None, me_authorize = None, me_expired = (\<lambda>w. (False, w)),
     me_create_event = (\<lambda>ns event w. (None, w @ [ae_note event])), me_instance = ''host'', me_now = (\<lambda>w. 0)\<rparr>"

definition sample_request :: "string \<Rightarrow> string \<Rightarrow> request" where
  "sample_request method path = \<lparr>rq_method = method, rq_full_path = path, rq_authorization = [''bearer tok''],
     rq_name = ''t1'', rq_query = [], rq_task = Inl [], rq_workflow = Inl []\<rparr>"

definition sample_handler :: "int \<Rightarrow> 'w handler" where
  "sample_handler status c w = (Some (respond status NoBody c), w)"

definition sample_cfg :: config where
  "sample_cfg = sample_accepted\<lparr>cf_auth_api_keys_file := []\<rparr>"

definition sample_chain :: "string list middleware" where
  "sample_chain = (case authentication_middleware sample_cfg sample_auth sample_mw of
     Inr chain \<Rightarrow> chain | Inl _ \<Rightarrow> (\<lambda>h. h))"

lemma sample_cfg_simps:
  "cf_auth_enabled sample_cfg" "cf_auth_audience sample_cfg = ''kubetask''" "cf_tenant_isolation_enabled sample_cfg"
  "cf_auth_api_keys_file sample_cfg = []"
  by (simp_all add: sample_cfg_def sample_accepted_def sample_config_def)

lemma sample_trim: "trim_space ''kubetask'' = ''kubetask''" "trim_space ''tok'' = ''tok''"
  "trim_space ''system:serviceaccount:team-a:ci'' = ''system:serviceaccount:team-a:ci''"
  by (rule trim_space_visible; simp add: visible_def)+

lemma sample_chain_built: "authentication_middleware sample_cfg sample_auth sample_mw = Inr sample_chain"
  by (simp add: sample_chain_def authentication_middleware_def new_service_account_authenticator_def new_resource_authorizer_def
      sample_cfg_simps sample_trim Let_def)

lemma sample_token: "bearer_token [''bearer tok''] = Some ''tok''"
  by code_simp

lemma sample_canonical: "canonical_username ''system:serviceaccount:team-a:ci''"
  "service_account_namespace ''system:serviceaccount:team-a:ci'' = ''team-a''"
  by code_simp+

lemma sample_authenticated:
  "configured_authenticate sample_cfg (configured_auth sample_cfg ''kubetask'' sample_auth) ''tok'' w = (Inr sample_user, w)"
  by (simp add: configured_authenticate_def configured_auth_def sample_cfg_simps sa_authenticate_def sample_trim
      sample_auth_def sample_user_def sample_canonical)

lemma sample_authorized:
  assumes "ra_resource a \<noteq> []" "ra_verb a \<noteq> []" "ra_verb a \<noteq> ''delete''"
  shows "authorize (configured_auth sample_cfg audience sample_auth) (Some sample_user) a w = (None, w)"
  using assms by (simp add: authorize_def sample_trim sample_user_def sample_auth_def configured_auth_def
      decide_access_def access_spec_def)

lemma sample_create:
  "serve sample_chain (sample_handler status) (sample_request ''POST'' ''/api/v1/tasks'') [] =
     (empty_response\<lparr>rs_status := status\<rparr>, [''Task request returned HTTP '' @ show_int status])"
proof -
  have "gm_get route_permissions ''POST /api/v1/tasks'' = Some [perm ''tasks'' ''create'' []]"
    "gm_get audit_operations ''POST /api/v1/tasks'' = Some (audit_op ''Task'' ''Create'')"
    by (simp_all add: route_permissions_def audit_operations_def gm_get_def)
  then show ?thesis
    by (simp add: sample_chain_def authentication_middleware_def new_service_account_authenticator_def new_resource_authorizer_def
        sample_cfg_simps sample_trim Let_def serve_def authentication_def new_ctx_def sample_request_def sample_token
        configured_env_def sample_authenticated sample_mw_def tenant_isolation_def sample_user_def [symmetric]
        with_namespace_def route_key_def audit_def authorization_def check_resource_access_def
        sample_authorized route_attributes_def perm_def sample_handler_def respond_def empty_response_def
        audit_event_of_def audit_op_def)
      (simp add: sample_user_def sample_canonical)
qed

theorem handler_needs_permission_witness:
  "\<exists>token user w\<^sub>1. bearer_token [''bearer tok''] = Some token \<and>
    configured_authenticate sample_cfg (configured_auth sample_cfg ''kubetask'' sample_auth) token ([] :: string list) = (Inr user, w\<^sub>1) \<and>
    service_account_namespace (ui_username user) \<noteq> []"
proof -
  have "serve sample_chain (sample_handler 201) (sample_request ''POST'' ''/api/v1/tasks'') [] \<noteq>
      serve sample_chain (sample_handler 500) (sample_request ''POST'' ''/api/v1/tasks'') []"
    unfolding sample_create by (simp add: empty_response_def)
  from handler_needs_permission [OF sample_chain_built sample_cfg_simps(1) this] show ?thesis
    by (simp add: sample_cfg_simps sample_request_def) blast
qed

end
