(* ===== verification/GoFormat.thy ===== *)
theory GoFormat
  imports GoTime
begin

text \<open>
  The other direction of \<open>GoTime\<close>: \<open>Time.Format\<close> with the layouts \<open>RFC3339\<close> and \<open>2006-01-02\<close>, for
  a time in UTC, and the proof that parsing undoes it.  The API handlers write the time of a
  manual trigger this way and the Task controller reads it.
\<close>

section \<open>The calendar\<close>

text \<open>
  The date of a day number, by division into eras of 400 years that start on the first of March,
  centuries, groups of four years and years; the leap day is the last of its year.
\<close>

definition year_and_day :: "int \<Rightarrow> int \<times> int" where
  "year_and_day doe =
     (let c = min 3 (doe div 36524); r = doe - 36524 * c;
          g = r div 1461; r = r - 1461 * g;
          y = min 3 (r div 365)
      in (100 * c + 4 * g + y, r - 365 * y))"

definition civil_from_days :: "int \<Rightarrow> int \<times> int \<times> int" where
  "civil_from_days z =
     (let z = z + 719468; era = z div 146097 in
      case year_and_day (z mod 146097) of (yoe, doy) \<Rightarrow>
        (let mp = (5 * doy + 2) div 153;
             d = doy - (153 * mp + 2) div 5 + 1;
             m = (if mp < 10 then mp + 3 else mp - 9)
         in (yoe + era * 400 + (if m \<le> 2 then 1 else 0), m, d)))"

section \<open>Layouts\<close>

definition pad :: "nat \<Rightarrow> int \<Rightarrow> string" where
  "pad k n = map (\<lambda>i. digit_char (nat (n div 10 ^ (k - Suc i) mod 10))) [0 ..< k]"

definition format_date :: "time \<Rightarrow> string" where
  "format_date t =
     (case civil_from_days (t div (86400 * 1000000000)) of (y, m, d) \<Rightarrow>
        pad 4 y @ ''-'' @ pad 2 m @ ''-'' @ pad 2 d)"

definition format_rfc3339 :: "time \<Rightarrow> string" where
  "format_rfc3339 t =
     (let s = t div 1000000000 mod 86400
      in format_date t @ ''T'' @ pad 2 (s div 3600) @ '':'' @ pad 2 (s div 60 mod 60) @ '':'' @
         pad 2 (s mod 60) @ ''Z'')"

lemma format_rfc3339_examples:
  "format_rfc3339 0 = ''1970-01-01T00:00:00Z''"
  "format_rfc3339 1709181015250000000 = ''2024-02-29T04:30:15Z''"
  by code_simp+

section \<open>Dates round trip\<close>

lemma div_bounds:
  fixes x k :: int
  assumes "0 < k"
  shows "k * (x div k) \<le> x" "x < k * (x div k) + k"
proof -
  have "x = k * (x div k) + x mod k" by simp
  moreover have "0 \<le> x mod k" "x mod k < k" using assms by simp_all
  ultimately show "k * (x div k) \<le> x" "x < k * (x div k) + k" by linarith+
qed

lemma year_and_day_facts:
  assumes "0 \<le> doe" "doe < 146097" "year_and_day doe = (yoe, doy)"
  shows "0 \<le> yoe" "yoe < 400" "0 \<le> doy" "doy \<le> 365"
    "doe = 365 * yoe + yoe div 4 - yoe div 100 + doy"
    "doy = 365 \<Longrightarrow> (yoe + 1) mod 4 = 0 \<and> ((yoe + 1) mod 100 \<noteq> 0 \<or> (yoe + 1) mod 400 = 0)"
proof -
  define c where "c = min 3 (doe div 36524)"
  define r where "r = doe - 36524 * c"
  define g where "g = r div 1461"
  define s where "s = r - 1461 * g"
  define y where "y = min 3 (s div 365)"
  have yd: "yoe = 100 * c + 4 * g + y" "doy = s - 365 * y"
    using assms(3) by (simp_all add: year_and_day_def c_def r_def g_def s_def y_def Let_def)
  have c: "0 \<le> c" "c \<le> 3" using assms(1) by (simp_all add: c_def pos_imp_zdiv_nonneg_iff)
  have r: "0 \<le> r" "r \<le> 36524" "r = 36524 \<longrightarrow> c = 3"
  proof -
    note b = div_bounds [of 36524 doe, simplified]
    consider "doe div 36524 \<le> 2" | "doe div 36524 = 3" | "4 \<le> doe div 36524" by linarith
    then show "0 \<le> r" "r \<le> 36524" "r = 36524 \<longrightarrow> c = 3"
      using b assms(1,2) unfolding r_def c_def min_def by (cases; simp; linarith)+
  qed
  have gb: "1461 * g \<le> r" "r < 1461 * g + 1461" unfolding g_def by (rule div_bounds; simp)+
  have g: "0 \<le> g" "g \<le> 24" using r(1,2) gb by linarith+
  have s: "0 \<le> s" "s \<le> 1460" "g = 24 \<longrightarrow> s \<le> r - 35064" using gb unfolding s_def by auto
  have y: "0 \<le> y" "y \<le> 3" using s(1) by (simp_all add: y_def pos_imp_zdiv_nonneg_iff)
  have d: "0 \<le> doy" "doy \<le> 365" "doy = 365 \<longrightarrow> y = 3 \<and> s = 1460"
  proof -
    note b = div_bounds [of 365 s, simplified]
    consider "s div 365 \<le> 2" | "s div 365 = 3" | "4 \<le> s div 365" by linarith
    then show "0 \<le> doy" "doy \<le> 365" "doy = 365 \<longrightarrow> y = 3 \<and> s = 1460"
      using b s(1,2) unfolding yd(2) y_def min_def by (cases; simp; linarith)+
  qed
  show "0 \<le> yoe" "yoe < 400" "0 \<le> doy" "doy \<le> 365" using c g y d yd(1) by linarith+
  have "yoe div 4 = 25 * c + g"
    using y unfolding yd(1) by (intro int_div_pos_eq [where r = y]) simp_all
  moreover have "yoe div 100 = c"
    using g y unfolding yd(1) by (intro int_div_pos_eq [where r = "4 * g + y"]) simp_all
  ultimately show "doe = 365 * yoe + yoe div 4 - yoe div 100 + doy"
    unfolding yd by (simp add: s_def r_def)
  show "(yoe + 1) mod 4 = 0 \<and> ((yoe + 1) mod 100 \<noteq> 0 \<or> (yoe + 1) mod 400 = 0)" if "doy = 365"
  proof -
    have y3: "y = 3" "s = 1460" using d(3) that by auto
    have four: "yoe + 1 = 4 * (25 * c + g + 1)" using y3(1) yd(1) by simp
    have "g < 24 \<or> g = 24 \<and> c = 3" using y3(2) s(3) r(2,3) g(2) by linarith
    then have "(yoe + 1) mod 100 \<noteq> 0 \<or> (yoe + 1) mod 400 = 0"
    proof
      assume "g < 24"
      moreover have "yoe + 1 = 4 * g + 4 + 100 * c" using four by simp
      then have "(yoe + 1) mod 100 = (4 * g + 4) mod 100" by (simp only: mod_mult_self2)
      ultimately show ?thesis using g(1) by simp
    next
      assume "g = 24 \<and> c = 3"
      then show ?thesis using four by simp
    qed
    moreover have "(yoe + 1) mod 4 = 0" unfolding four by simp
    ultimately show ?thesis by blast
  qed
qed

lemma month_and_day:
  fixes doy :: int
  assumes "0 \<le> doy" "doy \<le> 365"
  defines "mp \<equiv> (5 * doy + 2) div 153"
  defines "d \<equiv> doy - (153 * mp + 2) div 5 + 1"
  shows "mp \<in> {0..11}" "1 \<le> d"
    "d \<le> (if mp = 11 then (if doy = 365 then 29 else 28) else if mp \<in> {1, 3, 6, 8} then 30 else 31)"
proof -
  have b: "153 * mp \<le> 5 * doy + 2" "5 * doy + 2 < 153 * mp + 153"
    unfolding mp_def by (rule div_bounds; simp)+
  then have mp: "0 \<le> mp" "mp \<le> 11" using assms(1,2) by linarith+
  then show "mp \<in> {0..11}" by simp
  from mp consider "mp = 0" | "mp = 1" | "mp = 2" | "mp = 3" | "mp = 4" | "mp = 5" | "mp = 6" | "mp = 7"
    | "mp = 8" | "mp = 9" | "mp = 10" | "mp = 11" by atomize_elim presburger
  then have "1 \<le> d \<and> d \<le> (if mp = 11 then (if doy = 365 then 29 else 28) else if mp \<in> {1, 3, 6, 8} then 30 else 31)"
    using b assms(2) unfolding d_def by cases auto
  then show "1 \<le> d" "d \<le> (if mp = 11 then (if doy = 365 then 29 else 28) else if mp \<in> {1, 3, 6, 8} then 30 else 31)"
    by blast+
qed

lemma civil_from_days_facts:
  assumes "civil_from_days z = (y, m, d)"
  shows "1 \<le> m \<and> m \<le> 12" "1 \<le> d \<and> d \<le> days_in m y" "days_from_civil y m d = z"
proof -
  define era where "era = (z + 719468) div 146097"
  define doe where "doe = (z + 719468) mod 146097"
  obtain yoe doy where yd: "year_and_day doe = (yoe, doy)" by (metis surj_pair)
  have doe: "0 \<le> doe" "doe < 146097" by (simp_all add: doe_def)
  note f = year_and_day_facts [OF doe yd]
  define mp where "mp = (5 * doy + 2) div 153"
  note md = month_and_day [OF f(3,4), folded mp_def]
  have m: "m = (if mp < 10 then mp + 3 else mp - 9)" and d: "d = doy - (153 * mp + 2) div 5 + 1"
    and y: "y = yoe + era * 400 + (if m \<le> 2 then 1 else 0)"
    using assms yd by (auto simp: civil_from_days_def Let_def mp_def era_def doe_def split: prod.splits)
  have mp: "0 \<le> mp" "mp \<le> 11" using md(1) by simp_all
  show m12: "1 \<le> m \<and> m \<le> 12" using mp unfolding m by auto
  have mp': "(if m > 2 then m - 3 else m + 9) = mp" using mp unfolding m by auto
  have y': "(if m \<le> 2 then y - 1 else y) = yoe + era * 400" unfolding y by simp
  show "days_from_civil y m d = z"
  proof -
    have "(yoe + era * 400) div 400 = era" "(yoe + era * 400) mod 400 = yoe" using f(1,2) by simp_all
    moreover have "era * 146097 + doe = z + 719468" by (simp add: era_def doe_def)
    ultimately show ?thesis
      using f(5) unfolding days_from_civil_def Let_def y' mp' d by simp
  qed
  have leap: "leap_year y" if "doy = 365" "m = 2"
  proof -
    have y1: "y = yoe + 1 + 400 * era" using that y by simp
    have "y mod 4 = (yoe + 1) mod 4" "y mod 100 = (yoe + 1) mod 100" "y mod 400 = (yoe + 1) mod 400"
      using mod_mult_self2 [of "yoe + 1" 4 "100 * era"] mod_mult_self2 [of "yoe + 1" 100 "4 * era"]
        mod_mult_self2 [of "yoe + 1" 400 era] by (simp_all add: y1)
    with f(6) [OF that(1)] show ?thesis by (simp add: leap_year_def)
  qed
  have m2: "mp = 11 \<longleftrightarrow> m = 2" "mp \<in> {1, 3, 6, 8} \<longleftrightarrow> m = 4 \<or> m = 6 \<or> m = 9 \<or> m = 11"
    using mp unfolding m by auto
  show "1 \<le> d \<and> d \<le> days_in m y"
    using md(2,3) leap unfolding m2 by (auto simp: d [symmetric] days_in_def split: if_splits)
qed

section \<open>Times round trip\<close>

lemma two_steps: "q = k * a + b \<Longrightarrow> s = k * q + r \<Longrightarrow> (a * k + b) * k + r = s" for k :: int
  by (simp add: algebra_simps)

lemma digit_char_value: "d < 10 \<Longrightarrow> of_char (digit_char d) = (48 + d :: nat)"
  by (simp add: digit_char_def)

lemma is_digit_digit_char [simp]: "d < 10 \<Longrightarrow> is_digit (digit_char d)"
  by (simp add: is_digit_def digit_char_value)

lemma pad2: "pad 2 n = [digit_char (nat (n div 10 mod 10)), digit_char (nat (n mod 10))]"
  by (simp add: pad_def upt_rec)

lemma pad4: "pad 4 n = [digit_char (nat (n div 1000 mod 10)), digit_char (nat (n div 100 mod 10)),
    digit_char (nat (n div 10 mod 10)), digit_char (nat (n mod 10))]"
  by (simp add: pad_def upt_rec)

lemma digit_nat: "nat (n mod 10) < 10" for n :: int
  by simp

lemma digit_int: "a \<in> {0..9} \<Longrightarrow> int (of_char (digit_char (nat a))) = 48 + a" for a :: int
  using digit_char_value [of "nat a"] by auto

lemma digit_range: "n mod 10 \<in> {0..9}" for n :: int
  using pos_mod_bound [of 10 n] by simp

lemma four_digits:
  "a \<in> {0..9} \<Longrightarrow> b \<in> {0..9} \<Longrightarrow> c \<in> {0..9} \<Longrightarrow> d \<in> {0..9} \<Longrightarrow>
   digits_value [digit_char (nat a), digit_char (nat b), digit_char (nat c), digit_char (nat d)] =
     1000 * a + 100 * b + 10 * c + d"
  by (simp add: digits_value_def digit_int del: atLeastAtMost_iff)

lemma parse_pad2:
  assumes "lo \<le> n" "n \<le> hi" "0 \<le> n" "n < 100"
  shows "parse_uint (pad 2 n) lo hi = Some n"
proof -
  have "0 \<le> n div 10" using assms(3) by (simp add: pos_imp_zdiv_nonneg_iff)
  moreover have "int (nat (n div 10 mod 10)) = n div 10" using assms(3,4) by simp
  ultimately have "digits_value (pad 2 n) = n"
    using digit_nat [of "n div 10"] digit_nat [of n] assms(3) by (simp add: pad2 digits_value_def digit_char_value pos_imp_zdiv_nonneg_iff)
  moreover have "list_all is_digit (pad 2 n)" by (simp add: pad2)
  ultimately show ?thesis using assms by (simp add: parse_uint_def pad2)
qed

lemma decimal_places:
  "q2 = 10 * q3 + r3 \<Longrightarrow> q1 = 10 * q2 + r2 \<Longrightarrow> n = 10 * q1 + r1 \<Longrightarrow>
   1000 * q3 + 100 * r3 + 10 * r2 + r1 = n" for n :: int
  by simp

lemma parse_pad4:
  assumes "0 \<le> n" "n \<le> 9999"
  shows "parse_uint (pad 4 n) 0 9999 = Some n"
proof -
  have d: "n div 100 div 10 = n div 1000" "n div 10 div 10 = n div 100"
    using zdiv_zmult2_eq [of 10 n 100] zdiv_zmult2_eq [of 10 n 10] by simp_all
  have "n div 100 = 10 * (n div 1000) + n div 100 mod 10" "n div 10 = 10 * (n div 100) + n div 10 mod 10"
    "n = 10 * (n div 10) + n mod 10"
    unfolding d [symmetric] by simp_all
  then have "1000 * (n div 1000) + 100 * (n div 100 mod 10) + 10 * (n div 10 mod 10) + n mod 10 = n"
    by (rule decimal_places)
  moreover have "n div 1000 mod 10 = n div 1000" using assms div_bounds [of 1000 n] by simp
  moreover have "digits_value (pad 4 n) =
      1000 * (n div 1000 mod 10) + 100 * (n div 100 mod 10) + 10 * (n div 10 mod 10) + n mod 10"
    unfolding pad4 by (rule four_digits) (rule digit_range)+
  ultimately have "digits_value (pad 4 n) = n" by (simp only:)
  moreover have "list_all is_digit (pad 4 n)" "pad 4 n \<noteq> []" unfolding pad4 by simp_all
  ultimately show ?thesis using assms by (simp add: parse_uint_def)
qed

lemma split_stamp:
  assumes "length y = 4" "length mo = 2" "length d = 2" "length h = 2" "length mi = 2" "length s = 2"
  defines "stamp \<equiv> (y @ ''-'' @ mo @ ''-'' @ d) @ ''T'' @ h @ '':'' @ mi @ '':'' @ s @ ''Z''"
  shows "slice stamp 0 4 = y" "slice stamp 5 7 = mo" "slice stamp 8 10 = d" "slice stamp 11 13 = h"
    "slice stamp 14 16 = mi" "slice stamp 17 19 = s" "length stamp = 20" "drop 19 stamp = ''Z''"
    "stamp ! 4 = CHR ''-''" "stamp ! 7 = CHR ''-''" "stamp ! 10 = CHR ''T''" "stamp ! 13 = CHR '':''"
    "stamp ! 16 = CHR '':''"
  using assms(1-6) unfolding stamp_def slice_def
  by (auto simp: numeral_eq_Suc length_Suc_conv)

lemma time_of_day:
  fixes s :: int
  assumes "0 \<le> s" "s < 86400"
  shows "(s div 3600 * 60 + s div 60 mod 60) * 60 + s mod 60 = s" "s div 3600 \<le> 23" "0 \<le> s div 3600"
proof -
  have "s div 60 = 60 * (s div 3600) + s div 60 mod 60"
    using div_mult_mod_eq [of "s div 60" 60] zdiv_zmult2_eq [of 60 s 60] by simp
  moreover have "s = 60 * (s div 60) + s mod 60" by simp
  ultimately show "(s div 3600 * 60 + s div 60 mod 60) * 60 + s mod 60 = s" by (rule two_steps)
  show "s div 3600 \<le> 23" "0 \<le> s div 3600" using assms div_bounds [of 3600 s] by simp_all
qed

lemma parse_format_rfc3339:
  assumes "civil_from_days (t div (86400 * 1000000000)) = (y, m, d)" "0 \<le> y" "y \<le> 9999"
  shows "parse_rfc3339 (format_rfc3339 t) = Some (t - t mod 1000000000)"
proof -
  define s where "s = t div 1000000000 mod 86400"
  have s: "0 \<le> s" "s < 86400" by (simp_all add: s_def)
  note civil = civil_from_days_facts [OF assms(1)]
  note clock = time_of_day [OF s]
  have len: "length (pad k n) = k" for k n by (simp add: pad_def)
  have stamp: "format_rfc3339 t = (pad 4 y @ ''-'' @ pad 2 m @ ''-'' @ pad 2 d) @ ''T'' @ pad 2 (s div 3600) @ '':'' @
      pad 2 (s div 60 mod 60) @ '':'' @ pad 2 (s mod 60) @ ''Z''"
    unfolding format_rfc3339_def format_date_def assms(1) Let_def s_def by simp
  note parts = split_stamp [OF len len len len len len, of y m d "s div 3600" "s div 60 mod 60" "s mod 60",
      folded stamp]
  have "d \<le> 31" using civil(2) by (auto simp: days_in_def split: if_splits)
  then have fields: "parse_uint (pad 2 m) 1 12 = Some m" "parse_uint (pad 2 d) 1 (days_in m y) = Some d"
    "parse_uint (pad 2 (s div 3600)) 0 23 = Some (s div 3600)"
    "parse_uint (pad 2 (s div 60 mod 60)) 0 59 = Some (s div 60 mod 60)"
    "parse_uint (pad 2 (s mod 60)) 0 59 = Some (s mod 60)"
    using civil(1,2) clock(2,3) by (auto intro!: parse_pad2)
  have "date_time y m d (s div 3600) (s div 60 mod 60) (s mod 60) 0 =
      (t div (86400 * 1000000000) * 86400 + s) * 1000000000"
    using clock(1) civil(3) by (simp add: date_time_def algebra_simps)
  also have "t div (86400 * 1000000000) = t div 1000000000 div 86400"
    using zdiv_zmult2_eq [of 86400 t 1000000000] by (simp add: mult.commute)
  also have "t div 1000000000 div 86400 * 86400 + s = t div 1000000000" by (simp add: s_def)
  finally have "date_time y m d (s div 3600) (s div 60 mod 60) (s mod 60) 0 = t - t mod 1000000000"
    by (simp add: minus_mod_eq_div_mult)
  then show ?thesis
    by (simp add: parse_rfc3339_def parts fields parse_pad4 assms(2,3) parse_zone_def fraction_value_def
        digits_value_def)
qed

end
