(* ===== verification/Handlers.thy ===== *)
theory Handlers
  imports Middleware TaskCtl GoFormat
begin

text \<open>
  The handlers of the API, \<open>internal/api/handler\<close>: Tasks (\<open>task_handler.go\<close>), Workflows
  (\<open>workflow_handler.go\<close>), Pod logs (\<open>log_handler.go\<close>) and the tenant scope they share
  (\<open>tenant.go\<close>), with the dispatch of \<open>NewRouter\<close>.
\<close>

section \<open>Clients\<close>

text \<open>
  The calls the handlers make beside those of the controllers.  A delete takes the UID
  precondition; \<open>hc_open_logs\<close> gives the text of the log stream up to its end; \<open>hc_local\<close> is the
  offset of the local time zone and \<open>hc_visit\<close> the order in which Go visits a map.
\<close>

record log_options =
  lo_container :: string
  lo_tail_lines :: int
  lo_follow :: bool
  lo_since_seconds :: "int option"

record 'w http_client =
  hc_kube :: "'w kube"
  hc_list_workflows :: "(string, string) gomap \<Rightarrow> 'w \<Rightarrow> (api_error + workflow list) \<times> 'w"
  hc_create_workflow :: "workflow \<Rightarrow> 'w \<Rightarrow> (api_error + workflow) \<times> 'w"
  hc_delete_workflow :: "workflow \<Rightarrow> string option \<Rightarrow> 'w \<Rightarrow> api_error option \<times> 'w"
  hc_delete_task :: "task \<Rightarrow> string option \<Rightarrow> 'w \<Rightarrow> api_error option \<times> 'w"
  hc_list_pods :: "string \<Rightarrow> (string, string) gomap \<Rightarrow> 'w \<Rightarrow> (api_error + object_meta list) \<times> 'w"
  hc_open_logs :: "string \<Rightarrow> string \<Rightarrow> log_options \<Rightarrow> 'w \<Rightarrow> (string + string) \<times> 'w"
  hc_cron_error :: "string \<Rightarrow> string"
  hc_now :: "'w \<Rightarrow> time"
  hc_local :: "time \<Rightarrow> duration"
  hc_visit :: "string list \<Rightarrow> string list"

section \<open>Tenant scope\<close>

definition prepare_tenant_create :: "request_context \<Rightarrow> object_meta \<Rightarrow> object_meta" where
  "prepare_tenant_create scope obj =
     (let namespace = ctx_namespace scope; obj = set_namespace obj namespace
      in if namespace \<noteq> [] then obj\<lparr>om_owner_references := []\<rparr> else obj)"

text \<open>The labels a list selects by; the empty map selects everything.\<close>

definition tenant_list_options :: "request_context \<Rightarrow> (string, string) gomap" where
  "tenant_list_options scope =
     (let namespace = ctx_namespace scope
      in if namespace \<noteq> [] then gm_put tenant_label namespace gm_empty else gm_empty)"

definition get_tenant_object ::
  "request_context \<Rightarrow> (string \<Rightarrow> 'w \<Rightarrow> (api_error + 'a) \<times> 'w) \<Rightarrow> ('a \<Rightarrow> object_meta) \<Rightarrow> string \<Rightarrow> string \<Rightarrow>
   'w \<Rightarrow> (api_error + 'a) \<times> 'w" where
  "get_tenant_object scope get meta resource name w =
     (case get name w of
        (Inl e, w') \<Rightarrow> (Inl e, w')
      | (Inr obj, w') \<Rightarrow>
          (let namespace = ctx_namespace scope in
           if namespace \<noteq> [] \<and> gm_get_or [] (om_labels (meta obj)) tenant_label \<noteq> namespace
           then (Inl (ApiError NotFound (resource @ ''.'' @ api_group @ '' '' @ quote name @ '' not found'')), w')
           else (Inr obj, w')))"

definition tenant_delete_options :: "request_context \<Rightarrow> object_meta \<Rightarrow> string option" where
  "tenant_delete_options scope obj = (if ctx_namespace scope \<noteq> [] then Some (om_uid obj) else None)"

section \<open>Answers the handlers share\<close>

abbreviation task_not_found :: string where "task_not_found \<equiv> ''task not found''"
abbreviation workflow_not_found :: string where "workflow_not_found \<equiv> ''workflow not found''"

abbreviation reply :: "int \<Rightarrow> body \<Rightarrow> gin_ctx \<Rightarrow> 'w \<Rightarrow> gin_ctx option \<times> 'w" where
  "reply status body c w \<equiv> (Some (respond status body c), w)"

definition reply_error :: "string \<Rightarrow> api_error \<Rightarrow> gin_ctx \<Rightarrow> 'w \<Rightarrow> gin_ctx option \<times> 'w" where
  "reply_error not_found e c w =
     (if is_not_found e then reply 404 (ErrorBody not_found) c w
      else reply 500 (ErrorBody (api_text e)) c w)"

text \<open>\<open>client.Get\<close> in the tenant scope, then the rest of the handler on the object.\<close>

definition with_task :: "'w http_client \<Rightarrow> gin_ctx \<Rightarrow> (task \<Rightarrow> 'w \<Rightarrow> gin_ctx option \<times> 'w) \<Rightarrow> 'w \<Rightarrow> gin_ctx option \<times> 'w" where
  "with_task C c k w =
     (case get_tenant_object (gc_scope c) (k_get_task (hc_kube C)) tk_meta ''tasks'' (rq_name (gc_request c)) w of
        (Inl e, w') \<Rightarrow> reply_error task_not_found e c w'
      | (Inr t, w') \<Rightarrow> k t w')"

definition with_workflow ::
  "'w http_client \<Rightarrow> gin_ctx \<Rightarrow> (workflow \<Rightarrow> 'w \<Rightarrow> gin_ctx option \<times> 'w) \<Rightarrow> 'w \<Rightarrow> gin_ctx option \<times> 'w" where
  "with_workflow C c k w =
     (case get_tenant_object (gc_scope c) (k_get_workflow (hc_kube C)) wf_meta ''workflows'' (rq_name (gc_request c)) w of
        (Inl e, w') \<Rightarrow> reply_error workflow_not_found e c w'
      | (Inr x, w') \<Rightarrow> k x w')"

section \<open>Pages\<close>

text \<open>
  Go's \<open>int\<close> has 64 bits and wraps.  A slice expression panics unless its bounds lie in order
  within the slice; that is the result \<open>None\<close>.
\<close>

definition wrap64 :: "int \<Rightarrow> int" where
  "wrap64 i = sint (word_of_int i :: 64 word)"

definition page_bounds :: "int \<Rightarrow> int \<Rightarrow> int \<Rightarrow> int \<times> int" where
  "page_bounds page page_size tot =
     (let start = wrap64 (wrap64 (page - 1) * page_size);
          end = wrap64 (start + page_size)
      in (if start > tot then tot else start, if end > tot then tot else end))"

definition go_slice :: "'a list \<Rightarrow> int \<times> int \<Rightarrow> 'a list option" where
  "go_slice xs = (\<lambda>(a, b). if 0 \<le> a \<and> a \<le> b \<and> b \<le> int (length xs)
     then Some (take (nat (b - a)) (drop (nat a) xs)) else None)"

definition query_or :: "string \<Rightarrow> string \<Rightarrow> gin_ctx \<Rightarrow> string" where
  "query_or fallback key c = gm_get_or fallback (rq_query (gc_request c)) key"

definition atoi :: "string \<Rightarrow> int" where
  "atoi s = fst (parse_int64 s)"

section \<open>Tasks\<close>

definition create_rejection :: "'w http_client \<Rightarrow> task \<Rightarrow> string option" where
  "create_rejection C t =
     (if ts_type (tk_spec t) = TaskTypeOther [] then Some ''spec.type is required''
      else if ts_image (tk_spec t) = [] then Some ''spec.image is required''
      else if ts_type (tk_spec t) = TaskTypeCron \<and> k_parse_cron (hc_kube C) (ts_schedule (tk_spec t)) = None
      then Some (''invalid cron expression: '' @ hc_cron_error C (ts_schedule (tk_spec t)))
      else None)"

definition task_defaults :: "task \<Rightarrow> task" where
  "task_defaults t =
     (let t = (if tk_api_version t = [] then t\<lparr>tk_api_version := api_group @ ''/v1''\<rparr> else t);
          t = (if tk_kind t = [] then t\<lparr>tk_kind := ''Task''\<rparr> else t)
      in if tk_name t = [] then t\<lparr>tk_meta := (tk_meta t)\<lparr>om_generate_name := ''kubetask-''\<rparr>\<rparr> else t)"

definition task_create :: "'w http_client \<Rightarrow> 'w handler" where
  "task_create C c w =
     (case rq_task (gc_request c) of
        Inl e \<Rightarrow> reply 400 (ErrorBody e) c w
      | Inr body \<Rightarrow>
          (let t = task_defaults body in
           case create_rejection C t of
             Some msg \<Rightarrow> reply 400 (ErrorBody msg) c w
           | None \<Rightarrow>
               (case k_create_task (hc_kube C)
                       (t\<lparr>tk_meta := prepare_tenant_create (gc_scope c) (tk_meta t)\<rparr>) w of
                  (Inl e, w') \<Rightarrow>
                    if is_already_exists e then reply 409 (ErrorBody ''task already exists'') c w'
                    else reply 500 (ErrorBody (api_text e)) c w'
                | (Inr t', w') \<Rightarrow>
                    (Some (respond 201 (TaskBody t') (set_audit_target (tk_meta t') c)), w'))))"

definition task_matches :: "string \<Rightarrow> string \<Rightarrow> task \<Rightarrow> bool" where
  "task_matches filter_type filter_phase t \<longleftrightarrow>
     (filter_type = [] \<or> task_type_string (ts_type (tk_spec t)) = filter_type) \<and>
     (filter_phase = [] \<or> task_phase_string (st_phase (tk_status t)) = filter_phase)"

definition task_list :: "'w http_client \<Rightarrow> 'w handler" where
  "task_list C c w =
     (let page = atoi (query_or ''1'' ''page'' c);
          page_size = atoi (query_or ''20'' ''pageSize'' c);
          page = (if page < 1 then 1 else page)
      in case k_list_tasks (hc_kube C) (tenant_list_options (gc_scope c)) w of
           (Inl e, w') \<Rightarrow> reply 500 (ErrorBody (api_text e)) c w'
         | (Inr items, w') \<Rightarrow>
             (let filtered = filter (task_matches (query_or [] ''type'' c) (query_or [] ''phase'' c)) items;
                  tot = int (length filtered)
              in case go_slice filtered (page_bounds page page_size tot) of
                   None \<Rightarrow> (None, w')
                 | Some result \<Rightarrow> reply 200 (TaskPage result tot page page_size) c w'))"

definition task_get :: "'w http_client \<Rightarrow> 'w handler" where
  "task_get C c w = with_task C c (\<lambda>t. reply 200 (TaskBody t) c) w"

definition apply_update :: "task \<Rightarrow> task \<Rightarrow> task" where
  "apply_update existing updated =
     (let namespace = gm_get_or [] (om_labels (tk_meta existing)) tenant_label;
          meta = set_namespace ((tk_meta existing)\<lparr>om_labels := om_labels (tk_meta updated)\<rparr>) namespace
      in existing\<lparr>tk_spec := tk_spec updated,
           tk_meta := meta\<lparr>om_annotations := om_annotations (tk_meta updated)\<rparr>\<rparr>)"

definition task_update :: "'w http_client \<Rightarrow> 'w handler" where
  "task_update C c w = with_task C c (\<lambda>existing w.
     (case rq_task (gc_request c) of
        Inl e \<Rightarrow> reply 400 (ErrorBody e) c w
      | Inr updated \<Rightarrow>
          if ts_type (tk_spec updated) = TaskTypeCron \<and> k_parse_cron (hc_kube C) (ts_schedule (tk_spec updated)) = None
          then reply 400 (ErrorBody (''invalid cron expression: '' @ hc_cron_error C (ts_schedule (tk_spec updated)))) c w
          else case k_update_task (hc_kube C) (apply_update existing updated) w of
            (Inl e, w') \<Rightarrow> reply 500 (ErrorBody (api_text e)) c w'
          | (Inr t, w') \<Rightarrow> reply 200 (TaskBody t) c w')) w"

definition delete_found_task :: "'w http_client \<Rightarrow> gin_ctx \<Rightarrow> task \<Rightarrow> 'w \<Rightarrow> gin_ctx option \<times> 'w" where
  "delete_found_task C c t w =
     (case hc_delete_task C t (tenant_delete_options (gc_scope c) (tk_meta t)) w of
        (Some e, w') \<Rightarrow> reply_error task_not_found e c w'
      | (None, w') \<Rightarrow> reply 200 (MessageBody ''task deleted'' None) c w')"

definition named_task :: "string \<Rightarrow> task" where
  "named_task name = \<lparr>tk_api_version = [], tk_kind = [], tk_meta = empty_meta\<lparr>om_name := name\<rparr>,
     tk_spec = empty_task_spec, tk_status = empty_task_status\<rparr>"

definition task_delete :: "'w http_client \<Rightarrow> 'w handler" where
  "task_delete C c w =
     (if ctx_namespace (gc_scope c) \<noteq> [] then with_task C c (delete_found_task C c) w
      else delete_found_task C c (named_task (rq_name (gc_request c))) w)"

definition mark_triggered :: "time \<Rightarrow> task \<Rightarrow> task" where
  "mark_triggered now t = t\<lparr>tk_meta := (tk_meta t)\<lparr>om_annotations :=
     gm_put last_trigger_annotation (format_rfc3339 now) (om_annotations (tk_meta t))\<rparr>\<rparr>"

definition task_trigger :: "'w http_client \<Rightarrow> 'w handler" where
  "task_trigger C c w = with_task C c (\<lambda>t w.
     (case k_update_task (hc_kube C) (mark_triggered (hc_now C w) t) w of
        (Inl e, w') \<Rightarrow> reply 500 (ErrorBody (api_text e)) c w'
      | (Inr t', w') \<Rightarrow>
          (let st = (tk_status t')\<lparr>st_last_schedule_time := None, st_active_jobs := []\<rparr> in
           case k_update_task_status (hc_kube C) (set_status t' st) w' of
             (Inl e, w'') \<Rightarrow> reply 500 (ErrorBody (api_text e)) c w''
           | (Inr t'', w'') \<Rightarrow> reply 200 (MessageBody ''task triggered'' (Some (tk_name t''))) c w''))) w"

definition set_suspend :: "bool \<Rightarrow> string \<Rightarrow> 'w http_client \<Rightarrow> 'w handler" where
  "set_suspend suspend message C c w = with_task C c (\<lambda>t w.
     (case k_update_task (hc_kube C) (t\<lparr>tk_spec := (tk_spec t)\<lparr>ts_suspend := Some suspend\<rparr>\<rparr>) w of
        (Inl e, w') \<Rightarrow> reply 500 (ErrorBody (api_text e)) c w'
      | (Inr t', w') \<Rightarrow> reply 200 (MessageBody message (Some (tk_name t'))) c w')) w"

definition task_suspend :: "'w http_client \<Rightarrow> 'w handler" where
  "task_suspend C = set_suspend True ''task suspended'' C"

definition task_resume :: "'w http_client \<Rightarrow> 'w handler" where
  "task_resume C = set_suspend False ''task resumed'' C"

section \<open>Statistics\<close>

definition bump :: "string \<Rightarrow> (string, int) gomap \<Rightarrow> (string, int) gomap" where
  "bump k m = gm_put k (gm_get_or 0 m k + 1) m"

definition empty_stats :: "(string, int) gomap" where
  "empty_stats = map (\<lambda>k. (k, 0)) [''total'', ''pending'', ''running'', ''succeeded'', ''failed'', ''suspended'',
     ''onetime'', ''cron'', ''delay'']"

fun phase_key :: "task_phase \<Rightarrow> string option" where
  "phase_key TaskPending = Some ''pending''"
| "phase_key TaskRunning = Some ''running''"
| "phase_key TaskSucceeded = Some ''succeeded''"
| "phase_key TaskFailed = Some ''failed''"
| "phase_key TaskSuspended = Some ''suspended''"
| "phase_key (TaskPhaseOther s) = None"

fun type_key :: "task_type \<Rightarrow> string option" where
  "type_key TaskTypeCron = Some ''cron''"
| "type_key TaskTypeOneTime = Some ''onetime''"
| "type_key TaskTypeDelay = Some ''delay''"
| "type_key (TaskTypeOther s) = None"

definition bump_opt :: "string option \<Rightarrow> (string, int) gomap \<Rightarrow> (string, int) gomap" where
  "bump_opt k m = (case k of None \<Rightarrow> m | Some k \<Rightarrow> bump k m)"

definition count_task :: "(string, int) gomap \<Rightarrow> task \<Rightarrow> (string, int) gomap" where
  "count_task m t =
     bump_opt (type_key (ts_type (tk_spec t))) (bump_opt (phase_key (st_phase (tk_status t))) (bump ''total'' m))"

definition task_stats :: "'w http_client \<Rightarrow> 'w handler" where
  "task_stats C c w =
     (case k_list_tasks (hc_kube C) (tenant_list_options (gc_scope c)) w of
        (Inl e, w') \<Rightarrow> reply 500 (ErrorBody (api_text e)) c w'
      | (Inr items, w') \<Rightarrow> reply 200 (StatsBody (foldl count_task empty_stats items)) c w')"

definition count_record :: "('w http_client) \<Rightarrow> (string, trend_point) gomap \<Rightarrow> execution_record \<Rightarrow> (string, trend_point) gomap" where
  "count_record C m r =
     (let date = format_date (er_start_time r + hc_local C (er_start_time r));
          p = (case gm_get m date of
                 None \<Rightarrow> \<lparr>tp_date = date, tp_total = 0, tp_succeeded = 0, tp_failed = 0\<rparr> | Some p \<Rightarrow> p);
          p = p\<lparr>tp_total := tp_total p + 1\<rparr>;
          p = (if er_phase r = TaskSucceeded then p\<lparr>tp_succeeded := tp_succeeded p + 1\<rparr>
               else if er_phase r = TaskFailed then p\<lparr>tp_failed := tp_failed p + 1\<rparr> else p)
      in gm_put date p m)"

definition trend_of :: "'w http_client \<Rightarrow> task list \<Rightarrow> (string, trend_point) gomap" where
  "trend_of C items =
     foldl (count_record C) gm_empty (concat (map (\<lambda>t. st_execution_history (tk_status t)) items))"

definition task_trend :: "'w http_client \<Rightarrow> 'w handler" where
  "task_trend C c w =
     (case k_list_tasks (hc_kube C) (tenant_list_options (gc_scope c)) w of
        (Inl e, w') \<Rightarrow> reply 500 (ErrorBody (api_text e)) c w'
      | (Inr items, w') \<Rightarrow>
          (let trend = trend_of C items
           in reply 200 (TrendBody (List.map_filter (gm_get trend) (hc_visit C (gm_keys trend)))) c w'))"

section \<open>Workflows\<close>

definition validate_workflow_spec :: "string \<Rightarrow> workflow_spec \<Rightarrow> validation_error option" where
  "validate_workflow_spec name spec =
     (case build spec of
        Inl e \<Rightarrow> Some e
      | Inr g \<Rightarrow> if name = [] then None else validate_child_task_names name g)"

definition workflow_defaults :: "workflow \<Rightarrow> workflow" where
  "workflow_defaults x =
     (let x = (if wf_api_version x = [] then x\<lparr>wf_api_version := api_group @ ''/v1''\<rparr> else x);
          x = (if wf_kind x = [] then x\<lparr>wf_kind := ''Workflow''\<rparr> else x)
      in if wf_name x = [] then x\<lparr>wf_meta := (wf_meta x)\<lparr>om_generate_name := ''workflow-''\<rparr>\<rparr> else x)"

definition write_workflow_validation_error :: "validation_error \<Rightarrow> gin_ctx \<Rightarrow> 'w \<Rightarrow> gin_ctx option \<times> 'w" where
  [simp]: "write_workflow_validation_error e c w = reply 400 (ReasonBody (ve_message e) (ve_reason e)) c w"

definition workflow_create :: "'w http_client \<Rightarrow> 'w handler" where
  "workflow_create C c w =
     (case rq_workflow (gc_request c) of
        Inl e \<Rightarrow> reply 400 (ErrorBody e) c w
      | Inr body \<Rightarrow>
          (let x = workflow_defaults body in
           case validate_workflow_spec (wf_name x) (wf_spec x) of
             Some e \<Rightarrow> write_workflow_validation_error e c w
           | None \<Rightarrow>
               (case hc_create_workflow C (x\<lparr>wf_meta := prepare_tenant_create (gc_scope c) (wf_meta x)\<rparr>) w of
                  (Inl e, w') \<Rightarrow>
                    if is_already_exists e then reply 409 (ErrorBody ''workflow already exists'') c w'
                    else if error_reason e = Invalid \<or> error_reason e = BadRequest
                    then reply 400 (ErrorBody (api_text e)) c w'
                    else reply 500 (ErrorBody (api_text e)) c w'
                | (Inr x', w') \<Rightarrow>
                    (Some (respond 201 (WorkflowBody x') (set_audit_target (wf_meta x') c)), w'))))"

definition workflow_list :: "'w http_client \<Rightarrow> 'w handler" where
  "workflow_list C c w =
     (let page = atoi (query_or ''1'' ''page'' c);
          page_size = atoi (query_or ''20'' ''pageSize'' c);
          page = (if page < 1 then 1 else page);
          page_size = (if page_size < 1 then 20 else page_size);
          filter_phase = query_or [] ''phase'' c
      in case hc_list_workflows C (tenant_list_options (gc_scope c)) w of
           (Inl e, w') \<Rightarrow> reply 500 (ErrorBody (api_text e)) c w'
         | (Inr items, w') \<Rightarrow>
             (let filtered = filter (\<lambda>x. filter_phase = [] \<or>
                    workflow_phase_string (ws_phase (wf_status x)) = filter_phase) items;
                  tot = int (length filtered)
              in case go_slice filtered (page_bounds page page_size tot) of
                   None \<Rightarrow> (None, w')
                 | Some result \<Rightarrow> reply 200 (WorkflowPage result tot page page_size) c w'))"

definition workflow_get :: "'w http_client \<Rightarrow> 'w handler" where
  "workflow_get C c w = with_workflow C c (\<lambda>x. reply 200 (WorkflowDetail x (build_workflow_graph x)) c) w"

definition workflow_delete :: "'w http_client \<Rightarrow> 'w handler" where
  "workflow_delete C c w = with_workflow C c (\<lambda>x w.
     (case hc_delete_workflow C x (tenant_delete_options (gc_scope c) (wf_meta x)) w of
        (Some e, w') \<Rightarrow> reply_error workflow_not_found e c w'
      | (None, w') \<Rightarrow> reply 200 (MessageBody ''workflow deleting'' (Some (wf_name x))) c w')) w"

section \<open>Logs\<close>

text \<open>
  \<open>bufio.Scanner\<close> with its default buffer: the lines of the text without their line ends, up to
  the first line of 65536 bytes or more, where the scanner stops.
\<close>

definition text_lines :: "string \<Rightarrow> string list" where
  "text_lines s = (let ls = split_at (char_of (10 :: nat)) s in if last ls = [] then butlast ls else ls)"

definition drop_cr :: "string \<Rightarrow> string" where
  "drop_cr l = (if l \<noteq> [] \<and> last l = char_of (13 :: nat) then butlast l else l)"

definition scan_lines :: "string \<Rightarrow> string list" where
  "scan_lines s = map drop_cr (takeWhile (\<lambda>l. length l < 65536) (text_lines s))"

definition last_job_pods :: "'w http_client \<Rightarrow> task \<Rightarrow> job \<Rightarrow> object_meta list \<Rightarrow> object_meta list" where
  "last_job_pods C t j pods =
     (if gm_get_or [] (om_labels (tk_meta t)) tenant_label \<noteq> []
      then filter (\<lambda>p. k_is_controlled_by (hc_kube C) p (jb_meta j)) pods else pods)"

definition pod_log_attributes :: "object_meta \<Rightarrow> resource_attributes" where
  "pod_log_attributes pod = \<lparr>ra_namespace = om_namespace pod, ra_verb = ''get'', ra_group = [], ra_version = ''v1'',
     ra_resource = ''pods'', ra_subresource = ''log'', ra_name = om_name pod\<rparr>"

definition log_options_of :: "gin_ctx \<Rightarrow> log_options" where
  "log_options_of c = (let since = query_or [] ''sinceSeconds'' c in
     \<lparr>lo_container = ''task'', lo_tail_lines = fst (parse_int64 (query_or ''100'' ''tail'' c)),
      lo_follow = query_or ''false'' ''follow'' c = ''true'',
      lo_since_seconds = (if since \<noteq> [] \<and> snd (parse_int64 since) then Some (fst (parse_int64 since)) else None)\<rparr>)"

definition stream_pod :: "'w mw_env \<Rightarrow> 'w http_client \<Rightarrow> gin_ctx \<Rightarrow> object_meta \<Rightarrow> 'w \<Rightarrow> gin_ctx option \<times> 'w" where
  "stream_pod M C c pod w =
     (case authorize_resource M c (pod_log_attributes pod) w of
        (Some status, w') \<Rightarrow> (Some (reject_authentication status c), w')
      | (None, w') \<Rightarrow>
          (case hc_open_logs C (om_namespace pod) (om_name pod) (log_options_of c) w' of
             (Inl e, w'') \<Rightarrow> reply 500 (ErrorBody (''failed to open log stream: '' @ e)) c w''
           | (Inr text, w'') \<Rightarrow> reply 200 (LogStream (scan_lines text)) c w''))"

definition log_stream :: "'w mw_env \<Rightarrow> 'w http_client \<Rightarrow> 'w handler" where
  "log_stream M C c w = with_task C c (\<lambda>t w.
     (case list_task_jobs (hc_kube C) t w of
        (Inl e, w') \<Rightarrow> reply 500 (ErrorBody (api_text e)) c w'
      | (Inr jobs, w') \<Rightarrow>
          if jobs = [] then reply 404 (ErrorBody ''no jobs found for task'') c w'
          else (let j = last jobs in
            case hc_list_pods C (om_namespace (jb_meta j)) (gm_put ''job-name'' (jb_name j) gm_empty) w' of
              (Inl e, w'') \<Rightarrow> reply 500 (ErrorBody (api_text e)) c w''
            | (Inr pods, w'') \<Rightarrow>
                (let pods = last_job_pods C t j pods in
                 if pods = [] then reply 404 (ErrorBody ''no pods found for job'') c w''
                 else stream_pod M C c (last pods) w'')))) w"

section \<open>Dispatch\<close>

text \<open>The handler of each endpoint of \<open>NewRouter\<close>; any other request is answered with 404.\<close>

definition api_handler :: "'w mw_env \<Rightarrow> 'w http_client \<Rightarrow> 'w handler" where
  "api_handler M C c w =
     (let key = route_key (gc_request c) in
      if key = ''POST /api/v1/tasks'' then task_create C c w
      else if key = ''GET /api/v1/tasks'' then task_list C c w
      else if key = ''GET /api/v1/tasks/:name'' then task_get C c w
      else if key = ''PUT /api/v1/tasks/:name'' then task_update C c w
      else if key = ''DELETE /api/v1/tasks/:name'' then task_delete C c w
      else if key = ''POST /api/v1/tasks/:name/trigger'' then task_trigger C c w
      else if key = ''POST /api/v1/tasks/:name/suspend'' then task_suspend C c w
      else if key = ''POST /api/v1/tasks/:name/resume'' then task_resume C c w
      else if key = ''GET /api/v1/tasks/:name/logs'' then log_stream M C c w
      else if key = ''GET /api/v1/stats'' then task_stats C c w
      else if key = ''GET /api/v1/stats/trend'' then task_trend C c w
      else if key = ''POST /api/v1/workflows'' then workflow_create C c w
      else if key = ''GET /api/v1/workflows'' then workflow_list C c w
      else if key = ''GET /api/v1/workflows/:name'' then workflow_get C c w
      else if key = ''DELETE /api/v1/workflows/:name'' then workflow_delete C c w
      else reply 404 NoBody c w)"

end
