(* ===== verification/ApiTenant.thy ===== *)
theory ApiTenant
  imports Handlers
begin

text \<open>
  Tenants do not see or touch each other's objects: every call of an API handler that runs in the
  scope of a Namespace stays in it, and so does everything it answers with.
\<close>

section \<open>A client that notes its calls\<close>

datatype http_call =
  Wrote object_meta
| Deleted object_meta "string option"
| Listed "(string, string) gomap"
| ListedJobs string
| ListedPods string
| OpenedLogs string

definition noted :: "http_call \<Rightarrow> ('w \<Rightarrow> 'r \<times> 'w) \<Rightarrow> 'w \<times> http_call list \<Rightarrow> 'r \<times> ('w \<times> http_call list)" where
  "noted call f = (\<lambda>(w, l). case f w of (r, w') \<Rightarrow> (r, w', l @ [call]))"

definition unnoted :: "('w \<Rightarrow> 'r \<times> 'w) \<Rightarrow> 'w \<times> 'l \<Rightarrow> 'r \<times> ('w \<times> 'l)" where
  "unnoted f = (\<lambda>(w, l). case f w of (r, w') \<Rightarrow> (r, w', l))"

definition noting_kube :: "'w kube \<Rightarrow> ('w \<times> http_call list) kube" where
  "noting_kube K = \<lparr>
     k_get_workflow = (\<lambda>n. unnoted (k_get_workflow K n)),
     k_update_workflow = (\<lambda>x. noted (Wrote (wf_meta x)) (k_update_workflow K x)),
     k_update_workflow_status = (\<lambda>x. noted (Wrote (wf_meta x)) (k_update_workflow_status K x)),
     k_get_task = (\<lambda>n. unnoted (k_get_task K n)),
     k_list_tasks = (\<lambda>m. noted (Listed m) (k_list_tasks K m)),
     k_create_task = (\<lambda>t. noted (Wrote (tk_meta t)) (k_create_task K t)),
     k_update_task = (\<lambda>t. noted (Wrote (tk_meta t)) (k_update_task K t)),
     k_update_task_status = (\<lambda>t. noted (Wrote (tk_meta t)) (k_update_task_status K t)),
     k_delete_task = (\<lambda>t uid. noted (Deleted (tk_meta t) uid) (k_delete_task K t uid)),
     k_list_jobs = (\<lambda>ns m. noted (ListedJobs ns) (k_list_jobs K ns m)),
     k_create_job = (\<lambda>j. noted (Wrote (jb_meta j)) (k_create_job K j)),
     k_delete_job = (\<lambda>j. noted (Deleted (jb_meta j) None) (k_delete_job K j)),
     k_is_controlled_by = k_is_controlled_by K,
     k_set_controller_reference = k_set_controller_reference K,
     k_contains_finalizer = k_contains_finalizer K,
     k_add_finalizer = k_add_finalizer K,
     k_remove_finalizer = k_remove_finalizer K,
     k_parse_cron = k_parse_cron K\<rparr>"

definition noting :: "'w http_client \<Rightarrow> ('w \<times> http_call list) http_client" where
  "noting C = \<lparr>
     hc_kube = noting_kube (hc_kube C),
     hc_list_workflows = (\<lambda>m. noted (Listed m) (hc_list_workflows C m)),
     hc_create_workflow = (\<lambda>x. noted (Wrote (wf_meta x)) (hc_create_workflow C x)),
     hc_delete_workflow = (\<lambda>x uid. noted (Deleted (wf_meta x) uid) (hc_delete_workflow C x uid)),
     hc_delete_task = (\<lambda>t uid. noted (Deleted (tk_meta t) uid) (hc_delete_task C t uid)),
     hc_list_pods = (\<lambda>ns m. noted (ListedPods ns) (hc_list_pods C ns m)),
     hc_open_logs = (\<lambda>ns n opts. noted (OpenedLogs ns) (hc_open_logs C ns n opts)),
     hc_cron_error = hc_cron_error C,
     hc_now = (\<lambda>(w, l). hc_now C w),
     hc_local = hc_local C,
     hc_visit = hc_visit C\<rparr>"

section \<open>What it means to stay in a tenant\<close>

fun call_in_tenant :: "string \<Rightarrow> http_call \<Rightarrow> bool" where
  "call_in_tenant ns (Wrote meta) \<longleftrightarrow> meta_namespace meta = ns"
| "call_in_tenant ns (Deleted meta uid) \<longleftrightarrow> meta_namespace meta = ns \<and> uid = Some (om_uid meta)"
| "call_in_tenant ns (Listed labels) \<longleftrightarrow> gm_get labels tenant_label = Some ns"
| "call_in_tenant ns (ListedJobs namespace) \<longleftrightarrow> namespace = ns"
| "call_in_tenant ns (ListedPods namespace) \<longleftrightarrow> namespace = ns"
| "call_in_tenant ns (OpenedLogs namespace) \<longleftrightarrow> namespace = ns"

fun body_in_tenant :: "string \<Rightarrow> body \<Rightarrow> bool" where
  "body_in_tenant ns (TaskBody t) \<longleftrightarrow> meta_namespace (tk_meta t) = ns"
| "body_in_tenant ns (WorkflowBody x) \<longleftrightarrow> meta_namespace (wf_meta x) = ns"
| "body_in_tenant ns (WorkflowDetail x g) \<longleftrightarrow> meta_namespace (wf_meta x) = ns"
| "body_in_tenant ns (TaskPage ts n p s) \<longleftrightarrow> (\<forall>t \<in> set ts. meta_namespace (tk_meta t) = ns)"
| "body_in_tenant ns (WorkflowPage xs n p s) \<longleftrightarrow> (\<forall>x \<in> set xs. meta_namespace (wf_meta x) = ns)"
| "body_in_tenant ns _ \<longleftrightarrow> True"

definition answer_in_tenant :: "string \<Rightarrow> gin_ctx option \<Rightarrow> bool" where
  "answer_in_tenant ns r \<longleftrightarrow> (case r of None \<Rightarrow> True | Some c \<Rightarrow> body_in_tenant ns (rs_body (gc_response c)))"

text \<open>
  What Kubernetes documents of the calls used here: a list selects by its labels and Namespace, and
  a write returns the object with the labels it was sent with.
\<close>

definition selects :: "(string, string) gomap \<Rightarrow> object_meta \<Rightarrow> bool" where
  "selects labels meta \<longleftrightarrow> (\<forall>k v. gm_get labels k = Some v \<longrightarrow> gm_get (om_labels meta) k = Some v)"

definition labels_honoured :: "'w http_client \<Rightarrow> bool" where
  "labels_honoured C \<longleftrightarrow>
     (\<forall>m w ts w'. k_list_tasks (hc_kube C) m w = (Inr ts, w') \<longrightarrow> (\<forall>t \<in> set ts. selects m (tk_meta t))) \<and>
     (\<forall>m w xs w'. hc_list_workflows C m w = (Inr xs, w') \<longrightarrow> (\<forall>x \<in> set xs. selects m (wf_meta x))) \<and>
     (\<forall>ns m w js w'. k_list_jobs (hc_kube C) ns m w = (Inr js, w') \<longrightarrow> (\<forall>j \<in> set js. om_namespace (jb_meta j) = ns)) \<and>
     (\<forall>ns m w ps w'. hc_list_pods C ns m w = (Inr ps, w') \<longrightarrow> (\<forall>p \<in> set ps. om_namespace p = ns)) \<and>
     (\<forall>t w t' w'. k_create_task (hc_kube C) t w = (Inr t', w') \<longrightarrow> om_labels (tk_meta t') = om_labels (tk_meta t)) \<and>
     (\<forall>t w t' w'. k_update_task (hc_kube C) t w = (Inr t', w') \<longrightarrow> om_labels (tk_meta t') = om_labels (tk_meta t)) \<and>
     (\<forall>x w x' w'. hc_create_workflow C x w = (Inr x', w') \<longrightarrow> om_labels (wf_meta x') = om_labels (wf_meta x))"

section \<open>Confined computations\<close>

text \<open>
  A computation is confined when the calls it adds to the log stay in the tenant; \<open>P\<close> is what
  its result satisfies.  The rules follow the shapes the handlers are written in.
\<close>

definition confined :: "string \<Rightarrow> ('r \<Rightarrow> bool) \<Rightarrow> ('w \<times> http_call list \<Rightarrow> 'r \<times> ('w \<times> http_call list)) \<Rightarrow> bool" where
  "confined ns P m \<longleftrightarrow> (\<forall>s. P (fst (m s)) \<and>
     (\<exists>calls. snd (snd (m s)) = snd s @ calls \<and> (\<forall>x \<in> set calls. call_in_tenant ns x)))"

named_theorems confined_intros \<open>rules for confined computations\<close>

lemma confined_noted [confined_intros]:
  assumes "call_in_tenant ns call" and "\<And>w. P (fst (f w))"
  shows "confined ns P (noted call f)"
  using assms by (auto simp: confined_def noted_def split: prod.splits) (metis fst_conv)

lemma confined_unnoted [confined_intros]:
  assumes "\<And>w. P (fst (f w))"
  shows "confined ns P (unnoted f)"
  using assms by (auto simp: confined_def unnoted_def split: prod.splits) (metis fst_conv)

lemma confined_return: "P r \<Longrightarrow> confined ns P (\<lambda>s. (r, s))"
  by (simp add: confined_def)

lemma confined_bind:
  assumes "confined ns P m" and "\<And>r. P r \<Longrightarrow> confined ns Q (k r)"
  shows "confined ns Q (\<lambda>s. case m s of (r, s') \<Rightarrow> k r s')"
  unfolding confined_def
proof
  fix s
  obtain r s' where m: "m s = (r, s')" by (metis surj_pair)
  from assms(1) m obtain c1 where 1: "P r" "snd s' = snd s @ c1" "\<forall>x \<in> set c1. call_in_tenant ns x"
    unfolding confined_def by (metis fst_conv snd_conv)
  from assms(2) [OF 1(1)] obtain c2 where 2: "Q (fst (k r s'))" "snd (snd (k r s')) = snd s' @ c2"
    "\<forall>x \<in> set c2. call_in_tenant ns x"
    unfolding confined_def by blast
  show "Q (fst (case m s of (r, s') \<Rightarrow> k r s')) \<and>
      (\<exists>calls. snd (snd (case m s of (r, s') \<Rightarrow> k r s')) = snd s @ calls \<and> (\<forall>x \<in> set calls. call_in_tenant ns x))"
    using 1(2,3) 2 by (auto simp: m intro!: exI [of _ "c1 @ c2"])
qed

lemma confined_sum:
  assumes "confined ns P m" and "\<And>e. confined ns Q (f e)" and "\<And>x. P (Inr x) \<Longrightarrow> confined ns Q (g x)"
  shows "confined ns Q (\<lambda>s. case m s of (Inl e, s') \<Rightarrow> f e s' | (Inr x, s') \<Rightarrow> g x s')"
proof -
  have "confined ns Q (\<lambda>s. case m s of (r, s') \<Rightarrow> (case r of Inl e \<Rightarrow> f e s' | Inr x \<Rightarrow> g x s'))"
  proof (rule confined_bind [OF assms(1)])
    fix r assume "P r"
    then show "confined ns Q (\<lambda>s'. case r of Inl e \<Rightarrow> f e s' | Inr x \<Rightarrow> g x s')"
      using assms(2,3) by (cases r) simp_all
  qed
  then show ?thesis .
qed

lemma confined_option:
  assumes "confined ns (\<lambda>_. True) m" and "\<And>e. confined ns Q (f e)" and "confined ns Q g"
  shows "confined ns Q (\<lambda>s. case m s of (Some e, s') \<Rightarrow> f e s' | (None, s') \<Rightarrow> g s')"
proof -
  have "confined ns Q (\<lambda>s. case m s of (r, s') \<Rightarrow> (case r of None \<Rightarrow> g s' | Some e \<Rightarrow> f e s'))"
  proof (rule confined_bind [OF assms(1)])
    show "confined ns Q (\<lambda>s'. case r of None \<Rightarrow> g s' | Some e \<Rightarrow> f e s')" for r
      using assms(2,3) by (cases r) simp_all
  qed
  then show ?thesis .
qed

lemma confined_if:
  "(b \<Longrightarrow> confined ns Q m) \<Longrightarrow> (\<not> b \<Longrightarrow> confined ns Q m') \<Longrightarrow> confined ns Q (\<lambda>s. if b then m s else m' s)"
  by (cases b) simp_all

lemma confined_if_fun:
  "(b \<Longrightarrow> confined ns Q m) \<Longrightarrow> (\<not> b \<Longrightarrow> confined ns Q m') \<Longrightarrow> confined ns Q (if b then m else m')"
  by (cases b) simp_all

section \<open>The handlers in the scope of a tenant\<close>

abbreviation in_scope :: "string \<Rightarrow> gin_ctx \<Rightarrow> bool" where
  "in_scope ns c \<equiv> ns \<noteq> [] \<and> ctx_namespace (gc_scope c) = ns"

abbreviation safe :: "string \<Rightarrow> ('w \<times> http_call list \<Rightarrow> gin_ctx option \<times> ('w \<times> http_call list)) \<Rightarrow> bool" where
  "safe ns m \<equiv> confined ns (answer_in_tenant ns) m"

lemma safe_reply: "body_in_tenant ns body \<Longrightarrow> safe ns (reply status body c)"
  by (rule confined_return) (simp add: answer_in_tenant_def)

lemma safe_error: "safe ns (reply status (ErrorBody msg) c)"
  by (rule safe_reply) simp

lemma safe_reply_error: "safe ns (reply_error not_found e c)"
  unfolding reply_error_def by (intro confined_if safe_error)

lemma safe_reject: "safe ns (\<lambda>s. (Some (reject_authentication status c), s))"
  by (rule confined_return) (simp add: answer_in_tenant_def reject_authentication_def Let_def)

lemma confined_get:
  assumes "in_scope ns c"
  shows "confined ns (\<lambda>r. \<forall>x. r = Inr x \<longrightarrow> meta_namespace (meta x) = ns)
    (get_tenant_object (gc_scope c) (\<lambda>n. unnoted (get n)) meta resource name)"
  unfolding get_tenant_object_def Let_def
proof (rule confined_sum [where P = "\<lambda>_. True"])
  show "confined ns (\<lambda>_. True) (unnoted (get name))" by (rule confined_unnoted) simp
  show "confined ns (\<lambda>r. \<forall>x. r = Inr x \<longrightarrow> meta_namespace (meta x) = ns) (\<lambda>s. (Inl e, s))" for e
    by (rule confined_return) simp
  show "confined ns (\<lambda>r. \<forall>x. r = Inr x \<longrightarrow> meta_namespace (meta x) = ns)
      (\<lambda>s. if ctx_namespace (gc_scope c) \<noteq> [] \<and>
               gm_get_or [] (om_labels (meta x)) tenant_label \<noteq> ctx_namespace (gc_scope c)
           then (Inl (ApiError NotFound (resource @ ''.'' @ api_group @ '' '' @ quote name @ '' not found'')), s)
           else (Inr x, s))" for x
    using assms by (intro confined_if confined_return) (auto simp: meta_namespace_def)
qed

lemma safe_with_task:
  assumes "in_scope ns c" and "\<And>t. meta_namespace (tk_meta t) = ns \<Longrightarrow> safe ns (k t)"
  shows "safe ns (with_task (noting C) c k)"
proof -
  have g: "k_get_task (hc_kube (noting C)) = (\<lambda>n. unnoted (k_get_task (hc_kube C) n))"
    by (simp add: noting_def noting_kube_def)
  show ?thesis
    unfolding with_task_def g
    by (rule confined_sum [OF confined_get [OF assms(1)]]) (rule safe_reply_error, rule assms(2), simp)
qed

lemma safe_with_workflow:
  assumes "in_scope ns c" and "\<And>x. meta_namespace (wf_meta x) = ns \<Longrightarrow> safe ns (k x)"
  shows "safe ns (with_workflow (noting C) c k)"
proof -
  have g: "k_get_workflow (hc_kube (noting C)) = (\<lambda>n. unnoted (k_get_workflow (hc_kube C) n))"
    by (simp add: noting_def noting_kube_def)
  show ?thesis
    unfolding with_workflow_def g
    by (rule confined_sum [OF confined_get [OF assms(1)]]) (rule safe_reply_error, rule assms(2), simp)
qed

lemma list_options_in_tenant: "in_scope ns c \<Longrightarrow> gm_get (tenant_list_options (gc_scope c)) tenant_label = Some ns"
  by (simp add: tenant_list_options_def Let_def gomap_simps)

lemma selected_in_tenant:
  "gm_get labels tenant_label = Some ns \<Longrightarrow> selects labels meta \<Longrightarrow> meta_namespace meta = ns"
  by (simp add: selects_def meta_namespace_def gm_get_or_def)

lemma honoured_lists:
  assumes "labels_honoured C"
  shows "fst (k_list_tasks (hc_kube C) m w) = Inr ts \<Longrightarrow> t \<in> set ts \<Longrightarrow> selects m (tk_meta t)"
    "fst (hc_list_workflows C m w) = Inr xs \<Longrightarrow> x \<in> set xs \<Longrightarrow> selects m (wf_meta x)"
    "fst (k_list_jobs (hc_kube C) ns m w) = Inr js \<Longrightarrow> j \<in> set js \<Longrightarrow> om_namespace (jb_meta j) = ns"
    "fst (hc_list_pods C ns m w) = Inr ps \<Longrightarrow> p \<in> set ps \<Longrightarrow> om_namespace p = ns"
  using assms unfolding labels_honoured_def by (metis surjective_pairing)+

lemma confined_list_tasks:
  assumes "labels_honoured C" and "in_scope ns c"
  shows "confined ns (\<lambda>r. \<forall>ts. r = Inr ts \<longrightarrow> (\<forall>t \<in> set ts. meta_namespace (tk_meta t) = ns))
    (k_list_tasks (hc_kube (noting C)) (tenant_list_options (gc_scope c)))"
proof -
  let ?l = "tenant_list_options (gc_scope c)"
  have "meta_namespace (tk_meta t) = ns"
    if f: "fst (k_list_tasks (hc_kube C) ?l w) = Inr ts" and t: "t \<in> set ts" for w t and ts :: "task list"
    using selected_in_tenant [OF list_options_in_tenant [OF assms(2)]] honoured_lists(1) [OF assms(1) f t] by blast
  then show ?thesis
    using list_options_in_tenant [OF assms(2)] by (auto simp: noting_def noting_kube_def intro!: confined_noted)
qed

lemma confined_list_workflows:
  assumes "labels_honoured C" and "in_scope ns c"
  shows "confined ns (\<lambda>r. \<forall>xs. r = Inr xs \<longrightarrow> (\<forall>x \<in> set xs. meta_namespace (wf_meta x) = ns))
    (hc_list_workflows (noting C) (tenant_list_options (gc_scope c)))"
proof -
  let ?l = "tenant_list_options (gc_scope c)"
  have "meta_namespace (wf_meta x) = ns"
    if f: "fst (hc_list_workflows C ?l w) = Inr xs" and x: "x \<in> set xs" for w x and xs :: "workflow list"
    using selected_in_tenant [OF list_options_in_tenant [OF assms(2)]] honoured_lists(2) [OF assms(1) f x] by blast
  then show ?thesis
    using list_options_in_tenant [OF assms(2)] by (auto simp: noting_def intro!: confined_noted)
qed

text \<open>A write of an object of the tenant gives an object of the tenant.\<close>

lemma confined_write:
  assumes "meta_namespace (meta x) = ns" and "\<And>w x' w'. f w = (Inr x', w') \<Longrightarrow> om_labels (meta x') = om_labels (meta x)"
  shows "confined ns (\<lambda>r. \<forall>x'. r = Inr x' \<longrightarrow> meta_namespace (meta x') = ns) (noted (Wrote (meta x)) f)"
proof (rule confined_noted)
  show "call_in_tenant ns (Wrote (meta x))" using assms(1) by simp
  show "\<forall>x'. fst (f w) = Inr x' \<longrightarrow> meta_namespace (meta x') = ns" for w
    using assms by (metis meta_namespace_def surjective_pairing)
qed

lemma honoured_writes:
  assumes "labels_honoured C"
  shows "k_create_task (hc_kube C) t w = (Inr t', w') \<Longrightarrow> om_labels (tk_meta t') = om_labels (tk_meta t)"
    "k_update_task (hc_kube C) t w = (Inr t', w') \<Longrightarrow> om_labels (tk_meta t') = om_labels (tk_meta t)"
    "hc_create_workflow C x w = (Inr x', w') \<Longrightarrow> om_labels (wf_meta x') = om_labels (wf_meta x)"
  using assms unfolding labels_honoured_def by blast+

lemma prepared_in_tenant: "in_scope ns c \<Longrightarrow> meta_namespace (prepare_tenant_create (gc_scope c) obj) = ns"
  by (simp add: prepare_tenant_create_def meta_namespace_def set_namespace_def Let_def gomap_simps)

lemma apply_update_in_tenant:
  "ns \<noteq> [] \<Longrightarrow> meta_namespace (tk_meta existing) = ns \<Longrightarrow> meta_namespace (tk_meta (apply_update existing updated)) = ns"
  by (simp add: apply_update_def meta_namespace_def set_namespace_def Let_def gomap_simps)

lemma confined_create_task:
  assumes "labels_honoured C" "meta_namespace (tk_meta t) = ns"
  shows "confined ns (\<lambda>r. \<forall>x. r = Inr x \<longrightarrow> meta_namespace (tk_meta x) = ns) (k_create_task (hc_kube (noting C)) t)"
  using confined_write [where meta = tk_meta and x = t, OF assms(2) honoured_writes(1) [OF assms(1)]]
  by (simp add: noting_def noting_kube_def)

lemma confined_update_task:
  assumes "labels_honoured C" "meta_namespace (tk_meta t) = ns"
  shows "confined ns (\<lambda>r. \<forall>x. r = Inr x \<longrightarrow> meta_namespace (tk_meta x) = ns) (k_update_task (hc_kube (noting C)) t)"
  using confined_write [where meta = tk_meta and x = t, OF assms(2) honoured_writes(2) [OF assms(1)]]
  by (simp add: noting_def noting_kube_def)

lemma confined_update_task_status:
  "meta_namespace (tk_meta t) = ns \<Longrightarrow> confined ns (\<lambda>_. True) (k_update_task_status (hc_kube (noting C)) t)"
  by (simp add: noting_def noting_kube_def confined_noted)

lemma confined_create_workflow:
  assumes "labels_honoured C" "meta_namespace (wf_meta x) = ns"
  shows "confined ns (\<lambda>r. \<forall>x. r = Inr x \<longrightarrow> meta_namespace (wf_meta x) = ns) (hc_create_workflow (noting C) x)"
  using confined_write [where meta = wf_meta and x = x, OF assms(2) honoured_writes(3) [OF assms(1)]]
  by (simp add: noting_def)

lemma confined_delete_task:
  "in_scope ns c \<Longrightarrow> meta_namespace (tk_meta t) = ns \<Longrightarrow>
   confined ns (\<lambda>_. True) (hc_delete_task (noting C) t (tenant_delete_options (gc_scope c) (tk_meta t)))"
  by (simp add: noting_def tenant_delete_options_def confined_noted)

lemma confined_delete_workflow:
  "in_scope ns c \<Longrightarrow> meta_namespace (wf_meta x) = ns \<Longrightarrow>
   confined ns (\<lambda>_. True) (hc_delete_workflow (noting C) x (tenant_delete_options (gc_scope c) (wf_meta x)))"
  by (simp add: noting_def tenant_delete_options_def confined_noted)

lemma safe_created: "body_in_tenant ns body \<Longrightarrow> safe ns (\<lambda>s. (Some (respond st body (set_audit_target m c)), s))"
  by (rule confined_return) (simp add: answer_in_tenant_def)

lemma safe_task_create:
  assumes "labels_honoured C" "in_scope ns c"
  shows "safe ns (task_create (noting C) c)"
proof (cases "rq_task (gc_request c)")
  case (Inl e)
  then show ?thesis unfolding task_create_def by (simp add: safe_error)
next
  case (Inr body)
  let ?t = "task_defaults body"
  show ?thesis
  proof (cases "create_rejection (noting C) ?t")
    case (Some msg)
    with Inr show ?thesis unfolding task_create_def Let_def by (simp add: safe_error)
  next
    case None
    have "safe ns (\<lambda>w. case k_create_task (hc_kube (noting C)) (?t\<lparr>tk_meta := prepare_tenant_create (gc_scope c) (tk_meta ?t)\<rparr>) w of
        (Inl e, w') \<Rightarrow> if is_already_exists e then reply 409 (ErrorBody ''task already exists'') c w'
                       else reply 500 (ErrorBody (api_text e)) c w'
      | (Inr t', w') \<Rightarrow> (Some (respond 201 (TaskBody t') (set_audit_target (tk_meta t') c)), w'))"
      using prepared_in_tenant [OF assms(2)]
      by (intro confined_sum [OF confined_create_task [OF assms(1)]] confined_if safe_error safe_created) simp_all
    with Inr None show ?thesis unfolding task_create_def Let_def by simp
  qed
qed

lemma safe_workflow_create:
  assumes "labels_honoured C" "in_scope ns c"
  shows "safe ns (workflow_create (noting C) c)"
proof (cases "rq_workflow (gc_request c)")
  case (Inl e)
  then show ?thesis unfolding workflow_create_def by (simp add: safe_error)
next
  case (Inr body)
  let ?x = "workflow_defaults body"
  show ?thesis
  proof (cases "validate_workflow_spec (wf_name ?x) (wf_spec ?x)")
    case (Some e)
    with Inr show ?thesis unfolding workflow_create_def Let_def by (simp add: safe_reply)
  next
    case None
    have "safe ns (\<lambda>w. case hc_create_workflow (noting C) (?x\<lparr>wf_meta := prepare_tenant_create (gc_scope c) (wf_meta ?x)\<rparr>) w of
        (Inl e, w') \<Rightarrow> if is_already_exists e then reply 409 (ErrorBody ''workflow already exists'') c w'
                       else if error_reason e = Invalid \<or> error_reason e = BadRequest
                       then reply 400 (ErrorBody (api_text e)) c w'
                       else reply 500 (ErrorBody (api_text e)) c w'
      | (Inr x', w') \<Rightarrow> (Some (respond 201 (WorkflowBody x') (set_audit_target (wf_meta x') c)), w'))"
      using prepared_in_tenant [OF assms(2)]
      by (intro confined_sum [OF confined_create_workflow [OF assms(1)]] confined_if safe_error safe_created) simp_all
    with Inr None show ?thesis unfolding workflow_create_def Let_def by simp
  qed
qed

lemma safe_task_list:
  assumes "labels_honoured C" "in_scope ns c"
  shows "safe ns (task_list (noting C) c)"
  unfolding task_list_def Let_def
proof (rule confined_sum [OF confined_list_tasks [OF assms]])
  show "safe ns (reply 500 (ErrorBody (api_text e)) c)" for e by (rule safe_error)
  let ?f = "filter (task_matches (query_or [] ''type'' c) (query_or [] ''phase'' c))"
  fix ts :: "task list" assume "\<forall>xs. Inr ts = Inr xs \<longrightarrow> (\<forall>t \<in> set xs. meta_namespace (tk_meta t) = ns)"
  then have ts: "\<forall>t \<in> set ts. meta_namespace (tk_meta t) = ns" by blast
  show "safe ns (\<lambda>w'. case go_slice (?f ts) b of None \<Rightarrow> (None, w')
      | Some result \<Rightarrow> reply 200 (TaskPage result n p z) c w')" for b n p z
  proof (cases "go_slice (?f ts) b")
    case None
    then show ?thesis by (simp add: confined_return answer_in_tenant_def)
  next
    case (Some xs)
    then have "set xs \<subseteq> set ts"
      by (auto simp: go_slice_def split: prod.splits if_splits dest!: in_set_takeD in_set_dropD)
    with ts have "\<forall>t \<in> set xs. meta_namespace (tk_meta t) = ns" by blast
    with Some show ?thesis by (simp add: safe_reply)
  qed
qed

lemma safe_workflow_list:
  assumes "labels_honoured C" "in_scope ns c"
  shows "safe ns (workflow_list (noting C) c)"
  unfolding workflow_list_def Let_def
proof (rule confined_sum [OF confined_list_workflows [OF assms]])
  show "safe ns (reply 500 (ErrorBody (api_text e)) c)" for e by (rule safe_error)
  let ?f = "filter (\<lambda>x. query_or [] ''phase'' c = [] \<or> workflow_phase_string (ws_phase (wf_status x)) = query_or [] ''phase'' c)"
  fix xs :: "workflow list" assume "\<forall>ys. Inr xs = Inr ys \<longrightarrow> (\<forall>x \<in> set ys. meta_namespace (wf_meta x) = ns)"
  then have xs: "\<forall>x \<in> set xs. meta_namespace (wf_meta x) = ns" by blast
  show "safe ns (\<lambda>w'. case go_slice (?f xs) b of None \<Rightarrow> (None, w')
      | Some result \<Rightarrow> reply 200 (WorkflowPage result n p z) c w')" for b n p z
  proof (cases "go_slice (?f xs) b")
    case None
    then show ?thesis by (simp add: confined_return answer_in_tenant_def)
  next
    case (Some ys)
    then have "set ys \<subseteq> set xs"
      by (auto simp: go_slice_def split: prod.splits if_splits dest!: in_set_takeD in_set_dropD)
    with xs have "\<forall>x \<in> set ys. meta_namespace (wf_meta x) = ns" by blast
    with Some show ?thesis by (simp add: safe_reply)
  qed
qed

lemma safe_task_get: "in_scope ns c \<Longrightarrow> safe ns (task_get (noting C) c)"
  unfolding task_get_def by (rule safe_with_task) (simp_all add: safe_reply)

lemma safe_workflow_get: "in_scope ns c \<Longrightarrow> safe ns (workflow_get (noting C) c)"
  unfolding workflow_get_def by (rule safe_with_workflow) (simp_all add: safe_reply)

lemma safe_task_update:
  assumes "labels_honoured C" "in_scope ns c"
  shows "safe ns (task_update (noting C) c)"
  unfolding task_update_def
proof (rule safe_with_task [OF assms(2)])
  fix t :: task assume t: "meta_namespace (tk_meta t) = ns"
  have up: "safe ns (\<lambda>w. case k_update_task (hc_kube (noting C)) (apply_update t u) w of
      (Inl e, w') \<Rightarrow> reply 500 (ErrorBody (api_text e)) c w' | (Inr t, w') \<Rightarrow> reply 200 (TaskBody t) c w')" for u
    using apply_update_in_tenant [OF _ t] assms(2)
    by (intro confined_sum [OF confined_update_task [OF assms(1)]] safe_error safe_reply) simp_all
  show "safe ns (\<lambda>w. case rq_task (gc_request c) of Inl e \<Rightarrow> reply 400 (ErrorBody e) c w
    | Inr updated \<Rightarrow>
        if ts_type (tk_spec updated) = TaskTypeCron \<and>
           k_parse_cron (hc_kube (noting C)) (ts_schedule (tk_spec updated)) = None
        then reply 400 (ErrorBody (''invalid cron expression: '' @ hc_cron_error (noting C) (ts_schedule (tk_spec updated)))) c w
        else case k_update_task (hc_kube (noting C)) (apply_update t updated) w of
          (Inl e, w') \<Rightarrow> reply 500 (ErrorBody (api_text e)) c w' | (Inr t, w') \<Rightarrow> reply 200 (TaskBody t) c w')"
    by (cases "rq_task (gc_request c)") (simp_all add: safe_error up confined_if)
qed

lemma safe_task_delete:
  assumes "in_scope ns c"
  shows "safe ns (task_delete (noting C) c)"
proof -
  have "safe ns (with_task (noting C) c (delete_found_task (noting C) c))"
  proof (rule safe_with_task [OF assms])
    fix t :: task assume "meta_namespace (tk_meta t) = ns"
    then show "safe ns (delete_found_task (noting C) c t)"
      unfolding delete_found_task_def
      by (intro confined_option [OF confined_delete_task [OF assms]] safe_reply_error safe_reply) simp_all
  qed
  with assms show ?thesis unfolding task_delete_def by simp
qed

lemma safe_workflow_delete:
  assumes "in_scope ns c"
  shows "safe ns (workflow_delete (noting C) c)"
  unfolding workflow_delete_def
proof (rule safe_with_workflow [OF assms])
  fix x :: workflow assume "meta_namespace (wf_meta x) = ns"
  then show "safe ns (\<lambda>w. case hc_delete_workflow (noting C) x (tenant_delete_options (gc_scope c) (wf_meta x)) w of
      (Some e, w') \<Rightarrow> reply_error workflow_not_found e c w'
    | (None, w') \<Rightarrow> reply 200 (MessageBody ''workflow deleting'' (Some (wf_name x))) c w')"
    by (intro confined_option [OF confined_delete_workflow [OF assms]] safe_reply_error safe_reply) simp_all
qed

lemma safe_task_trigger:
  assumes "labels_honoured C" "in_scope ns c"
  shows "safe ns (task_trigger (noting C) c)"
  unfolding task_trigger_def
proof (rule safe_with_task [OF assms(2)])
  fix t :: task assume t: "meta_namespace (tk_meta t) = ns"
  let ?m = "\<lambda>now w. case k_update_task (hc_kube (noting C)) (mark_triggered now t) w of
      (Inl e, w') \<Rightarrow> reply 500 (ErrorBody (api_text e)) c w'
    | (Inr t', w') \<Rightarrow>
        (let st = (tk_status t')\<lparr>st_last_schedule_time := None, st_active_jobs := []\<rparr> in
         case k_update_task_status (hc_kube (noting C)) (set_status t' st) w' of
           (Inl e, w'') \<Rightarrow> reply 500 (ErrorBody (api_text e)) c w''
         | (Inr t'', w'') \<Rightarrow> reply 200 (MessageBody ''task triggered'' (Some (tk_name t''))) c w'')"
  have "meta_namespace (tk_meta (mark_triggered now t)) = ns" for now
    using t by (simp add: mark_triggered_def meta_namespace_def)
  then have "safe ns (?m now)" for now
    unfolding Let_def
    by (intro confined_sum [OF confined_update_task [OF assms(1)]]
        confined_sum [OF confined_update_task_status] safe_error safe_reply) simp_all
  then show "safe ns (\<lambda>w. ?m (hc_now (noting C) w) w)"
    unfolding confined_def by blast
qed

lemma safe_set_suspend:
  assumes "labels_honoured C" "in_scope ns c"
  shows "safe ns (set_suspend b msg (noting C) c)"
  unfolding set_suspend_def
proof (rule safe_with_task [OF assms(2)])
  fix t :: task assume "meta_namespace (tk_meta t) = ns"
  then show "safe ns (\<lambda>w. case k_update_task (hc_kube (noting C)) (t\<lparr>tk_spec := (tk_spec t)\<lparr>ts_suspend := Some b\<rparr>\<rparr>) w of
      (Inl e, w') \<Rightarrow> reply 500 (ErrorBody (api_text e)) c w'
    | (Inr t', w') \<Rightarrow> reply 200 (MessageBody msg (Some (tk_name t'))) c w')"
    by (intro confined_sum [OF confined_update_task [OF assms(1)]] safe_error safe_reply) simp_all
qed

lemma safe_statistics:
  assumes "labels_honoured C" "in_scope ns c"
  shows "safe ns (task_stats (noting C) c)" "safe ns (task_trend (noting C) c)"
  unfolding task_stats_def task_trend_def Let_def
  by (rule confined_sum [OF confined_list_tasks [OF assms]]; simp add: safe_error safe_reply)+

lemma tenant_jobs:
  assumes "meta_namespace (tk_meta t) = ns" "ns \<noteq> []"
  shows "job_namespace t = ns"
  using assms by (simp add: job_namespace_def meta_namespace_def Let_def)

lemma confined_list_task_jobs:
  assumes "labels_honoured C" "meta_namespace (tk_meta t) = ns" "ns \<noteq> []"
  shows "confined ns (\<lambda>r. \<forall>js. r = Inr js \<longrightarrow> (\<forall>j \<in> set js. om_namespace (jb_meta j) = ns))
    (list_task_jobs (hc_kube (noting C)) t)"
  unfolding list_task_jobs_def tenant_jobs [OF assms(2,3)]
proof (rule confined_sum)
  show "confined ns (\<lambda>r. \<forall>js. r = Inr js \<longrightarrow> (\<forall>j \<in> set js. om_namespace (jb_meta j) = ns))
      (k_list_jobs (hc_kube (noting C)) ns (gm_put task_label (tk_name t) gm_empty))"
    using honoured_lists(3) [OF assms(1)] by (auto simp: noting_def noting_kube_def intro!: confined_noted)
qed (auto intro!: confined_return)

lemma safe_log_stream:
  assumes "labels_honoured C" "in_scope ns c"
    and "\<And>a. confined ns (\<lambda>_. True) (authorize_resource M c a)"
  shows "safe ns (log_stream M (noting C) c)"
  unfolding log_stream_def
proof (rule safe_with_task [OF assms(2)])
  fix t :: task assume t: "meta_namespace (tk_meta t) = ns"
  have pods: "confined ns (\<lambda>r. \<forall>ps. r = Inr ps \<longrightarrow> (\<forall>p \<in> set ps. om_namespace p = ns)) (hc_list_pods (noting C) ns m)" for m
    using honoured_lists(4) [OF assms(1)] by (auto simp: noting_def intro!: confined_noted)
  have stream: "safe ns (stream_pod M (noting C) c pod)" if "om_namespace pod = ns" for pod
    unfolding stream_pod_def
  proof (rule confined_option [OF assms(3)])
    show "safe ns (\<lambda>w'. (Some (reject_authentication status c), w'))" for status by (rule safe_reject)
    have "confined ns (\<lambda>_. True) (hc_open_logs (noting C) (om_namespace pod) (om_name pod) (log_options_of c))"
      using that by (simp add: noting_def confined_noted)
    then show "safe ns (\<lambda>w'. case hc_open_logs (noting C) (om_namespace pod) (om_name pod) (log_options_of c) w' of
        (Inl e, w'') \<Rightarrow> reply 500 (ErrorBody (''failed to open log stream: '' @ e)) c w''
      | (Inr text, w'') \<Rightarrow> reply 200 (LogStream (scan_lines text)) c w'')"
      by (rule confined_sum) (rule safe_error, rule safe_reply, simp)
  qed
  show "safe ns (\<lambda>w. case list_task_jobs (hc_kube (noting C)) t w of
      (Inl e, w') \<Rightarrow> reply 500 (ErrorBody (api_text e)) c w'
    | (Inr jobs, w') \<Rightarrow>
        if jobs = [] then reply 404 (ErrorBody ''no jobs found for task'') c w'
        else (let j = last jobs in
          case hc_list_pods (noting C) (om_namespace (jb_meta j)) (gm_put ''job-name'' (jb_name j) gm_empty) w' of
            (Inl e, w'') \<Rightarrow> reply 500 (ErrorBody (api_text e)) c w''
          | (Inr pods, w'') \<Rightarrow>
              (let pods = last_job_pods (noting C) t j pods in
               if pods = [] then reply 404 (ErrorBody ''no pods found for job'') c w''
               else stream_pod M (noting C) c (last pods) w'')))"
    (is "safe ns ?m")
    unfolding Let_def
  proof (rule confined_sum [OF confined_list_task_jobs [OF assms(1) t]])
    show "ns \<noteq> []" using assms(2) by blast
    show "safe ns (reply 500 (ErrorBody (api_text e)) c)" for e by (rule safe_error)
    fix jobs :: "job list" assume j: "\<forall>js. Inr jobs = Inr js \<longrightarrow> (\<forall>j \<in> set js. om_namespace (jb_meta j) = ns)"
    show "safe ns (\<lambda>w'. if jobs = [] then reply 404 (ErrorBody ''no jobs found for task'') c w'
        else case hc_list_pods (noting C) (om_namespace (jb_meta (last jobs))) (gm_put ''job-name'' (jb_name (last jobs)) gm_empty) w' of
          (Inl e, w'') \<Rightarrow> reply 500 (ErrorBody (api_text e)) c w''
        | (Inr pods, w'') \<Rightarrow>
            if last_job_pods (noting C) t (last jobs) pods = [] then reply 404 (ErrorBody ''no pods found for job'') c w''
            else stream_pod M (noting C) c (last (last_job_pods (noting C) t (last jobs) pods)) w'')"
    proof (rule confined_if)
      show "safe ns (reply 404 (ErrorBody ''no jobs found for task'') c)" by (rule safe_error)
      assume "jobs \<noteq> []"
      then have ns: "om_namespace (jb_meta (last jobs)) = ns" using j by simp
      show "safe ns (\<lambda>w'. case hc_list_pods (noting C) (om_namespace (jb_meta (last jobs))) (gm_put ''job-name'' (jb_name (last jobs)) gm_empty) w' of
          (Inl e, w'') \<Rightarrow> reply 500 (ErrorBody (api_text e)) c w''
        | (Inr pods, w'') \<Rightarrow>
            if last_job_pods (noting C) t (last jobs) pods = [] then reply 404 (ErrorBody ''no pods found for job'') c w''
            else stream_pod M (noting C) c (last (last_job_pods (noting C) t (last jobs) pods)) w'')"
        unfolding ns
      proof (rule confined_sum [OF pods])
        fix ps :: "object_meta list" assume p: "\<forall>xs. Inr ps = Inr xs \<longrightarrow> (\<forall>p \<in> set xs. om_namespace p = ns)"
        have sub: "set (last_job_pods (noting C) t (last jobs) ps) \<subseteq> set ps" by (auto simp: last_job_pods_def)
        show "safe ns (\<lambda>w''. if last_job_pods (noting C) t (last jobs) ps = [] then reply 404 (ErrorBody ''no pods found for job'') c w''
            else stream_pod M (noting C) c (last (last_job_pods (noting C) t (last jobs) ps)) w'')"
        proof (rule confined_if)
          assume "last_job_pods (noting C) t (last jobs) ps \<noteq> []"
          then have "last (last_job_pods (noting C) t (last jobs) ps) \<in> set ps" using sub last_in_set by blast
          with p show "safe ns (stream_pod M (noting C) c (last (last_job_pods (noting C) t (last jobs) ps)))"
            by (intro stream) simp
        qed (rule safe_error)
      qed (rule safe_error)
    qed
  qed
qed

text \<open>Every endpoint of the API, and the answer to a request that matches none.\<close>

lemma safe_api_handler:
  assumes "labels_honoured C" "in_scope ns c"
    and "\<And>a. confined ns (\<lambda>_. True) (authorize_resource M c a)"
  shows "safe ns (api_handler M (noting C) c)"
  unfolding api_handler_def Let_def task_suspend_def task_resume_def
  by (intro confined_if safe_task_create [OF assms(1,2)] safe_task_list [OF assms(1,2)] safe_task_get [OF assms(2)]
      safe_task_update [OF assms(1,2)] safe_task_delete [OF assms(2)] safe_task_trigger [OF assms(1,2)]
      safe_set_suspend [OF assms(1,2)] safe_log_stream [OF assms] safe_statistics [OF assms(1,2)]
      safe_workflow_list [OF assms(1,2)] safe_workflow_get [OF assms(2)] safe_workflow_delete [OF assms(2)]
      safe_workflow_create [OF assms(1,2)] safe_reply) simp_all

section \<open>Through the whole chain\<close>

text \<open>The same middlewares, on a world that carries the log of calls along.\<close>

definition lift_auth :: "'w auth_env \<Rightarrow> ('w \<times> 'l) auth_env" where
  "lift_auth E = \<lparr>
     au_review_token = (\<lambda>t a. unnoted (au_review_token E t a)), au_audience = au_audience E,
     au_keys_path = au_keys_path E, au_read_file = (\<lambda>p. unnoted (au_read_file E p)),
     au_unmarshal = au_unmarshal E, au_sha256_hex = au_sha256_hex E,
     au_get_account = (\<lambda>ns n. unnoted (au_get_account E ns n)),
     au_review_access = (\<lambda>spec. unnoted (au_review_access E spec))\<rparr>"

definition lift_mw :: "'w mw_env \<Rightarrow> ('w \<times> 'l) mw_env" where
  "lift_mw M = \<lparr>me_authenticate = None, me_authorize = None, me_expired = unnoted (me_expired M),
     me_create_event = (\<lambda>ns e. unnoted (me_create_event M ns e)), me_instance = me_instance M,
     me_now = (\<lambda>(w, l). me_now M w)\<rparr>"

lemma unnoted_pair: "unnoted f (w, l) = (case f w of (r, w') \<Rightarrow> (r, w', l))"
  by (simp add: unnoted_def)

lemma lifted_authenticate:
  "configured_authenticate cfg (configured_auth cfg aud (lift_auth E)) token (w, l) =
   (case configured_authenticate cfg (configured_auth cfg aud E) token w of (r, w') \<Rightarrow> (r, w', l))"
  by (auto simp: configured_authenticate_def key_authenticate_def sa_authenticate_def authenticate_binding_def
      configured_auth_def lift_auth_def unnoted_pair split: prod.splits sum.splits option.splits)

abbreviation lifted_env :: "config \<Rightarrow> 'w auth_env \<Rightarrow> 'w mw_env \<Rightarrow> ('w \<times> http_call list) mw_env" where
  "lifted_env cfg E M \<equiv> configured_env cfg (configured_auth cfg (cf_auth_audience cfg) (lift_auth E)) (lift_mw M)"

lemma quiet_expired: "confined ns (\<lambda>_. True) (me_expired (lifted_env cfg E M))"
  by (simp add: configured_env_def lift_mw_def confined_unnoted)

lemma quiet_authorize:
  "confined ns (\<lambda>_. True) (authorize (configured_auth cfg aud (lift_auth E)) user a)"
  by (auto simp: confined_def authorize_def configured_auth_def lift_auth_def unnoted_def
      split: option.splits prod.splits sum.splits)

lemma quiet_check_each:
  "confined ns (\<lambda>_. True) (check_each (lifted_env cfg E M) (authorize (configured_auth cfg aud (lift_auth E))) user as)"
proof (induction as)
  case Nil
  show ?case by (simp add: confined_return)
next
  case (Cons a as)
  show ?case unfolding check_each.simps
  proof (rule confined_bind [OF quiet_authorize], rule confined_bind [OF quiet_expired])
    fix err expired
    show "confined ns (\<lambda>_. True) (\<lambda>s. if expired then (Some 503, s) else case err of
          None \<Rightarrow> check_each (lifted_env cfg E M) (authorize (configured_auth cfg aud (lift_auth E))) user as s
        | Some Unauthenticated \<Rightarrow> (Some 401, s) | Some (AuthenticationUnavailable b) \<Rightarrow> (Some 503, s)
        | Some Forbidden \<Rightarrow> (Some 403, s) | Some (AuthorizationUnavailable b) \<Rightarrow> (Some 503, s))"
    proof (cases err)
      case None
      then show ?thesis using Cons.IH by (auto intro!: confined_if confined_return)
    next
      case (Some e)
      then show ?thesis by (cases e) (auto intro!: confined_if confined_return)
    qed
  qed
qed

lemma quiet_check:
  "confined ns (\<lambda>_. True) (check_resource_access (lifted_env cfg E M) (authorize (configured_auth cfg aud (lift_auth E))) c as)"
  unfolding check_resource_access_def
  by (cases "gc_user c") (simp_all add: confined_return quiet_check_each)

lemma quiet_authorize_resource: "confined ns (\<lambda>_. True) (authorize_resource (lifted_env cfg E M) c a)"
  unfolding authorize_resource_def
  by (intro confined_if confined_return) (simp_all add: configured_env_def quiet_check [unfolded configured_env_def])

lemma safe_authorization:
  assumes "safe ns (H (c\<lparr>gc_checked := True\<rparr>))"
  shows "safe ns (authorization (lifted_env cfg E M) H c)"
proof -
  have a: "me_authorize (lifted_env cfg E M) = Some (authorize (configured_auth cfg (cf_auth_audience cfg) (lift_auth E)))"
    by (simp add: configured_env_def)
  show ?thesis
    unfolding authorization_def a
    by (cases "gm_get route_permissions (route_key (gc_request c))")
      (simp_all add: safe_reject confined_option [OF quiet_check safe_reject assms])
qed

lemma safe_audit:
  assumes "safe ns (next c)"
  shows "safe ns (audit (lifted_env cfg E M) next c)"
proof (cases "gm_get audit_operations (route_key (gc_request c))")
  case None
  with assms show ?thesis by (simp add: audit_def [abs_def])
next
  case (Some op)
  have "safe ns (\<lambda>s. case r of None \<Rightarrow> (None, s) | Some c' \<Rightarrow> (case gc_user c' of None \<Rightarrow> (Some c', s)
      | Some user \<Rightarrow> (let event = audit_event_of (lifted_env cfg E M) op user c' s
                       in (Some c', snd (me_create_event (lifted_env cfg E M) (ae_namespace event) event s)))))"
    if "answer_in_tenant ns r" for r
    using that
    by (auto simp: confined_def configured_env_def lift_mw_def unnoted_def Let_def answer_in_tenant_def
        split: option.splits prod.splits)
  from confined_bind [OF assms this] Some show ?thesis
    by (simp add: audit_def [abs_def] case_prod_unfold cong: option.case_cong)
qed

text \<open>The authentication of a request, and the handlers behind it for an identity of the tenant.\<close>

lemma lifted_authentication:
  assumes "bearer_token (rq_authorization rq) = Some token"
    and "configured_authenticate cfg (configured_auth cfg (cf_auth_audience cfg) E) token w = (r, w1)"
    and "me_expired M w1 = (expired, w2)"
  shows "authentication (lifted_env cfg E M) next (new_ctx rq) (w, []) =
    (if expired then (Some (reject_authentication 503 (new_ctx rq)), w2, [])
     else case r of Inl e \<Rightarrow> (Some (reject_authentication (if e = Unauthenticated then 401 else 503) (new_ctx rq)), w2, [])
     | Inr user \<Rightarrow> next ((new_ctx rq)\<lparr>gc_user := Some user\<rparr>) (w2, []))"
proof -
  have me: "me_authenticate (lifted_env cfg E M) = Some (\<lambda>token s. case configured_authenticate cfg
      (configured_auth cfg (cf_auth_audience cfg) (lift_auth E)) token s of (r, s') \<Rightarrow> (map_sum id Some r, s'))"
    by (simp add: configured_env_def)
  from assms(3) have x: "me_expired (lifted_env cfg E M) (w1, []) = (expired, w2, [])"
    by (simp add: configured_env_def lift_mw_def unnoted_pair)
  show ?thesis
    using assms(1) by (cases r) (simp_all add: authentication_def new_ctx_def me lifted_authenticate assms(2) x)
qed

lemma tenant_request_safe:
  assumes "labels_honoured C" and "ns \<noteq> []"
    and c: "c = (new_ctx rq)\<lparr>gc_user := Some user, gc_scope := Some ns\<rparr>"
  shows "safe ns (audit (lifted_env cfg E M) (authorization (lifted_env cfg E M)
    (api_handler (lifted_env cfg E M) (noting C))) c)"
proof -
  have "safe ns (api_handler (lifted_env cfg E M) (noting C) (c\<lparr>gc_checked := True\<rparr>))"
    using assms(2) by (intro safe_api_handler assms(1) quiet_authorize_resource)
      (simp_all add: c ctx_namespace_def)
  then show ?thesis by (intro safe_audit safe_authorization)
qed

text \<open>
  C4. A caller stays inside its tenant. With tenant isolation switched on, a request to any endpoint
  of the API is either refused without a single call on Tasks, Workflows, Jobs or Pods, or its
  bearer token was accepted for a ServiceAccount, and then every object it creates, changes or
  deletes, every list it asks for, every Job and Pod it looks at and every object in its answer
  belongs to the Namespace of that account; deletes carry the UID of the object that was checked.
\<close>

theorem request_stays_in_tenant:
  fixes E :: "'w auth_env" and M :: "'w mw_env" and C :: "'w http_client"
  assumes "authentication_middleware cfg (lift_auth E) (lift_mw M) = Inr chain"
    and "cf_auth_enabled cfg" and "cf_tenant_isolation_enabled cfg" and "labels_honoured C"
    and "serve chain (api_handler (lifted_env cfg E M) (noting C)) rq (w, []) = (response, w', log)"
  shows "(log = [] \<and> (\<exists>msg. rs_body response = ErrorBody msg)) \<or>
    (\<exists>token user w\<^sub>1. bearer_token (rq_authorization rq) = Some token \<and>
       configured_authenticate cfg (configured_auth cfg (cf_auth_audience cfg) E) token w = (Inr user, w\<^sub>1) \<and>
       service_account_namespace (ui_username user) \<noteq> [] \<and>
       (\<forall>x \<in> set log. call_in_tenant (service_account_namespace (ui_username user)) x) \<and>
       body_in_tenant (service_account_namespace (ui_username user)) (rs_body response))"
proof -
  let ?M = "lifted_env cfg E M" and ?H = "api_handler (lifted_env cfg E M) (noting C)"
  have chain: "chain = (\<lambda>next. authentication ?M (tenant_isolation (audit ?M (authorization ?M next))))"
    using assms(1-3) by (auto simp: authentication_middleware_def new_service_account_authenticator_def new_resource_authorizer_def
        Let_def split: if_splits)
  have reject: "rs_body (gc_response (reject_authentication st c)) = ErrorBody (status_text st)" for st c
    by (simp add: reject_authentication_def Let_def)
  show ?thesis
  proof (cases "bearer_token (rq_authorization rq)")
    case None
    with assms(5) show ?thesis by (auto simp: serve_def chain authentication_def new_ctx_def reject)
  next
    case (Some token)
    obtain r w1 where a: "configured_authenticate cfg (configured_auth cfg (cf_auth_audience cfg) E) token w = (r, w1)"
      by (metis surj_pair)
    obtain expired w2 where x: "me_expired M w1 = (expired, w2)" by (metis surj_pair)
    note auth = lifted_authentication [OF Some a x]
    show ?thesis
    proof (cases "\<not> expired \<and> (\<exists>user. r = Inr user \<and> service_account_namespace (ui_username user) \<noteq> [])")
      case False
      with assms(5) show ?thesis
        by (auto simp: serve_def chain auth reject tenant_isolation_def Let_def split: if_splits sum.splits)
    next
      case True
      then obtain user where u: "r = Inr user" "service_account_namespace (ui_username user) \<noteq> []" and e: "\<not> expired"
        by blast
      define ns where "ns = service_account_namespace (ui_username user)"
      define c where "c = (new_ctx rq)\<lparr>gc_user := Some user, gc_scope := Some ns\<rparr>"
      have run: "chain ?H (new_ctx rq) (w, []) = audit ?M (authorization ?M ?H) c (w2, [])"
        using u e by (simp add: chain auth tenant_isolation_def with_namespace_def Let_def c_def ns_def)
      have "safe ns (audit ?M (authorization ?M ?H) c)"
        by (rule tenant_request_safe [OF assms(4) _ c_def]) (simp add: ns_def u(2))
      then have safe: "answer_in_tenant ns (fst (chain ?H (new_ctx rq) (w, [])))"
        "\<forall>x \<in> set (snd (snd (chain ?H (new_ctx rq) (w, [])))). call_in_tenant ns x"
        unfolding run confined_def by (metis append_Nil snd_conv)+
      obtain o' w3 l3 where o: "chain ?H (new_ctx rq) (w, []) = (o', w3, l3)" by (metis prod_cases3)
      from o safe assms(5) have "(\<forall>x \<in> set log. call_in_tenant ns x) \<and> body_in_tenant ns (rs_body response)"
        by (auto simp: serve_def answer_in_tenant_def empty_response_def split: option.splits)
      with u(2) Some a u(1) show ?thesis unfolding ns_def by blast
    qed
  qed
qed

end
