(* ===== verification/ApiRuns.thy ===== *)
theory ApiRuns
  imports ApiTenant Sample
begin

text \<open>
  Properties of the handlers of the API: the pages of the list endpoints and where they panic, the
  manual trigger as the Task controller reads it back, and runs of whole requests against the
  cluster in memory.
\<close>

section \<open>Pages\<close>

lemma wrap64_id: "- (2 ^ 63) \<le> i \<Longrightarrow> i < 2 ^ 63 \<Longrightarrow> wrap64 i = i"
  unfolding wrap64_def by (simp add: sint_sbintrunc' signed_take_bit_int_eq_self)

lemma page_in_range:
  assumes "1 \<le> p" "1 \<le> z" "p * z < 2 ^ 63"
  shows "go_slice xs (page_bounds p z (int (length xs))) = Some (take (nat z) (drop (nat ((p - 1) * z)) xs))"
proof -
  have m: "0 \<le> (p - 1) * z" "(p - 1) * z + z = p * z" using assms by (simp_all add: algebra_simps)
  have "p \<le> p * z" using assms by (simp add: mult_le_cancel_left1)
  then have p: "wrap64 (p - 1) = p - 1" using assms by (intro wrap64_id) linarith+
  have s: "wrap64 ((p - 1) * z) = (p - 1) * z" using m assms by (intro wrap64_id) linarith+
  have e: "wrap64 ((p - 1) * z + z) = p * z" unfolding m(2) using m assms by (intro wrap64_id) linarith+
  define a b n where "a = nat ((p - 1) * z)" and "b = nat (p * z)" and "n = length xs"
  have ab: "(p - 1) * z = int a" "p * z = int b" "b = a + nat z" "int (nat z) = z"
    using m assms by (simp_all add: a_def b_def nat_add_distrib [symmetric])
  have "page_bounds p z (int n) = (int (min a n), int (min b n))"
    unfolding page_bounds_def Let_def p s e unfolding ab(1,2) by (auto simp: min_def)
  moreover have "take (min b n - min a n) (drop (min a n) xs) = take (nat z) (drop a xs)"
    using ab(3) by (auto simp: n_def min_def intro: take_all)
  moreover have "nat (int (min b n) - int (min a n)) = min b n - min a n" by simp
  ultimately show ?thesis
    using ab(3) unfolding n_def [symmetric] a_def [symmetric]
    by (simp add: go_slice_def n_def min_le_iff_disj)
qed

text \<open>The pages of a list, one after the other, are the list.\<close>

lemma pages_concat:
  "concat (map (\<lambda>i. take z (drop (i * z) xs)) [0 ..< n]) = take (n * z) xs"
proof (induction n)
  case 0
  show ?case by simp
next
  case (Suc n)
  have "take (n * z) xs @ take z (drop (n * z) xs) = take (n * z + z) xs" by (simp add: take_add)
  with Suc show ?case by (simp add: add.commute)
qed

lemma wrapped_page:
  assumes "wrap64 ((p - 1) * z) < 0"
  shows "go_slice xs (page_bounds p z (int (length xs))) = None"
proof -
  have "wrap64 (wrap64 (p - 1) * z) = wrap64 ((p - 1) * z)"
    unfolding wrap64_def by (simp only: wi_hom_mult [symmetric] of_int_sint scast_id)
  with assms show ?thesis by (simp add: page_bounds_def Let_def go_slice_def)
qed

definition tasks_listed :: "gin_ctx \<Rightarrow> task list \<Rightarrow> task list" where
  "tasks_listed c items = filter (task_matches (query_or [] ''type'' c) (query_or [] ''phase'' c)) items"

abbreviation asked_page :: "gin_ctx \<Rightarrow> int" where "asked_page c \<equiv> atoi (query_or ''1'' ''page'' c)"
abbreviation asked_size :: "gin_ctx \<Rightarrow> int" where "asked_size c \<equiv> atoi (query_or ''20'' ''pageSize'' c)"

text \<open>
  The pages of the Task list show every matching Task exactly once: as long as page times size
  stays within 64 bits, page p of size z has the matching Tasks from position (p - 1) z on, at most
  z of them, together with their total number, and the first n pages put together are the first n z
  matching Tasks in the order of the API server.
\<close>

theorem task_pages_cover:
  assumes "k_list_tasks (hc_kube C) (tenant_list_options (gc_scope c)) w = (Inr items, w')"
    and "1 \<le> asked_page c" "1 \<le> asked_size c" "asked_page c * asked_size c < 2 ^ 63"
  defines "page \<equiv> (\<lambda>p. take (nat (asked_size c)) (drop (nat ((p - 1) * asked_size c)) (tasks_listed c items)))"
  shows "task_list C c w = (Some (respond 200 (TaskPage (page (asked_page c))
      (int (length (tasks_listed c items))) (asked_page c) (asked_size c)) c), w') \<and>
    concat (map (\<lambda>p. page (int p)) [1 ..< Suc n]) = take (n * nat (asked_size c)) (tasks_listed c items)"
proof
  show "task_list C c w = (Some (respond 200 (TaskPage (page (asked_page c))
      (int (length (tasks_listed c items))) (asked_page c) (asked_size c)) c), w')"
    using assms(1,2) page_in_range [OF assms(2-4), of "tasks_listed c items"]
    by (simp add: task_list_def Let_def page_def tasks_listed_def)
  have "page (int (Suc i)) = take (nat (asked_size c)) (drop (i * nat (asked_size c)) (tasks_listed c items))" for i
    using assms(3) by (simp add: page_def nat_mult_distrib)
  then have "map (\<lambda>p. page (int p)) [1 ..< Suc n] =
      map (\<lambda>i. take (nat (asked_size c)) (drop (i * nat (asked_size c)) (tasks_listed c items))) [0 ..< n]"
    by (simp add: map_Suc_upt [symmetric] del: upt_Suc)
  then show "concat (map (\<lambda>p. page (int p)) [1 ..< Suc n]) = take (n * nat (asked_size c)) (tasks_listed c items)"
    by (simp only: pages_concat)
qed

lemma wrap64_shift: "wrap64 i = (i + 2 ^ 63) mod 2 ^ 64 - 2 ^ 63"
  unfolding wrap64_def by (simp add: sint_sbintrunc' signed_take_bit_eq_take_bit_shift take_bit_eq_mod)

lemma wrap64_range: "- (2 ^ 63) \<le> wrap64 i \<and> wrap64 i < 2 ^ 63"
  unfolding wrap64_shift by simp

lemma wrap64_over: "2 ^ 63 \<le> i \<Longrightarrow> i < 2 ^ 64 \<Longrightarrow> wrap64 i < 0"
proof -
  assume "2 ^ 63 \<le> i" "i < 2 ^ 64"
  then have "(i + 2 ^ 63 - 2 ^ 64) mod 2 ^ 64 = i + 2 ^ 63 - 2 ^ 64" by (intro mod_pos_pos_trivial) simp_all
  moreover have "(i + 2 ^ 63 - 2 ^ 64) mod 2 ^ 64 = (i + 2 ^ 63) mod 2 ^ 64" by (rule minus_mod_self2)
  ultimately show ?thesis unfolding wrap64_shift using \<open>i < 2 ^ 64\<close> by simp
qed

lemma go_slice_none: "go_slice xs (a, b) = None \<longleftrightarrow> \<not> (0 \<le> a \<and> a \<le> b \<and> b \<le> int (length xs))"
  by (simp add: go_slice_def)

text \<open>
  When a page is out of range: its start or its end has wrapped around to a negative number, or the
  size is negative and the end lies before the start and within the list.
\<close>

lemma page_out_of_range:
  assumes "- (2 ^ 63) \<le> z" "z < 2 ^ 63"
  shows "go_slice xs (page_bounds p z (int (length xs))) = None \<longleftrightarrow>
    wrap64 ((p - 1) * z) < 0 \<or> wrap64 (p * z) < 0 \<or> z < 0 \<and> wrap64 (p * z) < int (length xs)"
proof -
  define s where "s = wrap64 ((p - 1) * z)"
  have start: "wrap64 (wrap64 (p - 1) * z) = s"
    unfolding s_def wrap64_def by (simp only: wi_hom_mult [symmetric] of_int_sint scast_id)
  have "wrap64 (s + z) = wrap64 ((p - 1) * z + z)"
    unfolding s_def wrap64_def by (simp only: wi_hom_add [symmetric] of_int_sint scast_id)
  then have stop: "wrap64 (s + z) = wrap64 (p * z)" by (simp add: algebra_simps)
  have range: "- (2 ^ 63) \<le> s" "s < 2 ^ 63" using wrap64_range unfolding s_def by auto
  have near: "wrap64 (s + z) = s + z" if "s + z < 2 ^ 63" "0 \<le> s"
    using that assms by (intro wrap64_id) linarith+
  have far: "wrap64 (s + z) < 0" if "\<not> s + z < 2 ^ 63"
    using that assms range by (intro wrap64_over) simp_all
  have low: "s + z < 2 ^ 63" if "z < 0" using that range by linarith
  show ?thesis
    unfolding page_bounds_def Let_def start go_slice_none stop [symmetric] s_def [symmetric]
    using near far low by (cases "s < 0"; cases "s + z < 2 ^ 63"; cases "z < 0") auto
qed

lemma digits_value_nonneg: "list_all is_digit s \<Longrightarrow> 0 \<le> digits_value s"
  by (induction s rule: rev_induct) (auto simp: digits_value_def is_digit_def)

lemma atoi_range: "- (2 ^ 63) \<le> atoi s \<and> atoi s < 2 ^ 63"
proof -
  have "- (2 ^ 63) \<le> fst (parse_int64 s) \<and> fst (parse_int64 s) < 2 ^ 63"
    unfolding parse_int64_def Let_def by (auto dest!: digits_value_nonneg)
  then show ?thesis by (simp add: atoi_def)
qed

definition workflows_listed :: "gin_ctx \<Rightarrow> workflow list \<Rightarrow> workflow list" where
  "workflows_listed c items = filter (\<lambda>x. query_or [] ''phase'' c = [] \<or>
     workflow_phase_string (ws_phase (wf_status x)) = query_or [] ''phase'' c) items"

text \<open>
  C36. Exactly which pages crash the list handlers. Write p for the page asked for, or 1 below that, and
  z for the size, with 64-bit arithmetic. The Task list panics, so that the client gets an internal
  error, when the start (p - 1) z or the end p z wraps around to a negative number, or when z is negative
  and the end lies before the total. Hence every negative size panics unless (p - 1) z leaves the
  64 bits, and no size from 0 on panics as long as p z stays within them. The Workflow list takes
  20 for a size below 1 and panics exactly when the start or the end wraps around to a negative number.
\<close>

theorem list_pages_panic:
  assumes "k_list_tasks (hc_kube C) (tenant_list_options (gc_scope c)) w = (Inr items, w')"
    and "hc_list_workflows C (tenant_list_options (gc_scope c)) w = (Inr flows, w'')"
  defines "p \<equiv> max 1 (asked_page c)"
    and "z \<equiv> asked_size c"
    and "z20 \<equiv> (if asked_size c < 1 then 20 else asked_size c)"
  shows "(task_list C c w = (None, w') \<longleftrightarrow>
      wrap64 ((p - 1) * z) < 0 \<or> wrap64 (p * z) < 0 \<or> z < 0 \<and> wrap64 (p * z) < int (length (tasks_listed c items))) \<and>
    (z < 0 \<and> - (2 ^ 63) \<le> (p - 1) * z \<longrightarrow> task_list C c w = (None, w')) \<and>
    (0 \<le> z \<and> p * z < 2 ^ 63 \<longrightarrow> task_list C c w \<noteq> (None, w')) \<and>
    (workflow_list C c w = (None, w'') \<longleftrightarrow> wrap64 ((p - 1) * z20) < 0 \<or> wrap64 (p * z20) < 0) \<and>
    (p * z20 < 2 ^ 63 \<longrightarrow> workflow_list C c w \<noteq> (None, w''))"
proof -
  have p: "1 \<le> p" "(if asked_page c < 1 then 1 else asked_page c) = p" by (auto simp: p_def)
  have z: "- (2 ^ 63) \<le> z" "z < 2 ^ 63" and z20: "- (2 ^ 63) \<le> z20" "z20 < 2 ^ 63" "1 \<le> z20"
    using atoi_range by (auto simp: z_def z20_def)
  have tasks: "task_list C c w = (None, w') \<longleftrightarrow>
      go_slice (tasks_listed c items) (page_bounds p z (int (length (tasks_listed c items)))) = None"
    unfolding task_list_def Let_def assms(1) p(2) tasks_listed_def z_def by (auto split: option.splits)
  have flows: "workflow_list C c w = (None, w'') \<longleftrightarrow>
      go_slice (workflows_listed c flows) (page_bounds p z20 (int (length (workflows_listed c flows)))) = None"
    unfolding workflow_list_def Let_def assms(2) p(2) workflows_listed_def z20_def [symmetric] by (auto split: option.splits)
  have negative: "wrap64 ((p - 1) * z) < 0 \<or> wrap64 (p * z) < 0" if "z < 0" "- (2 ^ 63) \<le> (p - 1) * z"
  proof (cases "p = 1")
    case True
    then show ?thesis using that z by (simp add: wrap64_id)
  next
    case False
    then have "(p - 1) * z < 0" using that p by (intro mult_pos_neg) auto
    then have "wrap64 ((p - 1) * z) = (p - 1) * z" using that by (intro wrap64_id) auto
    with \<open>(p - 1) * z < 0\<close> show ?thesis by simp
  qed
  have within: "\<not> (wrap64 ((p - 1) * n) < 0 \<or> wrap64 (p * n) < 0)" if "0 \<le> n" "p * n < 2 ^ 63" for n
  proof -
    have "0 \<le> (p - 1) * n" "(p - 1) * n \<le> p * n" using that p by (auto intro: mult_right_mono)
    moreover have "wrap64 ((p - 1) * n) = (p - 1) * n" "wrap64 (p * n) = p * n"
      using calculation that by (intro wrap64_id; linarith)+
    ultimately show ?thesis by linarith
  qed
  show ?thesis
    unfolding tasks flows page_out_of_range [OF z] page_out_of_range [OF z20(1,2)]
    using negative within [of z] within [of z20] z20(3) by auto
qed

section \<open>A cluster behind the API\<close>

definition sample_list_workflows :: "(string, string) gomap \<Rightarrow> cluster \<Rightarrow> (api_error + workflow list) \<times> cluster" where
  "sample_list_workflows l c = (Inr (filter (\<lambda>x. has_labels l (wf_meta x)) (map snd (cl_workflows c))), c)"

definition sample_http :: "cluster http_client" where
  "sample_http = \<lparr>hc_kube = sample_kube, hc_list_workflows = sample_list_workflows,
     hc_create_workflow = (\<lambda>x c. (Inr x, c\<lparr>cl_workflows := gm_put (wf_name x) x (cl_workflows c)\<rparr>)),
     hc_delete_workflow = (\<lambda>x uid c. (None, c\<lparr>cl_workflows := gm_del (wf_name x) (cl_workflows c)\<rparr>)),
     hc_delete_task = (\<lambda>t uid c. (None, c\<lparr>cl_tasks := gm_del (tk_name t) (cl_tasks c)\<rparr>)),
     hc_list_pods = (\<lambda>ns m c. (Inr [], c)),
     hc_open_logs = (\<lambda>ns n opts c. (Inr [], c)),
     hc_cron_error = (\<lambda>s. []),
     hc_now = (\<lambda>c. 0),
     hc_local = (\<lambda>t. 0),
     hc_visit = (\<lambda>ks. ks)\<rparr>"

lemma has_labels_selects: "has_labels l meta \<Longrightarrow> selects l meta"
  unfolding has_labels_def selects_def list_all_iff by (auto simp: gm_get_def dest!: map_of_SomeD)

lemma sample_labels_honoured: "labels_honoured sample_http"
  unfolding labels_honoured_def
  by (auto simp: sample_http_def sample_kube_def sample_list_workflows_def has_labels_selects split: if_splits)

definition team_task :: "string \<Rightarrow> string \<Rightarrow> task" where
  "team_task ns name = (named_task name)\<lparr>tk_meta := set_namespace (empty_meta\<lparr>om_name := name\<rparr>) ns\<rparr>"

definition sample_world :: cluster where
  "sample_world = empty_cluster\<lparr>cl_tasks := [(''a'', team_task ''blue'' ''a''), (''b'', team_task ''red'' ''b'')]\<rparr>"

definition sample_get :: "string \<Rightarrow> (string, string) gomap \<Rightarrow> request" where
  "sample_get path query = (sample_request ''GET'' path)\<lparr>rq_query := query\<rparr>"

lemma sample_listed:
  "k_list_tasks (hc_kube sample_http) (tenant_list_options None) sample_world =
     (Inr [team_task ''blue'' ''a'', team_task ''red'' ''b''], sample_world)"
  by (simp add: sample_http_def sample_kube_def sample_world_def empty_cluster_def tenant_list_options_def
      ctx_namespace_def has_labels_def gm_empty_def)

theorem task_pages_cover_witness:
  "fst (task_list sample_http (new_ctx (sample_get ''/api/v1/tasks'' [(''page'', ''2''), (''pageSize'', ''1'')])) sample_world) =
     Some (respond 200 (TaskPage [team_task ''red'' ''b''] 2 2 1)
       (new_ctx (sample_get ''/api/v1/tasks'' [(''page'', ''2''), (''pageSize'', ''1'')])))"
proof -
  let ?c = "new_ctx (sample_get ''/api/v1/tasks'' [(''page'', ''2''), (''pageSize'', ''1'')])"
  have asked: "asked_page ?c = 2" "asked_size ?c = 1" by code_simp+
  have every: "tasks_listed ?c [team_task ''blue'' ''a'', team_task ''red'' ''b''] =
      [team_task ''blue'' ''a'', team_task ''red'' ''b'']"
    by (simp add: tasks_listed_def task_matches_def query_or_def new_ctx_def sample_get_def sample_request_def
        gm_get_or_def gm_get_def)
  have scope: "gc_scope ?c = None" by (simp add: new_ctx_def)
  show ?thesis
    using task_pages_cover [where C = sample_http and c = ?c and w = sample_world, unfolded asked scope, OF sample_listed]
    by (simp add: every)
qed

theorem list_pages_panic_witness:
  "task_list sample_http (new_ctx (sample_get ''/api/v1/tasks'' [(''page'', ''3''), (''pageSize'', ''-7'')])) sample_world =
     (None, sample_world) \<and>
   workflow_list sample_http (new_ctx (sample_get ''/api/v1/workflows''
     [(''page'', ''4611686018427387904''), (''pageSize'', ''4'')])) sample_world = (None, sample_world)"
proof -
  let ?c = "new_ctx (sample_get ''/api/v1/tasks'' [(''page'', ''3''), (''pageSize'', ''-7'')])"
  let ?d = "new_ctx (sample_get ''/api/v1/workflows'' [(''page'', ''4611686018427387904''), (''pageSize'', ''4'')])"
  have c: "asked_page ?c = 3" "asked_size ?c = -7" by code_simp+
  have d: "asked_page ?d = 4611686018427387904" "asked_size ?d = 4" by code_simp+
  have scope: "gc_scope ?c = None" "gc_scope ?d = None" by (simp_all add: new_ctx_def)
  have flows: "hc_list_workflows sample_http (tenant_list_options None) sample_world = (Inr [], sample_world)"
    by (simp add: sample_http_def sample_list_workflows_def sample_world_def empty_cluster_def)
  have wraps: "wrap64 ((4611686018427387904 - 1) * 4) < 0" by code_simp
  have "task_list sample_http ?c sample_world = (None, sample_world)"
    using list_pages_panic [where C = sample_http and c = ?c, unfolded scope c, OF sample_listed flows] by simp
  moreover have "workflow_list sample_http ?d sample_world = (None, sample_world)"
    using list_pages_panic [where C = sample_http and c = ?d, unfolded scope d, OF sample_listed flows] wraps by simp
  ultimately show ?thesis ..
qed

section \<open>A request in its tenant\<close>

definition quiet_mw :: "'w mw_env" where
  "quiet_mw = \<lparr>me_authenticate = None, me_authorize = None, me_expired = (\<lambda>w. (False, w)),
     me_create_event = (\<lambda>ns event w. (None, w)), me_instance = [], me_now = (\<lambda>w. 0)\<rparr>"

definition team_world :: cluster where
  "team_world = empty_cluster\<lparr>cl_tasks :=
     [(''a'', team_task ''team-a'' ''a''), (''b'', team_task ''team-b'' ''b'')]\<rparr>"

definition team_chain :: "(cluster \<times> http_call list) middleware" where
  "team_chain = (\<lambda>next. authentication (lifted_env sample_cfg sample_auth quiet_mw)
     (tenant_isolation (audit (lifted_env sample_cfg sample_auth quiet_mw)
       (authorization (lifted_env sample_cfg sample_auth quiet_mw) next))))"

lemma team_chain_built: "authentication_middleware sample_cfg (lift_auth sample_auth) (lift_mw quiet_mw) = Inr team_chain"
  by (simp add: team_chain_def authentication_middleware_def new_service_account_authenticator_def new_resource_authorizer_def
      sample_cfg_simps sample_trim Let_def)

lemma lifted_authorize:
  "authorize (configured_auth cfg aud (lift_auth E)) user a (w, l) =
   (case authorize (configured_auth cfg aud E) user a w of (r, w') \<Rightarrow> (r, w', l))"
  by (auto simp: authorize_def configured_auth_def lift_auth_def unnoted_pair split: prod.splits sum.splits option.splits)

definition team_request :: request where
  "team_request = sample_request ''GET'' ''/api/v1/tasks''"

definition team_ctx :: gin_ctx where
  "team_ctx = (new_ctx team_request)\<lparr>gc_user := Some sample_user, gc_scope := Some ''team-a'', gc_checked := True\<rparr>"

lemma team_enters:
  "serve team_chain H team_request (w, []) =
     (case H team_ctx (w, []) of (Some c, w') \<Rightarrow> (gc_response c, w') | (None, w') \<Rightarrow> (empty_response\<lparr>rs_status := 500\<rparr>, w'))"
proof -
  have "gm_get route_permissions ''GET /api/v1/tasks'' = Some [perm ''tasks'' ''list'' []]"
    "gm_get audit_operations ''GET /api/v1/tasks'' = None"
    by (simp_all add: route_permissions_def audit_operations_def gm_get_def)
  moreover have "service_account_namespace (ui_username sample_user) = ''team-a''"
    by (simp add: sample_user_def sample_canonical)
  ultimately show ?thesis
    by (simp add: team_chain_def serve_def authentication_def new_ctx_def sample_request_def sample_token
        configured_env_def lifted_authenticate sample_cfg_simps sample_authenticated lift_mw_def unnoted_def quiet_mw_def
        tenant_isolation_def with_namespace_def route_key_def audit_def authorization_def check_resource_access_def
        team_request_def team_ctx_def lifted_authorize sample_authorized route_attributes_def perm_def
        split: prod.splits)
qed

lemma team_lists:
  "api_handler M (noting sample_http) team_ctx (team_world, []) =
   (Some (respond 200 (TaskPage [team_task ''team-a'' ''a''] 1 1 20) team_ctx), team_world,
    [Listed [(tenant_label, ''team-a'')]])"
proof -
  have asked: "asked_page team_ctx = 1" "asked_size team_ctx = 20" by code_simp+
  have every: "task_matches (query_or [] ''type'' team_ctx) (query_or [] ''phase'' team_ctx) t" for t
    by (simp add: task_matches_def query_or_def team_ctx_def new_ctx_def team_request_def sample_request_def
        gm_get_or_def gm_get_def)
  have list: "k_list_tasks (hc_kube (noting sample_http)) (tenant_list_options (gc_scope team_ctx)) (team_world, []) =
      (Inr [team_task ''team-a'' ''a''], team_world, [Listed [(tenant_label, ''team-a'')]])"
    by code_simp
  have page: "page_bounds 1 20 1 = (0, 1)" by code_simp
  have key: "route_key (gc_request team_ctx) = ''GET /api/v1/tasks''" by code_simp
  show ?thesis
    by (simp add: api_handler_def key task_list_def asked list every page go_slice_def Let_def)
qed

theorem request_stays_in_tenant_witness:
  "fst (serve team_chain (api_handler (lifted_env sample_cfg sample_auth quiet_mw) (noting sample_http))
     team_request (team_world, [])) = empty_response\<lparr>rs_body := TaskPage [team_task ''team-a'' ''a''] 1 1 20\<rparr> \<and>
   body_in_tenant ''team-a'' (TaskPage [team_task ''team-a'' ''a''] 1 1 20) \<and>
   call_in_tenant ''team-a'' (Listed [(tenant_label, ''team-a'')])"
proof -
  have run: "serve team_chain (api_handler (lifted_env sample_cfg sample_auth quiet_mw) (noting sample_http))
      team_request (team_world, []) =
    (empty_response\<lparr>rs_body := TaskPage [team_task ''team-a'' ''a''] 1 1 20\<rparr>, team_world,
     [Listed [(tenant_label, ''team-a'')]])"
    unfolding team_enters team_lists by (simp add: respond_def team_ctx_def new_ctx_def empty_response_def)
  have tok: "bearer_token (rq_authorization team_request) = Some ''tok''"
    by (simp add: team_request_def sample_request_def sample_token)
  have ns: "service_account_namespace (ui_username sample_user) = ''team-a''"
    by (simp add: sample_user_def sample_canonical)
  from request_stays_in_tenant [OF team_chain_built sample_cfg_simps(1,3) sample_labels_honoured run]
  have "body_in_tenant ''team-a'' (TaskPage [team_task ''team-a'' ''a''] 1 1 20) \<and>
      call_in_tenant ''team-a'' (Listed [(tenant_label, ''team-a'')])"
    by (simp add: tok sample_cfg_simps sample_authenticated ns)
  then show ?thesis unfolding run by simp
qed

section \<open>The manual trigger\<close>

text \<open>
  C37. A manual trigger is understood by the Task controller. The trigger handler writes the time into
  an annotation as text and the controller parses it back: for every time in the years 0 to 9999 it
  reads the same time cut to whole seconds, and takes the Task for triggered exactly when that lies
  after the last completion (or, without one, the last start). A trigger within the second of the
  completion is therefore lost although the API has acknowledged it.
\<close>

theorem manual_trigger_read_back:
  assumes "civil_from_days (now div (86400 * 1000000000)) = (y, m, d)" "0 \<le> y" "y \<le> 9999"
  shows "parse_rfc3339 (gm_get_or [] (om_annotations (tk_meta (mark_triggered now t))) last_trigger_annotation) =
      Some (now - now mod 1000000000) \<and>
    (task_manually_triggered_after_completion (mark_triggered now t) \<longleftrightarrow>
      (case (case st_last_completion_time (tk_status t) of None \<Rightarrow> st_last_start_time (tk_status t) | c \<Rightarrow> c) of
         None \<Rightarrow> True | Some reference \<Rightarrow> reference < now - now mod 1000000000))"
proof -
  have raw: "gm_get_or [] (om_annotations (tk_meta (mark_triggered now t))) last_trigger_annotation = format_rfc3339 now"
    by (simp add: mark_triggered_def gm_get_or_def gm.get_put)
  have parsed: "parse_rfc3339 (format_rfc3339 now) = Some (now - now mod 1000000000)"
    by (rule parse_format_rfc3339 [OF assms])
  then have "format_rfc3339 now \<noteq> []" by (auto simp: parse_rfc3339_def Let_def)
  moreover have status: "tk_status (mark_triggered now t) = tk_status t" by (simp add: mark_triggered_def)
  ultimately show ?thesis
    using parsed unfolding task_manually_triggered_after_completion_def raw Let_def status by simp
qed

theorem manual_trigger_read_back_witness:
  "parse_rfc3339 (gm_get_or [] (om_annotations (tk_meta (mark_triggered 1500000000 (team_task [] ''a'')))) last_trigger_annotation) =
     Some 1000000000"
  using manual_trigger_read_back [of 1500000000 1970 1 1 "team_task [] ''a''"] by simp code_simp

end
