(* ===== verification/AuditRuns.thy ===== *)
theory AuditRuns
  imports ApiRuns
begin

text \<open>
  What a request leaves in the audit log: the middlewares and the handlers of the API on a world that
  carries the events along which were sent to the events API, each with the Namespace it was sent to.
\<close>

section \<open>A world with the events\<close>

type_synonym 'w audited = "'w \<times> (string \<times> audit_event) list"

definition logging_mw :: "'w mw_env \<Rightarrow> 'w audited mw_env" where
  "logging_mw M = (lift_mw M)\<lparr>me_create_event := (\<lambda>ns event (w, l).
     case me_create_event M ns event w of (r, w') \<Rightarrow> (r, w', l @ [(ns, event)]))\<rparr>"

text \<open>The handlers of the API; they have no client of the events API.\<close>

definition audited_handler :: "config \<Rightarrow> 'w auth_env \<Rightarrow> 'w mw_env \<Rightarrow> 'w http_client \<Rightarrow> 'w audited handler" where
  "audited_handler cfg E M C c =
     unnoted (api_handler (configured_env cfg (configured_auth cfg (cf_auth_audience cfg) E) M) C c)"

definition logged_env :: "config \<Rightarrow> 'w auth_env \<Rightarrow> 'w mw_env \<Rightarrow> 'w audited mw_env" where
  "logged_env cfg E M = configured_env cfg (configured_auth cfg (cf_auth_audience cfg) (lift_auth E)) (logging_mw M)"

lemma logged_env_simps [simp]:
  "me_expired (logged_env cfg E M) = unnoted (me_expired M)"
  "me_create_event (logged_env cfg E M) = me_create_event (logging_mw M)"
  "me_authenticate (logged_env cfg E M) = Some (\<lambda>token s. case configured_authenticate cfg
     (configured_auth cfg (cf_auth_audience cfg) (lift_auth E)) token s of (r, s') \<Rightarrow> (map_sum id Some r, s'))"
  "me_authorize (logged_env cfg E M) = Some (authorize (configured_auth cfg (cf_auth_audience cfg) (lift_auth E)))"
  by (simp_all add: logged_env_def configured_env_def logging_mw_def lift_mw_def)

section \<open>Quiet computations\<close>

text \<open>A computation that leaves the log as it is.\<close>

definition silent :: "('w \<times> 'l \<Rightarrow> 'r \<times> ('w \<times> 'l)) \<Rightarrow> bool" where
  "silent f \<longleftrightarrow> (\<forall>s. snd (snd (f s)) = snd s)"

named_theorems silent_intros \<open>rules for computations that leave the log as it is\<close>

lemma silent_unnoted [silent_intros]: "silent (unnoted f)"
  by (auto simp: silent_def unnoted_def split: prod.splits)

lemma silent_return [silent_intros]: "silent (\<lambda>s. (r, s))"
  by (simp add: silent_def)

lemma silent_bind [silent_intros]:
  assumes "silent f" "\<And>r. silent (g r)"
  shows "silent (\<lambda>s. case f s of (r, s') \<Rightarrow> g r s')"
  using assms by (auto simp: silent_def split: prod.split) (metis snd_conv)

lemma silent_if [silent_intros]: "silent f \<Longrightarrow> silent g \<Longrightarrow> silent (\<lambda>s. if b then f s else g s)"
  by (cases b) simp_all

lemma silentD: "silent f \<Longrightarrow> f (w, l) = (r, w', l') \<Longrightarrow> l' = l"
  unfolding silent_def by (metis snd_conv)

lemma silent_authenticate: "silent (configured_authenticate cfg (configured_auth cfg aud (lift_auth E)) token)"
  by (simp add: silent_def lifted_authenticate split_paired_all split: prod.split)

lemma silent_authorize: "silent (authorize (configured_auth cfg aud (lift_auth E)) user a)"
  by (auto simp: silent_def authorize_def configured_auth_def lift_auth_def unnoted_def
      split: option.splits prod.splits sum.splits)

lemma silent_check_each:
  "silent (check_each (logged_env cfg E M) (authorize (configured_auth cfg aud (lift_auth E))) user as)"
proof (induction as)
  case Nil
  show ?case by (simp add: silent_return)
next
  case (Cons a as)
  have "silent (\<lambda>s. if expired then (Some 503, s) else case err of
          None \<Rightarrow> check_each (logged_env cfg E M) (authorize (configured_auth cfg aud (lift_auth E))) user as s
        | Some Unauthenticated \<Rightarrow> (Some 401, s) | Some (AuthenticationUnavailable b) \<Rightarrow> (Some 503, s)
        | Some Forbidden \<Rightarrow> (Some 403, s) | Some (AuthorizationUnavailable b) \<Rightarrow> (Some 503, s))" for err expired
  proof (cases err)
    case None
    then show ?thesis using Cons.IH by (cases expired) (simp_all add: silent_return)
  next
    case (Some e)
    then show ?thesis by (cases expired; cases e) (simp_all add: silent_return)
  qed
  then show ?case
    unfolding check_each.simps logged_env_simps
    by (intro silent_bind silent_authorize silent_unnoted)
qed

section \<open>The handlers of writing requests\<close>

text \<open>The object a successful creation answers with.\<close>

definition created_object :: "response \<Rightarrow> (string \<times> string) option" where
  "created_object r =
     (if rs_status r = 201
      then (case rs_body r of TaskBody t \<Rightarrow> Some (tk_name t, om_uid (tk_meta t))
            | WorkflowBody x \<Rightarrow> Some (wf_name x, om_uid (wf_meta x)) | _ \<Rightarrow> None)
      else None)"

text \<open>An answer: no panic, the caller and the request kept, and a target recorded exactly for a creation.\<close>

definition answers :: "gin_ctx \<Rightarrow> gin_ctx option \<times> 's \<Rightarrow> bool" where
  "answers c r \<longleftrightarrow> (\<exists>c'. fst r = Some c' \<and> gc_user c' = gc_user c \<and> gc_request c' = gc_request c \<and>
     gc_audit_target c' = (case created_object (gc_response c') of None \<Rightarrow> gc_audit_target c | t \<Rightarrow> t))"

lemma answers_reply: "status \<noteq> 201 \<Longrightarrow> answers c (reply status body c w)"
  by (simp add: answers_def created_object_def respond_def)

lemma answers_reject: "status \<noteq> 201 \<Longrightarrow> answers c (Some (reject_authentication status c), w)"
  by (simp add: answers_def created_object_def respond_def reject_authentication_def Let_def)

lemma answers_created:
  "answers c (Some (respond 201 (TaskBody t) (set_audit_target (tk_meta t) c)), w)"
  "answers c (Some (respond 201 (WorkflowBody x) (set_audit_target (wf_meta x) c)), w)"
  by (simp_all add: answers_def created_object_def respond_def set_audit_target_def)

lemma answers_error: "answers c (reply_error msg e c w)"
  by (simp add: reply_error_def answers_reply)

lemma answers_with_task: "(\<And>t w. answers c (k t w)) \<Longrightarrow> answers c (with_task C c k w)"
  by (auto simp: with_task_def answers_error split: sum.split prod.split)

lemma answers_with_workflow: "(\<And>x w. answers c (k x w)) \<Longrightarrow> answers c (with_workflow C c k w)"
  by (auto simp: with_workflow_def answers_error split: sum.split prod.split)

lemma answers_task_create: "answers c (task_create C c w)"
  by (auto simp: task_create_def Let_def answers_reply answers_created split: sum.split prod.split option.split)

lemma answers_task_update: "answers c (task_update C c w)"
  unfolding task_update_def
  by (rule answers_with_task) (auto simp: answers_reply split: sum.split prod.split)

lemma answers_task_delete: "answers c (task_delete C c w)"
proof -
  have "answers c (delete_found_task C c t w)" for t w
    by (auto simp: delete_found_task_def answers_error answers_reply split: prod.split option.split)
  then show ?thesis by (simp add: task_delete_def answers_with_task)
qed

lemma answers_task_trigger: "answers c (task_trigger C c w)"
  unfolding task_trigger_def
  by (rule answers_with_task) (auto simp: answers_reply Let_def split: sum.split prod.split)

lemma answers_set_suspend: "answers c (set_suspend b msg C c w)"
  unfolding set_suspend_def
  by (rule answers_with_task) (auto simp: answers_reply split: sum.split prod.split)

lemma answers_workflow_create: "answers c (workflow_create C c w)"
  by (auto simp: workflow_create_def Let_def answers_reply answers_created split: sum.split prod.split option.split)

lemma answers_workflow_delete: "answers c (workflow_delete C c w)"
  unfolding workflow_delete_def
  by (rule answers_with_workflow) (auto simp: answers_reply answers_error split: prod.split option.split)

lemma audited_keys:
  "gm_get audit_operations key = Some op \<Longrightarrow> key \<in> {''POST /api/v1/tasks'', ''PUT /api/v1/tasks/:name'',
     ''DELETE /api/v1/tasks/:name'', ''POST /api/v1/tasks/:name/trigger'', ''POST /api/v1/tasks/:name/suspend'',
     ''POST /api/v1/tasks/:name/resume'', ''POST /api/v1/workflows'', ''DELETE /api/v1/workflows/:name''}"
  by (auto simp: audit_operations_def gm_get_def split: if_splits)

lemma answers_api_handler:
  assumes "gm_get audit_operations (route_key (gc_request c)) = Some op"
  shows "answers c (api_handler M C c w)"
  using audited_keys [OF assms]
  by (auto simp: api_handler_def Let_def task_suspend_def task_resume_def answers_task_create answers_task_update
      answers_task_delete answers_task_trigger answers_set_suspend answers_workflow_create answers_workflow_delete)


section \<open>Behind the audit\<close>

lemma silent_audited_handler: "silent (audited_handler cfg E M C c)"
  by (simp add: audited_handler_def silent_unnoted)

lemma answers_audited_handler:
  assumes "gm_get audit_operations (route_key (gc_request c)) = Some op"
  shows "answers c (audited_handler cfg E M C c s)"
proof (cases s)
  case (Pair w l)
  have "fst (unnoted f (w, l)) = fst (f w)" for f :: "_ \<Rightarrow> gin_ctx option \<times> _"
    by (simp add: unnoted_pair split: prod.split)
  then show ?thesis
    using answers_api_handler [OF assms] unfolding answers_def audited_handler_def Pair by simp
qed

lemma silent_authorization: "silent (authorization (logged_env cfg E M) (audited_handler cfg E M C) c)"
proof -
  have check: "silent (check_resource_access (logged_env cfg E M) (authorize (configured_auth cfg aud (lift_auth E))) c as)"
    for aud as
    unfolding check_resource_access_def
    by (cases "gc_user c") (simp_all add: silent_return silent_check_each)
  have rest: "silent (\<lambda>s. case r of Some status \<Rightarrow> (Some (reject_authentication status c), s)
      | None \<Rightarrow> audited_handler cfg E M C (c\<lparr>gc_checked := True\<rparr>) s)" for r
    by (cases r) (simp_all add: silent_return silent_audited_handler)
  show ?thesis
    using silent_bind [OF check rest]
    unfolding authorization_def logged_env_simps
    by (cases "gm_get route_permissions (route_key (gc_request c))") (simp_all add: silent_return case_prod_unfold cong: option.case_cong)
qed

lemma check_each_status: "check_each M a user as w = (Some status, w') \<Longrightarrow> status \<noteq> 201"
  by (induction as arbitrary: w) (auto split: prod.splits if_splits option.splits auth_error.splits)

lemma answers_authorization:
  assumes "gm_get audit_operations (route_key (gc_request c)) = Some op"
  shows "answers c (authorization (logged_env cfg E M) (audited_handler cfg E M C) c s)"
proof -
  have "answers (c\<lparr>gc_checked := True\<rparr>) (audited_handler cfg E M C (c\<lparr>gc_checked := True\<rparr>) s)" for s
    by (rule answers_audited_handler) (simp add: assms)
  then have "answers c (audited_handler cfg E M C (c\<lparr>gc_checked := True\<rparr>) s)" for s
    by (simp add: answers_def cong: option.case_cong)
  then show ?thesis
    by (auto simp: authorization_def check_resource_access_def answers_reject
        split: option.splits prod.splits dest!: check_each_status)
qed

text \<open>The name of an account is what follows its Namespace.\<close>

lemma account_name:
  assumes "service_account_namespace username \<noteq> []"
  shows "username = ''system:serviceaccount:'' @ service_account_namespace username @ '':'' @
    fst (cut_prefix username (''system:serviceaccount:'' @ service_account_namespace username @ '':''))"
proof -
  obtain account where u: "username = ''system:serviceaccount:'' @ account"
    using assms by (auto simp: service_account_namespace_def cut_prefix_def has_prefix_iff split: if_splits)
  obtain ns name where c: "cut account (CHR '':'') = (ns, name, True)" "service_account_namespace username = ns"
    using assms unfolding service_account_namespace_def cut_prefix_def u by (auto split: if_splits prod.splits)
  have "username = (''system:serviceaccount:'' @ ns @ '':'') @ name" using u cut_split [OF c(1)] by simp
  then have "cut_prefix username (''system:serviceaccount:'' @ ns @ '':'') = (name, True)"
    by (auto simp: cut_prefix_def has_prefix_iff)
  then have "fst (cut_prefix username (''system:serviceaccount:'' @ ns @ '':'')) = name" by (rule arg_cong [where f = fst, THEN trans]) simp
  with \<open>username = (''system:serviceaccount:'' @ ns @ '':'') @ name\<close> show ?thesis unfolding c(2) by (simp only: append_assoc)
qed


section \<open>The whole request\<close>

lemma logged_authentication:
  assumes "bearer_token (rq_authorization rq) = Some token"
    and "configured_authenticate cfg (configured_auth cfg (cf_auth_audience cfg) E) token w = (r, w1)"
    and "me_expired M w1 = (expired, w2)"
  shows "authentication (logged_env cfg E M) next (new_ctx rq) (w, l) =
    (if expired then (Some (reject_authentication 503 (new_ctx rq)), w2, l)
     else case r of Inl e \<Rightarrow> (Some (reject_authentication (if e = Unauthenticated then 401 else 503) (new_ctx rq)), w2, l)
     | Inr user \<Rightarrow> next ((new_ctx rq)\<lparr>gc_user := Some user\<rparr>) (w2, l))"
  using assms by (cases r) (simp_all add: authentication_def new_ctx_def lifted_authenticate unnoted_pair)

lemma silent_unaudited:
  assumes "gm_get audit_operations (route_key (gc_request c)) = None"
  shows "silent ((if isolated then tenant_isolation else (\<lambda>h. h))
    (audit (logged_env cfg E M) (authorization (logged_env cfg E M) (audited_handler cfg E M C))) c)"
proof -
  have a: "silent (audit (logged_env cfg E M) (authorization (logged_env cfg E M) (audited_handler cfg E M C)) c)"
    if "gc_request c = rq" "gm_get audit_operations (route_key rq) = None" for c rq
    using that silent_authorization [of cfg E M C c] by (simp add: audit_def [abs_def])
  show ?thesis
  proof (cases isolated)
    case True
    have "silent (tenant_isolation (audit (logged_env cfg E M) (authorization (logged_env cfg E M) (audited_handler cfg E M C))) c)"
      unfolding tenant_isolation_def [abs_def] Let_def
      by (cases "gc_user c") (auto intro!: silent_intros a [OF _ assms])
    with True show ?thesis by simp
  next
    case False
    then show ?thesis using a [OF refl assms] by simp
  qed
qed

lemma unaudited_route:
  assumes "has_prefix key ''GET ''"
  shows "gm_get audit_operations key = None"
  using assms audited_keys [of key] by (cases "gm_get audit_operations key") (auto simp: has_prefix_def)

text \<open>
  C32. Every write request of an authenticated caller leaves exactly one audit event, and nothing else
  leaves any. The event is sent to the Namespace of the caller, whether the handler succeeded or
  failed and also when the authorization refused the request. It names the operation, the account with
  its UID and the API key, the HTTP status the client sees, marks failures and denials as such, and
  names the object: the one that was created, or else the one of the path. Reads and requests whose
  token was not accepted leave no event. The handlers are those of the API; they answer every write
  request without a panic and keep the caller.
\<close>

theorem every_write_is_audited:
  fixes E :: "'w auth_env" and M :: "'w mw_env" and C :: "'w http_client"
  assumes "authentication_middleware cfg (lift_auth E) (logging_mw M) = Inr chain" and "cf_auth_enabled cfg"
    and "serve chain (audited_handler cfg E M C) rq (w, []) = (response, w', log)"
    and "route_key rq \<in> set v1_keys"
  shows "(\<forall>token user w\<^sub>1 w\<^sub>2. \<not> has_prefix (route_key rq) ''GET '' \<and>
      bearer_token (rq_authorization rq) = Some token \<and>
      configured_authenticate cfg (configured_auth cfg (cf_auth_audience cfg) E) token w = (Inr user, w\<^sub>1) \<and>
      me_expired M w\<^sub>1 = (False, w\<^sub>2) \<and> service_account_namespace (ui_username user) \<noteq> [] \<longrightarrow>
      (\<exists>op event. gm_get audit_operations (route_key rq) = Some op \<and>
         log = [(service_account_namespace (ui_username user), event)] \<and>
         ae_namespace event = service_account_namespace (ui_username user) \<and>
         ui_username user = ''system:serviceaccount:'' @ ae_namespace event @ '':'' @ ae_account event \<and>
         ae_account_uid event = ui_uid user \<and>
         ae_key_id event = (case gm_get_or [] (ui_extra user) api_key_id_extra of [] \<Rightarrow> None | k # _ \<Rightarrow> Some k) \<and>
         ae_action event = ao_action op \<and>
         ae_note event = ao_kind op @ '' request returned HTTP '' @ show_int (rs_status response) \<and>
         ae_type event = (if 400 \<le> rs_status response then ''Warning'' else ''Normal'') \<and>
         ae_reason event = (if rs_status response = 403 then ''APIRequestDenied''
           else if 400 \<le> rs_status response then ''APIRequestFailed'' else ''APIRequestSucceeded'') \<and>
         ae_related event = (case created_object response of
             Some (name, uid) \<Rightarrow> if name \<noteq> [] then Some (ao_kind op, name, uid) else None
           | None \<Rightarrow> if rq_name rq \<noteq> [] then Some (ao_kind op, rq_name rq, []) else None))) \<and>
    (log \<noteq> [] \<longrightarrow> \<not> has_prefix (route_key rq) ''GET '' \<and>
      (\<exists>token user w\<^sub>1. bearer_token (rq_authorization rq) = Some token \<and>
         configured_authenticate cfg (configured_auth cfg (cf_auth_audience cfg) E) token w = (Inr user, w\<^sub>1)))"
proof -
  let ?M = "logged_env cfg E M" and ?H = "audited_handler cfg E M C"
  let ?tenant = "if cf_tenant_isolation_enabled cfg then tenant_isolation else (\<lambda>h. h)"
  have chain: "chain = (\<lambda>next. authentication ?M (?tenant (audit ?M (authorization ?M next))))"
    using assms(1,2) by (auto simp: authentication_middleware_def new_service_account_authenticator_def new_resource_authorizer_def
        logged_env_def Let_def split: if_splits)
  have run: "serve chain ?H rq (w, []) = (response, w', log)" by fact
  have one: "\<exists>op event. gm_get audit_operations (route_key rq) = Some op \<and>
         log = [(service_account_namespace (ui_username user), event)] \<and>
         ae_namespace event = service_account_namespace (ui_username user) \<and>
         ui_username user = ''system:serviceaccount:'' @ ae_namespace event @ '':'' @ ae_account event \<and>
         ae_account_uid event = ui_uid user \<and>
         ae_key_id event = (case gm_get_or [] (ui_extra user) api_key_id_extra of [] \<Rightarrow> None | k # _ \<Rightarrow> Some k) \<and>
         ae_action event = ao_action op \<and>
         ae_note event = ao_kind op @ '' request returned HTTP '' @ show_int (rs_status response) \<and>
         ae_type event = (if 400 \<le> rs_status response then ''Warning'' else ''Normal'') \<and>
         ae_reason event = (if rs_status response = 403 then ''APIRequestDenied''
           else if 400 \<le> rs_status response then ''APIRequestFailed'' else ''APIRequestSucceeded'') \<and>
         ae_related event = (case created_object response of
             Some (name, uid) \<Rightarrow> if name \<noteq> [] then Some (ao_kind op, name, uid) else None
           | None \<Rightarrow> if rq_name rq \<noteq> [] then Some (ao_kind op, rq_name rq, []) else None)"
    if get: "\<not> has_prefix (route_key rq) ''GET ''" and token: "bearer_token (rq_authorization rq) = Some token"
      and auth: "configured_authenticate cfg (configured_auth cfg (cf_auth_audience cfg) E) token w = (Inr user, w1)"
      and time: "me_expired M w1 = (False, w2)" and ns: "service_account_namespace (ui_username user) \<noteq> []"
    for token user w1 w2
  proof -
    define c where "c = (handler_ctx cfg rq user)\<lparr>gc_checked := False\<rparr>"
    have c: "gc_user c = Some user" "gc_request c = rq" "gc_audit_target c = None"
      by (simp_all add: c_def handler_ctx_def new_ctx_def)
    have "chain ?H (new_ctx rq) (w, []) = audit ?M (authorization ?M ?H) c (w2, [])"
      unfolding chain logged_authentication [OF token auth time]
      using ns by (simp add: tenant_isolation_def with_namespace_def c_def handler_ctx_def new_ctx_def)
    then have served: "serve chain ?H rq (w, []) = (case audit ?M (authorization ?M ?H) c (w2, []) of
        (Some c, w') \<Rightarrow> (gc_response c, w') | (None, w') \<Rightarrow> (empty_response\<lparr>rs_status := 500\<rparr>, w'))"
      by (simp add: serve_def)
    obtain op where op: "gm_get audit_operations (route_key rq) = Some op" by (rule audited_route [OF assms(4) get])
    then have opc: "gm_get audit_operations (route_key (gc_request c)) = Some op" by (simp add: c(2))
    have "case_option None Some t = t" for t :: "(string \<times> string) option" by (cases t) simp_all
    then obtain c' where f: "fst (authorization ?M ?H c (w2, [])) = Some c'"
      and kept: "gc_user c' = Some user" "gc_request c' = rq" "gc_audit_target c' = created_object (gc_response c')"
      using answers_authorization [OF opc, of cfg E M C "(w2, [])"] unfolding answers_def c by auto
    obtain w3 l3 where h: "authorization ?M ?H c (w2, []) = (Some c', w3, l3)" using f by (metis prod.collapse)
    have "l3 = []" by (rule silentD [OF silent_authorization h])
    define event where "event = audit_event_of ?M op user c' (w3, [])"
    have ns': "ae_namespace event = service_account_namespace (ui_username user)"
      by (simp add: event_def audit_event_of_def Let_def)
    have "audit ?M (authorization ?M ?H) c (w2, []) =
        (Some c', snd (me_create_event M (ae_namespace event) event w3), [(ae_namespace event, event)])"
      using h opc kept(1) \<open>l3 = []\<close>
      by (simp add: audit_def event_def [symmetric] Let_def logging_mw_def split: prod.split)
    then have "response = gc_response c'" "log = [(ae_namespace event, event)]"
      using run unfolding served by simp_all
    moreover have "ae_account event =
        fst (cut_prefix (ui_username user) (''system:serviceaccount:'' @ ae_namespace event @ '':''))"
      by (simp add: event_def audit_event_of_def Let_def)
    ultimately show ?thesis
      using op account_name [OF ns] ns'
      by (intro exI [of _ op] exI [of _ event])
        (simp add: event_def audit_event_of_def Let_def kept split: option.split list.split)
  qed
  have none: "\<not> has_prefix (route_key rq) ''GET '' \<and>
      (\<exists>token user w1. bearer_token (rq_authorization rq) = Some token \<and>
         configured_authenticate cfg (configured_auth cfg (cf_auth_audience cfg) E) token w = (Inr user, w1))"
    if logged: "log \<noteq> []"
  proof (cases "bearer_token (rq_authorization rq)")
    case None
    then show ?thesis using run logged by (simp add: serve_def chain authentication_def new_ctx_def)
  next
    case (Some token)
    obtain r w1 where a: "configured_authenticate cfg (configured_auth cfg (cf_auth_audience cfg) E) token w = (r, w1)"
      by (metis surj_pair)
    obtain expired w2 where x: "me_expired M w1 = (expired, w2)" by (metis surj_pair)
    note step = logged_authentication [OF Some a x]
    obtain user where r: "r = Inr user" and live: "\<not> expired"
      using run logged by (cases r; cases expired) (simp_all add: serve_def chain step)
    have "gm_get audit_operations (route_key rq) \<noteq> None"
    proof
      assume q: "gm_get audit_operations (route_key rq) = None"
      have "silent (?tenant (audit ?M (authorization ?M ?H)) ((new_ctx rq)\<lparr>gc_user := Some user\<rparr>))"
        by (rule silent_unaudited) (simp add: q new_ctx_def)
      then have "snd (snd (chain ?H (new_ctx rq) (w, []))) = []"
        unfolding chain step using r live by (simp add: silent_def)
      then show False using run logged by (auto simp: serve_def split: prod.splits option.splits)
    qed
    then have "\<not> has_prefix (route_key rq) ''GET ''" by (auto dest: unaudited_route)
    moreover have "configured_authenticate cfg (configured_auth cfg (cf_auth_audience cfg) E) token w = (Inr user, w1)"
      using a r by simp
    ultimately show ?thesis using Some by (intro conjI exI)
  qed
  show ?thesis using one none by blast
qed


section \<open>An audited request\<close>

definition audited_chain :: "cluster audited middleware" where
  "audited_chain = (\<lambda>next. authentication (logged_env sample_cfg sample_auth quiet_mw)
     (tenant_isolation (audit (logged_env sample_cfg sample_auth quiet_mw)
       (authorization (logged_env sample_cfg sample_auth quiet_mw) next))))"

lemma audited_chain_built: "authentication_middleware sample_cfg (lift_auth sample_auth) (logging_mw quiet_mw) = Inr audited_chain"
  by (simp add: audited_chain_def authentication_middleware_def new_service_account_authenticator_def new_resource_authorizer_def
      sample_cfg_simps sample_trim Let_def logged_env_def)

text \<open>A Task that cannot be read from the request.\<close>

lemma audited_create:
  "fst (serve audited_chain (audited_handler sample_cfg sample_auth quiet_mw sample_http)
     (sample_request ''POST'' ''/api/v1/tasks'') (empty_cluster, [])) = empty_response\<lparr>rs_status := 400, rs_body := ErrorBody []\<rparr>"
proof -
  have "gm_get route_permissions ''POST /api/v1/tasks'' = Some [perm ''tasks'' ''create'' []]"
    "gm_get audit_operations ''POST /api/v1/tasks'' = Some (audit_op ''Task'' ''Create'')"
    by (simp_all add: route_permissions_def audit_operations_def gm_get_def)
  moreover have "service_account_namespace (ui_username sample_user) = ''team-a''"
    by (simp add: sample_user_def sample_canonical)
  ultimately show ?thesis
    by (simp add: audited_chain_def serve_def authentication_def new_ctx_def sample_request_def sample_token
        lifted_authenticate sample_cfg_simps sample_authenticated unnoted_def quiet_mw_def
        tenant_isolation_def with_namespace_def route_key_def audit_def authorization_def check_resource_access_def
        lifted_authorize sample_authorized route_attributes_def perm_def audited_handler_def api_handler_def
        task_create_def respond_def empty_response_def Let_def split: prod.splits)
qed

theorem every_write_is_audited_witness:
  "\<exists>event. snd (snd (serve audited_chain (audited_handler sample_cfg sample_auth quiet_mw sample_http)
      (sample_request ''POST'' ''/api/v1/tasks'') (empty_cluster, []))) = [(''team-a'', event)] \<and>
    ae_account event = ''ci'' \<and> ae_note event = ''Task request returned HTTP 400'' \<and>
    ae_reason event = ''APIRequestFailed'' \<and> ae_type event = ''Warning''"
proof -
  let ?rq = "sample_request ''POST'' ''/api/v1/tasks''"
  obtain w' log where run: "serve audited_chain (audited_handler sample_cfg sample_auth quiet_mw sample_http) ?rq (empty_cluster, []) =
      (empty_response\<lparr>rs_status := 400, rs_body := ErrorBody []\<rparr>, w', log)"
    using audited_create by (metis prod.collapse)
  have rq: "route_key ?rq \<in> set v1_keys" "\<not> has_prefix (route_key ?rq) ''GET ''"
    "bearer_token (rq_authorization ?rq) = Some ''tok''"
    by (simp_all add: sample_request_def route_key_def v1_keys_def v1_routes_def has_prefix_def sample_token)
  have ns: "service_account_namespace (ui_username sample_user) = ''team-a''"
    "ui_username sample_user = ''system:serviceaccount:team-a:ci''"
    by (simp_all add: sample_user_def sample_canonical)
  have a: "configured_authenticate sample_cfg (configured_auth sample_cfg (cf_auth_audience sample_cfg) sample_auth) ''tok'' empty_cluster =
      (Inr sample_user, empty_cluster)"
    by (simp add: sample_cfg_simps sample_authenticated)
  have e: "me_expired quiet_mw empty_cluster = (False, empty_cluster)" by (simp add: quiet_mw_def)
  have op: "gm_get audit_operations (route_key ?rq) = Some (audit_op ''Task'' ''Create'')"
    by (simp add: sample_request_def route_key_def audit_operations_def gm_get_def)
  have shown: "show_int 400 = ''400''" by code_simp
  have n: "service_account_namespace (ui_username sample_user) \<noteq> []" unfolding ns(1) by simp
  note event = conjunct1 [OF every_write_is_audited [OF audited_chain_built sample_cfg_simps(1) run rq(1)], rule_format,
      OF conjI [OF rq(2) conjI [OF rq(3) conjI [OF a conjI [OF e n]]]]]
  from event obtain op event where e: "gm_get audit_operations (route_key ?rq) = Some op" "log = [(''team-a'', event)]"
    "ae_namespace event = ''team-a''"
    "''system:serviceaccount:team-a:ci'' = ''system:serviceaccount:'' @ ae_namespace event @ '':'' @ ae_account event"
    "ae_note event = ao_kind op @ '' request returned HTTP 400''" "ae_reason event = ''APIRequestFailed''" "ae_type event = ''Warning''"
    unfolding ns(1) unfolding ns(2) by (elim exE conjE) (simp add: shown empty_response_def)
  have "op = audit_op ''Task'' ''Create''" using op e(1) by simp
  with e show ?thesis unfolding run by (simp add: audit_op_def)
qed

end
