(* ===== verification/WorkflowTrace.thy ===== *)
theory WorkflowTrace
  imports WorkflowSpec
begin

text \<open>
  What the Workflow controller asks of the API server in a pass and what it is answered: a client
  that writes down its calls with their answers, and the properties that are stated over that
  trace, for deletion, for the ownership of child Tasks and for the nodes that are left running.
\<close>

section \<open>A client with a trace\<close>

datatype exchange =
  ListedTasks "(string, string) gomap" "api_error + task list"
| FetchedTask string "api_error + task"
| CreatedTask task "api_error + task"
| DeletedTask task "string option" "api_error option"
| WroteWorkflow workflow
| WroteStatus workflow
| WroteOther

type_synonym 'w traced = "'w \<times> exchange list"

definition traced :: "('r \<Rightarrow> exchange) \<Rightarrow> ('w \<Rightarrow> 'r \<times> 'w) \<Rightarrow> 'w traced \<Rightarrow> 'r \<times> 'w traced" where
  "traced x f = (\<lambda>(w, l). case f w of (r, w') \<Rightarrow> (r, w', l @ [x r]))"

definition untraced :: "('w \<Rightarrow> 'r \<times> 'w) \<Rightarrow> 'w traced \<Rightarrow> 'r \<times> 'w traced" where
  "untraced f = (\<lambda>(w, l). case f w of (r, w') \<Rightarrow> (r, w', l))"

definition tracing :: "'w kube \<Rightarrow> 'w traced kube" where
  "tracing K = \<lparr>
     k_get_workflow = (\<lambda>n. untraced (k_get_workflow K n)),
     k_update_workflow = (\<lambda>x. traced (\<lambda>_. WroteWorkflow x) (k_update_workflow K x)),
     k_update_workflow_status = (\<lambda>x. traced (\<lambda>_. WroteStatus x) (k_update_workflow_status K x)),
     k_get_task = (\<lambda>n. traced (FetchedTask n) (k_get_task K n)),
     k_list_tasks = (\<lambda>m. traced (ListedTasks m) (k_list_tasks K m)),
     k_create_task = (\<lambda>t. traced (CreatedTask t) (k_create_task K t)),
     k_update_task = (\<lambda>t. traced (\<lambda>_. WroteOther) (k_update_task K t)),
     k_update_task_status = (\<lambda>t. traced (\<lambda>_. WroteOther) (k_update_task_status K t)),
     k_delete_task = (\<lambda>t uid. traced (DeletedTask t uid) (k_delete_task K t uid)),
     k_list_jobs = (\<lambda>ns m. untraced (k_list_jobs K ns m)),
     k_create_job = (\<lambda>j. traced (\<lambda>_. WroteOther) (k_create_job K j)),
     k_delete_job = (\<lambda>j. traced (\<lambda>_. WroteOther) (k_delete_job K j)),
     k_is_controlled_by = k_is_controlled_by K,
     k_set_controller_reference = k_set_controller_reference K,
     k_contains_finalizer = k_contains_finalizer K,
     k_add_finalizer = k_add_finalizer K,
     k_remove_finalizer = k_remove_finalizer K,
     k_parse_cron = k_parse_cron K\<rparr>"

lemma tracing_calls [simp]:
  "k_get_workflow (tracing K) n (w, l) = (case k_get_workflow K n w of (r, w') \<Rightarrow> (r, w', l))"
  "k_update_workflow (tracing K) x (w, l) =
     (case k_update_workflow K x w of (r, w') \<Rightarrow> (r, w', l @ [WroteWorkflow x]))"
  "k_update_workflow_status (tracing K) x (w, l) =
     (case k_update_workflow_status K x w of (r, w') \<Rightarrow> (r, w', l @ [WroteStatus x]))"
  "k_get_task (tracing K) n (w, l) = (case k_get_task K n w of (r, w') \<Rightarrow> (r, w', l @ [FetchedTask n r]))"
  "k_list_tasks (tracing K) m (w, l) = (case k_list_tasks K m w of (r, w') \<Rightarrow> (r, w', l @ [ListedTasks m r]))"
  "k_create_task (tracing K) t (w, l) = (case k_create_task K t w of (r, w') \<Rightarrow> (r, w', l @ [CreatedTask t r]))"
  "k_delete_task (tracing K) t uid (w, l) =
     (case k_delete_task K t uid w of (d, w') \<Rightarrow> (d, w', l @ [DeletedTask t uid d]))"
  by (simp_all add: tracing_def traced_def untraced_def split: prod.split)

lemma tracing_helpers [simp]:
  "k_is_controlled_by (tracing K) = k_is_controlled_by K"
  "k_set_controller_reference (tracing K) = k_set_controller_reference K"
  "k_contains_finalizer (tracing K) = k_contains_finalizer K"
  "k_add_finalizer (tracing K) = k_add_finalizer K"
  "k_remove_finalizer (tracing K) = k_remove_finalizer K"
  by (simp_all add: tracing_def)

definition tracing_env :: "'w wf_env \<Rightarrow> 'w traced wf_env" where
  "tracing_env E = \<lparr>we_kube = tracing (we_kube E), we_now = we_now E, we_visit = we_visit E\<rparr>"

lemma tracing_env_simps [simp]:
  "we_kube (tracing_env E) = tracing (we_kube E)"
  "we_now (tracing_env E) = we_now E" "we_visit (tracing_env E) = we_visit E"
  by (simp_all add: tracing_env_def)

section \<open>The list of children\<close>

text \<open>The labels the children are listed by, and the Tasks of the answer that belong to the Workflow.\<close>

definition child_labels :: "workflow \<Rightarrow> (string, string) gomap" where
  "child_labels wfl = (let labels = gm_put workflow_label (wf_name wfl) gm_empty in
     if meta_namespace (wf_meta wfl) \<noteq> [] then gm_put tenant_label (meta_namespace (wf_meta wfl)) labels else labels)"

lemma list_child_tasks_traced:
  "list_child_tasks (tracing K) wfl (w, l) = (case list_child_tasks K wfl w of (r, w') \<Rightarrow>
     (r, w', l @ [ListedTasks (child_labels wfl) (fst (k_list_tasks K (child_labels wfl) w))]))"
  by (simp add: list_child_tasks_def child_labels_def Let_def split: prod.splits sum.splits)

lemma children_owned:
  assumes "list_child_tasks K wfl w = (Inr children, w1)" and "gm_get children n = Some t"
  shows "owned K wfl t \<and> tk_name t = n \<and>
    (\<exists>items. fst (k_list_tasks K (child_labels wfl) w) = Inr items \<and> t \<in> set items)"
proof -
  let ?Q = "\<lambda>t. meta_namespace (tk_meta t) = meta_namespace (wf_meta wfl) \<and>
    k_is_controlled_by K (tk_meta t) (wf_meta wfl)"
  have member: "gm_get (foldl (\<lambda>m t. if ?Q t then gm_put (tk_name t) t m else m) m0 items) n = Some t \<Longrightarrow>
      t \<in> set items \<or> gm_get m0 n = Some t" for items m0
    by (induction items arbitrary: m0) (fastforce simp: gm.get_put split: if_splits)+
  from assms(1) obtain items where "children = foldl (\<lambda>m t. if ?Q t then gm_put (tk_name t) t m else m) gm_empty items"
    and "fst (k_list_tasks K (child_labels wfl) w) = Inr items"
    by (auto simp: list_child_tasks_def child_labels_def Let_def split: prod.splits sum.splits)
  with assms(2) foldl_put_owned [of ?Q gm_empty items n t] member [of gm_empty items]
  show ?thesis by (auto simp: owned_def gm.get_emp)
qed

section \<open>Creating and adopting\<close>

text \<open>What is asked for a node, and when the pass was given a Task for it.\<close>

definition asked :: "'w kube \<Rightarrow> workflow \<Rightarrow> graph \<Rightarrow> string \<Rightarrow> exchange \<Rightarrow> bool" where
  "asked K wfl g n x \<longleftrightarrow> (\<exists>a. x = FetchedTask (child_task_name (wf_name wfl) n) a) \<or>
     (\<exists>meta a. k_set_controller_reference K (wf_meta wfl) (tk_meta (new_child_task wfl g n)) = Inr meta \<and>
        x = CreatedTask ((new_child_task wfl g n)\<lparr>tk_meta := meta\<rparr>) a)"

definition obtained :: "'w kube \<Rightarrow> workflow \<Rightarrow> graph \<Rightarrow> string \<Rightarrow> task \<Rightarrow> exchange list \<Rightarrow> bool" where
  "obtained K wfl g n t log \<longleftrightarrow>
     (\<exists>meta. k_set_controller_reference K (wf_meta wfl) (tk_meta (new_child_task wfl g n)) = Inr meta \<and>
        CreatedTask ((new_child_task wfl g n)\<lparr>tk_meta := meta\<rparr>) (Inr t) \<in> set log) \<or>
     FetchedTask (child_task_name (wf_name wfl) n) (Inr t) \<in> set log \<and> owned K wfl t"

definition foreign :: "'w kube \<Rightarrow> workflow \<Rightarrow> exchange list \<Rightarrow> bool" where
  "foreign K wfl log \<longleftrightarrow> (\<exists>n t. FetchedTask n (Inr t) \<in> set log \<and> \<not> owned K wfl t)"

lemma obtained_append: "obtained K wfl g n t a \<or> obtained K wfl g n t b \<Longrightarrow> obtained K wfl g n t (a @ b)"
  by (auto simp: obtained_def)

lemma foreign_append [simp]: "foreign K wfl (a @ b) \<longleftrightarrow> foreign K wfl a \<or> foreign K wfl b"
  by (auto simp: foreign_def)

lemma foreign_Cons [simp]:
  "foreign K wfl (x # l) \<longleftrightarrow> (\<exists>n t. x = FetchedTask n (Inr t) \<and> \<not> owned K wfl t) \<or> foreign K wfl l"
  unfolding foreign_def list.set by blast

lemma foreign_Nil [simp]: "\<not> foreign K wfl []"
  by (simp add: foreign_def)

lemma create_child_task_trace:
  assumes "create_child_task (tracing K) wfl g n (w, l) = (r, w', l')"
  obtains new where "l' = l @ new" "\<forall>x \<in> set new. asked K wfl g n x"
    "\<And>t. r = Inr t \<Longrightarrow> obtained K wfl g n t new" "foreign K wfl new \<longleftrightarrow> (\<exists>m. r = Inl (TaskNameConflict m))"
proof -
  let ?t = "new_child_task wfl g n"
  show ?thesis
  proof (cases "k_set_controller_reference K (wf_meta wfl) (tk_meta ?t)")
    case (Inl e)
    with assms show ?thesis by (intro that [of "[]"]) (auto simp: create_child_task_def Let_def)
  next
    case (Inr meta)
    obtain q w1 where c: "k_create_task K (?t\<lparr>tk_meta := meta\<rparr>) w = (q, w1)" by (metis surj_pair)
    obtain f w2 where f: "k_get_task K (child_task_name (wf_name wfl) n) w1 = (f, w2)" by (metis surj_pair)
    let ?c = "CreatedTask (?t\<lparr>tk_meta := meta\<rparr>) q" and ?f = "FetchedTask (child_task_name (wf_name wfl) n) f"
    show ?thesis
    proof (cases "\<exists>e. q = Inl e \<and> is_already_exists e")
      case False
      with assms Inr c show ?thesis
        by (intro that [of "[?c]"]) (auto simp: create_child_task_def Let_def asked_def obtained_def foreign_def split: sum.splits if_splits)
    next
      case True
      with assms Inr c f show ?thesis
        by (intro that [of "[?c, ?f]"])
          (auto simp: create_child_task_def Let_def asked_def obtained_def foreign_def owned_def conflict_error_def
            split: sum.splits if_splits)
    qed
  qed
qed

section \<open>The two loops\<close>

text \<open>
  What the first loop makes of a node, and the second: a node that runs afterwards has a Task in the
  list that is not finished, or one the pass was given.
\<close>

definition kept_running ::
  "'w kube \<Rightarrow> workflow \<Rightarrow> graph \<Rightarrow> (string, task) gomap \<Rightarrow> exchange list \<Rightarrow>
   workflow_node_status \<Rightarrow> workflow_node_status \<Rightarrow> bool" where
  "kept_running K wfl g children log a b \<longleftrightarrow> wn_name b = wn_name a \<and>
     (wn_phase a \<noteq> NodeRunning \<longrightarrow> b = a) \<and> (wn_phase a = NodeRunning \<longrightarrow> wn_phase b \<noteq> NodePending) \<and>
     (wn_phase a = NodeRunning \<and> wn_phase b = NodeRunning \<longrightarrow>
       (case gm_get children (child_task_name (wf_name wfl) (wn_name a)) of
          Some t \<Rightarrow> \<not> task_finished t | None \<Rightarrow> \<exists>t. obtained K wfl g (wn_name a) t log))"

definition set_running ::
  "'w kube \<Rightarrow> workflow \<Rightarrow> graph \<Rightarrow> exchange list \<Rightarrow> workflow_node_status \<Rightarrow> workflow_node_status \<Rightarrow> bool" where
  "set_running K wfl g log a b \<longleftrightarrow> wn_name b = wn_name a \<and> (wn_phase a \<noteq> NodePending \<longrightarrow> b = a) \<and>
     (wn_phase a = NodePending \<and> wn_phase b = NodeRunning \<longrightarrow>
       (\<exists>t. obtained K wfl g (wn_name a) t log \<and> \<not> task_finished t))"

lemma kept_running_append:
  "kept_running K wfl g children l a b \<or> kept_running K wfl g children l' a b \<Longrightarrow> kept_running K wfl g children (l @ l') a b"
  unfolding kept_running_def by (auto intro: obtained_append split: option.splits)

lemma set_running_append:
  "set_running K wfl g l a b \<or> set_running K wfl g l' a b \<Longrightarrow> set_running K wfl g (l @ l') a b"
  unfolding set_running_def by (auto intro: obtained_append)

lemma stop_loop_conflict [simp]: "(\<exists>m. stop_loop e = LoopConflict m) \<longleftrightarrow> (\<exists>m. e = TaskNameConflict m)" "stop_loop e \<noteq> LoopDone"
  by (cases e; simp add: stop_loop_def)+

lemma cons_node_result: "cons_node node r = (ns, rest) \<longleftrightarrow> (\<exists>ns'. ns = node # ns' \<and> r = (ns', rest))"
  by (cases r) (auto simp: cons_node_def)

lemma sync_running_trace:
  assumes "sync_running (tracing_env E) wfl g children nodes st (w, l) = (nodes', st', e, w', l')"
  shows "\<exists>new. l' = l @ new \<and> (\<forall>x \<in> set new. \<exists>n \<in> wn_name ` set nodes. asked (we_kube E) wfl g n x) \<and>
    (foreign (we_kube E) wfl new \<longleftrightarrow> (\<exists>m. e = LoopConflict m)) \<and> map wn_name nodes' = map wn_name nodes \<and>
    (e = LoopDone \<longrightarrow> list_all2 (kept_running (we_kube E) wfl g children new) nodes nodes')"
  using assms
proof (induction nodes arbitrary: st w l nodes')
  case Nil
  then show ?case by simp
next
  case (Cons node nodes)
  let ?K = "we_kube E"
  let ?goal = "\<lambda>new. l' = l @ new \<and> (\<forall>x \<in> set new. \<exists>n \<in> wn_name ` set (node # nodes). asked ?K wfl g n x) \<and>
    (foreign ?K wfl new \<longleftrightarrow> (\<exists>m. e = LoopConflict m)) \<and> map wn_name nodes' = map wn_name (node # nodes) \<and>
    (e = LoopDone \<longrightarrow> list_all2 (kept_running ?K wfl g children new) (node # nodes) nodes')"
  have step: "\<exists>new. ?goal new"
    if run: "cons_node node' (sync_running (tracing_env E) wfl g children nodes st1 (w1, l @ l1)) = (nodes', st', e, w', l')"
      and first: "\<forall>x \<in> set l1. asked ?K wfl g (wn_name node) x" "\<not> foreign ?K wfl l1" "kept_running ?K wfl g children l1 node node'"
    for node' st1 w1 l1
  proof -
    from run obtain rest where n: "nodes' = node' # rest"
      and r: "sync_running (tracing_env E) wfl g children nodes st1 (w1, l @ l1) = (rest, st', e, w', l')"
      by (auto simp: cons_node_result)
    from Cons.IH [OF r] obtain new where new: "l' = (l @ l1) @ new"
      "\<forall>x \<in> set new. \<exists>n \<in> wn_name ` set nodes. asked ?K wfl g n x"
      "foreign ?K wfl new \<longleftrightarrow> (\<exists>m. e = LoopConflict m)" "map wn_name rest = map wn_name nodes"
      "e = LoopDone \<longrightarrow> list_all2 (kept_running ?K wfl g children new) nodes rest"
      by (elim exE conjE) (rule that)
    have "list_all2 (kept_running ?K wfl g children (l1 @ new)) nodes rest" if "e = LoopDone"
      using new(5) that by (auto elim!: list_all2_mono intro: kept_running_append)
    moreover have "wn_name node' = wn_name node" using first(3) by (simp add: kept_running_def)
    ultimately show ?thesis
      using new first kept_running_append [of ?K wfl g children l1 node node' new]
      by (intro exI [of _ "l1 @ new"]) (auto simp: n)
  qed
  show ?case
  proof (cases "wn_phase node = NodeRunning")
    case False
    with Cons.prems show ?thesis by (intro step [of node st w "[]"]) (simp_all add: kept_running_def)
  next
    case running: True
    show ?thesis
    proof (cases "gm_get children (child_task_name (wf_name wfl) (wn_name node))")
      case (Some child)
      obtain node' synced where sync: "sync_node_from_task (we_now E (NowNodeDone (wn_name node))) node child = (node', synced)"
        by (metis surj_pair)
      have "kept_running ?K wfl g children [] node node'"
        using sync running by (rule sync_node_cases) (auto simp: kept_running_def running Some)
      with Cons.prems running Some sync show ?thesis
        by (intro step [of node' _ w "[]"]) (simp_all add: Let_def)
    next
      case None
      obtain q w1 l1 where c: "create_child_task (tracing ?K) wfl g (wn_name node) (w, l) = (q, w1, l1)"
        by (metis prod_cases3)
      from create_child_task_trace [OF c] obtain new where new: "l1 = l @ new"
        "\<forall>x \<in> set new. asked ?K wfl g (wn_name node) x" "\<And>t. q = Inr t \<Longrightarrow> obtained ?K wfl g (wn_name node) t new"
        "foreign ?K wfl new \<longleftrightarrow> (\<exists>m. q = Inl (TaskNameConflict m))" by metis
      show ?thesis
      proof (cases q)
        case (Inl err)
        with Cons.prems running None c have "nodes' = node # nodes" "e = stop_loop err" "l' = l @ new"
          by (simp_all add: new(1))
        then show ?thesis using new(2,4) Inl by (intro exI [of _ new]) auto
      next
        case (Inr t)
        have "kept_running ?K wfl g children new node node"
          using new(3) [OF Inr] running None by (auto simp: kept_running_def)
        with Cons.prems running None c new Inr show ?thesis
          by (intro step [of node st w1 new]) simp_all
      qed
    qed
  qed
qed

lemma schedule_pending_trace:
  assumes "schedule_pending (tracing_env E) wfl g nodes st (w, l) = (nodes', st', e, w', l')"
  shows "\<exists>new. l' = l @ new \<and> (\<forall>x \<in> set new. \<exists>n \<in> wn_name ` set nodes. asked (we_kube E) wfl g n x) \<and>
    (foreign (we_kube E) wfl new \<longleftrightarrow> (\<exists>m. e = LoopConflict m)) \<and> map wn_name nodes' = map wn_name nodes \<and>
    list_all2 (set_running (we_kube E) wfl g new) nodes nodes'"
  using assms
proof (induction nodes arbitrary: st w l nodes')
  case Nil
  then show ?case by simp
next
  case (Cons node nodes)
  let ?K = "we_kube E"
  let ?goal = "\<lambda>new. l' = l @ new \<and> (\<forall>x \<in> set new. \<exists>n \<in> wn_name ` set (node # nodes). asked ?K wfl g n x) \<and>
    (foreign ?K wfl new \<longleftrightarrow> (\<exists>m. e = LoopConflict m)) \<and> map wn_name nodes' = map wn_name (node # nodes) \<and>
    list_all2 (set_running ?K wfl g new) (node # nodes) nodes'"
  have step: "\<exists>new. ?goal new"
    if run: "cons_node node' (schedule_pending (tracing_env E) wfl g nodes st1 (w1, l @ l1)) = (nodes', st', e, w', l')"
      and first: "\<forall>x \<in> set l1. asked ?K wfl g (wn_name node) x" "\<not> foreign ?K wfl l1" "set_running ?K wfl g l1 node node'"
    for node' st1 w1 l1
  proof -
    from run obtain rest where n: "nodes' = node' # rest"
      and r: "schedule_pending (tracing_env E) wfl g nodes st1 (w1, l @ l1) = (rest, st', e, w', l')"
      by (auto simp: cons_node_result)
    from Cons.IH [OF r] obtain new where new: "l' = (l @ l1) @ new"
      "\<forall>x \<in> set new. \<exists>n \<in> wn_name ` set nodes. asked ?K wfl g n x"
      "foreign ?K wfl new \<longleftrightarrow> (\<exists>m. e = LoopConflict m)" "map wn_name rest = map wn_name nodes"
      "list_all2 (set_running ?K wfl g new) nodes rest"
      by (elim exE conjE) (rule that)
    have "list_all2 (set_running ?K wfl g (l1 @ new)) nodes rest"
      using new(5) by (auto elim!: list_all2_mono intro: set_running_append)
    moreover have "wn_name node' = wn_name node" using first(3) by (simp add: set_running_def)
    ultimately show ?thesis
      using new first set_running_append [of ?K wfl g l1 node node' new]
      by (intro exI [of _ "l1 @ new"]) (auto simp: n)
  qed
  have same: "set_running ?K wfl g l1 node node" if "wn_phase node \<noteq> NodeRunning \<or> wn_phase node \<noteq> NodePending" for l1
    using that by (auto simp: set_running_def)
  show ?case
  proof (cases "wn_phase node = NodePending")
    case False
    with Cons.prems show ?thesis by (intro step [of node st w "[]"]) (simp_all add: same)
  next
    case pending: True
    obtain act reason where dec: "decide_node g (lp_phases st) (wn_name node) = (act, reason)" by (metis surj_pair)
    let ?max = "wsp_max_parallel (wf_spec wfl)"
    consider (wait) "act = NodeWait \<or> act = NodeReady \<and> 0 < ?max \<and> ?max \<le> lp_running st"
      | (skip) "act = NodeSkip" | (ready) "act = NodeReady" "\<not> (0 < ?max \<and> ?max \<le> lp_running st)"
      by (cases act) auto
    then show ?thesis
    proof cases
      case wait
      with Cons.prems pending dec show ?thesis
        by (intro step [of node st w "[]"]) (auto simp: same pending)
    next
      case skip
      with Cons.prems pending dec show ?thesis
        by (intro step [of "mark_node_skipped (we_now E (NowNodeSkipped (wn_name node))) node reason" _ w "[]"])
          (auto simp: set_running_def mark_node_skipped_def Let_def)
    next
      case ready
      obtain q w1 l1 where c: "create_child_task (tracing ?K) wfl g (wn_name node) (w, l) = (q, w1, l1)"
        by (metis prod_cases3)
      from create_child_task_trace [OF c] obtain new where new: "l1 = l @ new"
        "\<forall>x \<in> set new. asked ?K wfl g (wn_name node) x" "\<And>t. q = Inr t \<Longrightarrow> obtained ?K wfl g (wn_name node) t new"
        "foreign ?K wfl new \<longleftrightarrow> (\<exists>m. q = Inl (TaskNameConflict m))" by metis
      show ?thesis
      proof (cases q)
        case (Inl err)
        with Cons.prems pending dec ready c have "nodes' = node # nodes" "e = stop_loop err" "l' = l @ new"
          by (auto simp: new(1))
        moreover have "list_all2 (set_running ?K wfl g new) ns ns" for ns
          by (rule list_all2_refl) (auto simp: set_running_def)
        ultimately show ?thesis using new(2,4) Inl by (intro exI [of _ new]) auto
      next
        case (Inr t)
        let ?run = "mark_node_running (we_now E (NowNodeStart (wn_name node))) node t"
        obtain node' synced where sync: "sync_node_from_task (we_now E (NowNodeDone (wn_name node))) ?run t = (node', synced)"
          by (metis surj_pair)
        have run: "wn_phase ?run = NodeRunning" "wn_name ?run = wn_name node"
          by (simp_all add: mark_node_running_def Let_def)
        have "set_running ?K wfl g new node node'"
          using sync run(1) by (rule sync_node_cases) (use new(3) [OF Inr] run pending in \<open>auto simp: set_running_def\<close>)
        with Cons.prems pending dec ready c new Inr sync show ?thesis
          by (intro step [of node' _ w1 new]) (auto simp: Let_def)
      qed
    qed
  qed
qed

section \<open>A pass\<close>

text \<open>A node after a pass: if it runs, its Task is known not to have finished, or was asked for again.\<close>

definition looked_after ::
  "'w kube \<Rightarrow> workflow \<Rightarrow> graph \<Rightarrow> (string, task) gomap \<Rightarrow> exchange list \<Rightarrow>
   workflow_node_status \<Rightarrow> workflow_node_status \<Rightarrow> bool" where
  "looked_after K wfl g children log a b \<longleftrightarrow> wn_name b = wn_name a \<and>
     (wn_phase b = NodeRunning \<longrightarrow>
       (if wn_phase a = NodeRunning
        then (case gm_get children (child_task_name (wf_name wfl) (wn_name a)) of
          Some t \<Rightarrow> \<not> task_finished t | None \<Rightarrow> \<exists>t. obtained K wfl g (wn_name a) t log)
        else \<exists>t. obtained K wfl g (wn_name a) t log \<and> \<not> task_finished t))"

lemma looked_after_both:
  assumes "kept_running K wfl g children l a b" and "set_running K wfl g l' b c"
  shows "looked_after K wfl g children (l @ l') a c"
proof -
  have more: "obtained K wfl g n t l \<Longrightarrow> obtained K wfl g n t (l @ l')" "obtained K wfl g n t l' \<Longrightarrow> obtained K wfl g n t (l @ l')" for n t
    by (simp_all add: obtained_append)
  from assms show ?thesis
    unfolding kept_running_def set_running_def looked_after_def
    by (cases "wn_phase a = NodeRunning"; cases "wn_phase b = NodePending")
      (auto 0 3 split: option.splits intro: more)
qed

lemma advance_loops_trace:
  assumes "advance_loops (tracing_env E) wfl g children (w, l) = (nodes, st, e, w', l')"
  shows "\<exists>new. l' = l @ new \<and> (\<forall>x \<in> set new. \<exists>n \<in> wn_name ` set (status_nodes wfl). asked (we_kube E) wfl g n x) \<and>
    (foreign (we_kube E) wfl new \<longleftrightarrow> (\<exists>m. e = LoopConflict m)) \<and>
    (e = LoopDone \<longrightarrow> list_all2 (looked_after (we_kube E) wfl g children new) (status_nodes wfl) nodes)"
proof -
  let ?K = "we_kube E" and ?ns = "ws_nodes (wf_status wfl)"
  obtain nodes1 st1 e1 w1 l1 where
    s: "sync_running (tracing_env E) wfl g children ?ns (initial_loop_state ?ns) (w, l) = (nodes1, st1, e1, w1, l1)"
    by (metis prod_cases5)
  from sync_running_trace [OF s] obtain new1 where 1: "l1 = l @ new1"
    "\<forall>x \<in> set new1. \<exists>n \<in> wn_name ` set ?ns. asked ?K wfl g n x"
    "foreign ?K wfl new1 \<longleftrightarrow> (\<exists>m. e1 = LoopConflict m)" "map wn_name nodes1 = map wn_name ?ns"
    "e1 = LoopDone \<longrightarrow> list_all2 (kept_running ?K wfl g children new1) ?ns nodes1"
    by (elim exE conjE) (rule that)
  show ?thesis
  proof (cases "e1 = LoopDone")
    case False
    with assms s have "e = e1" "l' = l1" by (auto simp: advance_loops_def split: loop_end.splits)
    with 1 False show ?thesis by (intro exI [of _ new1]) (simp add: status_nodes_def)
  next
    case True
    with assms s have p: "schedule_pending (tracing_env E) wfl g nodes1 st1 (w1, l @ new1) = (nodes, st, e, w', l')"
      by (simp add: advance_loops_def 1(1))
    from schedule_pending_trace [OF p] obtain new2 where 2: "l' = (l @ new1) @ new2"
      "\<forall>x \<in> set new2. \<exists>n \<in> wn_name ` set nodes1. asked ?K wfl g n x"
      "foreign ?K wfl new2 \<longleftrightarrow> (\<exists>m. e = LoopConflict m)" "list_all2 (set_running ?K wfl g new2) nodes1 nodes"
      by (elim exE conjE) (rule that)
    have names: "wn_name ` set nodes1 = wn_name ` set ?ns" using 1(4) by (metis set_map)
    have "list_all2 (looked_after ?K wfl g children (new1 @ new2)) ?ns nodes"
      by (rule list_all2_trans [OF looked_after_both 1(5) [rule_format, OF True] 2(4)])
    then show ?thesis
      using 1(2,3) 2(1-3) True unfolding names by (intro exI [of _ "new1 @ new2"]) (auto simp: status_nodes_def)
  qed
qed

lemma same_child:
  assumes "wf_meta a = wf_meta b" "wf_spec a = wf_spec b"
  shows "new_child_task a g n = new_child_task b g n" "asked K a = asked K b" "obtained K a = obtained K b"
    "foreign K a = foreign K b" "child_labels a = child_labels b" "owned K a = owned K b"
    "list_child_tasks K a = list_child_tasks K b" "looked_after K a = looked_after K b"
proof -
  have t: "new_child_task a g n = new_child_task b g n" for g n
    using assms by (simp add: new_child_task_def child_task_spec_def split: option.split)
  have o: "owned K a = owned K b" unfolding owned_def [abs_def] assms by (rule refl)
  have ob: "obtained K a = obtained K b" unfolding obtained_def [abs_def] t o assms by (rule refl)
  show "new_child_task a g n = new_child_task b g n" "owned K a = owned K b" "obtained K a = obtained K b"
    by (rule t o ob)+
  show "asked K a = asked K b" unfolding asked_def [abs_def] t assms by (rule refl)
  show "foreign K a = foreign K b" unfolding foreign_def [abs_def] o by (rule refl)
  show "child_labels a = child_labels b" unfolding child_labels_def assms by (rule refl)
  show "list_child_tasks K a = list_child_tasks K b" unfolding list_child_tasks_def [abs_def] assms by (rule refl)
  show "looked_after K a = looked_after K b" unfolding looked_after_def [abs_def] ob assms by (rule refl)
qed

lemma graph_pass_trace:
  assumes "graph_pass (tracing_env E) wfl g (w, l) = (r, w', l')"
  obtains new where "l' = l @ ListedTasks (child_labels wfl) (fst (k_list_tasks (we_kube E) (child_labels wfl) w)) # new"
    "\<forall>x \<in> set new. \<exists>n \<in> set (graph_order g). asked (we_kube E) wfl g n x"
    "foreign (we_kube E) wfl new \<Longrightarrow> \<exists>v ch. r = Inr (v, ch) \<and> ws_phase (wf_status v) = WorkflowFailed"
    "\<And>v ch. r = Inr (v, ch) \<Longrightarrow> wf_meta v = wf_meta wfl \<and> wf_spec v = wf_spec wfl \<and>
       (ws_phase (wf_status v) = WorkflowFailed \<or>
        (\<exists>children w1. list_child_tasks (we_kube E) wfl w = (Inr children, w1) \<and>
           list_all2 (looked_after (we_kube E) wfl g children new)
             (status_nodes (fst (initialize_status (we_now E NowStart) wfl g))) (status_nodes v)))"
proof -
  let ?K = "we_kube E"
  define wf1 where "wf1 = fst (initialize_status (we_now E NowStart) wfl g)"
  have same: "wf_meta wf1 = wf_meta wfl" "wf_spec wf1 = wf_spec wfl" by (simp_all add: wf1_def)
  note s = same_child [OF same]
  let ?x = "ListedTasks (child_labels wfl) (fst (k_list_tasks ?K (child_labels wfl) w))"
  have names: "wn_name ` set (status_nodes wf1) = set (graph_order g)"
    unfolding wf1_def initialize_status_nodes by (metis init_nodes_names set_map)
  obtain q w1 where q: "list_child_tasks ?K wfl w = (q, w1)" by (metis surj_pair)
  have listed: "list_child_tasks (tracing ?K) wf1 (w, l) = (q, w1, l @ [?x])"
    by (simp add: list_child_tasks_traced s q)
  show ?thesis
  proof (cases q)
    case (Inl e)
    with assms listed show ?thesis
      by (intro that [of "[]"]) (simp_all add: graph_pass_def case_prod_unfold wf1_def [symmetric] advance_nodes_def)
  next
    case (Inr children)
    obtain nodes st e w2 l2 where a: "advance_loops (tracing_env E) wf1 g children (w1, l @ [?x]) = (nodes, st, e, w2, l2)"
      by (metis prod_cases5)
    from advance_loops_trace [OF a] obtain new where new: "l2 = (l @ [?x]) @ new"
      "\<forall>x \<in> set new. \<exists>n \<in> set (graph_order g). asked ?K wfl g n x"
      "foreign ?K wfl new \<longleftrightarrow> (\<exists>m. e = LoopConflict m)"
      "e = LoopDone \<longrightarrow> list_all2 (looked_after ?K wfl g children new) (status_nodes wf1) nodes"
      unfolding names s by (elim exE conjE) (rule that)
    have "l' = l2 \<and> (case e of LoopDone \<Rightarrow> \<exists>v ch. r = Inr (v, ch) \<and> status_nodes v = nodes \<and> wf_meta v = wf_meta wfl \<and> wf_spec v = wf_spec wfl
        | LoopConflict m \<Rightarrow> \<exists>v ch. r = Inr (v, ch) \<and> ws_phase (wf_status v) = WorkflowFailed \<and> wf_meta v = wf_meta wfl \<and> wf_spec v = wf_spec wfl
        | LoopError err \<Rightarrow> r = Inl err)"
    proof -
      obtain wf2 adv where adv: "(case e of LoopError err \<Rightarrow> True | _ \<Rightarrow>
          advance_nodes (tracing_env E) wf1 g (w, l) = (Inr (wf2, adv), w2, l2) \<and>
          wf_meta wf2 = wf_meta wfl \<and> wf_spec wf2 = wf_spec wfl \<and> status_nodes wf2 = nodes \<and>
          ((\<exists>m. e = LoopConflict m) \<longrightarrow> ws_phase (wf_status wf2) = WorkflowFailed))"
        using fail_workflow_keeps [of "we_now E NowFailed" "with_nodes wf1 nodes"] same
        by (cases e) (auto simp: advance_nodes_def listed Inr a status_nodes_def case_prod_unfold)
      have final: "ws_phase (wf_status (fst (summarize now v))) = WorkflowFailed" if "ws_phase (wf_status v) = WorkflowFailed" for now v
        using that by (simp add: summarize_def Let_def is_workflow_terminal_def)
      show ?thesis
        using assms adv final [of wf2 "we_now E NowSummary"] summarize_keeps [of "we_now E NowSummary" wf2]
        by (cases e) (auto simp: graph_pass_def case_prod_unfold wf1_def [symmetric] advance_nodes_def listed Inr a)
    qed
    then show ?thesis
      using new q Inr by (intro that [of new]) (auto simp: wf1_def [symmetric] split: loop_end.splits)
  qed
qed

section \<open>Deletion\<close>

lemma visited_children_all:
  assumes "\<And>ks. set (we_visit E ks) = set ks" and "gm_get children n = Some c"
  shows "c \<in> set (visited_children E children)"
proof -
  have "n \<in> set (we_visit E (gm_keys children))" using assms gm.keys_get [of n children] by simp
  with assms(2) show ?thesis by (force simp: visited_children_def List.map_filter_def)
qed

text \<open>The trace of the deletion of children: one delete for each that is not being deleted, up to an error.\<close>

lemma delete_children_trace:
  assumes "delete_children (tracing K) cs k (w, l) = (r, w', l')"
  shows "\<exists>new. l' = l @ new \<and>
    (\<forall>x \<in> set new. \<exists>c \<in> set cs. \<exists>a. x = DeletedTask c (Some (om_uid (tk_meta c))) a) \<and>
    (\<forall>n. r = Inr n \<longrightarrow> k \<le> n \<and>
       (n = k \<longrightarrow> (\<forall>c \<in> set cs. is_zero_time (om_deletion_timestamp (tk_meta c)) \<and>
          (\<exists>e. DeletedTask c (Some (om_uid (tk_meta c))) (Some e) \<in> set new \<and> is_not_found e)))) \<and>
    ((\<forall>c \<in> set cs. is_zero_time (om_deletion_timestamp (tk_meta c))) \<and>
       (\<forall>c u a. DeletedTask c u a \<in> set new \<longrightarrow> (\<exists>e. a = Some e \<and> is_not_found e)) \<longrightarrow> r = Inr k) \<and>
    (\<forall>c u. DeletedTask c u None \<in> set new \<longrightarrow> r \<noteq> Inr k)"
  using assms
proof (induction cs arbitrary: k w l)
  case Nil
  then show ?case by auto
next
  case (Cons c cs)
  show ?case
  proof (cases "is_zero_time (om_deletion_timestamp (tk_meta c))")
    case False
    with Cons.prems have "delete_children (tracing K) cs (Suc k) (w, l) = (r, w', l')" by simp
    from Cons.IH [OF this] obtain new where "l' = l @ new"
      "\<forall>x \<in> set new. \<exists>c \<in> set cs. \<exists>a. x = DeletedTask c (Some (om_uid (tk_meta c))) a"
      "\<forall>n. r = Inr n \<longrightarrow> Suc k \<le> n \<and> (n = Suc k \<longrightarrow> (\<forall>c \<in> set cs. is_zero_time (om_deletion_timestamp (tk_meta c)) \<and>
          (\<exists>e. DeletedTask c (Some (om_uid (tk_meta c))) (Some e) \<in> set new \<and> is_not_found e)))"
      by (elim exE conjE) (rule that)
    moreover from this(3) have "\<forall>n. r = Inr n \<longrightarrow> k < n" by auto
    ultimately show ?thesis using False by (intro exI [of _ new]) auto
  next
    case True
    let ?u = "Some (om_uid (tk_meta c))"
    obtain q w1 where d: "k_delete_task K c ?u w = (q, w1)" by (metis surj_pair)
    let ?l1 = "l @ [DeletedTask c ?u q]"
    consider (gone) e where "q = Some e" "is_not_found e" "delete_children (tracing K) cs k (w1, ?l1) = (r, w', l')"
      | (stop) e where "q = Some e" "\<not> is_not_found e" "r = Inl e" "l' = ?l1"
      | (left) "q = None" "delete_children (tracing K) cs (Suc k) (w1, ?l1) = (r, w', l')"
      using Cons.prems True d by (cases q) (auto split: if_splits)
    then show ?thesis
    proof cases
      case gone
      from Cons.IH [OF gone(3)] obtain new where new: "l' = ?l1 @ new"
        "\<forall>x \<in> set new. \<exists>c \<in> set cs. \<exists>a. x = DeletedTask c (Some (om_uid (tk_meta c))) a"
        and count: "\<forall>n. r = Inr n \<longrightarrow> k \<le> n \<and>
           (n = k \<longrightarrow> (\<forall>c \<in> set cs. is_zero_time (om_deletion_timestamp (tk_meta c)) \<and>
              (\<exists>e. DeletedTask c (Some (om_uid (tk_meta c))) (Some e) \<in> set new \<and> is_not_found e)))"
        and rest: "(\<forall>c \<in> set cs. is_zero_time (om_deletion_timestamp (tk_meta c))) \<and>
           (\<forall>c u a. DeletedTask c u a \<in> set new \<longrightarrow> (\<exists>e. a = Some e \<and> is_not_found e)) \<longrightarrow> r = Inr k"
        "\<forall>c u. DeletedTask c u None \<in> set new \<longrightarrow> r \<noteq> Inr k"
        by (elim exE conjE) (rule that)
      let ?new = "DeletedTask c ?u q # new"
      have "\<forall>n. r = Inr n \<longrightarrow> k \<le> n \<and>
          (n = k \<longrightarrow> (\<forall>c \<in> set (c # cs). is_zero_time (om_deletion_timestamp (tk_meta c)) \<and>
             (\<exists>e. DeletedTask c (Some (om_uid (tk_meta c))) (Some e) \<in> set ?new \<and> is_not_found e)))"
        using count True gone(1,2) by fastforce
      moreover have "l' = l @ ?new" using new(1) by simp
      moreover have "\<forall>x \<in> set ?new. \<exists>c \<in> set (c # cs). \<exists>a. x = DeletedTask c (Some (om_uid (tk_meta c))) a"
        using new(2) by auto
      moreover have "(\<forall>c \<in> set (c # cs). is_zero_time (om_deletion_timestamp (tk_meta c))) \<and>
          (\<forall>c u a. DeletedTask c u a \<in> set ?new \<longrightarrow> (\<exists>e. a = Some e \<and> is_not_found e)) \<longrightarrow> r = Inr k"
        using rest(1) by simp
      moreover have "\<forall>c u. DeletedTask c u None \<in> set ?new \<longrightarrow> r \<noteq> Inr k"
        using rest(2) gone(1) by simp
      ultimately show ?thesis by (intro exI [of _ ?new] conjI)
    next
      case stop
      then show ?thesis by (intro exI [of _ "[DeletedTask c ?u q]"]) auto
    next
      case left
      let ?new = "\<lambda>new. DeletedTask c ?u q # new"
      from Cons.IH [OF left(2)] obtain new where new: "l' = ?l1 @ new"
        "\<forall>x \<in> set new. \<exists>c \<in> set cs. \<exists>a. x = DeletedTask c (Some (om_uid (tk_meta c))) a"
        "\<forall>n. r = Inr n \<longrightarrow> Suc k \<le> n \<and> (n = Suc k \<longrightarrow> (\<forall>c \<in> set cs. is_zero_time (om_deletion_timestamp (tk_meta c)) \<and>
           (\<exists>e. DeletedTask c (Some (om_uid (tk_meta c))) (Some e) \<in> set new \<and> is_not_found e)))"
        by (elim exE conjE) (rule that)
      have above: "k < n" if "r = Inr n" for n using new(3) that by auto
      have "l' = l @ ?new new" using new(1) by simp
      moreover have "\<forall>x \<in> set (?new new). \<exists>c \<in> set (c # cs). \<exists>a. x = DeletedTask c (Some (om_uid (tk_meta c))) a"
        using new(2) by auto
      moreover have "\<forall>n. r = Inr n \<longrightarrow> k \<le> n \<and>
          (n = k \<longrightarrow> (\<forall>c \<in> set (c # cs). is_zero_time (om_deletion_timestamp (tk_meta c)) \<and>
             (\<exists>e. DeletedTask c (Some (om_uid (tk_meta c))) (Some e) \<in> set (?new new) \<and> is_not_found e)))"
        using above by fastforce
      moreover have "\<not> (\<forall>c u a. DeletedTask c u a \<in> set (?new new) \<longrightarrow> (\<exists>e. a = Some e \<and> is_not_found e))"
        using left(1) by (metis list.set_intros(1) option.distinct(1))
      moreover have "\<forall>c u. DeletedTask c u None \<in> set (?new new) \<longrightarrow> r \<noteq> Inr k" using above by blast
      ultimately show ?thesis by (intro exI [of _ "?new new"] conjI) blast+
    qed
  qed
qed


text \<open>
  C17. A deleted Workflow waits for its children. A reconcile of a Workflow with a deletion timestamp
  updates the object only to take the finalizer off, and only when in the same pass the list of its
  children was read, none of them carries a deletion timestamp, and the delete of each, with its UID,
  was answered with NotFound. As long as a child is left, because it is being deleted, or its delete
  was accepted, or failed, the pass makes no other call than the list and deletes and ends with an
  error or asks to be called again after two seconds. When nothing is left the finalizer is taken off.
\<close>

theorem workflow_deletion_waits_for_children:
  assumes "\<And>ks. set (we_visit E ks) = set ks"
    and "k_get_workflow (we_kube E) name w = (Inr wfl, w0)"
    and "\<not> is_zero_time (om_deletion_timestamp (wf_meta wfl))"
    and "reconcile (tracing_env E) name (w, []) = (r, w', log)"
  defines "gone \<equiv> (\<lambda>c. is_zero_time (om_deletion_timestamp (tk_meta c)) \<and>
      (\<exists>e. DeletedTask c (Some (om_uid (tk_meta c))) (Some e) \<in> set log \<and> is_not_found e))"
    and "bare \<equiv> wfl\<lparr>wf_meta := k_remove_finalizer (we_kube E) (wf_meta wfl) workflow_finalizer\<rparr>"
    and "waits \<equiv> (r = Inr (requeue (2 * second)) \<or> (\<exists>e. r = Inl (ClientError e))) \<and>
      (\<forall>x \<in> set log. (\<exists>m a. x = ListedTasks m a) \<or> (\<exists>t u a. x = DeletedTask t u a))"
  shows "(\<forall>v. WroteWorkflow v \<in> set log \<longrightarrow> v = bare \<and>
      (\<exists>children w1. list_child_tasks (we_kube E) wfl w0 = (Inr children, w1) \<and>
         (\<forall>n c. gm_get children n = Some c \<longrightarrow> gone c))) \<and>
    (\<forall>children w1. list_child_tasks (we_kube E) wfl w0 = (Inr children, w1) \<longrightarrow>
      (\<forall>n c. gm_get children n = Some c \<and> \<not> gone c \<longrightarrow> waits) \<and>
      (\<forall>c u. DeletedTask c u None \<in> set log \<longrightarrow> waits) \<and>
      ((\<forall>n c. gm_get children n = Some c \<longrightarrow> is_zero_time (om_deletion_timestamp (tk_meta c))) \<and>
       (\<forall>c u a. DeletedTask c u a \<in> set log \<longrightarrow> (\<exists>e. a = Some e \<and> is_not_found e)) \<and>
       k_contains_finalizer (we_kube E) (wf_meta wfl) workflow_finalizer \<longrightarrow> WroteWorkflow bare \<in> set log))"
proof -
  let ?K = "we_kube E"
  have run: "handle_deletion (tracing_env E) wfl (w0, []) = (r, w', log)"
    using assms(2-4) by (simp add: reconcile_def Let_def)
  obtain q w1 where l: "list_child_tasks ?K wfl w0 = (q, w1)" by (metis surj_pair)
  define listed where "listed = ListedTasks (child_labels wfl) (fst (k_list_tasks ?K (child_labels wfl) w0))"
  have traced: "list_child_tasks (tracing ?K) wfl (w0, []) = (q, w1, [listed])"
    by (simp add: list_child_tasks_traced l listed_def)
  show ?thesis
  proof (cases q)
    case (Inl e)
    with run l traced show ?thesis by (auto simp: handle_deletion_def Let_def listed_def)
  next
    case (Inr children)
    let ?cs = "visited_children E children"
    have cs: "c \<in> set ?cs \<longleftrightarrow> (\<exists>n. gm_get children n = Some c)" for c
    proof
      show "\<exists>n. gm_get children n = Some c" if "c \<in> set ?cs"
        using that by (auto simp: visited_children_def List.map_filter_def)
      show "c \<in> set ?cs" if "\<exists>n. gm_get children n = Some c"
        using that visited_children_all [OF assms(1)] by blast
    qed
    obtain d w2 ds where d: "delete_children (tracing ?K) ?cs 0 (w1, [listed]) = (d, w2, ds)" by (metis prod_cases3)
    from delete_children_trace [OF d] obtain new where new: "ds = [listed] @ new"
      and only: "\<forall>x \<in> set new. \<exists>c \<in> set ?cs. \<exists>a. x = DeletedTask c (Some (om_uid (tk_meta c))) a"
      and count: "\<forall>n. d = Inr n \<longrightarrow> 0 \<le> n \<and> (n = 0 \<longrightarrow>
        (\<forall>c \<in> set ?cs. is_zero_time (om_deletion_timestamp (tk_meta c)) \<and>
        (\<exists>e. DeletedTask c (Some (om_uid (tk_meta c))) (Some e) \<in> set new \<and> is_not_found e)))"
      and all: "(\<forall>c \<in> set ?cs. is_zero_time (om_deletion_timestamp (tk_meta c))) \<and>
        (\<forall>c u a. DeletedTask c u a \<in> set new \<longrightarrow> (\<exists>e. a = Some e \<and> is_not_found e)) \<longrightarrow> d = Inr 0"
      and some: "\<forall>c u. DeletedTask c u None \<in> set new \<longrightarrow> d \<noteq> Inr 0"
      by (elim exE conjE) (rule that)
    from count have none: "d = Inr 0 \<longrightarrow> (\<forall>c \<in> set ?cs. is_zero_time (om_deletion_timestamp (tk_meta c)) \<and>
        (\<exists>e. DeletedTask c (Some (om_uid (tk_meta c))) (Some e) \<in> set new \<and> is_not_found e))" by simp
    have vis: "visited_children (tracing_env E) children = ?cs" by (simp add: visited_children_def)
    have outcome: "(case d of Inl e \<Rightarrow> (Inl (ClientError e), w2, ds)
        | Inr remaining \<Rightarrow>
            if 0 < remaining then (Inr (requeue workflow_cleanup_requeue), w2, ds)
            else if k_contains_finalizer ?K (wf_meta wfl) workflow_finalizer then
              (case k_update_workflow (tracing ?K) bare (w2, ds) of
                 (Inl e, w3) \<Rightarrow> (Inl (ClientError e), w3) | (Inr _, w3) \<Rightarrow> (Inr no_result, w3))
            else (Inr no_result, w2, ds)) = (r, w', log)"
      using run unfolding handle_deletion_def Let_def tracing_env_simps tracing_helpers traced Inr prod.case sum.case vis d bare_def
      by (cases d) simp_all
    have other: "\<forall>x \<in> set ds. (\<exists>m a. x = ListedTasks m a) \<or> (\<exists>t u a. x = DeletedTask t u a)"
      using only by (auto simp: new listed_def)
    show ?thesis
    proof (cases "d = Inr 0")
      case False
      then have "log = ds" and "waits"
        using outcome other by (auto simp: waits_def workflow_cleanup_requeue_def split: sum.splits if_splits)
      moreover have "WroteWorkflow v \<notin> set ds" for v using other by blast
      moreover have "\<not> ((\<forall>n c. gm_get children n = Some c \<longrightarrow> is_zero_time (om_deletion_timestamp (tk_meta c))) \<and>
          (\<forall>c u a. DeletedTask c u a \<in> set ds \<longrightarrow> (\<exists>e. a = Some e \<and> is_not_found e)))"
      proof
        assume a: "(\<forall>n c. gm_get children n = Some c \<longrightarrow> is_zero_time (om_deletion_timestamp (tk_meta c))) \<and>
          (\<forall>c u a. DeletedTask c u a \<in> set ds \<longrightarrow> (\<exists>e. a = Some e \<and> is_not_found e))"
        then have "\<forall>c \<in> set ?cs. is_zero_time (om_deletion_timestamp (tk_meta c))" using cs by blast
        moreover from a have "\<forall>c u a. DeletedTask c u a \<in> set new \<longrightarrow> (\<exists>e. a = Some e \<and> is_not_found e)" by (simp add: new)
        ultimately show False using all False by blast
      qed
      ultimately show ?thesis using l Inr by auto
    next
      case True
      then have sub: "set new \<subseteq> set log" and writes: "\<forall>v. WroteWorkflow v \<in> set log \<longrightarrow> v = bare"
        and kept: "\<forall>c u a. DeletedTask c u a \<in> set log \<longrightarrow> DeletedTask c u a \<in> set new"
        and sent: "k_contains_finalizer ?K (wf_meta wfl) workflow_finalizer \<longrightarrow> WroteWorkflow bare \<in> set log"
        using outcome other by (auto simp: new listed_def split: if_splits prod.splits sum.splits)
      have "gone c" if "gm_get children n = Some c" for n c
        using none True sub cs [of c] that by (auto simp: gone_def)
      moreover have "DeletedTask c u None \<notin> set log" for c u using kept some True by blast
      ultimately show ?thesis using l Inr writes sent by auto
    qed
  qed
qed

section \<open>Ownership\<close>

lemma handle_deletion_trace:
  assumes "handle_deletion (tracing_env E) wfl (w, l) = (r, w', l')"
  shows "\<exists>new. l' = l @ ListedTasks (child_labels wfl) (fst (k_list_tasks (we_kube E) (child_labels wfl) w)) # new \<and>
    (\<forall>x \<in> set new.
       (\<exists>children w1 n c a. list_child_tasks (we_kube E) wfl w = (Inr children, w1) \<and> gm_get children n = Some c \<and>
          x = DeletedTask c (Some (om_uid (tk_meta c))) a) \<or>
       x = WroteWorkflow (wfl\<lparr>wf_meta := k_remove_finalizer (we_kube E) (wf_meta wfl) workflow_finalizer\<rparr>))"
proof -
  let ?K = "we_kube E"
  let ?x = "ListedTasks (child_labels wfl) (fst (k_list_tasks ?K (child_labels wfl) w))"
  obtain q w1 where q: "list_child_tasks ?K wfl w = (q, w1)" by (metis surj_pair)
  have listed: "list_child_tasks (tracing ?K) wfl (w, l) = (q, w1, l @ [?x])"
    by (simp add: list_child_tasks_traced q)
  show ?thesis
  proof (cases q)
    case (Inl e)
    with assms listed have "l' = l @ [?x]" by (simp add: handle_deletion_def Let_def)
    then show ?thesis by simp
  next
    case (Inr children)
    let ?cs = "visited_children E children"
    have cs: "\<exists>n. gm_get children n = Some c" if "c \<in> set ?cs" for c
      using that by (auto simp: visited_children_def List.map_filter_def)
    obtain d w2 ds where d: "delete_children (tracing ?K) ?cs 0 (w1, l @ [?x]) = (d, w2, ds)" by (metis prod_cases3)
    from delete_children_trace [OF d] obtain new where new: "ds = (l @ [?x]) @ new"
      and only: "\<forall>x \<in> set new. \<exists>c \<in> set ?cs. \<exists>a. x = DeletedTask c (Some (om_uid (tk_meta c))) a"
      by (elim exE conjE) (rule that)
    have vis: "visited_children (tracing_env E) children = ?cs" by (simp add: visited_children_def)
    let ?bare = "wfl\<lparr>wf_meta := k_remove_finalizer ?K (wf_meta wfl) workflow_finalizer\<rparr>"
    have "l' = ds @ [] \<or> l' = ds @ [WroteWorkflow ?bare]"
      using assms unfolding handle_deletion_def Let_def tracing_env_simps tracing_helpers listed Inr prod.case sum.case vis d
      by (cases d) (auto split: if_splits prod.splits sum.splits)
    then obtain tail where tail: "l' = ds @ tail" "\<forall>x \<in> set tail. x = WroteWorkflow ?bare" by auto
    have "(\<exists>children w1 n c a. list_child_tasks ?K wfl w = (Inr children, w1) \<and> gm_get children n = Some c \<and>
          x = DeletedTask c (Some (om_uid (tk_meta c))) a) \<or> x = WroteWorkflow ?bare" if "x \<in> set (new @ tail)" for x
      using that only cs tail(2) q [unfolded Inr] unfolding set_append Un_iff by blast
    then show ?thesis by (intro exI [of _ "new @ tail"]) (simp add: tail(1) new)
  qed
qed

lemma mark_workflow_failed_trace:
  assumes "mark_workflow_failed (tracing_env E) wfl m (w, l) = (r, w', l')"
  shows "l' = l \<or> (\<exists>v. l' = l @ [WroteStatus v] \<and> wf_meta v = wf_meta wfl \<and> wf_spec v = wf_spec wfl)"
  using assms by (auto simp: mark_workflow_failed_def update_status_def Let_def split: if_splits prod.splits sum.splits)

text \<open>The calls of a pass on a Workflow that is not being deleted.\<close>

definition pass_call :: "'w kube \<Rightarrow> workflow \<Rightarrow> exchange \<Rightarrow> bool" where
  "pass_call K wfl x \<longleftrightarrow> (\<exists>m a. x = ListedTasks m a) \<or>
     (\<exists>g n. build (wf_spec wfl) = Inr g \<and> n \<in> set (graph_order g) \<and> asked K wfl g n x) \<or>
     (\<exists>v. x = WroteStatus v \<and> wf_meta v = wf_meta wfl \<and> wf_spec v = wf_spec wfl)"

lemma reconcile_spec_trace:
  assumes "reconcile_spec (tracing_env E) wfl (w, []) = (r, w', log)"
  shows "(\<forall>x \<in> set log. pass_call (we_kube E) wfl x) \<and>
    (foreign (we_kube E) wfl log \<longrightarrow> (\<forall>v. WroteStatus v \<in> set log \<longrightarrow> ws_phase (wf_status v) = WorkflowFailed))"
proof -
  let ?K = "we_kube E"
  have failed: ?thesis if "mark_workflow_failed (tracing_env E) wfl m (w, []) = (r, w', log)" for m
    using mark_workflow_failed_trace [OF that] by (auto simp: pass_call_def foreign_def)
  show ?thesis
  proof (cases "build (wf_spec wfl)")
    case (Inl e)
    with assms show ?thesis by (intro failed) (simp add: reconcile_spec_def)
  next
    case (Inr g)
    show ?thesis
    proof (cases "validate_child_task_names (wf_name wfl) g")
      case (Some e)
      with assms Inr show ?thesis by (intro failed) (simp add: reconcile_spec_def)
    next
      case None
      obtain q w1 l1 where q: "graph_pass (tracing_env E) wfl g (w, []) = (q, w1, l1)" by (metis prod_cases3)
      from graph_pass_trace [OF q] obtain new where
        new: "l1 = ListedTasks (child_labels wfl) (fst (k_list_tasks ?K (child_labels wfl) w)) # new"
        "\<forall>x \<in> set new. \<exists>n \<in> set (graph_order g). asked ?K wfl g n x"
        "foreign ?K wfl new \<Longrightarrow> \<exists>v ch. q = Inr (v, ch) \<and> ws_phase (wf_status v) = WorkflowFailed"
        "\<And>v ch. q = Inr (v, ch) \<Longrightarrow> wf_meta v = wf_meta wfl \<and> wf_spec v = wf_spec wfl"
        unfolding append_Nil by metis
      have calls: "\<forall>x \<in> set l1. pass_call ?K wfl x" using new(2) Inr by (auto simp: new(1) pass_call_def)
      have quiet: "WroteStatus v \<notin> set l1" for v using new(2) by (auto simp: new(1) asked_def)
      have "foreign ?K wfl l1 \<longleftrightarrow> foreign ?K wfl new" by (simp add: new(1) foreign_def)
      moreover have run: "reconcile_graph (tracing_env E) wfl g (w, []) = (r, w', log)"
        using assms Inr None by (simp add: reconcile_spec_def)
      ultimately show ?thesis
      proof (cases q)
        case (Inl e)
        with run q have "log = l1" by (simp add: reconcile_graph_def)
        with calls quiet show ?thesis by simp
      next
        case q': (Inr p)
        obtain v ch where p: "p = (v, ch)" by (metis surj_pair)
        from run q have "log = l1 \<or> log = l1 @ [WroteStatus v]"
          by (auto simp: reconcile_graph_def q' p update_status_def split: if_splits prod.splits sum.splits)
        moreover have "pass_call ?K wfl (WroteStatus v)" using new(4) q' p by (simp add: pass_call_def)
        moreover have "ws_phase (wf_status v) = WorkflowFailed" if "foreign ?K wfl log"
        proof -
          have "foreign ?K wfl new" using calculation(1) that by (auto simp: new(1))
          from new(3) [OF this] show ?thesis using q' p by simp
        qed
        ultimately show ?thesis using calls quiet by auto
      qed
    qed
  qed
qed

text \<open>
  C25. A Workflow never touches a Task that is not its own. In any reconcile, every Task it deletes is
  controlled by the Workflow, belongs to its Namespace, comes from the list read in the same pass, and
  is deleted under its UID; every Task it creates is the child Task of a node of its graph with the
  owner reference of the Workflow, under the name of that node. When the Task it finds under that name
  is not its own, nothing but a failure is written to the status. It updates no other Task, no Job
  and no other Workflow: updates of its own object change only the finalizers, updates of the status
  only the status. The children it takes the progress of its nodes from are its own as well.
\<close>

theorem child_tasks_owned:
  assumes "k_get_workflow (we_kube E) name w = (Inr wfl, w0)"
    and "reconcile (tracing_env E) name (w, []) = (r, w', log)"
  shows "(\<forall>c u a. DeletedTask c u a \<in> set log \<longrightarrow>
      k_is_controlled_by (we_kube E) (tk_meta c) (wf_meta wfl) \<and>
      meta_namespace (tk_meta c) = meta_namespace (wf_meta wfl) \<and> u = Some (om_uid (tk_meta c)) \<and>
      (\<exists>m items. ListedTasks m (Inr items) \<in> set log \<and> c \<in> set items)) \<and>
    (\<forall>t a. CreatedTask t a \<in> set log \<longrightarrow>
      (\<exists>g n meta. build (wf_spec wfl) = Inr g \<and> n \<in> set (graph_order g) \<and>
         k_set_controller_reference (we_kube E) (wf_meta wfl) (tk_meta (new_child_task wfl g n)) = Inr meta \<and>
         t = (new_child_task wfl g n)\<lparr>tk_meta := meta\<rparr>)) \<and>
    (\<forall>n t. FetchedTask n (Inr t) \<in> set log \<and>
       \<not> (k_is_controlled_by (we_kube E) (tk_meta t) (wf_meta wfl) \<and>
          meta_namespace (tk_meta t) = meta_namespace (wf_meta wfl)) \<longrightarrow>
       (\<forall>v. WroteStatus v \<in> set log \<longrightarrow> ws_phase (wf_status v) = WorkflowFailed)) \<and>
    (\<forall>v. WroteWorkflow v \<in> set log \<longrightarrow>
      v = wfl\<lparr>wf_meta := k_add_finalizer (we_kube E) (wf_meta wfl) workflow_finalizer\<rparr> \<or>
      v = wfl\<lparr>wf_meta := k_remove_finalizer (we_kube E) (wf_meta wfl) workflow_finalizer\<rparr>) \<and>
    (\<forall>v. WroteStatus v \<in> set log \<longrightarrow> wf_meta v = wf_meta wfl \<and> wf_spec v = wf_spec wfl) \<and>
    WroteOther \<notin> set log \<and>
    (\<forall>children w1 n c. list_child_tasks (we_kube E) wfl w0 = (Inr children, w1) \<and> gm_get children n = Some c \<longrightarrow>
      k_is_controlled_by (we_kube E) (tk_meta c) (wf_meta wfl) \<and>
      meta_namespace (tk_meta c) = meta_namespace (wf_meta wfl) \<and> tk_name c = n)"
    (is "?deleted \<and> ?created \<and> ?foreign \<and> ?finalizer \<and> ?status \<and> ?other \<and> ?listed")
proof -
  let ?K = "we_kube E"
  have listed: ?listed using children_owned [of ?K wfl w0] unfolding owned_def by blast
  have spec: ?thesis if s: "reconcile_spec (tracing_env E) wfl (w0, []) = (r, w', log)"
  proof -
    note t = reconcile_spec_trace [OF s]
    have no: "\<not> pass_call ?K wfl (DeletedTask c u a)" "\<not> pass_call ?K wfl (WroteWorkflow v)"
      "\<not> pass_call ?K wfl WroteOther" for c u a v
      by (auto simp: pass_call_def asked_def)
    have ?created using t by (fastforce simp: pass_call_def asked_def)
    moreover have ?status using t by (fastforce simp: pass_call_def asked_def)
    moreover have ?foreign using t by (auto simp: foreign_def owned_def)
    moreover have ?deleted ?finalizer ?other using t no by blast+
    ultimately show ?thesis using listed by blast
  qed
  consider (deleted) "handle_deletion (tracing_env E) wfl (w0, []) = (r, w', log)"
    | (finalizer) "log = [WroteWorkflow (wfl\<lparr>wf_meta := k_add_finalizer ?K (wf_meta wfl) workflow_finalizer\<rparr>)]"
    | (idle) "log = []"
    | (generation) "log = [WroteStatus (wfl\<lparr>wf_status := (wf_status wfl)\<lparr>ws_observed_generation := om_generation (wf_meta wfl)\<rparr>\<rparr>)]"
    | (spec) "reconcile_spec (tracing_env E) wfl (w0, []) = (r, w', log)"
    using assms by (auto simp: reconcile_def Let_def update_status_def split: if_splits prod.splits sum.splits)
  then show ?thesis
  proof cases
    case deleted
    from handle_deletion_trace [OF this] obtain new where
      log: "log = ListedTasks (child_labels wfl) (fst (k_list_tasks ?K (child_labels wfl) w0)) # new"
      and new: "\<forall>x \<in> set new.
        (\<exists>children w1 n c a. list_child_tasks ?K wfl w0 = (Inr children, w1) \<and> gm_get children n = Some c \<and>
           x = DeletedTask c (Some (om_uid (tk_meta c))) a) \<or>
        x = WroteWorkflow (wfl\<lparr>wf_meta := k_remove_finalizer ?K (wf_meta wfl) workflow_finalizer\<rparr>)"
      unfolding append_Nil by (elim exE conjE) (rule that)
    have ?deleted
    proof (intro allI impI)
      fix c u a assume "DeletedTask c u a \<in> set log"
      then have "DeletedTask c u a \<in> set new" by (simp add: log)
      with new obtain children w1 n where "list_child_tasks ?K wfl w0 = (Inr children, w1)" "gm_get children n = Some c"
        "u = Some (om_uid (tk_meta c))" by blast
      moreover from children_owned [OF this(1,2)] obtain items where
        "fst (k_list_tasks ?K (child_labels wfl) w0) = Inr items" "c \<in> set items" by blast
      then have "ListedTasks (child_labels wfl) (Inr items) \<in> set log" "c \<in> set items" by (simp_all add: log)
      ultimately show "k_is_controlled_by ?K (tk_meta c) (wf_meta wfl) \<and>
          meta_namespace (tk_meta c) = meta_namespace (wf_meta wfl) \<and> u = Some (om_uid (tk_meta c)) \<and>
          (\<exists>m items. ListedTasks m (Inr items) \<in> set log \<and> c \<in> set items)"
        using children_owned [of ?K wfl w0 children w1 n c] unfolding owned_def by blast
    qed
    moreover have ?finalizer ?created ?foreign ?status ?other using new by (auto simp: log)
    ultimately show ?thesis using listed by blast
  next
    case finalizer
    with listed show ?thesis by simp
  next
    case idle
    with listed show ?thesis by simp
  next
    case generation
    with listed show ?thesis by simp
  next
    case spec
    then show ?thesis by (rule \<open>reconcile_spec (tracing_env E) wfl (w0, []) = (r, w', log) \<Longrightarrow> _\<close>)
  qed
qed

section \<open>Running nodes\<close>



section \<open>Witnesses\<close>


definition gone_kube :: "cluster kube" where
  "gone_kube = sample_kube\<lparr>k_delete_task := (\<lambda>t uid c. (Some (ApiError NotFound ''not found''), c))\<rparr>"

definition deleted_workflow :: workflow where
  "deleted_workflow = (let wfl = sample_workflow diamond in
     wfl\<lparr>wf_meta := (wf_meta wfl)\<lparr>om_deletion_timestamp := Some 5\<rparr>\<rparr>)"

definition deleted_cluster :: "cluster \<Rightarrow> cluster" where
  "deleted_cluster c = c\<lparr>cl_workflows := [(''wf'', deleted_workflow)]\<rparr>"

definition gone_env :: "cluster wf_env" where
  "gone_env = \<lparr>we_kube = gone_kube, we_now = (\<lambda>_. 0), we_visit = (\<lambda>ks. ks)\<rparr>"

definition bare_workflow :: workflow where
  "bare_workflow = deleted_workflow\<lparr>wf_meta := (wf_meta deleted_workflow)\<lparr>om_finalizers := []\<rparr>\<rparr>"

lemma deletion_started:
  "fst (reconcile (tracing_env sample_env) ''wf'' (deleted_cluster busy_cluster, [])) = Inr (requeue (2 * second))"
  by code_simp

text \<open>With the Task still there the pass waits; with deletes answered by NotFound the finalizer goes.\<close>

theorem workflow_deletion_waits_for_children_witness:
  "\<exists>r w' log. reconcile (tracing_env gone_env) ''wf'' (deleted_cluster busy_cluster, []) = (r, w', log) \<and>
    WroteWorkflow bare_workflow \<in> set log \<and>
    (\<exists>c e. gm_get busy_children ''wf-a'' = Some c \<and> DeletedTask c (Some (om_uid (tk_meta c))) (Some e) \<in> set log \<and> is_not_found e)"
proof -
  let ?p = "reconcile (tracing_env gone_env) ''wf'' (deleted_cluster busy_cluster, [])"
  obtain r w' log where p: "?p = (r, w', log)" by (metis prod_cases3)
  have get: "k_get_workflow (we_kube gone_env) ''wf'' (deleted_cluster busy_cluster) = (Inr deleted_workflow, deleted_cluster busy_cluster)"
    by (simp add: gone_env_def gone_kube_def sample_kube_def lookup_def gm_get_def deleted_cluster_def)
  have del: "\<not> is_zero_time (om_deletion_timestamp (wf_meta deleted_workflow))" by code_simp
  have visit: "\<And>ks. set (we_visit gone_env ks) = set ks" by (simp add: gone_env_def)
  have listed: "list_child_tasks (we_kube gone_env) deleted_workflow (deleted_cluster busy_cluster) =
      (Inr busy_children, deleted_cluster busy_cluster)" by code_simp
  have bare: "deleted_workflow\<lparr>wf_meta := k_remove_finalizer (we_kube gone_env) (wf_meta deleted_workflow) workflow_finalizer\<rparr> = bare_workflow"
    by code_simp
  have "list_ex (\<lambda>x. case x of WroteWorkflow v \<Rightarrow> om_name (wf_meta v) = ''wf'' | _ \<Rightarrow> False) (snd (snd ?p))" by code_simp
  then obtain x where x: "x \<in> set log" "case x of WroteWorkflow v \<Rightarrow> om_name (wf_meta v) = ''wf'' | _ \<Rightarrow> False"
    by (auto simp: p list_ex_iff)
  then obtain v where v: "WroteWorkflow v \<in> set log" by - (cases x rule: exchange.exhaust, auto)
  have child: "gm_get busy_children ''wf-a'' = Some (the (gm_get busy_children ''wf-a''))" by code_simp
  note D = conjunct1 [OF workflow_deletion_waits_for_children [OF visit get del p, unfolded bare], rule_format, OF v]
  have "v = bare_workflow" using D by blast
  moreover from D obtain e where
    "DeletedTask (the (gm_get busy_children ''wf-a'')) (Some (om_uid (tk_meta (the (gm_get busy_children ''wf-a''))))) (Some e) \<in> set log"
    "is_not_found e"
    using child unfolding listed by auto
  ultimately show ?thesis using p v child by blast
qed

theorem child_tasks_owned_witness:
  "\<exists>r w' log c. reconcile (tracing_env sample_env) ''wf'' (deleted_cluster busy_cluster, []) = (r, w', log) \<and>
    DeletedTask c (Some (om_uid (tk_meta c))) None \<in> set log \<and> owned sample_kube deleted_workflow c"
proof -
  let ?p = "reconcile (tracing_env sample_env) ''wf'' (deleted_cluster busy_cluster, [])"
  obtain r w' log where p: "?p = (r, w', log)" by (metis prod_cases3)
  have get: "k_get_workflow (we_kube sample_env) ''wf'' (deleted_cluster busy_cluster) = (Inr deleted_workflow, deleted_cluster busy_cluster)"
    by (simp add: sample_env_def sample_kube_def lookup_def gm_get_def deleted_cluster_def)
  have "list_ex (\<lambda>x. case x of DeletedTask c u None \<Rightarrow> True | _ \<Rightarrow> False) (snd (snd ?p))" by code_simp
  then obtain x where x: "x \<in> set log" "case x of DeletedTask c u None \<Rightarrow> True | _ \<Rightarrow> False"
    by (auto simp: p list_ex_iff)
  then obtain c u where c: "DeletedTask c u None \<in> set log" by - (cases x rule: exchange.exhaust, auto split: option.split_asm)
  from conjunct1 [OF child_tasks_owned [OF get p], rule_format, OF c] c p show ?thesis
    by (auto simp: owned_def sample_env_def)
qed

end
