(* ===== verification/NotifyEvent.thy ===== *)
theory NotifyEvent
  imports Kube
begin

text \<open>
  The notification event of a failed Job, \<open>internal/notification/event.go\<close>, and the observer that
  turns the notices of the Job informer into events, \<open>internal/notification/observer.go\<close>.
\<close>

section \<open>Data\<close>

record task_info =
  ti_name :: string
  ti_uid :: string
  ti_type :: task_type

record execution_info =
  ei_job_name :: string
  ei_job_uid :: string
  ei_namespace :: string
  ei_reason :: string
  ei_message :: string
  ei_message_truncated :: bool

record workflow_info =
  wi_name :: string
  wi_uid :: string
  wi_node :: string

record notify_event =
  ev_version :: string
  ev_id :: string
  ev_type :: string
  ev_occurred_at :: "time option"
  ev_observed_at :: time
  ev_task :: task_info
  ev_execution :: execution_info
  ev_workflow :: "workflow_info option"

text \<open>
  Two functions of apimachinery: \<open>metav1.GetControllerOf\<close>, and the group of
  \<open>schema.ParseGroupVersion\<close>, \<open>None\<close> for a parse error.
\<close>

record owner_api =
  oa_controller_of :: "object_meta \<Rightarrow> owner_reference option"
  oa_group_of :: "string \<Rightarrow> string option"

section \<open>Snapshots\<close>

definition job_failed :: "job_condition \<Rightarrow> bool" where
  "job_failed c \<longleftrightarrow> jc_type c = ''Failed'' \<and> jc_status c = ''True''"

definition failure_condition :: "job \<Rightarrow> job_condition option" where
  "failure_condition j = List.find job_failed (js_conditions (jb_status j))"

definition owner_is :: "owner_api \<Rightarrow> owner_reference option \<Rightarrow> string \<Rightarrow> bool" where
  "owner_is A owner kind =
     (case owner of
        None \<Rightarrow> False
      | Some r \<Rightarrow> or_kind r = kind \<and> or_uid r \<noteq> [] \<and> or_name r \<noteq> [] \<and>
                  oa_group_of A (or_api_version r) = Some api_group)"

text \<open>
  A message longer than the limit is cut before the character that would cross it: the loop walks
  back to a byte that starts a character, and indexes out of range, \<open>None\<close>, when there is none.
\<close>

abbreviation message_limit :: nat where "message_limit \<equiv> 4096"

definition rune_start :: "char \<Rightarrow> bool" where
  "rune_start c \<longleftrightarrow> (of_char c :: nat) < 128 \<or> 192 \<le> (of_char c :: nat)"

fun rune_end :: "string \<Rightarrow> nat \<Rightarrow> nat option" where
  "rune_end s 0 = (if rune_start (s ! 0) then Some 0 else None)"
| "rune_end s (Suc n) = (if rune_start (s ! Suc n) then Some (Suc n) else rune_end s n)"

definition cut_message :: "execution_info \<Rightarrow> execution_info option" where
  "cut_message x =
     (if message_limit < length (ei_message x)
      then map_option (\<lambda>end. x\<lparr>ei_message := take end (ei_message x), ei_message_truncated := True\<rparr>)
             (rune_end (ei_message x) message_limit)
      else Some x)"

definition failed_execution :: "job \<Rightarrow> job_condition \<Rightarrow> execution_info" where
  "failed_execution j c = \<lparr>ei_job_name = jb_name j, ei_job_uid = om_uid (jb_meta j),
     ei_namespace = om_namespace (jb_meta j), ei_reason = jc_reason c, ei_message = jc_message c,
     ei_message_truncated = False\<rparr>"

definition failure_event ::
  "job \<Rightarrow> job_condition \<Rightarrow> owner_reference \<Rightarrow> time \<Rightarrow> execution_info \<Rightarrow> notify_event" where
  "failure_event j c owner observed x = \<lparr>
     ev_version = ''1'', ev_id = ''job:'' @ om_uid (jb_meta j) @ '':failed'',
     ev_type = (if jc_reason c = ''DeadlineExceeded'' then ''task.timeout'' else ''task.failed''),
     ev_occurred_at = (if jc_last_transition_time c = zero_time then None
                       else Some (jc_last_transition_time c)),
     ev_observed_at = observed,
     ev_task = \<lparr>ti_name = or_name owner, ti_uid = or_uid owner, ti_type = TaskTypeOther []\<rparr>,
     ev_execution = x, ev_workflow = None\<rparr>"

text \<open>The outer option is the panic; the inner one is the second result of the function.\<close>

definition snapshot :: "owner_api \<Rightarrow> job \<Rightarrow> time \<Rightarrow> notify_event option option" where
  "snapshot A j observed =
     (case (failure_condition j, oa_controller_of A (jb_meta j)) of
        (Some c, Some owner) \<Rightarrow>
          if om_uid (jb_meta j) = [] \<or> \<not> is_zero_time (om_deletion_timestamp (jb_meta j)) \<or>
             \<not> owner_is A (Some owner) ''Task''
          then Some None
          else map_option (\<lambda>x. Some (failure_event j c owner observed x)) (cut_message (failed_execution j c))
      | _ \<Rightarrow> Some None)"

definition enrich ::
  "owner_api \<Rightarrow> (string \<Rightarrow> 'w \<Rightarrow> (api_error + task) \<times> 'w) \<Rightarrow> notify_event \<Rightarrow> 'w \<Rightarrow> notify_event \<times> 'w" where
  "enrich A get e w =
     (case get (ti_name (ev_task e)) w of
        (Inl _, w') \<Rightarrow> (e, w')
      | (Inr t, w') \<Rightarrow>
          if om_uid (tk_meta t) \<noteq> ti_uid (ev_task e) then (e, w')
          else (let e = e\<lparr>ev_task := (ev_task e)\<lparr>ti_type := ts_type (tk_spec t)\<rparr>\<rparr>;
                    owner = oa_controller_of A (tk_meta t)
                in case owner of
                     None \<Rightarrow> (e, w')
                   | Some r \<Rightarrow>
                       if owner_is A owner ''Workflow''
                       then (e\<lparr>ev_workflow := Some \<lparr>wi_name = or_name r, wi_uid = or_uid r,
                               wi_node = gm_get_or [] (om_labels (tk_meta t)) ''kubetask.io/workflow-node''\<rparr>\<rparr>, w')
                       else (e, w')))"

section \<open>The observer\<close>

text \<open>
  A notice carries objects of any type; \<open>None\<close> is one that is not a Job.  The result is the event
  handed to the dispatcher, if any, and again \<open>None\<close> for a panic.
\<close>

definition observe :: "owner_api \<Rightarrow> bool \<Rightarrow> time \<Rightarrow> job option \<Rightarrow> notify_event option option" where
  "observe A cancelled now obj =
     (case obj of None \<Rightarrow> Some None | Some j \<Rightarrow> if cancelled then Some None else snapshot A j now)"

definition on_add :: "owner_api \<Rightarrow> bool \<Rightarrow> time \<Rightarrow> job option \<Rightarrow> bool \<Rightarrow> notify_event option option" where
  "on_add A cancelled now obj initial = (if initial then Some None else observe A cancelled now obj)"

definition on_update :: "owner_api \<Rightarrow> bool \<Rightarrow> time \<Rightarrow> job option \<Rightarrow> job option \<Rightarrow> notify_event option option" where
  "on_update A cancelled now old new =
     (case (old, new) of
        (Some old_job, Some new_job) \<Rightarrow>
          if om_uid (jb_meta old_job) = om_uid (jb_meta new_job) \<and> failure_condition old_job \<noteq> None
          then Some None else observe A cancelled now (Some new_job)
      | _ \<Rightarrow> Some None)"

section \<open>Where a message is cut\<close>

definition runes :: "string list \<Rightarrow> bool" where
  "runes rs \<longleftrightarrow> (\<forall>r \<in> set rs. r \<noteq> [] \<and> rune_start (hd r) \<and> (\<forall>c \<in> set (tl r). \<not> rune_start c))"

lemma rune_end_eq:
  assumes "p \<le> n" "rune_start (s ! p)" "\<And>i. p < i \<Longrightarrow> i \<le> n \<Longrightarrow> \<not> rune_start (s ! i)"
  shows "rune_end s n = Some p"
  using assms
proof (induction n)
  case 0
  then show ?case by simp
next
  case (Suc n)
  show ?case
  proof (cases "p = Suc n")
    case True
    with Suc.prems(2) show ?thesis by simp
  next
    case False
    with Suc.prems(1) have "p \<le> n" by simp
    with Suc.IH [OF this Suc.prems(2)] Suc.prems(3) [of "Suc n"] Suc.prems(3) show ?thesis by simp
  qed
qed

text \<open>The character that holds position n of a text.\<close>

lemma rune_at:
  "n < length (concat rs) \<Longrightarrow> \<exists>k < length rs. length (concat (take k rs)) \<le> n \<and> n < length (concat (take (Suc k) rs))"
proof (induction rs arbitrary: n)
  case Nil
  then show ?case by simp
next
  case (Cons r rs)
  show ?case
  proof (cases "n < length r")
    case True
    then show ?thesis by (intro exI [of _ 0]) simp
  next
    case False
    with Cons.prems have "n - length r < length (concat rs)" by simp
    from Cons.IH [OF this] obtain k where "k < length rs" "length (concat (take k rs)) \<le> n - length r"
      "n - length r < length (concat (take (Suc k) rs))" by blast
    with False show ?thesis by (intro exI [of _ "Suc k"]) auto
  qed
qed

lemma rune_end_runes:
  assumes "runes rs" "n < length (concat rs)"
  obtains k where "k < length rs" "rune_end (concat rs) n = Some (length (concat (take k rs)))"
    "length (concat (take k rs)) \<le> n" "n < length (concat (take (Suc k) rs))"
proof -
  from rune_at [OF assms(2)] obtain k where k: "k < length rs" "length (concat (take k rs)) \<le> n"
    "n < length (concat (take (Suc k) rs))" by blast
  define p where "p = length (concat (take k rs))"
  have rs: "concat rs = concat (take k rs) @ rs ! k @ concat (drop (Suc k) rs)"
    by (metis append_take_drop_id Cons_nth_drop_Suc concat.simps(2) concat_append k(1))
  have r: "rs ! k \<noteq> []" "rune_start (hd (rs ! k))" "\<And>c. c \<in> set (tl (rs ! k)) \<Longrightarrow> \<not> rune_start c"
    using assms(1) nth_mem [OF k(1)] unfolding runes_def by blast+
  have n: "n < p + length (rs ! k)" using k(1,3) by (simp add: p_def take_Suc_conv_app_nth)
  have at: "concat rs ! (p + i) = (rs ! k) ! i" if "i < length (rs ! k)" for i
    unfolding rs using that by (simp add: p_def nth_append)
  have "rune_end (concat rs) n = Some p"
  proof (rule rune_end_eq)
    show "p \<le> n" using k(2) by (simp add: p_def)
    show "rune_start (concat rs ! p)" using at [of 0] r(1,2) by (simp add: hd_conv_nth)
    fix i assume i: "p < i" "i \<le> n"
    define j where "j = i - Suc p"
    have j: "i = p + Suc j" "Suc j < length (rs ! k)" using i n by (simp_all add: j_def)
    then have "rs ! k ! Suc j \<in> set (tl (rs ! k))" by (simp add: nth_tl [symmetric])
    with r(3) at [OF j(2)] j(1) show "\<not> rune_start (concat rs ! i)" by simp
  qed
  with k that show thesis by (simp add: p_def)
qed

section \<open>What is reported\<close>

definition reportable :: "owner_api \<Rightarrow> job \<Rightarrow> bool" where
  "reportable A j \<longleftrightarrow> failure_condition j \<noteq> None \<and> om_uid (jb_meta j) \<noteq> [] \<and>
     is_zero_time (om_deletion_timestamp (jb_meta j)) \<and> owner_is A (oa_controller_of A (jb_meta j)) ''Task''"

lemma owner_is_None [simp]: "\<not> owner_is A None kind"
  by (simp add: owner_is_def)

lemma snapshot_not_reportable: "\<not> reportable A j \<Longrightarrow> snapshot A j now = Some None"
  by (auto simp: snapshot_def reportable_def split: option.splits)

lemma snapshot_reportable:
  assumes "reportable A j" "failure_condition j = Some c"
  obtains owner where "snapshot A j now =
    map_option (\<lambda>x. Some (failure_event j c owner now x)) (cut_message (failed_execution j c))"
proof -
  from assms(1) obtain owner where o: "oa_controller_of A (jb_meta j) = Some owner"
    by (cases "oa_controller_of A (jb_meta j)") (auto simp: reportable_def)
  with assms that show thesis unfolding snapshot_def reportable_def by simp
qed

lemma cut_message_runes:
  assumes "runes rs" "ei_message x = concat rs" "\<not> ei_message_truncated x"
  obtains k y where "cut_message x = Some y" "y = x\<lparr>ei_message := ei_message y, ei_message_truncated := ei_message_truncated y\<rparr>"
    "ei_message y = concat (take k rs)" "length (ei_message y) \<le> message_limit"
    "ei_message_truncated y \<longleftrightarrow> message_limit < length (ei_message x)"
    "if ei_message_truncated y then k < length rs \<and> message_limit < length (concat (take (Suc k) rs)) else k = length rs"
proof (cases "message_limit < length (ei_message x)")
  case True
  then have "message_limit < length (concat rs)" using assms(2) by simp
  from rune_end_runes [OF assms(1) this] obtain k where k: "k < length rs"
    "rune_end (concat rs) message_limit = Some (length (concat (take k rs)))"
    "length (concat (take k rs)) \<le> message_limit" "message_limit < length (concat (take (Suc k) rs))" by blast
  have "take (length (concat (take k rs))) (concat rs) = concat (take k rs)"
    by (metis append_eq_conv_conj append_take_drop_id concat_append)
  with k True assms(2) show thesis
    by (intro that [of "x\<lparr>ei_message := concat (take k rs), ei_message_truncated := True\<rparr>" k])
      (simp_all add: cut_message_def)
next
  case False
  with assms show thesis by (intro that [of x "length rs"]) (simp_all add: cut_message_def)
qed

text \<open>
  C38. The event of a failed Job says what happened. For a Job whose failure message is a text of whole
  characters, taking the event never panics; there is an event exactly when the Job has a UID, is not
  being deleted and is controlled by a Task; its ID depends on the Job alone, its type tells a timeout
  from another failure, and its message is the whole message or, beyond 4096 bytes, the longest
  beginning of whole characters that fits, marked as truncated.
\<close>

theorem failed_job_event:
  assumes "failure_condition j = Some c" and "runes rs" and "jc_message c = concat rs"
  shows "(snapshot A j now = Some None \<longleftrightarrow> \<not> reportable A j) \<and>
    (reportable A j \<longrightarrow> (\<exists>e k. snapshot A j now = Some (Some e) \<and>
       ev_id e = ''job:'' @ om_uid (jb_meta j) @ '':failed'' \<and>
       ev_type e = (if jc_reason c = ''DeadlineExceeded'' then ''task.timeout'' else ''task.failed'') \<and>
       ei_message (ev_execution e) = concat (take k rs) \<and>
       length (ei_message (ev_execution e)) \<le> 4096 \<and>
       (ei_message_truncated (ev_execution e) \<longleftrightarrow> 4096 < length (jc_message c)) \<and>
       (if ei_message_truncated (ev_execution e)
        then k < length rs \<and> 4096 < length (concat (take (Suc k) rs)) else k = length rs)))"
proof -
  have "\<exists>e k. snapshot A j now = Some (Some e) \<and>
       ev_id e = ''job:'' @ om_uid (jb_meta j) @ '':failed'' \<and>
       ev_type e = (if jc_reason c = ''DeadlineExceeded'' then ''task.timeout'' else ''task.failed'') \<and>
       ei_message (ev_execution e) = concat (take k rs) \<and>
       length (ei_message (ev_execution e)) \<le> 4096 \<and>
       (ei_message_truncated (ev_execution e) \<longleftrightarrow> 4096 < length (jc_message c)) \<and>
       (if ei_message_truncated (ev_execution e)
        then k < length rs \<and> 4096 < length (concat (take (Suc k) rs)) else k = length rs)"
    if r: "reportable A j"
  proof -
    define x where "x = failed_execution j c"
    obtain owner where s: "snapshot A j now = map_option (\<lambda>x. Some (failure_event j c owner now x)) (cut_message x)"
      unfolding x_def by (rule snapshot_reportable [OF r assms(1)])
    have m: "ei_message x = concat rs" "\<not> ei_message_truncated x" using assms(3) by (simp_all add: x_def failed_execution_def)
    obtain k y where y: "cut_message x = Some y"
      "ei_message y = concat (take k rs)" "length (ei_message y) \<le> message_limit"
      "ei_message_truncated y \<longleftrightarrow> message_limit < length (ei_message x)"
      "if ei_message_truncated y then k < length rs \<and> message_limit < length (concat (take (Suc k) rs)) else k = length rs"
      by (rule cut_message_runes [OF assms(2) m])
    with s m(1) assms(3) show ?thesis
      by (intro exI [of _ "failure_event j c owner now y"] exI [of _ k]) (simp add: failure_event_def)
  qed
  then show ?thesis by (auto simp: snapshot_not_reportable)
qed

text \<open>
  A failure is reported once. Along the versions of one Job that the informer shows, whose failure
  does not go away again, the update notice with the first failed version is the only one that can
  give an event, and it does when that version is reportable and the manager still runs.
\<close>

theorem failure_noticed_once:
  assumes "\<forall>i < n. om_uid (jb_meta (v i)) = om_uid (jb_meta (v (Suc i)))"
    and "\<forall>i < n. failure_condition (v i) \<noteq> None \<longrightarrow> failure_condition (v (Suc i)) \<noteq> None"
    and "i < n" and "failure_condition (v i) = None" and "failure_condition (v (Suc i)) \<noteq> None"
  shows "(\<forall>k < n. k \<noteq> i \<longrightarrow> on_update A (stopped k) (now k) (Some (v k)) (Some (v (Suc k))) = Some None) \<and>
    on_update A (stopped i) (now i) (Some (v i)) (Some (v (Suc i))) =
      (if stopped i then Some None else snapshot A (v (Suc i)) (now i))"
proof -
  have up: "failure_condition (v k) \<noteq> None" if "Suc i \<le> k" "k \<le> n" for k
    using that
  proof (induction k rule: dec_induct)
    case base
    show ?case by (rule assms(5))
  next
    case (step k)
    then show ?case using assms(2) by simp
  qed
  have down: "failure_condition (v k) = None" if "k \<le> i" for k
  proof (rule ccontr)
    assume "failure_condition (v k) \<noteq> None"
    with that have "failure_condition (v i) \<noteq> None"
    proof (induction i rule: dec_induct)
      case base
      then show ?case by simp
    next
      case (step m)
      then show ?case using assms(2,3) by simp
    qed
    with assms(4) show False by simp
  qed
  have quiet: "snapshot A (v (Suc k)) t = Some None" if "k < i" for k t
    using down [of "Suc k"] that by (intro snapshot_not_reportable) (simp add: reportable_def)
  have "on_update A (stopped k) (now k) (Some (v k)) (Some (v (Suc k))) = Some None" if "k < n" "k \<noteq> i" for k
    using that up [of k] assms(1) quiet [of k]
    by (cases "k < i") (auto simp: on_update_def observe_def)
  then show ?thesis by (simp add: on_update_def observe_def assms(4))
qed

section \<open>Examples\<close>

definition sample_owners :: owner_api where
  "sample_owners = \<lparr>oa_controller_of = (\<lambda>m. List.find or_controller (om_owner_references m)),
     oa_group_of = (\<lambda>s. if s = ''kubetask.kubetask.io/v1'' then Some api_group else None)\<rparr>"

definition failed_job :: "string \<Rightarrow> string \<Rightarrow> job" where
  "failed_job status message = \<lparr>
     jb_meta = empty_meta\<lparr>om_name := ''t-1'', om_uid := ''j1'', om_owner_references :=
       [\<lparr>or_api_version = ''kubetask.kubetask.io/v1'', or_kind = ''Task'', or_name = ''t'', or_uid = ''u1'', or_controller = True\<rparr>]\<rparr>,
     jb_spec = \<lparr>jsp_backoff_limit = None, jsp_active_deadline_seconds = None,
       jsp_ttl_seconds_after_finished = None, jsp_restart_policy = [], jsp_containers = []\<rparr>,
     jb_status = \<lparr>js_active = 0, js_conditions = [\<lparr>jc_type = ''Failed'', jc_status = status,
       jc_reason = ''DeadlineExceeded'', jc_message = message, jc_last_transition_time = zero_time\<rparr>],
       js_completion_time = None\<rparr>\<rparr>"

lemma failed_job_simps:
  "failure_condition (failed_job ''True'' m) = Some \<lparr>jc_type = ''Failed'', jc_status = ''True'',
     jc_reason = ''DeadlineExceeded'', jc_message = m, jc_last_transition_time = zero_time\<rparr>"
  "failure_condition (failed_job ''False'' m) = None"
  "reportable sample_owners (failed_job ''True'' m)"
  by (simp_all add: failure_condition_def failed_job_def job_failed_def reportable_def owner_is_def
      sample_owners_def empty_meta_def)

text \<open>A message of 1366 characters of three bytes each, 4098 bytes, of which 1365 characters are kept.\<close>

theorem failed_job_event_witness:
  "\<exists>e. snapshot sample_owners (failed_job ''True'' (concat (replicate 1366 [CHR 0xE4, CHR 0xBB, CHR 0xBB]))) 7 = Some (Some e) \<and>
     ev_type e = ''task.timeout'' \<and> length (ei_message (ev_execution e)) = 4095 \<and>
     ei_message_truncated (ev_execution e)"
proof -
  let ?r = "[CHR 0xE4, CHR 0xBB, CHR 0xBB]"
  let ?m = "concat (replicate 1366 ?r)"
  have len: "length (concat (take k (replicate 1366 ?r))) = 3 * min k 1366" for k
    by (simp add: length_concat take_replicate sum_list_replicate)
  have m: "length ?m = 4098" using len [of 1366] by simp
  have r: "runes (replicate 1366 ?r)" by (simp add: runes_def rune_start_def)
  from failed_job_event [OF failed_job_simps(1) r, of ?m sample_owners 7] failed_job_simps(3) [of ?m]
  obtain e k where e: "snapshot sample_owners (failed_job ''True'' ?m) 7 = Some (Some e)" "ev_type e = ''task.timeout''"
    "ei_message (ev_execution e) = concat (take k (replicate 1366 ?r))" "length (ei_message (ev_execution e)) \<le> 4096"
    "ei_message_truncated (ev_execution e) \<longleftrightarrow> 4096 < length ?m"
    "if ei_message_truncated (ev_execution e)
     then k < length (replicate 1366 ?r) \<and> 4096 < length (concat (take (Suc k) (replicate 1366 ?r)))
     else k = length (replicate 1366 ?r)"
    by (auto simp del: concat_replicate_trivial)
  have t: "ei_message_truncated (ev_execution e)" using e(5) m by simp
  with e(3,4,6) have "3 * min k 1366 \<le> 4096" "4096 < 3 * min (Suc k) 1366" "k < 1366"
    by (simp_all only: len if_True length_replicate)
  then have "k = 1365" by simp
  then have "length (ei_message (ev_execution e)) = 4095" by (simp only: e(3) len)
  with e(1,2) t show ?thesis by blast
qed

theorem failure_noticed_once_witness:
  "on_update sample_owners False 7 (Some (failed_job ''False'' [])) (Some (failed_job ''True'' [])) =
     snapshot sample_owners (failed_job ''True'' []) 7 \<and>
   on_update sample_owners False 7 (Some (failed_job ''True'' [])) (Some (failed_job ''True'' [])) = Some None"
proof -
  let ?v = "\<lambda>i :: nat. if i = 0 then failed_job ''False'' [] else failed_job ''True'' []"
  show ?thesis
    using failure_noticed_once [of 2 ?v 0 sample_owners "\<lambda>_. False" "\<lambda>_. 7"]
    by (simp add: failed_job_simps All_less_Suc numeral_2_eq_2) (simp add: failed_job_def)
qed

end
