(* ===== verification/Delivery.thy ===== *)
theory Delivery
  imports NotifyEvent Config
begin

text \<open>
  The delivery of one notification: the attempts with their waiting times, \<open>deliver\<close> of
  \<open>internal/notification/dispatcher.go\<close>, and the two channels, \<open>webhook.go\<close> and \<open>smtp.go\<close>.
\<close>

section \<open>Attempts\<close>

record attempt_result =
  at_status :: int
  at_delivered :: bool
  at_retry :: bool
  at_reason :: string

datatype delivery_state = StatePending | StateSending | StateDelivered | StateRejected | StateExhausted

text \<open>
  What a delivery uses: the channel, the reader (\<open>None\<close> when there is none), whether the context has
  ended, and the timer of a wait, \<open>False\<close> when the context ends before it fires.
\<close>

record 'w delivery_env =
  de_encode :: "notify_event \<Rightarrow> string option"
  de_send :: "string \<Rightarrow> string \<Rightarrow> 'w \<Rightarrow> attempt_result \<times> 'w"
  de_max_retries :: int
  de_reader :: "(string \<Rightarrow> 'w \<Rightarrow> (api_error + task) \<times> 'w) option"
  de_owners :: owner_api
  de_cancelled :: "'w \<Rightarrow> bool \<times> 'w"
  de_timer :: "duration \<Rightarrow> 'w \<Rightarrow> bool \<times> 'w"

text \<open>A \<open>time.Duration\<close> has 64 bits, and the shift drops what does not fit.\<close>

definition retry_delay :: "int \<Rightarrow> duration" where
  "retry_delay retry = min (sint (push_bit (nat retry) (1000000000 :: 64 word))) (30 * second)"

definition wait_retry :: "'w delivery_env \<Rightarrow> duration \<Rightarrow> 'w \<Rightarrow> bool \<times> 'w" where
  "wait_retry E delay w =
     (case de_timer E delay w of
        (False, w') \<Rightarrow> (False, w')
      | (True, w') \<Rightarrow> (case de_cancelled E w' of (c, w'') \<Rightarrow> (\<not> c, w'')))"

text \<open>The loop of \<open>deliver\<close>; \<open>None\<close> is the empty state of a delivery that was interrupted.\<close>

function attempts ::
  "'w delivery_env \<Rightarrow> string \<Rightarrow> string \<Rightarrow> int \<Rightarrow> 'w \<Rightarrow> delivery_state option \<times> 'w" where
  "attempts E ident body attempt w =
     (if de_max_retries E < attempt then (Some StateExhausted, w)
      else case de_cancelled E w of
        (True, w1) \<Rightarrow> (None, w1)
      | (False, w1) \<Rightarrow>
          (case de_send E ident body w1 of (r, w2) \<Rightarrow>
            (case de_cancelled E w2 of
               (True, w3) \<Rightarrow> (None, w3)
             | (False, w3) \<Rightarrow>
                 if at_delivered r then (Some StateDelivered, w3)
                 else if \<not> at_retry r \<or> attempt = de_max_retries E
                 then (Some (if at_retry r then StateExhausted else StateRejected), w3)
                 else (case wait_retry E (retry_delay attempt) w3 of
                         (False, w4) \<Rightarrow> (None, w4)
                       | (True, w4) \<Rightarrow> attempts E ident body (attempt + 1) w4))))"
  by pat_completeness auto
termination
  by (relation "measure (\<lambda>(E, ident, body, attempt, w). nat (de_max_retries E + 1 - attempt))") auto

declare attempts.simps [simp del]

definition deliver :: "'w delivery_env \<Rightarrow> notify_event \<Rightarrow> 'w \<Rightarrow> delivery_state option \<times> 'w" where
  "deliver E e w =
     (case (case de_reader E of None \<Rightarrow> (e, w) | Some get \<Rightarrow> enrich (de_owners E) get e w) of (e', w1) \<Rightarrow>
        (case de_encode E e' of
           None \<Rightarrow> (Some StateRejected, w1)
         | Some body \<Rightarrow> attempts E (ev_id e') body 0 w1))"

section \<open>The webhook\<close>

text \<open>
  \<open>net/http\<close>: whether a request can be made for the address, and the call, which gives the status of
  the response or, for a transport error, whether it was a timeout.
\<close>

record 'w web_client =
  wb_valid_request :: "string \<Rightarrow> bool"
  wb_do :: "string \<Rightarrow> string \<Rightarrow> string \<Rightarrow> 'w \<Rightarrow> (bool + int) \<times> 'w"
  wb_cancelled :: "'w \<Rightarrow> bool \<times> 'w"

definition webhook_send :: "string \<times> 'w web_client \<Rightarrow> string \<Rightarrow> string \<Rightarrow> 'w \<Rightarrow> attempt_result \<times> 'w" where
  "webhook_send = (\<lambda>(address, C) ident body w.
     if \<not> wb_valid_request C address
     then (\<lparr>at_status = 0, at_delivered = False, at_retry = False, at_reason = ''request_invalid''\<rparr>, w)
     else (case wb_do C address ident body w of
        (Inl timeout, w') \<Rightarrow>
          (case wb_cancelled C w' of
             (True, w'') \<Rightarrow> (\<lparr>at_status = 0, at_delivered = False, at_retry = False, at_reason = ''canceled''\<rparr>, w'')
           | (False, w'') \<Rightarrow> (\<lparr>at_status = 0, at_delivered = False, at_retry = True,
               at_reason = (if timeout then ''timeout'' else ''network_error'')\<rparr>, w''))
      | (Inr status, w') \<Rightarrow>
          (\<lparr>at_status = status, at_delivered = 200 \<le> status \<and> status \<le> 299,
            at_retry = status = 429 \<or> 500 \<le> status \<and> status \<le> 599, at_reason = ''http_status''\<rparr>, w')))"

section \<open>Email\<close>

record smtp_options =
  so_address :: string
  so_tls_mode :: string
  so_username :: string
  so_password :: string
  so_from :: string
  so_to :: "string list"
  so_timeout :: duration
  so_max_retries :: int
  so_subject_template :: string
  so_body_template :: string

text \<open>
  What \<open>errors.AsType\<close> and \<open>errors.Is\<close> find in an error: an SMTP reply with its code, a certificate
  that was not accepted, a network error, the end of the connection.
\<close>

record smtp_error =
  se_reply :: "int option"
  se_certificate :: bool
  se_network :: bool
  se_eof :: bool

definition smtp_failure :: "smtp_error \<Rightarrow> string \<Rightarrow> attempt_result" where
  "smtp_failure e stage =
     (case se_reply e of
        Some code \<Rightarrow> \<lparr>at_status = code, at_delivered = False, at_retry = 400 \<le> code \<and> code < 500, at_reason = stage\<rparr>
      | None \<Rightarrow>
          if stage = ''smtp_ack''
          then \<lparr>at_status = 0, at_delivered = False, at_retry = False, at_reason = ''smtp_ack_unknown''\<rparr>
          else if se_certificate e
          then \<lparr>at_status = 0, at_delivered = False, at_retry = False, at_reason = ''smtp_certificate''\<rparr>
          else \<lparr>at_status = 0, at_delivered = False, at_retry = se_network e \<or> se_eof e, at_reason = stage\<rparr>)"

text \<open>The commands of \<open>net/smtp\<close> on one connection, in the order they are given.\<close>

record 'w smtp_client =
  sc_dial :: "string \<Rightarrow> 'w \<Rightarrow> smtp_error option \<times> 'w"
  sc_greeting :: "bool \<Rightarrow> 'w \<Rightarrow> smtp_error option \<times> 'w"     \<comment> \<open>within TLS or not\<close>
  sc_start_tls :: "'w \<Rightarrow> smtp_error option \<times> 'w"
  sc_auth :: "string \<Rightarrow> string \<Rightarrow> 'w \<Rightarrow> smtp_error option \<times> 'w"
  sc_mail :: "string \<Rightarrow> 'w \<Rightarrow> smtp_error option \<times> 'w"
  sc_rcpt :: "string \<Rightarrow> 'w \<Rightarrow> smtp_error option \<times> 'w"
  sc_data :: "'w \<Rightarrow> smtp_error option \<times> 'w"
  sc_write :: "string \<Rightarrow> 'w \<Rightarrow> smtp_error option \<times> 'w"
  sc_close :: "'w \<Rightarrow> smtp_error option \<times> 'w"
  sc_quit :: "'w \<Rightarrow> smtp_error option \<times> 'w"

definition stage ::
  "('w \<Rightarrow> smtp_error option \<times> 'w) \<Rightarrow> string \<Rightarrow> ('w \<Rightarrow> attempt_result \<times> 'w) \<Rightarrow> 'w \<Rightarrow> attempt_result \<times> 'w" where
  "stage command name k w =
     (case command w of (Some e, w') \<Rightarrow> (smtp_failure e name, w') | (None, w') \<Rightarrow> k w')"

fun recipients ::
  "'w smtp_client \<Rightarrow> string list \<Rightarrow> ('w \<Rightarrow> attempt_result \<times> 'w) \<Rightarrow> 'w \<Rightarrow> attempt_result \<times> 'w" where
  "recipients C [] k w = k w"
| "recipients C (r # rs) k w = stage (sc_rcpt C r) ''smtp_recipient'' (recipients C rs k) w"

definition smtp_transfer :: "'w smtp_client \<Rightarrow> string \<Rightarrow> 'w \<Rightarrow> attempt_result \<times> 'w" where
  "smtp_transfer C body =
     stage (sc_data C) ''smtp_data'' (
     stage (sc_write C body) ''smtp_write'' (
     stage (sc_close C) ''smtp_ack'' (\<lambda>w.
       (\<lparr>at_status = 250, at_delivered = True, at_retry = False, at_reason = ''smtp_accepted''\<rparr>, snd (sc_quit C w)))))"

definition smtp_send :: "smtp_options \<times> 'w smtp_client \<Rightarrow> string \<Rightarrow> string \<Rightarrow> 'w \<Rightarrow> attempt_result \<times> 'w" where
  "smtp_send = (\<lambda>(opts, C) ident body.
     stage (sc_dial C (so_address opts)) ''smtp_connect'' (
     stage (sc_greeting C (so_tls_mode opts = ''implicit'')) ''smtp_greeting'' (
     (if so_tls_mode opts = ''starttls'' then stage (sc_start_tls C) ''smtp_starttls'' else (\<lambda>k. k)) (
     (if so_username opts \<noteq> [] then stage (sc_auth C (so_username opts) (so_password opts)) ''smtp_auth''
      else (\<lambda>k. k)) (
     stage (sc_mail C (so_from opts)) ''smtp_sender'' (
     recipients C (so_to opts) (smtp_transfer C body)))))))"

section \<open>The text of an email\<close>

text \<open>
  \<open>text/template\<close> (a template that was parsed maps an event to its text, or fails), the encodings of
  \<open>mime\<close>, the time format and SHA-256.
\<close>

record mail_library =
  ml_parse :: "string \<Rightarrow> (notify_event \<Rightarrow> string option) option"
  ml_q_encode :: "string \<Rightarrow> string"
  ml_quoted_printable :: "string \<Rightarrow> string option"
  ml_rfc1123z :: "time \<Rightarrow> string"
  ml_sha256_hex :: "string \<Rightarrow> string"

record smtp_sender =
  sd_opts :: smtp_options
  sd_server_name :: string
  sd_subject :: "notify_event \<Rightarrow> string option"
  sd_body :: "notify_event \<Rightarrow> string option"

abbreviation nl :: string where "nl \<equiv> [char_of (10 :: nat)]"
abbreviation crlf :: string where "crlf \<equiv> [char_of (13 :: nat), char_of (10 :: nat)]"

definition default_smtp_subject :: string where
  "default_smtp_subject = ''[KubeTask] {{.Type}} - {{.Task.Name}}''"

definition default_smtp_body :: string where
  "default_smtp_body = ''Event: {{.Type}}'' @ nl @ ''Task: {{.Task.Name}}'' @ nl @
     ''Namespace: {{.Execution.Namespace}}'' @ nl @ ''Job: {{.Execution.JobName}}'' @ nl @
     ''Reason: {{.Execution.Reason}}'' @ nl @ ''Event ID: {{.ID}}'' @ nl @
     ''Observed at: {{.ObservedAt.UTC.Format \"2006-01-02T15:04:05Z07:00\"}}'' @ nl @
     ''{{if .Workflow}}Workflow: {{.Workflow.Name}}'' @ nl @ ''Node: {{.Workflow.Node}}'' @ nl @ ''{{end}}''"

definition new_smtp_sender :: "mail_library \<Rightarrow> smtp_options \<Rightarrow> string + smtp_sender" where
  "new_smtp_sender M opts =
     (let opts = (if so_subject_template opts = [] then opts\<lparr>so_subject_template := default_smtp_subject\<rparr> else opts);
          opts = (if so_body_template opts = [] then opts\<lparr>so_body_template := default_smtp_body\<rparr> else opts)
      in case ml_parse M (so_subject_template opts) of
           None \<Rightarrow> Inl ''invalid smtp-subject-template''
         | Some subject \<Rightarrow>
             (case ml_parse M (so_body_template opts) of
                None \<Rightarrow> Inl ''invalid smtp-body-template''
              | Some body \<Rightarrow> Inr \<lparr>sd_opts = opts,
                  sd_server_name = (case split_host_port (so_address opts) of None \<Rightarrow> [] | Some (host, port) \<Rightarrow> host),
                  sd_subject = subject, sd_body = body\<rparr>))"

definition mail_headers :: "mail_library \<Rightarrow> smtp_options \<Rightarrow> notify_event \<Rightarrow> string \<Rightarrow> string" where
  "mail_headers M opts e subject =
     ''From: '' @ so_from opts @ crlf @ ''To: '' @ join ('','' @ crlf @ '' '') (so_to opts) @ crlf @
     ''Subject: '' @ ml_q_encode M subject @ crlf @
     ''Date: '' @ ml_rfc1123z M (ev_observed_at e) @ crlf @
     ''Message-ID: <'' @ ml_sha256_hex M (ev_id e) @ ''@kubetask.local>'' @ crlf @
     ''MIME-Version: 1.0'' @ crlf @ ''Content-Type: text/plain; charset=UTF-8'' @ crlf @
     ''Content-Transfer-Encoding: quoted-printable'' @ crlf @ crlf"

definition encode_mail :: "mail_library \<Rightarrow> smtp_sender \<Rightarrow> notify_event \<Rightarrow> string option" where
  "encode_mail M s e =
     (case sd_subject s e of
        None \<Rightarrow> None
      | Some subject \<Rightarrow>
          if contains_any subject [13, 10] \<or> trim_space subject = [] then None
          else (case sd_body s e of
             None \<Rightarrow> None
           | Some body \<Rightarrow>
               if trim_space body = [] then None
               else map_option (\<lambda>text. mail_headers M (sd_opts s) e subject @ text) (ml_quoted_printable M body)))"

section \<open>Settings\<close>

definition smtp_options_of :: "config \<Rightarrow> smtp_options" where
  "smtp_options_of cfg = \<lparr>so_address = cf_smtp_address cfg, so_tls_mode = cf_smtp_tls cfg,
     so_username = cf_smtp_username cfg, so_password = cf_smtp_password cfg, so_from = cf_smtp_from cfg,
     so_to = cf_smtp_to cfg, so_timeout = cf_smtp_timeout cfg, so_max_retries = cf_smtp_max_retries cfg,
     so_subject_template = cf_smtp_subject_template cfg, so_body_template = cf_smtp_body_template cfg\<rparr>"

section \<open>The log of the attempts\<close>

datatype try_step = Sent attempt_result | Waited duration

definition watching :: "'w delivery_env \<Rightarrow> ('w \<times> try_step list) delivery_env" where
  "watching E = \<lparr>
     de_encode = de_encode E,
     de_send = (\<lambda>ident body (w, l). case de_send E ident body w of (r, w') \<Rightarrow> (r, w', l @ [Sent r])),
     de_max_retries = de_max_retries E,
     de_reader = map_option (\<lambda>get name (w, l). case get name w of (t, w') \<Rightarrow> (t, w', l)) (de_reader E),
     de_owners = de_owners E,
     de_cancelled = (\<lambda>(w, l). case de_cancelled E w of (c, w') \<Rightarrow> (c, w', l)),
     de_timer = (\<lambda>d (w, l). case de_timer E d w of (c, w') \<Rightarrow> (c, w', l @ [Waited d]))\<rparr>"

text \<open>The failed attempts from number k on, each followed by its wait.\<close>

fun retries :: "int \<Rightarrow> attempt_result list \<Rightarrow> try_step list" where
  "retries k [] = []"
| "retries k (r # rs) = Sent r # Waited (retry_delay k) # retries (k + 1) rs"

text \<open>How a verdict relates to the last attempt, after some attempts that were retried.\<close>

definition verdict_fits ::
  "int \<Rightarrow> attempt_result list \<Rightarrow> try_step list \<Rightarrow> delivery_state option \<Rightarrow> bool" where
  "verdict_fits left rs final verdict \<longleftrightarrow> (case verdict of
     None \<Rightarrow> final = [] \<or> (\<exists>r. final = [Sent r])
   | Some StateDelivered \<Rightarrow> (\<exists>r. final = [Sent r] \<and> at_delivered r)
   | Some StateRejected \<Rightarrow> (\<exists>r. final = [Sent r] \<and> \<not> at_delivered r \<and> \<not> at_retry r)
   | Some StateExhausted \<Rightarrow> int (length rs) = left \<and> (\<exists>r. final = [Sent r] \<and> \<not> at_delivered r \<and> at_retry r)
   | Some _ \<Rightarrow> False)"

lemma verdict_fits_Cons: "verdict_fits (left - 1) rs final v \<Longrightarrow> verdict_fits left (r # rs) final v"
  by (auto simp: verdict_fits_def split: option.splits delivery_state.splits)


lemma watching_simps:
  "de_max_retries (watching E) = de_max_retries E"
  "de_cancelled (watching E) (w, l) = (case de_cancelled E w of (c, w') \<Rightarrow> (c, w', l))"
  "de_send (watching E) i b (w, l) = (case de_send E i b w of (r, w') \<Rightarrow> (r, w', l @ [Sent r]))"
  "de_timer (watching E) d (w, l) = (case de_timer E d w of (c, w') \<Rightarrow> (c, w', l @ [Waited d]))"
  "wait_retry (watching E) d (w, l) = (case wait_retry E d w of (c, w') \<Rightarrow> (c, w', l @ [Waited d]))"
  by (simp_all add: watching_def wait_retry_def split: prod.splits bool.splits)

lemma attempts_log:
  assumes "attempts (watching E) ident body k (w, l) = (v, w', l')" "k \<le> de_max_retries E"
  shows "\<exists>rs final. l' = l @ retries k rs @ final \<and> (\<forall>r \<in> set rs. \<not> at_delivered r \<and> at_retry r) \<and>
    int (length rs) \<le> de_max_retries E - k \<and> verdict_fits (de_max_retries E - k) rs final v"
  using assms
proof (induction "nat (de_max_retries E - k)" arbitrary: k w l)
  case (0 k w l)
  then have k: "k = de_max_retries E" by simp
  show ?case
  proof (rule exI [of _ "[]"])
    show "\<exists>final. l' = l @ retries k [] @ final \<and> (\<forall>r \<in> set []. \<not> at_delivered r \<and> at_retry r) \<and>
        int (length []) \<le> de_max_retries E - k \<and> verdict_fits (de_max_retries E - k) [] final v"
      using 0(2) unfolding attempts.simps [of "watching E" ident body k "(w, l)"]
      by (auto simp: watching_simps k verdict_fits_def split: prod.splits bool.splits if_splits)
  qed
next
  case (Suc n k w l)
  then have k: "k < de_max_retries E" "n = nat (de_max_retries E - (k + 1))" by linarith+
  have stop: ?case if "l' = l @ final" "verdict_fits (de_max_retries E - k) [] final v" for final
    using that k by (intro exI [of _ "[]"] exI [of _ final]) simp
  obtain c1 w1 where 1: "de_cancelled E w = (c1, w1)" by (metis surj_pair)
  obtain r w2 where 2: "de_send E ident body w1 = (r, w2)" by (metis surj_pair)
  obtain c3 w3 where 3: "de_cancelled E w2 = (c3, w3)" by (metis surj_pair)
  obtain c4 w4 where 4: "wait_retry E (retry_delay k) w3 = (c4, w4)" by (metis surj_pair)
  note run = Suc.prems(1) [unfolded attempts.simps [of "watching E" ident body k "(w, l)"] watching_simps 1]
  consider (interrupted) "c1 \<or> c3" | (last) "\<not> c1" "\<not> c3" "at_delivered r \<or> \<not> at_retry r"
    | (retry) "\<not> c1" "\<not> c3" "\<not> at_delivered r" "at_retry r" by blast
  then show ?case
  proof cases
    case interrupted
    then show ?thesis
      using run k by (intro stop [of "if c1 then [] else [Sent r]"]) (auto simp: watching_simps 2 3 verdict_fits_def)
  next
    case last
    then show ?thesis
      using run k by (intro stop [of "[Sent r]"]) (auto simp: watching_simps 2 3 verdict_fits_def split: if_splits)
  next
    case retry
    show ?thesis
    proof (cases c4)
      case False
      with retry run k have "v = None" "l' = l @ retries k [r] @ []" by (auto simp: watching_simps 2 3 4)
      with retry k show ?thesis
        by (intro exI [of _ "[r]"] exI [of _ "[]"]) (simp add: verdict_fits_def)
    next
      case True
      with retry run k have "attempts (watching E) ident body (k + 1) (w4, l @ [Sent r, Waited (retry_delay k)]) = (v, w', l')"
        by (auto simp: watching_simps 2 3 4)
      from Suc.hyps(1) [OF k(2) this] k(1) obtain rs final where
        "l' = (l @ [Sent r, Waited (retry_delay k)]) @ retries (k + 1) rs @ final"
        "\<forall>r \<in> set rs. \<not> at_delivered r \<and> at_retry r" "int (length rs) \<le> de_max_retries E - (k + 1)"
        "verdict_fits (de_max_retries E - (k + 1)) rs final v" by auto
      with retry verdict_fits_Cons [of "de_max_retries E - k" rs final v r] show ?thesis
        by (intro exI [of _ "r # rs"] exI [of _ final]) (simp add: algebra_simps)
    qed
  qed
qed

lemma sint64_in_range: "- (2 ^ 63) \<le> i \<Longrightarrow> i < 2 ^ 63 \<Longrightarrow> sint (word_of_int i :: 64 word) = i"
  by (simp add: sint_sbintrunc' signed_take_bit_int_eq_self)

lemma retry_delay_bounds:
  assumes "0 \<le> k" "k \<le> 33"
  shows "second \<le> retry_delay k" "retry_delay k \<le> 30 * second" "retry_delay k = min (2 ^ nat k * second) (30 * second)"
proof -
  have "(2 :: int) ^ nat k \<le> 2 ^ 33" using assms by (intro power_increasing) auto
  then have "2 ^ nat k * (1000000000 :: int) < 2 ^ 63" by simp
  moreover have "push_bit (nat k) (1000000000 :: 64 word) = word_of_int (2 ^ nat k * 1000000000)"
    by (simp add: push_bit_eq_mult mult.commute)
  moreover have "- (2 ^ 63) \<le> 2 ^ nat k * (1000000000 :: int)" by (rule order_trans [of _ 0]) simp_all
  ultimately have "sint (push_bit (nat k) (1000000000 :: 64 word)) = 2 ^ nat k * 1000000000"
    by (simp only: sint64_in_range)
  then show e: "retry_delay k = min (2 ^ nat k * second) (30 * second)" by (simp add: retry_delay_def)
  have "(1 :: int) \<le> 2 ^ nat k" by simp
  then show "second \<le> retry_delay k" "retry_delay k \<le> 30 * second" unfolding e by simp_all
qed

lemma retries_waits:
  "Waited d \<in> set (retries k rs) \<Longrightarrow> \<exists>i. k \<le> i \<and> i < k + int (length rs) \<and> d = retry_delay i"
proof (induction rs arbitrary: k)
  case Nil
  then show ?case by simp
next
  case (Cons r rs)
  show ?case
  proof (cases "d = retry_delay k")
    case True
    then show ?thesis by (intro exI [of _ k]) simp
  next
    case False
    with Cons.prems have "Waited d \<in> set (retries (k + 1) rs)" by simp
    from Cons.IH [OF this] obtain i where "k + 1 \<le> i" "i < k + 1 + int (length rs)" "d = retry_delay i" by blast
    then show ?thesis by (intro exI [of _ i]) simp
  qed
qed

lemma enrich_world: "snd (enrich A get e w) = snd (get (ti_name (ev_task e)) w)"
  by (simp add: enrich_def Let_def split: prod.splits sum.splits option.splits)

lemma deliver_log:
  assumes "deliver (watching E) e (w, []) = (v, w', log)" "0 \<le> de_max_retries E"
  shows "(log = [] \<and> v = Some StateRejected) \<or>
    (\<exists>rs final. log = retries 0 rs @ final \<and> (\<forall>r \<in> set rs. \<not> at_delivered r \<and> at_retry r) \<and>
      int (length rs) \<le> de_max_retries E \<and> verdict_fits (de_max_retries E) rs final v)"
proof -
  obtain e' w1 where r: "(case de_reader (watching E) of None \<Rightarrow> (e, (w, []))
      | Some get \<Rightarrow> enrich (de_owners (watching E)) get e (w, [])) = (e', w1, [])"
  proof (cases "de_reader E")
    case None
    then show thesis by (intro that) (simp add: watching_def)
  next
    case (Some get)
    define get' where "get' = (\<lambda>name (w, l :: try_step list). case get name w of (t, w') \<Rightarrow> (t, w', l))"
    obtain e' w1 l where en: "enrich (de_owners E) get' e (w, []) = (e', w1, l)" by (metis prod_cases3)
    moreover have "l = []"
      using enrich_world [of "de_owners E" get' e "(w, [])"] en by (simp add: get'_def split: prod.splits)
    ultimately show thesis using Some by (intro that [of e' w1]) (simp add: watching_def get'_def)
  qed
  show ?thesis
  proof (cases "de_encode (watching E) e'")
    case None
    with assms(1) r show ?thesis by (simp add: deliver_def)
  next
    case (Some body)
    with assms(1) r have "attempts (watching E) (ev_id e') body 0 (w1, []) = (v, w', log)" by (simp add: deliver_def)
    from attempts_log [OF this assms(2)] show ?thesis by simp
  qed
qed

text \<open>
  C39. A delivery makes at most one attempt more than the configured retries, and its verdict tells what
  happened. Every attempt but the last had failed in a way that may be retried, and before the next one
  the dispatcher waited 1, 2, 4, ... seconds, never more than 30; it is delivered exactly when the last
  attempt was, rejected when the last attempt failed for good (or the event could not be encoded, and
  nothing was sent), exhausted when all attempts were used up, and has no verdict only if the context
  ended.
\<close>

theorem delivery_attempts:
  assumes "deliver (watching E) e (w, []) = (v, w', log)" and "0 \<le> de_max_retries E" and "de_max_retries E \<le> 34"
  shows "(log = [] \<and> v = Some StateRejected) \<or>
    (\<exists>rs final. log = retries 0 rs @ final \<and> int (length rs) \<le> de_max_retries E \<and> length final \<le> 1 \<and>
      (\<forall>r \<in> set rs. \<not> at_delivered r \<and> at_retry r) \<and>
      (\<forall>d. Waited d \<in> set log \<longrightarrow> (\<exists>i < length rs. d = min (2 ^ i * second) (30 * second))) \<and>
      (v = Some StateDelivered \<longleftrightarrow> v \<noteq> None \<and> (\<exists>r. final = [Sent r] \<and> at_delivered r)) \<and>
      (v = Some StateRejected \<longleftrightarrow> v \<noteq> None \<and> (\<exists>r. final = [Sent r] \<and> \<not> at_delivered r \<and> \<not> at_retry r)) \<and>
      (v = Some StateExhausted \<longrightarrow> int (length rs) = de_max_retries E \<and>
         (\<exists>r. final = [Sent r] \<and> \<not> at_delivered r \<and> at_retry r)) \<and>
      v \<in> {None, Some StateDelivered, Some StateRejected, Some StateExhausted})"
  using deliver_log [OF assms(1,2)]
proof
  assume "\<exists>rs final. log = retries 0 rs @ final \<and> (\<forall>r \<in> set rs. \<not> at_delivered r \<and> at_retry r) \<and>
      int (length rs) \<le> de_max_retries E \<and> verdict_fits (de_max_retries E) rs final v"
  then obtain rs final where r: "log = retries 0 rs @ final" "\<forall>r \<in> set rs. \<not> at_delivered r \<and> at_retry r"
    "int (length rs) \<le> de_max_retries E" "verdict_fits (de_max_retries E) rs final v" by blast
  then have f: "Waited d \<notin> set final" "length final \<le> 1" for d
    by (auto simp: verdict_fits_def split: option.splits delivery_state.splits)
  have waits: "\<exists>i < length rs. d = min (2 ^ i * second) (30 * second)" if "Waited d \<in> set log" for d
  proof -
    from that r(1) f have "Waited d \<in> set (retries 0 rs)" by simp
    from retries_waits [OF this] obtain k where k: "0 \<le> k" "k < int (length rs)" "d = retry_delay k" by auto
    then have "retry_delay k = min (2 ^ nat k * second) (30 * second)" using assms(3) r(3) by (intro retry_delay_bounds) auto
    with k show ?thesis by (intro exI [of _ "nat k"]) auto
  qed
  have "(v = Some StateDelivered \<longleftrightarrow> v \<noteq> None \<and> (\<exists>r. final = [Sent r] \<and> at_delivered r)) \<and>
      (v = Some StateRejected \<longleftrightarrow> v \<noteq> None \<and> (\<exists>r. final = [Sent r] \<and> \<not> at_delivered r \<and> \<not> at_retry r)) \<and>
      (v = Some StateExhausted \<longrightarrow> int (length rs) = de_max_retries E \<and>
         (\<exists>r. final = [Sent r] \<and> \<not> at_delivered r \<and> at_retry r)) \<and>
      v \<in> {None, Some StateDelivered, Some StateRejected, Some StateExhausted}"
    using r(4) by (auto simp: verdict_fits_def split: option.splits delivery_state.splits)
  with r(1-3) f(2) waits show ?thesis by blast
qed blast

section \<open>What the channels promise\<close>

text \<open>One round of the loop.\<close>

lemma attempts_round:
  assumes "attempts E ident body k w = (v, w')" "k \<le> de_max_retries E"
  obtains (ended) "de_cancelled E w = (True, w')" "v = None"
  | (sent) w1 r w2 c where "de_cancelled E w = (False, w1)" "de_send E ident body w1 = (r, w2)" "de_cancelled E w2 = (c, w')"
      "if c then v = None else if at_delivered r then v = Some StateDelivered
       else v = Some (if at_retry r then StateExhausted else StateRejected)"
  | (again) w1 r w2 w3 c w4 where "de_cancelled E w = (False, w1)" "de_send E ident body w1 = (r, w2)"
      "de_cancelled E w2 = (False, w3)" "\<not> at_delivered r" "at_retry r" "k < de_max_retries E"
      "wait_retry E (retry_delay k) w3 = (c, w4)"
      "if c then attempts E ident body (k + 1) w4 = (v, w') else v = None \<and> w' = w4"
proof -
  obtain c1 w1 where s1: "de_cancelled E w = (c1, w1)" by (metis surj_pair)
  obtain r w2 where s2: "de_send E ident body w1 = (r, w2)" by (metis surj_pair)
  obtain c3 w3 where s3: "de_cancelled E w2 = (c3, w3)" by (metis surj_pair)
  obtain c4 w4 where s4: "wait_retry E (retry_delay k) w3 = (c4, w4)" by (metis surj_pair)
  have "\<not> de_max_retries E < k" using assms(2) by simp
  note run = assms(1) [unfolded attempts.simps [of E ident body k w] s1 if_not_P [OF this]]
  consider "c1" | "\<not> c1" "c3 \<or> at_delivered r \<or> \<not> at_retry r \<or> k = de_max_retries E"
    | "\<not> c1" "\<not> c3" "\<not> at_delivered r" "at_retry r" "k \<noteq> de_max_retries E" by blast
  then show thesis
  proof cases
    case 1
    with run s1 show thesis by (intro ended) auto
  next
    case 2
    with run s1 s2 s3 have "w' = w3" by (cases c3) (auto split: if_splits)
    with 2 run s1 s2 s3 show thesis by (intro sent [of w1 r w2 c3]) (cases c3; auto split: if_splits)+
  next
    case 3
    with run s1 s2 s3 s4 assms(2) show thesis by (intro again [of w1 r w2 w3 c4 w4]) (cases c4; auto)+
  qed
qed

text \<open>A channel as \<open>deliver\<close> uses it: what counts as delivered has a success status and is not retried.\<close>

locale sender_contract =
  fixes send :: "'c \<Rightarrow> string \<Rightarrow> string \<Rightarrow> 'w \<Rightarrow> attempt_result \<times> 'w"
  assumes delivered_final: "send c ident body w = (r, w') \<Longrightarrow> at_delivered r \<Longrightarrow>
    \<not> at_retry r \<and> 200 \<le> at_status r \<and> at_status r \<le> 299"
begin

lemma attempts_delivered:
  assumes "attempts E ident body k w = (Some StateDelivered, w')" "k \<le> de_max_retries E" "de_send E = send c"
  shows "\<exists>w1 r w2. send c ident body w1 = (r, w2) \<and> at_delivered r \<and> 200 \<le> at_status r \<and> at_status r \<le> 299"
  using assms
proof (induction "nat (de_max_retries E - k)" arbitrary: k w rule: less_induct)
  case less
  from less.prems(1,2) show ?case
  proof (cases rule: attempts_round)
    case (sent w1 r w2 b)
    then have "send c ident body w1 = (r, w2)" "at_delivered r" using less.prems(3) by (simp_all split: if_splits)
    with delivered_final show ?thesis by blast
  next
    case (again w1 r w2 w3 b w4)
    then have "attempts E ident body (k + 1) w4 = (Some StateDelivered, w')" by (simp split: if_splits)
    with less.hyps [of "k + 1" w4] again(6) less.prems(3) show ?thesis by simp
  qed simp
qed

end

text \<open>The steps of a delivery besides the channel send nothing.\<close>

definition sends_nothing :: "'w delivery_env \<Rightarrow> ('w \<Rightarrow> nat) \<Rightarrow> bool" where
  "sends_nothing E acc \<longleftrightarrow> (\<forall>w. acc (snd (de_cancelled E w)) = acc w) \<and> (\<forall>d w. acc (snd (de_timer E d w)) = acc w) \<and>
     (\<forall>get name w. de_reader E = Some get \<longrightarrow> acc (snd (get name w)) = acc w)"

text \<open>
  A channel that tells, through a count of accepted messages, that a retry cannot repeat a message:
  under the laws of the server, what may be retried was not accepted.
\<close>

locale mail_contract = sender_contract send
  for send :: "'c \<Rightarrow> string \<Rightarrow> string \<Rightarrow> 'w \<Rightarrow> attempt_result \<times> 'w" +
  fixes lawful :: "'c \<Rightarrow> ('w \<Rightarrow> nat) \<Rightarrow> bool"
  assumes accepted_once: "lawful c acc \<Longrightarrow> send c ident body w = (r, w') \<Longrightarrow> acc w \<le> acc w' \<and> acc w' \<le> acc w + 1"
    and retry_not_accepted: "lawful c acc \<Longrightarrow> send c ident body w = (r, w') \<Longrightarrow> at_retry r \<Longrightarrow> acc w' = acc w"
    and delivered_accepted: "lawful c acc \<Longrightarrow> send c ident body w = (r, w') \<Longrightarrow> at_delivered r \<Longrightarrow> acc w' = acc w + 1"
begin

lemma attempts_once:
  assumes "attempts E ident body k w = (v, w')" "k \<le> de_max_retries E" "de_send E = send c" "lawful c acc" "sends_nothing E acc"
  shows "acc w \<le> acc w' \<and> acc w' \<le> acc w + 1 \<and> (v = Some StateDelivered \<longrightarrow> acc w' = acc w + 1) \<and>
    (v = Some StateExhausted \<longrightarrow> acc w' = acc w)"
  using assms
proof (induction "nat (de_max_retries E - k)" arbitrary: k w rule: less_induct)
  case less
  have q: "acc y = acc x" if "de_cancelled E x = (b, y)" for x b y
    using less.prems(5) that unfolding sends_nothing_def by (metis snd_conv)
  have t: "acc y = acc x" if "wait_retry E d x = (b, y)" for d x b y
  proof -
    obtain f z where z: "de_timer E d x = (f, z)" by (metis surj_pair)
    then have "acc z = acc x" using less.prems(5) unfolding sends_nothing_def by (metis snd_conv)
    with that z show ?thesis using q [of z] by (auto simp: wait_retry_def split: bool.splits prod.splits)
  qed
  from less.prems(1,2) show ?case
  proof (cases rule: attempts_round)
    case ended
    with q show ?thesis by auto
  next
    case (sent w1 r w2 c')
    note s = sent(2) [unfolded less.prems(3)]
    from q sent(1,3) have a: "acc w1 = acc w" "acc w' = acc w2" by blast+
    from sent(4) have v: "v = Some StateDelivered \<Longrightarrow> at_delivered r" "v = Some StateExhausted \<Longrightarrow> at_retry r"
      by (auto split: if_splits)
    show ?thesis
      unfolding a(2) a(1) [symmetric]
      using accepted_once [OF less.prems(4) s] retry_not_accepted [OF less.prems(4) s] delivered_accepted [OF less.prems(4) s] v
      by blast
  next
    case (again w1 r w2 w3 c' w4)
    have same: "acc w4 = acc w"
      using q [OF again(1)] retry_not_accepted [OF less.prems(4) again(2) [unfolded less.prems(3)] again(5)]
        q [OF again(3)] t [OF again(7)] by simp
    show ?thesis
    proof (cases c')
      case True
      with again have "attempts E ident body (k + 1) w4 = (v, w')" by simp
      with less.hyps [of "k + 1" w4] again(6) less.prems(3-5) same show ?thesis by simp
    next
      case False
      with again(8) same show ?thesis by simp
    qed
  qed
qed

lemma deliver_once:
  assumes "deliver E e w = (v, w')" "0 \<le> de_max_retries E" "de_send E = send c" "lawful c acc" "sends_nothing E acc"
  shows "acc w \<le> acc w' \<and> acc w' \<le> acc w + 1 \<and> (v = Some StateDelivered \<longrightarrow> acc w' = acc w + 1) \<and>
    (v = Some StateExhausted \<longrightarrow> acc w' = acc w)"
proof -
  obtain e' w1 where r: "(case de_reader E of None \<Rightarrow> (e, w) | Some get \<Rightarrow> enrich (de_owners E) get e w) = (e', w1)"
    by (metis surj_pair)
  have same: "acc w1 = acc w"
  proof (cases "de_reader E")
    case (Some get)
    with r have "w1 = snd (get (ti_name (ev_task e)) w)" using enrich_world [of "de_owners E" get e w] by simp
    with Some assms(5) show ?thesis by (simp add: sends_nothing_def)
  qed (use r in simp)
  show ?thesis
  proof (cases "de_encode E e'")
    case None
    with assms(1) r have "v = Some StateRejected" "w' = w1" by (simp_all add: deliver_def)
    with same show ?thesis by simp
  next
    case (Some body)
    with assms(1) r have "attempts E (ev_id e') body 0 w1 = (v, w')" by (simp add: deliver_def)
    from attempts_once [OF this assms(2-5)] show ?thesis unfolding same .
  qed
qed

end

interpretation webhook: sender_contract webhook_send
  by unfold_locales (auto simp: webhook_send_def split: if_splits prod.splits sum.splits bool.splits)

text \<open>
  The laws of SMTP (RFC 5321): a message is accepted at the end of its data, at most once, and not
  when the server answers there with a transient error; a positive answer means it was accepted. No
  other command makes the server accept a message.
\<close>

definition silent :: "('w \<Rightarrow> nat) \<Rightarrow> ('w \<Rightarrow> 'r \<times> 'w) \<Rightarrow> bool" where
  "silent acc command \<longleftrightarrow> (\<forall>w. acc (snd (command w)) = acc w)"

definition lawful_smtp :: "smtp_options \<times> 'w smtp_client \<Rightarrow> ('w \<Rightarrow> nat) \<Rightarrow> bool" where
  "lawful_smtp = (\<lambda>(opts, C) acc.
     (\<forall>a. silent acc (sc_dial C a)) \<and> (\<forall>b. silent acc (sc_greeting C b)) \<and> silent acc (sc_start_tls C) \<and>
     (\<forall>u p. silent acc (sc_auth C u p)) \<and> (\<forall>a. silent acc (sc_mail C a)) \<and> (\<forall>a. silent acc (sc_rcpt C a)) \<and>
     silent acc (sc_data C) \<and> (\<forall>b. silent acc (sc_write C b)) \<and> silent acc (sc_quit C) \<and>
     (\<forall>w. case sc_close C w of
        (None, w') \<Rightarrow> acc w' = acc w + 1
      | (Some e, w') \<Rightarrow> acc w \<le> acc w' \<and> acc w' \<le> acc w + 1 \<and>
          (\<forall>code. se_reply e = Some code \<and> 400 \<le> code \<and> code < 500 \<longrightarrow> acc w' = acc w)))"

lemma smtp_failure_simps [simp]: "\<not> at_delivered (smtp_failure e name)"
  by (simp add: smtp_failure_def split: option.splits)

text \<open>What one more command before a session keeps.\<close>

definition final_session :: "('w \<Rightarrow> attempt_result \<times> 'w) \<Rightarrow> bool" where
  "final_session k \<longleftrightarrow> (\<forall>w. at_delivered (fst (k w)) \<longrightarrow> \<not> at_retry (fst (k w)) \<and> at_status (fst (k w)) = 250)"

definition counted_session :: "('w \<Rightarrow> nat) \<Rightarrow> ('w \<Rightarrow> attempt_result \<times> 'w) \<Rightarrow> bool" where
  "counted_session acc k \<longleftrightarrow> (\<forall>w. acc w \<le> acc (snd (k w)) \<and> acc (snd (k w)) \<le> acc w + 1 \<and>
     (at_retry (fst (k w)) \<longrightarrow> acc (snd (k w)) = acc w) \<and> (at_delivered (fst (k w)) \<longrightarrow> acc (snd (k w)) = acc w + 1))"

named_theorems session_intros \<open>rules for SMTP sessions\<close>

lemma final_stage [session_intros]: "final_session k \<Longrightarrow> final_session (stage command name k)"
  by (auto simp: final_session_def stage_def split: prod.splits option.splits)

lemma final_recipients [session_intros]: "final_session k \<Longrightarrow> final_session (recipients C rs k)"
  by (induction rs) (simp_all add: final_session_def stage_def split: prod.splits option.splits)

lemma counted_stage [session_intros]:
  "silent acc command \<Longrightarrow> counted_session acc k \<Longrightarrow> counted_session acc (stage command name k)"
proof -
  assume c: "silent acc command" and k: "counted_session acc k"
  show ?thesis unfolding counted_session_def
  proof
    fix w
    obtain e w' where "command w = (e, w')" by (metis surj_pair)
    with c have "command w = (e, w')" "acc w' = acc w" unfolding silent_def by (metis snd_conv)+
    moreover note k [unfolded counted_session_def, THEN spec, of w']
    ultimately show "acc w \<le> acc (snd (stage command name k w)) \<and> acc (snd (stage command name k w)) \<le> acc w + 1 \<and>
        (at_retry (fst (stage command name k w)) \<longrightarrow> acc (snd (stage command name k w)) = acc w) \<and>
        (at_delivered (fst (stage command name k w)) \<longrightarrow> acc (snd (stage command name k w)) = acc w + 1)"
      by (cases e) (simp_all add: stage_def)
  qed
qed

lemma counted_recipients [session_intros]:
  assumes "\<And>a. silent acc (sc_rcpt C a)" "counted_session acc k"
  shows "counted_session acc (recipients C rs k)"
proof (induction rs)
  case Nil
  with assms(2) show ?case by (simp add: counted_session_def)
next
  case (Cons r rs)
  with assms(1) have "counted_session acc (stage (sc_rcpt C r) ''smtp_recipient'' (recipients C rs k))"
    by (intro counted_stage)
  then show ?case by (simp add: counted_session_def)
qed

lemma final_transfer [session_intros]: "final_session (smtp_transfer C body)"
  unfolding smtp_transfer_def by (intro final_stage) (simp add: final_session_def)

lemma counted_transfer:
  assumes "lawful_smtp (opts, C) acc"
  shows "counted_session acc (smtp_transfer C body)"
proof -
  let ?k = "stage (sc_close C) ''smtp_ack'' (\<lambda>w.
      (\<lparr>at_status = 250, at_delivered = True, at_retry = False, at_reason = ''smtp_accepted''\<rparr>, snd (sc_quit C w)))"
  have "counted_session acc ?k"
    unfolding counted_session_def
  proof
    fix w
    obtain e w' where c: "sc_close C w = (e, w')" by (metis surj_pair)
    have "case sc_close C w of (None, w') \<Rightarrow> acc w' = acc w + 1
      | (Some e, w') \<Rightarrow> acc w \<le> acc w' \<and> acc w' \<le> acc w + 1 \<and>
          (\<forall>code. se_reply e = Some code \<and> 400 \<le> code \<and> code < 500 \<longrightarrow> acc w' = acc w)"
      and q: "acc (snd (sc_quit C w')) = acc w'"
      using assms by (simp_all add: lawful_smtp_def silent_def)
    with c show "acc w \<le> acc (snd (?k w)) \<and> acc (snd (?k w)) \<le> acc w + 1 \<and>
        (at_retry (fst (?k w)) \<longrightarrow> acc (snd (?k w)) = acc w) \<and> (at_delivered (fst (?k w)) \<longrightarrow> acc (snd (?k w)) = acc w + 1)"
      by (cases e) (simp_all add: stage_def smtp_failure_def split: option.splits)
  qed
  with assms show ?thesis unfolding smtp_transfer_def by (auto simp: lawful_smtp_def intro!: counted_stage)
qed

lemma final_smtp: "final_session (smtp_send (opts, C) ident body)"
  unfolding smtp_send_def by (cases "so_tls_mode opts = ''starttls''"; cases "so_username opts = []")
    (auto intro!: session_intros)

lemma counted_smtp:
  assumes "lawful_smtp (opts, C) acc"
  shows "counted_session acc (smtp_send (opts, C) ident body)"
  using assms counted_transfer [OF assms] unfolding smtp_send_def lawful_smtp_def
  by (cases "so_tls_mode opts = ''starttls''"; cases "so_username opts = []")
    (auto intro!: session_intros)

interpretation smtp: mail_contract smtp_send lawful_smtp
proof unfold_locales
  fix c :: "smtp_options \<times> 'a smtp_client" and ident body w w' r
  assume s: "smtp_send c ident body w = (r, w')"
  have f: "at_delivered r \<Longrightarrow> \<not> at_retry r \<and> at_status r = 250"
    using final_smtp [of "fst c" "snd c" ident body] s by (simp add: final_session_def) (metis fst_conv)
  then show "at_delivered r \<Longrightarrow> \<not> at_retry r \<and> 200 \<le> at_status r \<and> at_status r \<le> 299" by simp
  fix acc
  assume "lawful_smtp c acc"
  then have "counted_session acc (smtp_send c ident body)" using counted_smtp [of "fst c" "snd c"] by simp
  with s show "acc w \<le> acc w' \<and> acc w' \<le> acc w + 1" "at_retry r \<Longrightarrow> acc w' = acc w"
    "at_delivered r \<Longrightarrow> acc w' = acc w + 1"
    unfolding counted_session_def by (metis fst_conv snd_conv)+
qed

text \<open>
  C12. An email is not sent twice. With a mail server that keeps to SMTP, one delivery makes the server
  accept the message at most once, over all attempts and whatever commands fail and connections break;
  it is accepted exactly once when the dispatcher records it as delivered, and not at all when all the
  attempts were used up.
\<close>

theorem mail_sent_at_most_once:
  assumes "deliver E e w = (v, w')" and "de_send E = smtp_send (opts, C)" and "0 \<le> de_max_retries E"
    and "lawful_smtp (opts, C) acc" and "sends_nothing E acc"
  shows "acc w' \<le> acc w + 1 \<and> (v = Some StateDelivered \<longrightarrow> acc w' = acc w + 1) \<and>
    (v = Some StateExhausted \<longrightarrow> acc w' = acc w)"
  using smtp.deliver_once [OF assms(1,3,2,4,5)] by blast

section \<open>Examples\<close>

text \<open>A mail server that answers the first message with a transient error and accepts the second.\<close>

definition sample_smtp :: "(nat \<times> nat) smtp_client" where
  "sample_smtp = \<lparr>sc_dial = (\<lambda>a w. (None, w)), sc_greeting = (\<lambda>b w. (None, w)), sc_start_tls = (\<lambda>w. (None, w)),
     sc_auth = (\<lambda>u p w. (None, w)), sc_mail = (\<lambda>a w. (None, w)), sc_rcpt = (\<lambda>a w. (None, w)),
     sc_data = (\<lambda>w. (None, w)), sc_write = (\<lambda>b w. (None, w)),
     sc_close = (\<lambda>(n, a). if n = 0
        then (Some \<lparr>se_reply = Some 451, se_certificate = False, se_network = False, se_eof = False\<rparr>, (1, a))
        else (None, (n, a + 1))),
     sc_quit = (\<lambda>w. (None, w))\<rparr>"

definition sample_delivery :: "(nat \<times> nat) delivery_env" where
  "sample_delivery = \<lparr>de_encode = (\<lambda>e. Some (ev_id e)), de_send = smtp_send (smtp_options_of sample_accepted, sample_smtp),
     de_max_retries = 3, de_reader = None, de_owners = sample_owners,
     de_cancelled = (\<lambda>w. (False, w)), de_timer = (\<lambda>d w. (True, w))\<rparr>"

definition sample_event :: notify_event where
  "sample_event = failure_event (failed_job ''True'' []) \<lparr>jc_type = ''Failed'', jc_status = ''True'',
       jc_reason = [], jc_message = [], jc_last_transition_time = 0\<rparr>
     \<lparr>or_api_version = [], or_kind = ''Task'', or_name = ''t'', or_uid = ''u1'', or_controller = True\<rparr> 0
     (failed_execution (failed_job ''True'' []) \<lparr>jc_type = ''Failed'', jc_status = ''True'',
       jc_reason = [], jc_message = [], jc_last_transition_time = 0\<rparr>)"

lemma sample_delivered: "deliver sample_delivery sample_event (0, 0) = (Some StateDelivered, (1, 1))"
  by code_simp

lemma sample_lawful: "lawful_smtp (opts, sample_smtp) snd" "sends_nothing sample_delivery snd"
  by (simp_all add: lawful_smtp_def silent_def sample_smtp_def sends_nothing_def sample_delivery_def split: prod.splits)

theorem mail_sent_at_most_once_witness:
  "deliver sample_delivery sample_event (0, 0) = (Some StateDelivered, (1, 1)) \<and> snd (1 :: nat, 1 :: nat) = 0 + 1"
  using mail_sent_at_most_once [OF sample_delivered _ _ sample_lawful] sample_delivered
  by (simp add: sample_delivery_def)

lemma sample_watched:
  "deliver (watching sample_delivery) sample_event ((0, 0), []) = (Some StateDelivered, (1, 1),
     [Sent \<lparr>at_status = 451, at_delivered = False, at_retry = True, at_reason = ''smtp_ack''\<rparr>, Waited 1000000000,
      Sent \<lparr>at_status = 250, at_delivered = True, at_retry = False, at_reason = ''smtp_accepted''\<rparr>])"
  by code_simp

theorem delivery_attempts_witness:
  "\<exists>rs r. [Sent \<lparr>at_status = 451, at_delivered = False, at_retry = True, at_reason = ''smtp_ack''\<rparr>, Waited 1000000000,
      Sent \<lparr>at_status = 250, at_delivered = True, at_retry = False, at_reason = ''smtp_accepted''\<rparr>] =
     retries 0 rs @ [Sent r] \<and> at_delivered r \<and> int (length rs) \<le> 3"
  using delivery_attempts [OF sample_watched] by (auto simp: sample_delivery_def)

end
