(* ===== verification/Dispatcher.thy ===== *)
theory Dispatcher
  imports Delivery GoTime
begin

text \<open>
  The dispatcher of notifications, \<open>internal/notification/dispatcher.go\<close>: the bounded queue, the
  records that recognise an event that was seen before, and the workers.  The operations that hold the
  mutex are functions on the state it guards; the workers, the producer and the end of the context
  take turns in any order, as an inductive step relation.
\<close>

section \<open>State\<close>

record dispatcher =
  ds_queue :: "notify_event list"
  ds_stopped :: bool
  ds_records :: "(string, delivery_state) gomap"
  ds_completed :: "(string \<times> time) list"

abbreviation queue_capacity :: nat where "queue_capacity \<equiv> 128"
abbreviation worker_count :: nat where "worker_count \<equiv> 2"
abbreviation completed_capacity :: nat where "completed_capacity \<equiv> 4096"
abbreviation completed_ttl :: duration where "completed_ttl \<equiv> 24 * 3600 * second"

definition new_dispatcher :: dispatcher where
  "new_dispatcher = \<lparr>ds_queue = [], ds_stopped = False, ds_records = gm_empty, ds_completed = []\<rparr>"

section \<open>Operations\<close>

fun prune_loop :: "time \<Rightarrow> (string \<times> time) list \<Rightarrow> (string, delivery_state) gomap \<Rightarrow>
    (string \<times> time) list \<times> (string, delivery_state) gomap" where
  "prune_loop now [] records = ([], records)"
| "prune_loop now ((ident, at) # rest) records =
     (if time_sub now at < completed_ttl then ((ident, at) # rest, records)
      else prune_loop now rest (gm_del ident records))"

definition prune :: "time \<Rightarrow> dispatcher \<Rightarrow> dispatcher" where
  "prune now d =
     (case prune_loop now (ds_completed d) (ds_records d) of (completed, records) \<Rightarrow>
        d\<lparr>ds_completed := completed, ds_records := records\<rparr>)"

definition enqueue :: "time \<Rightarrow> notify_event \<Rightarrow> dispatcher \<Rightarrow> bool \<times> dispatcher" where
  "enqueue now e d =
     (if ds_stopped d then (False, d)
      else (let d = prune now d in
        if gm_get (ds_records d) (ev_id e) \<noteq> None then (False, d)
        else if length (ds_queue d) < queue_capacity
        then (True, d\<lparr>ds_queue := ds_queue d @ [e], ds_records := gm_put (ev_id e) StatePending (ds_records d)\<rparr>)
        else (False, d)))"

fun make_room :: "(string \<times> time) list \<Rightarrow> (string, delivery_state) gomap \<Rightarrow>
    (string \<times> time) list \<times> (string, delivery_state) gomap" where
  "make_room completed records =
     (if completed_capacity \<le> length completed
      then make_room (tl completed) (gm_del (fst (hd completed)) records) else (completed, records))"

declare make_room.simps [simp del]

definition finish :: "time \<Rightarrow> string \<Rightarrow> delivery_state \<Rightarrow> dispatcher \<Rightarrow> dispatcher" where
  "finish now ident st d =
     (case make_room (ds_completed d) (ds_records d) of (completed, records) \<Rightarrow>
        d\<lparr>ds_records := gm_put ident st records, ds_completed := completed @ [(ident, now)]\<rparr>)"

definition mark_sending :: "string \<Rightarrow> dispatcher \<Rightarrow> dispatcher" where
  "mark_sending ident d = d\<lparr>ds_records := gm_put ident StateSending (ds_records d)\<rparr>"

definition unfinished :: "dispatcher \<Rightarrow> nat" where
  "unfinished d = length (filter (\<lambda>(ident, st). st = StatePending \<or> st = StateSending) (ds_records d))"

section \<open>Workers\<close>

datatype worker =
  Waiting                    \<comment> \<open>in the select\<close>
| Received notify_event      \<comment> \<open>an event taken from the queue\<close>
| Checked notify_event       \<comment> \<open>the context had not ended\<close>
| Delivering notify_event    \<comment> \<open>marked as sending, in \<open>deliver\<close>\<close>
| Exited

record system =
  sy_dispatcher :: dispatcher
  sy_workers :: "worker list"
  sy_cancelled :: bool

definition initial_system :: system where
  "initial_system = \<lparr>sy_dispatcher = new_dispatcher, sy_workers = replicate worker_count Waiting, sy_cancelled = False\<rparr>"

text \<open>What an observer sees of a step: the answer of \<open>enqueue\<close> and the end of a delivery.\<close>

datatype notice = Enqueued notify_event time bool | Finished string time | Internal

inductive sys_step :: "system \<Rightarrow> notice \<Rightarrow> system \<Rightarrow> bool" where
  step_enqueue: "enqueue now e (sy_dispatcher s) = (ok, d) \<Longrightarrow>
    sys_step s (Enqueued e now ok) (s\<lparr>sy_dispatcher := d\<rparr>)"
| step_cancel: "sys_step s Internal (s\<lparr>sy_cancelled := True\<rparr>)"
| step_stop: "sy_cancelled s \<Longrightarrow>
    sys_step s Internal (s\<lparr>sy_dispatcher := (sy_dispatcher s)\<lparr>ds_stopped := True\<rparr>\<rparr>)"
| step_leave: "i < length (sy_workers s) \<Longrightarrow> sy_workers s ! i = Waiting \<Longrightarrow> sy_cancelled s \<Longrightarrow>
    sys_step s Internal (s\<lparr>sy_workers := (sy_workers s)[i := Exited]\<rparr>)"
| step_receive: "i < length (sy_workers s) \<Longrightarrow> sy_workers s ! i = Waiting \<Longrightarrow> ds_queue (sy_dispatcher s) = e # rest \<Longrightarrow>
    sys_step s Internal (s\<lparr>sy_dispatcher := (sy_dispatcher s)\<lparr>ds_queue := rest\<rparr>,
      sy_workers := (sy_workers s)[i := Received e]\<rparr>)"
| step_drop: "i < length (sy_workers s) \<Longrightarrow> sy_workers s ! i = Received e \<Longrightarrow> sy_cancelled s \<Longrightarrow>
    sys_step s Internal (s\<lparr>sy_workers := (sy_workers s)[i := Exited]\<rparr>)"
| step_check: "i < length (sy_workers s) \<Longrightarrow> sy_workers s ! i = Received e \<Longrightarrow> \<not> sy_cancelled s \<Longrightarrow>
    sys_step s Internal (s\<lparr>sy_workers := (sy_workers s)[i := Checked e]\<rparr>)"
| step_mark: "i < length (sy_workers s) \<Longrightarrow> sy_workers s ! i = Checked e \<Longrightarrow>
    sys_step s Internal (s\<lparr>sy_dispatcher := mark_sending (ev_id e) (sy_dispatcher s),
      sy_workers := (sy_workers s)[i := Delivering e]\<rparr>)"
| step_finish: "i < length (sy_workers s) \<Longrightarrow> sy_workers s ! i = Delivering e \<Longrightarrow>
    st \<in> {StateDelivered, StateRejected, StateExhausted} \<Longrightarrow>
    sys_step s (Finished (ev_id e) now) (s\<lparr>sy_dispatcher := finish now (ev_id e) st (sy_dispatcher s),
      sy_workers := (sy_workers s)[i := Waiting]\<rparr>)"
| step_abandon: "i < length (sy_workers s) \<Longrightarrow> sy_workers s ! i = Delivering e \<Longrightarrow> sy_cancelled s \<Longrightarrow>
    sys_step s Internal (s\<lparr>sy_workers := (sy_workers s)[i := Waiting]\<rparr>)"

inductive sys_run :: "system \<Rightarrow> notice list \<Rightarrow> system \<Rightarrow> bool" where
  run_refl: "sys_run s [] s"
| run_step: "sys_run s ns s' \<Longrightarrow> sys_step s' n s'' \<Longrightarrow> sys_run s (ns @ [n]) s''"

section \<open>Forgetting\<close>

text \<open>Both loops forget the oldest completed events.\<close>

definition forget :: "nat \<Rightarrow> dispatcher \<Rightarrow> dispatcher" where
  "forget n d = d\<lparr>ds_completed := drop n (ds_completed d),
     ds_records := foldl (\<lambda>m c. gm_del (fst c) m) (ds_records d) (take n (ds_completed d))\<rparr>"

definition stale :: "time \<Rightarrow> string \<times> time \<Rightarrow> bool" where
  "stale now c \<longleftrightarrow> \<not> time_sub now (snd c) < completed_ttl"

lemma prune_loop_eq:
  "prune_loop now cs m = (dropWhile (stale now) cs, foldl (\<lambda>m c. gm_del (fst c) m) m (takeWhile (stale now) cs))"
  by (induction now cs m rule: prune_loop.induct) (simp_all add: stale_def)

lemma prune_forget: "prune now d = forget (length (takeWhile (stale now) (ds_completed d))) d"
  by (simp add: prune_def forget_def prune_loop_eq dropWhile_eq_drop takeWhile_eq_take [symmetric])

lemma make_room_eq:
  "make_room cs m = (drop (Suc (length cs) - completed_capacity) cs,
     foldl (\<lambda>m c. gm_del (fst c) m) m (take (Suc (length cs) - completed_capacity) cs))"
proof (induction cs m rule: make_room.induct)
  case (1 cs m)
  show ?case
  proof (cases "completed_capacity \<le> length cs")
    case True
    then obtain c rest where c: "cs = c # rest" by (cases cs) auto
    have "Suc (length cs) - completed_capacity = Suc (Suc (length rest) - completed_capacity)"
      using True c by (simp add: Suc_diff_le)
    with "1.IH" [OF True] True c show ?thesis by (simp add: make_room.simps [of "c # rest" m])
  next
    case False
    then show ?thesis by (simp add: make_room.simps [of cs m])
  qed
qed

lemma finish_forget:
  "finish now ident st d = (let d' = forget (Suc (length (ds_completed d)) - completed_capacity) d in
     d'\<lparr>ds_records := gm_put ident st (ds_records d'), ds_completed := ds_completed d' @ [(ident, now)]\<rparr>)"
  by (simp add: finish_def make_room_eq forget_def Let_def)

lemma gm_foldl_del:
  "gm_ok m \<Longrightarrow> gm_ok (foldl (\<lambda>m c. gm_del (fst c) m) m cs) \<and>
     gm_get (foldl (\<lambda>m c. gm_del (fst c) m) m cs) k = (if k \<in> fst ` set cs then None else gm_get m k)"
  by (induction cs arbitrary: m) (auto simp: gm.get_del gm.ok_del)

lemma forget_simps [simp]:
  "ds_queue (forget n d) = ds_queue d" "ds_stopped (forget n d) = ds_stopped d"
  "ds_completed (forget n d) = drop n (ds_completed d)"
  by (simp_all add: forget_def)

lemma forget_records:
  assumes "gm_ok (ds_records d)"
  shows "gm_ok (ds_records (forget n d))"
    "gm_get (ds_records (forget n d)) k = (if k \<in> fst ` set (take n (ds_completed d)) then None else gm_get (ds_records d) k)"
  using gm_foldl_del [OF assms, of "take n (ds_completed d)"] by (simp_all add: forget_def)

section \<open>The invariant\<close>

fun is_final :: "delivery_state \<Rightarrow> bool" where
  "is_final StatePending = False"
| "is_final StateSending = False"
| "is_final StateDelivered = True"
| "is_final StateRejected = True"
| "is_final StateExhausted = True"

text \<open>The events a worker holds, with the state their records are in.\<close>

fun held :: "worker \<Rightarrow> (string \<times> delivery_state) list" where
  "held Waiting = []"
| "held (Received e) = [(ev_id e, StatePending)]"
| "held (Checked e) = [(ev_id e, StatePending)]"
| "held (Delivering e) = [(ev_id e, StateSending)]"
| "held Exited = []"

definition held_all :: "worker list \<Rightarrow> (string \<times> delivery_state) list" where
  "held_all ws = concat (map held ws)"

definition tracked :: "dispatcher \<Rightarrow> (string \<times> delivery_state) list \<Rightarrow> (string \<times> delivery_state) list" where
  "tracked d H = map (\<lambda>e. (ev_id e, StatePending)) (ds_queue d) @ H"

definition disp_inv :: "dispatcher \<Rightarrow> (string \<times> delivery_state) list \<Rightarrow> bool \<Rightarrow> bool" where
  "disp_inv d H cancelled \<longleftrightarrow>
     gm_ok (ds_records d) \<and> length (ds_queue d) \<le> queue_capacity \<and> length (ds_completed d) \<le> completed_capacity \<and>
     distinct (map fst (tracked d H) @ map fst (ds_completed d)) \<and>
     (\<forall>k st. (k, st) \<in> set (tracked d H) \<longrightarrow> gm_get (ds_records d) k = Some st \<and> \<not> is_final st) \<and>
     (\<forall>k t. (k, t) \<in> set (ds_completed d) \<longrightarrow> (\<exists>st. gm_get (ds_records d) k = Some st \<and> is_final st)) \<and>
     (\<forall>k st. gm_get (ds_records d) k = Some st \<and> is_final st \<longrightarrow> (\<exists>t. (k, t) \<in> set (ds_completed d))) \<and>
     (\<not> cancelled \<longrightarrow> (\<forall>k st. gm_get (ds_records d) k = Some st \<longrightarrow>
        (\<exists>st. (k, st) \<in> set (tracked d H)) \<or> (\<exists>t. (k, t) \<in> set (ds_completed d))))"

lemma disp_invI:
  assumes "gm_ok (ds_records d)" "length (ds_queue d) \<le> queue_capacity" "length (ds_completed d) \<le> completed_capacity"
    "distinct (map fst (tracked d H) @ map fst (ds_completed d))"
    "\<And>k st. (k, st) \<in> set (tracked d H) \<Longrightarrow> gm_get (ds_records d) k = Some st"
    "\<And>k st. (k, st) \<in> set (tracked d H) \<Longrightarrow> \<not> is_final st"
    "\<And>k t. (k, t) \<in> set (ds_completed d) \<Longrightarrow> \<exists>st. gm_get (ds_records d) k = Some st \<and> is_final st"
    "\<And>k st. gm_get (ds_records d) k = Some st \<Longrightarrow> is_final st \<Longrightarrow> \<exists>t. (k, t) \<in> set (ds_completed d)"
    "\<And>k st. \<not> c \<Longrightarrow> gm_get (ds_records d) k = Some st \<Longrightarrow>
       (\<exists>st. (k, st) \<in> set (tracked d H)) \<or> (\<exists>t. (k, t) \<in> set (ds_completed d))"
  shows "disp_inv d H c"
  using assms unfolding disp_inv_def by blast

lemma disp_invD:
  assumes "disp_inv d H c"
  shows "gm_ok (ds_records d)" "length (ds_queue d) \<le> queue_capacity" "length (ds_completed d) \<le> completed_capacity"
    "distinct (map fst (tracked d H) @ map fst (ds_completed d))"
    "(k, st) \<in> set (tracked d H) \<Longrightarrow> gm_get (ds_records d) k = Some st"
    "(k, st) \<in> set (tracked d H) \<Longrightarrow> \<not> is_final st"
    "(k, t) \<in> set (ds_completed d) \<Longrightarrow> \<exists>st. gm_get (ds_records d) k = Some st \<and> is_final st"
    "gm_get (ds_records d) k = Some st \<Longrightarrow> is_final st \<Longrightarrow> \<exists>t. (k, t) \<in> set (ds_completed d)"
    "\<not> c \<Longrightarrow> gm_get (ds_records d) k = Some st \<Longrightarrow>
       (\<exists>st. (k, st) \<in> set (tracked d H)) \<or> (\<exists>t. (k, t) \<in> set (ds_completed d))"
    "(k, st) \<in> set (tracked d H) \<Longrightarrow> (k, t) \<notin> set (ds_completed d)"
proof -
  show "(k, t) \<notin> set (ds_completed d)" if k: "(k, st) \<in> set (tracked d H)"
  proof
    assume c: "(k, t) \<in> set (ds_completed d)"
    have "k \<in> set (map fst (tracked d H))" "k \<in> set (map fst (ds_completed d))" using k c by force+
    with assms show False unfolding disp_inv_def by auto
  qed
qed (use assms in \<open>unfold disp_inv_def, blast\<close>)+

lemma disp_inv_mset:
  assumes "mset H = mset H'" "disp_inv d H c"
  shows "disp_inv d H' c"
proof -
  have "mset (map fst (tracked d H) @ map fst (ds_completed d)) = mset (map fst (tracked d H') @ map fst (ds_completed d))"
    using assms(1) by (simp add: tracked_def)
  then have "distinct (map fst (tracked d H) @ map fst (ds_completed d)) = distinct (map fst (tracked d H') @ map fst (ds_completed d))"
    by (rule mset_eq_imp_distinct_iff)
  moreover have "set (tracked d H) = set (tracked d H')"
    using mset_eq_setD [OF assms(1)] by (simp add: tracked_def)
  ultimately show ?thesis using assms(2) unfolding disp_inv_def by simp
qed

lemma held_split:
  assumes "i < length ws"
  obtains H where "mset (held_all ws) = mset (held (ws ! i) @ H)" "\<And>w. mset (held_all (ws[i := w])) = mset (held w @ H)"
proof -
  define H where "H = held_all (take i ws @ drop (Suc i) ws)"
  have "held_all ws = held_all (take i ws) @ held (ws ! i) @ held_all (drop (Suc i) ws)"
    unfolding held_all_def by (subst id_take_nth_drop [OF assms]) simp
  then have 1: "mset (held_all ws) = mset (held (ws ! i) @ H)" by (simp add: H_def held_all_def)
  have "mset (held_all (ws[i := w])) = mset (held w @ H)" for w
    unfolding held_all_def H_def by (subst upd_conv_take_nth_drop [OF assms]) simp
  with 1 that show thesis by blast
qed

lemma distinct_take_drop:
  assumes "distinct (map fst (cs :: ('a \<times> 'b) list))"
  shows "distinct (map fst (drop n cs))" "(k, t) \<in> set (drop n cs) \<Longrightarrow> (k, t') \<notin> set (take n cs)"
proof -
  have d: "distinct (map fst (take n cs) @ map fst (drop n cs))"
    using assms by (simp add: map_append [symmetric] del: map_append)
  then show "distinct (map fst (drop n cs))" by simp
  show "(k, t') \<notin> set (take n cs)" if "(k, t) \<in> set (drop n cs)"
  proof
    assume "(k, t') \<in> set (take n cs)"
    then have "k \<in> set (map fst (take n cs))" "k \<in> set (map fst (drop n cs))" using that by force+
    with d show False by auto
  qed
qed

lemma disp_inv_forget:
  assumes "disp_inv d H c"
  shows "disp_inv (forget n d) H c"
proof -
  note inv = disp_invD [OF assms]
  define f r where "f = take n (ds_completed d)" and "r = drop n (ds_completed d)"
  have get: "gm_get (ds_records (forget n d)) k = (if k \<in> fst ` set f then None else gm_get (ds_records d) k)" for k
    by (simp add: forget_records(2) [OF inv(1)] f_def)
  have t: "tracked (forget n d) H = tracked d H" by (simp add: tracked_def)
  have split: "set (ds_completed d) = set f \<union> set r"
    unfolding f_def r_def by (metis append_take_drop_id set_append)
  have rest: "distinct (map fst r)" "\<And>k t t'. (k, t) \<in> set r \<Longrightarrow> (k, t') \<notin> set f"
    using inv(4) distinct_take_drop [where cs = "ds_completed d" and n = n] by (auto simp: f_def r_def)
  have gone: "(k, t) \<in> set f \<Longrightarrow> (k, t) \<in> set (ds_completed d)" for k t using split by simp
  show ?thesis
  proof (rule disp_invI, unfold t forget_simps r_def [symmetric])
    show "distinct (map fst (tracked d H) @ map fst r)"
      using inv(4) rest(1) split by auto
    fix k
    show "gm_get (ds_records (forget n d)) k = Some st" if "(k, st) \<in> set (tracked d H)" for st
      using that inv(5,10) gone by (auto simp: get) blast
    show "\<exists>st. gm_get (ds_records (forget n d)) k = Some st \<and> is_final st" if "(k, t) \<in> set r" for t
      using that inv(7) rest(2) split by (force simp: get)
    show "\<exists>t. (k, t) \<in> set r" if "gm_get (ds_records (forget n d)) k = Some st" "is_final st" for st
      using that inv(8) [of k st] split by (force simp: get split: if_splits)
    show "(\<exists>st. (k, st) \<in> set (tracked d H)) \<or> (\<exists>t. (k, t) \<in> set r)"
      if "\<not> c" "gm_get (ds_records (forget n d)) k = Some st" for st
      using that inv(9) [of k st] split by (force simp: get split: if_splits)
  qed (use inv(2,3,6) forget_records(1) [OF inv(1)] in \<open>auto simp: r_def\<close>)
qed

lemma disp_inv_enqueue:
  assumes "disp_inv d H c" "enqueue now e d = (ok, d')"
  shows "disp_inv d' H c"
proof (cases "ok")
  case False
  with assms disp_inv_forget [OF assms(1)] show ?thesis
    by (auto simp: enqueue_def prune_forget Let_def split: if_splits)
next
  case True
  define p where "p = prune now d"
  have p: "disp_inv p H c" using disp_inv_forget [OF assms(1)] by (simp add: p_def prune_forget)
  from True assms(2) have new: "gm_get (ds_records p) (ev_id e) = None" and room: "length (ds_queue p) < queue_capacity"
    and d': "d' = p\<lparr>ds_queue := ds_queue p @ [e], ds_records := gm_put (ev_id e) StatePending (ds_records p)\<rparr>"
    by (auto simp: enqueue_def p_def Let_def split: if_splits)
  note inv = disp_invD [OF p]
  have fresh: "(ev_id e, st) \<notin> set (tracked p H)" "(ev_id e, t) \<notin> set (ds_completed p)" for st t
    using inv(5,7) new by fastforce+
  define T where "T = tracked p H"
  have t: "set (tracked d' H) = insert (ev_id e, StatePending) (set T)" "mset (tracked d' H) = add_mset (ev_id e, StatePending) (mset T)"
    by (simp_all add: T_def tracked_def d' ac_simps)
  have "distinct (map fst (tracked d' H) @ map fst (ds_completed p)) = distinct (ev_id e # map fst T @ map fst (ds_completed p))"
    by (rule mset_eq_imp_distinct_iff) (simp add: t(2))
  with inv(4) fresh have dist: "distinct (map fst (tracked d' H) @ map fst (ds_completed p))" by (auto simp: T_def)
  have same: "ds_completed d' = ds_completed p"
    and get: "gm_get (ds_records d') k = (if k = ev_id e then Some StatePending else gm_get (ds_records p) k)" for k
    by (simp_all add: d' gm.get_put)
  show ?thesis
  proof (rule disp_invI, unfold t(1) same)
    show "gm_ok (ds_records d')" using inv(1) by (simp add: d' gm.ok_put)
    show "length (ds_queue d') \<le> queue_capacity" using room by (simp add: d')
    fix k
    show "gm_get (ds_records d') k = Some st" if "(k, st) \<in> insert (ev_id e, StatePending) (set T)" for st
      using that inv(5) fresh by (auto simp: get T_def)
    show "\<exists>st. gm_get (ds_records d') k = Some st \<and> is_final st" if "(k, t) \<in> set (ds_completed p)" for t
      using that inv(7) fresh by (auto simp: get)
    show "\<exists>t. (k, t) \<in> set (ds_completed p)" if "gm_get (ds_records d') k = Some st" "is_final st" for st
      using that inv(8) by (auto simp: get split: if_splits)
    show "(\<exists>st. (k, st) \<in> insert (ev_id e, StatePending) (set T)) \<or> (\<exists>t. (k, t) \<in> set (ds_completed p))"
      if "\<not> c" "gm_get (ds_records d') k = Some st" for st
      using that inv(9) [of k] by (auto simp: get T_def split: if_splits)
  qed (use inv(3,6) dist in \<open>auto simp: T_def\<close>)
qed

lemma distinct_only:
  assumes "distinct (map fst (Q @ (k, a) # H) @ map fst C)"
  shows "(k, st) \<notin> set Q \<and> (k, st) \<notin> set H \<and> (k, t) \<notin> set C"
proof -
  have "k \<notin> set (map fst Q)" "k \<notin> set (map fst H)" "k \<notin> set (map fst C)" using assms by auto
  then show ?thesis by (force simp: image_iff)
qed

lemma disp_inv_receive:
  assumes "disp_inv d H c" "ds_queue d = e # rest"
  shows "disp_inv (d\<lparr>ds_queue := rest\<rparr>) ((ev_id e, StatePending) # H) c"
proof -
  note inv = disp_invD [OF assms(1)]
  let ?T = "tracked (d\<lparr>ds_queue := rest\<rparr>) ((ev_id e, StatePending) # H)"
  have t: "set ?T = set (tracked d H)" "mset ?T = mset (tracked d H)" by (auto simp: tracked_def assms(2))
  have "distinct (map fst ?T @ map fst (ds_completed d)) = distinct (map fst (tracked d H) @ map fst (ds_completed d))"
    by (rule mset_eq_imp_distinct_iff) (simp add: t(2))
  with inv(4) have dist: "distinct (map fst ?T @ map fst (ds_completed d))" by simp
  have q: "length (ds_queue (d\<lparr>ds_queue := rest\<rparr>)) \<le> queue_capacity" using inv(2) by (simp add: assms(2))
  have same: "ds_records (d\<lparr>ds_queue := rest\<rparr>) = ds_records d" "ds_completed (d\<lparr>ds_queue := rest\<rparr>) = ds_completed d"
    by simp_all
  show ?thesis
    by (rule disp_invI, unfold t(1) same) (fact q dist inv(1) inv(3) inv(5) inv(6) inv(7) inv(8) inv(9))+
qed

lemma disp_inv_mark:
  assumes "disp_inv d ((k, StatePending) # H) c"
  shows "disp_inv (mark_sending k d) ((k, StateSending) # H) c"
proof -
  note inv = disp_invD [OF assms]
  define Q where "Q = map (\<lambda>e. (ev_id e, StatePending)) (ds_queue d)"
  have t: "tracked d ((k, StatePending) # H) = Q @ (k, StatePending) # H"
    "tracked (mark_sending k d) ((k, StateSending) # H) = Q @ (k, StateSending) # H"
    by (simp_all add: tracked_def Q_def mark_sending_def)
  have only: "(k, st) \<notin> set Q" "(k, st) \<notin> set H" "(k, t) \<notin> set (ds_completed d)" for st t
    using distinct_only [OF inv(4) [unfolded t]] by blast+
  have same: "ds_completed (mark_sending k d) = ds_completed d" "ds_queue (mark_sending k d) = ds_queue d"
    and get: "gm_get (ds_records (mark_sending k d)) k' = (if k' = k then Some StateSending else gm_get (ds_records d) k')" for k'
    by (simp_all add: mark_sending_def gm.get_put)
  show ?thesis
  proof (rule disp_invI, unfold t same)
    show "gm_ok (ds_records (mark_sending k d))" using inv(1) by (simp add: mark_sending_def gm.ok_put)
    show "distinct (map fst (Q @ (k, StateSending) # H) @ map fst (ds_completed d))" using inv(4) by (simp add: t)
    fix k'
    show "gm_get (ds_records (mark_sending k d)) k' = Some st" if "(k', st) \<in> set (Q @ (k, StateSending) # H)" for st
      using that inv(5) [of k' st] only by (auto simp: get t)
    show "\<not> is_final st" if "(k', st) \<in> set (Q @ (k, StateSending) # H)" for st
      using that inv(6) [of k' st] by (auto simp: t)
    show "\<exists>st. gm_get (ds_records (mark_sending k d)) k' = Some st \<and> is_final st" if "(k', t) \<in> set (ds_completed d)" for t
      using that inv(7) only by (auto simp: get)
    show "\<exists>t. (k', t) \<in> set (ds_completed d)" if "gm_get (ds_records (mark_sending k d)) k' = Some st" "is_final st" for st
      using that inv(8) by (auto simp: get split: if_splits)
    show "(\<exists>st. (k', st) \<in> set (Q @ (k, StateSending) # H)) \<or> (\<exists>t. (k', t) \<in> set (ds_completed d))"
      if "\<not> c" "gm_get (ds_records (mark_sending k d)) k' = Some st" for st
      using that inv(9) [of k'] by (auto simp: get t split: if_splits)
  qed (use inv(2,3) in auto)
qed

lemma disp_inv_finish:
  assumes "disp_inv d ((k, StateSending) # H) c" "is_final st"
  shows "disp_inv (finish now k st d) H c"
proof -
  define n where "n = Suc (length (ds_completed d)) - completed_capacity"
  define p where "p = forget n d"
  have d': "finish now k st d = p\<lparr>ds_records := gm_put k st (ds_records p), ds_completed := ds_completed p @ [(k, now)]\<rparr>"
    unfolding finish_forget p_def n_def Let_def by simp
  note inv = disp_invD [OF disp_inv_forget [OF assms(1), of n, folded p_def]]
  have room: "length (ds_completed p) < completed_capacity"
    using disp_invD(3) [OF assms(1)] by (simp add: p_def n_def)
  define Q where "Q = map (\<lambda>e. (ev_id e, StatePending)) (ds_queue p)"
  have t: "tracked p ((k, StateSending) # H) = Q @ (k, StateSending) # H" "tracked (finish now k st d) H = Q @ H"
    by (simp_all add: tracked_def Q_def d')
  have only: "(k, st) \<notin> set Q" "(k, st) \<notin> set H" "(k, t) \<notin> set (ds_completed p)" for st t
    using distinct_only [OF inv(4) [unfolded t]] by blast+
  have same: "ds_completed (finish now k st d) = ds_completed p @ [(k, now)]" "ds_queue (finish now k st d) = ds_queue p"
    and get: "gm_get (ds_records (finish now k st d)) k' = (if k' = k then Some st else gm_get (ds_records p) k')" for k'
    by (simp_all add: d' gm.get_put)
  show ?thesis
  proof (rule disp_invI, unfold t same)
    show "gm_ok (ds_records (finish now k st d))" using inv(1) by (simp add: d' gm.ok_put)
    show "distinct (map fst (Q @ H) @ map fst (ds_completed p @ [(k, now)]))" using inv(4) by (auto simp: t)
    show "length (ds_completed p @ [(k, now)]) \<le> completed_capacity" using room by simp
    fix k'
    show "gm_get (ds_records (finish now k st d)) k' = Some st'" if "(k', st') \<in> set (Q @ H)" for st'
      using that inv(5) [of k' st'] only by (auto simp: get t)
    show "\<not> is_final st'" if "(k', st') \<in> set (Q @ H)" for st'
      using that inv(6) [of k' st'] by (auto simp: t)
    show "\<exists>st'. gm_get (ds_records (finish now k st d)) k' = Some st' \<and> is_final st'" if "(k', t) \<in> set (ds_completed p @ [(k, now)])" for t
      using that inv(7) assms(2) by (auto simp: get)
    show "\<exists>t. (k', t) \<in> set (ds_completed p @ [(k, now)])" if "gm_get (ds_records (finish now k st d)) k' = Some st'" "is_final st'" for st'
      using that inv(8) by (auto simp: get split: if_splits)
    show "(\<exists>st'. (k', st') \<in> set (Q @ H)) \<or> (\<exists>t. (k', t) \<in> set (ds_completed p @ [(k, now)]))"
      if "\<not> c" "gm_get (ds_records (finish now k st d)) k' = Some st'" for st'
      using that inv(9) [of k'] by (auto simp: get t split: if_splits)
  qed (use inv(2) in auto)
qed

lemma disp_inv_cancel: "disp_inv d H c \<Longrightarrow> disp_inv d H True"
  by (simp add: disp_inv_def)

lemma disp_inv_lose:
  assumes "disp_inv d (x # H) c"
  shows "disp_inv d H True"
proof -
  note inv = disp_invD [OF assms]
  have t: "set (tracked d H) \<subseteq> set (tracked d (x # H))" by (auto simp: tracked_def)
  have "distinct (map fst (tracked d H) @ map fst (ds_completed d))" using inv(4) by (auto simp: tracked_def)
  with t show ?thesis by (intro disp_invI inv(1-3)) (blast intro: inv(5) dest: inv(6,7,8))+
qed

section \<open>Runs\<close>

definition sys_inv :: "system \<Rightarrow> bool" where
  "sys_inv s \<longleftrightarrow> length (sy_workers s) = worker_count \<and>
     disp_inv (sy_dispatcher s) (held_all (sy_workers s)) (sy_cancelled s)"

lemma sys_inv_initial: "sys_inv initial_system"
  by (simp add: sys_inv_def initial_system_def disp_inv_def new_dispatcher_def tracked_def held_all_def gm.ok_emp gm.get_emp)

text \<open>A step of one worker is a step on what it holds.\<close>

lemma worker_inv:
  assumes "disp_inv d (held_all ws) c" "i < length ws"
    and "\<And>H. disp_inv d (held (ws ! i) @ H) c \<Longrightarrow> disp_inv d' (held w @ H) c'"
  shows "disp_inv d' (held_all (ws[i := w])) c'"
proof -
  obtain H where H: "mset (held_all ws) = mset (held (ws ! i) @ H)" "\<And>w. mset (held_all (ws[i := w])) = mset (held w @ H)"
    using held_split [OF assms(2)] by blast
  from disp_inv_mset [OF H(1) assms(1)] have "disp_inv d' (held w @ H) c'" by (rule assms(3))
  then show ?thesis by (rule disp_inv_mset [OF H(2) [of w, symmetric]])
qed

lemma disp_inv_stopped: "disp_inv (d\<lparr>ds_stopped := b\<rparr>) H c = disp_inv d H c"
  by (simp add: disp_inv_def tracked_def)

lemma sys_inv_step:
  assumes "sys_step s n s'" "sys_inv s"
  shows "sys_inv s'"
  using assms
proof (induction rule: sys_step.induct)
  case (step_enqueue now e s ok d)
  then show ?case using disp_inv_enqueue [OF _ step_enqueue(1)] by (simp add: sys_inv_def)
next
  case (step_cancel s)
  then show ?case by (auto simp: sys_inv_def intro: disp_inv_cancel)
next
  case (step_stop s)
  then show ?case by (simp add: sys_inv_def disp_inv_stopped)
next
  case (step_leave i s)
  then have "disp_inv (sy_dispatcher s) (held_all ((sy_workers s)[i := Exited])) (sy_cancelled s)"
    by (intro worker_inv [of _ _ "sy_cancelled s"]) (simp_all add: sys_inv_def)
  with step_leave show ?case by (simp add: sys_inv_def)
next
  case (step_receive i s e rest)
  then have "disp_inv ((sy_dispatcher s)\<lparr>ds_queue := rest\<rparr>) (held_all ((sy_workers s)[i := Received e])) (sy_cancelled s)"
    by (intro worker_inv [of "sy_dispatcher s" _ "sy_cancelled s"]) (simp_all add: sys_inv_def disp_inv_receive)
  with step_receive show ?case by (simp add: sys_inv_def)
next
  case (step_drop i s e)
  then have "disp_inv (sy_dispatcher s) (held_all ((sy_workers s)[i := Exited])) True"
    by (intro worker_inv [of _ _ "sy_cancelled s"]) (auto simp: sys_inv_def intro: disp_inv_lose)
  with step_drop show ?case by (simp add: sys_inv_def)
next
  case (step_check i s e)
  then have "disp_inv (sy_dispatcher s) (held_all ((sy_workers s)[i := Checked e])) (sy_cancelled s)"
    by (intro worker_inv [of _ _ "sy_cancelled s"]) (simp_all add: sys_inv_def)
  with step_check show ?case by (simp add: sys_inv_def)
next
  case (step_mark i s e)
  then have "disp_inv (mark_sending (ev_id e) (sy_dispatcher s)) (held_all ((sy_workers s)[i := Delivering e])) (sy_cancelled s)"
    by (intro worker_inv [of "sy_dispatcher s" _ "sy_cancelled s"]) (simp_all add: sys_inv_def disp_inv_mark)
  with step_mark show ?case by (simp add: sys_inv_def)
next
  case (step_finish i s e st now)
  then have "is_final st" by auto
  with step_finish have "disp_inv (finish now (ev_id e) st (sy_dispatcher s)) (held_all ((sy_workers s)[i := Waiting])) (sy_cancelled s)"
    by (intro worker_inv [of "sy_dispatcher s" _ "sy_cancelled s"]) (simp_all add: sys_inv_def disp_inv_finish)
  with step_finish show ?case by (simp add: sys_inv_def)
next
  case (step_abandon i s e)
  then have "disp_inv (sy_dispatcher s) (held_all ((sy_workers s)[i := Waiting])) True"
    by (intro worker_inv [of _ _ "sy_cancelled s"]) (auto simp: sys_inv_def intro: disp_inv_lose)
  with step_abandon show ?case by (simp add: sys_inv_def)
qed

lemma sys_inv_run: "sys_run s ns s' \<Longrightarrow> sys_inv s \<Longrightarrow> sys_inv s'"
  by (induction rule: sys_run.induct) (auto intro: sys_inv_step)

text \<open>The identifiers of the queue, of what the workers hold, and of the completed events.\<close>

definition busy_ids :: "system \<Rightarrow> string list" where
  "busy_ids s = map ev_id (ds_queue (sy_dispatcher s)) @ map fst (held_all (sy_workers s))"

lemma busy_tracked: "busy_ids s = map fst (tracked (sy_dispatcher s) (held_all (sy_workers s)))"
  by (simp add: busy_ids_def tracked_def)

lemma final_iff: "is_final st \<longleftrightarrow> st \<in> {StateDelivered, StateRejected, StateExhausted}"
  by (cases st) auto

lemma length_held_all: "length (held_all ws) \<le> length ws"
proof (induction ws)
  case (Cons x ws)
  then show ?case by (cases x) (simp_all add: held_all_def)
qed (simp add: held_all_def)

text \<open>What the records say of the events in work and of the completed ones, and how many they are.\<close>

lemma recorded_states:
  assumes "sys_inv s"
  shows "k \<in> set (busy_ids s) \<Longrightarrow> gm_get (ds_records (sy_dispatcher s)) k \<in> {Some StatePending, Some StateSending}"
    "k \<in> fst ` set (ds_completed (sy_dispatcher s)) \<longleftrightarrow>
       gm_get (ds_records (sy_dispatcher s)) k \<in> {Some StateDelivered, Some StateRejected, Some StateExhausted}"
proof -
  let ?d = "sy_dispatcher s"
  note i = disp_invD [OF conjunct2 [OF assms [unfolded sys_inv_def]]]
  show "gm_get (ds_records ?d) k \<in> {Some StatePending, Some StateSending}" if "k \<in> set (busy_ids s)"
  proof -
    from that obtain st where "(k, st) \<in> set (tracked ?d (held_all (sy_workers s)))"
      unfolding busy_tracked by force
    with i(5,6) have "gm_get (ds_records ?d) k = Some st" "\<not> is_final st" by blast+
    then show ?thesis by (cases st) auto
  qed
  show "k \<in> fst ` set (ds_completed ?d) \<longleftrightarrow>
      gm_get (ds_records ?d) k \<in> {Some StateDelivered, Some StateRejected, Some StateExhausted}"
    using i(7,8) final_iff by (force simp: image_iff)
qed

lemma recorded_ids:
  assumes "sys_inv s" "\<not> sy_cancelled s"
  shows "set (gm_keys (ds_records (sy_dispatcher s))) = set (busy_ids s) \<union> fst ` set (ds_completed (sy_dispatcher s))"
proof (intro set_eqI iffI)
  note i = disp_invD [OF conjunct2 [OF assms(1) [unfolded sys_inv_def]]]
  fix k
  show "k \<in> set (busy_ids s) \<union> fst ` set (ds_completed (sy_dispatcher s))"
    if "k \<in> set (gm_keys (ds_records (sy_dispatcher s)))"
  proof -
    from that obtain st where "gm_get (ds_records (sy_dispatcher s)) k = Some st" unfolding gm.keys_get by blast
    from i(9) [OF assms(2) this] show ?thesis
      unfolding busy_tracked set_map Un_iff by (metis fst_conv image_eqI)
  qed
  show "k \<in> set (gm_keys (ds_records (sy_dispatcher s)))"
    if "k \<in> set (busy_ids s) \<union> fst ` set (ds_completed (sy_dispatcher s))"
    using that recorded_states [OF assms(1), of k] unfolding gm.keys_get by auto
qed

text \<open>
  C13. However producers, workers and the end of the context take turns, the dispatcher keeps its
  records straight. No event is queued or handled twice at the same time, or again while it counts as
  completed; the queue never exceeds 128 events and the memory 4096; every event in work is recorded
  as unfinished, the events recorded with a verdict are exactly the completed ones; and as long as the
  manager runs nothing else is recorded, so there are never more than 4226 records.
\<close>

theorem dispatcher_consistent:
  assumes "sys_run initial_system ns s"
  defines "d \<equiv> sy_dispatcher s"
  shows "distinct (busy_ids s @ map fst (ds_completed d)) \<and>
    length (ds_queue d) \<le> 128 \<and> length (ds_completed d) \<le> 4096 \<and>
    (\<forall>k \<in> set (busy_ids s). gm_get (ds_records d) k \<in> {Some StatePending, Some StateSending}) \<and>
    (\<forall>k. k \<in> fst ` set (ds_completed d) \<longleftrightarrow>
       gm_get (ds_records d) k \<in> {Some StateDelivered, Some StateRejected, Some StateExhausted}) \<and>
    (\<not> sy_cancelled s \<longrightarrow> set (gm_keys (ds_records d)) = set (busy_ids s) \<union> fst ` set (ds_completed d) \<and>
       gm_len (ds_records d) \<le> 4226)"
proof -
  have inv: "sys_inv s" by (rule sys_inv_run [OF assms(1) sys_inv_initial])
  then have "length (sy_workers s) = 2" and di: "disp_inv d (held_all (sy_workers s)) (sy_cancelled s)"
    by (simp_all add: sys_inv_def d_def)
  then have two: "length (held_all (sy_workers s)) \<le> 2" using length_held_all [of "sy_workers s"] by simp
  note i = disp_invD [OF di] and states = recorded_states [OF inv, folded d_def]
  have dist: "distinct (busy_ids s @ map fst (ds_completed d))" using i(4) by (simp add: busy_tracked d_def)
  have "set (gm_keys (ds_records d)) = set (busy_ids s) \<union> fst ` set (ds_completed d) \<and> gm_len (ds_records d) \<le> 4226"
    if "\<not> sy_cancelled s"
  proof
    show keys: "set (gm_keys (ds_records d)) = set (busy_ids s) \<union> fst ` set (ds_completed d)"
      unfolding d_def by (rule recorded_ids [OF inv that])
    have "gm_len (ds_records d) = card (set (gm_keys (ds_records d)))"
      using i(1) by (simp only: gm_len_keys gm_ok_def distinct_card)
    also have "\<dots> = length (busy_ids s @ map fst (ds_completed d))"
      unfolding keys using distinct_card [OF dist] by simp
    also have "\<dots> \<le> 4226" using i(2,3) two by (simp add: busy_ids_def d_def)
    finally show "gm_len (ds_records d) \<le> 4226" .
  qed
  with dist i(2,3) states show ?thesis by blast
qed

text \<open>The number that is logged at the end counts at least what is still queued or in work.\<close>

lemma busy_unfinished:
  assumes "sys_run initial_system ns s"
  shows "length (busy_ids s) \<le> unfinished (sy_dispatcher s)"
proof -
  let ?R = "ds_records (sy_dispatcher s)" and ?open = "\<lambda>(k :: string, st). st = StatePending \<or> st = StateSending"
  have inv: "disp_inv (sy_dispatcher s) (held_all (sy_workers s)) (sy_cancelled s)"
    using sys_inv_run [OF assms sys_inv_initial] by (simp add: sys_inv_def)
  note i = disp_invD [OF inv]
  have "set (busy_ids s) \<subseteq> fst ` set (filter ?open ?R)"
  proof
    fix k
    assume "k \<in> set (busy_ids s)"
    then obtain st where "(k, st) \<in> set (tracked (sy_dispatcher s) (held_all (sy_workers s)))"
      unfolding busy_tracked by force
    with i(5,6) have "gm_get ?R k = Some st" "\<not> is_final st" by blast+
    then have "(k, st) \<in> set ?R" by (auto simp: gm_get_def dest: map_of_SomeD)
    moreover from \<open>\<not> is_final st\<close> have "?open (k, st)" by (cases st) simp_all
    ultimately have "(k, st) \<in> set (filter ?open ?R)" by simp
    then show "k \<in> fst ` set (filter ?open ?R)" by force
  qed
  then have "card (set (busy_ids s)) \<le> card (fst ` set (filter ?open ?R))" by (intro card_mono) auto
  also have "\<dots> \<le> length (filter ?open ?R)" by (rule order_trans [OF card_image_le card_length]) simp
  finally show ?thesis using i(4) by (simp add: unfinished_def busy_tracked distinct_card del: set_map)
qed

section \<open>The contract of the dispatcher\<close>

text \<open>
  What the dispatcher promises, without queue and workers: a memory of the events by their ID. An
  event that is not remembered can be accepted; it is then sent, gets a verdict, and may be forgotten
  after that, and only after that.
\<close>

type_synonym memory = "string \<Rightarrow> delivery_state option"

definition forgets :: "memory \<Rightarrow> memory \<Rightarrow> bool" where
  "forgets m m' \<longleftrightarrow> (\<forall>k. m' k = m k \<or> m' k = None \<and> (\<exists>st. m k = Some st \<and> is_final st))"

inductive memory_step :: "memory \<Rightarrow> notice \<Rightarrow> memory \<Rightarrow> bool" where
  memory_accept: "forgets m m' \<Longrightarrow> m' (ev_id e) = None \<Longrightarrow>
    memory_step m (Enqueued e now True) (m'(ev_id e := Some StatePending))"
| memory_refuse: "forgets m m' \<Longrightarrow> memory_step m (Enqueued e now False) m'"
| memory_send: "m k = Some StatePending \<Longrightarrow> memory_step m Internal (m(k := Some StateSending))"
| memory_verdict: "forgets m m' \<Longrightarrow> m' k = Some StateSending \<Longrightarrow> is_final st \<Longrightarrow>
    memory_step m (Finished k now) (m'(k := Some st))"
| memory_idle: "memory_step m Internal m"

inductive memory_run :: "memory \<Rightarrow> notice list \<Rightarrow> memory \<Rightarrow> bool" where
  memory_refl: "memory_run m [] m"
| memory_more: "memory_run m ns m' \<Longrightarrow> memory_step m' n m'' \<Longrightarrow> memory_run m (ns @ [n]) m''"

abbreviation remembered :: "dispatcher \<Rightarrow> memory" where
  "remembered d \<equiv> gm_get (ds_records d)"

lemma forgets_forget:
  assumes "disp_inv d H c"
  shows "forgets (remembered d) (remembered (forget n d))"
  unfolding forgets_def
proof
  fix k
  show "remembered (forget n d) k = remembered d k \<or>
      remembered (forget n d) k = None \<and> (\<exists>st. remembered d k = Some st \<and> is_final st)"
  proof (cases "k \<in> fst ` set (take n (ds_completed d))")
    case True
    then obtain t where "(k, t) \<in> set (ds_completed d)" by (force dest: in_set_takeD)
    with True disp_invD(1,7) [OF assms] show ?thesis by (simp add: forget_records(2))
  next
    case False
    with disp_invD(1) [OF assms] show ?thesis by (simp add: forget_records(2))
  qed
qed

lemma forgets_refl: "forgets m m"
  by (simp add: forgets_def)

lemma held_tracked: "i < length ws \<Longrightarrow> held (ws ! i) = [x] \<Longrightarrow> x \<in> set (tracked d (held_all ws))"
proof -
  assume i: "i < length ws" and x: "held (ws ! i) = [x]"
  have "ws ! i \<in> set ws" using i by (rule nth_mem)
  moreover have "x \<in> set (held (ws ! i))" using x by simp
  ultimately show ?thesis unfolding tracked_def held_all_def by auto
qed

lemma step_refines:
  assumes "sys_step s n s'" "sys_inv s"
  shows "memory_step (remembered (sy_dispatcher s)) n (remembered (sy_dispatcher s'))"
  using assms
proof (induction rule: sys_step.induct)
  case (step_enqueue now e s ok d)
  define p where "p = prune now (sy_dispatcher s)"
  have f: "forgets (remembered (sy_dispatcher s)) (remembered p)"
    using step_enqueue(2) by (auto simp: p_def prune_forget sys_inv_def intro: forgets_forget)
  show ?case
  proof (cases ok)
    case True
    with step_enqueue(1) have new: "remembered p (ev_id e) = None"
      and d: "remembered d = (remembered p)(ev_id e := Some StatePending)"
      by (auto simp: enqueue_def p_def Let_def gm.get_put fun_eq_iff split: if_splits)
    from memory_accept [OF f new, of now] True show ?thesis by (simp add: d del: fun_upd_apply)
  next
    case False
    with step_enqueue(1) have "d = sy_dispatcher s \<or> d = p" by (auto simp: enqueue_def p_def Let_def split: if_splits)
    with f False show ?thesis by (auto intro: memory_refuse forgets_refl)
  qed
next
  case (step_mark i s e)
  then have "remembered (sy_dispatcher s) (ev_id e) = Some StatePending"
    by (intro disp_invD(5) [of _ "held_all (sy_workers s)" "sy_cancelled s"] held_tracked) (auto simp: sys_inv_def)
  moreover have "remembered (mark_sending (ev_id e) (sy_dispatcher s)) =
      (remembered (sy_dispatcher s))(ev_id e := Some StateSending)"
    by (simp add: mark_sending_def gm.get_put fun_eq_iff)
  ultimately show ?case using memory_send by (simp del: fun_upd_apply)
next
  case (step_finish i s e st now)
  define p where "p = forget (Suc (length (ds_completed (sy_dispatcher s))) - completed_capacity) (sy_dispatcher s)"
  have inv: "disp_inv (sy_dispatcher s) (held_all (sy_workers s)) (sy_cancelled s)" using step_finish by (simp add: sys_inv_def)
  have f: "forgets (remembered (sy_dispatcher s)) (remembered p)" unfolding p_def by (rule forgets_forget [OF inv])
  have "remembered (sy_dispatcher s) (ev_id e) = Some StateSending"
    using step_finish by (intro disp_invD(5) [OF inv] held_tracked) auto
  then have k: "remembered p (ev_id e) = Some StateSending"
    using f [unfolded forgets_def, THEN spec, of "ev_id e"] by auto
  have "remembered (finish now (ev_id e) st (sy_dispatcher s)) = (remembered p)(ev_id e := Some st)"
    unfolding finish_forget Let_def p_def [symmetric] by (simp add: gm.get_put fun_eq_iff)
  moreover have "is_final st" using step_finish by auto
  ultimately show ?case using memory_verdict [OF f k] by (simp del: fun_upd_apply)
qed (simp_all add: memory_idle)

text \<open>
  C14. The dispatcher refines its contract. Whatever the interleaving, what an observer sees of it, the
  answers of \<open>enqueue\<close> and the ends of deliveries, is a run of the memory: an event is accepted only
  while it is not remembered, sent only after it was accepted, gets its verdict only while it is being
  sent, and is forgotten only after its verdict.
\<close>

theorem dispatcher_refines_memory:
  assumes "sys_run initial_system ns s"
  shows "memory_run (\<lambda>_. None) ns (remembered (sy_dispatcher s))"
proof -
  have "sys_run s0 ns s \<Longrightarrow> sys_inv s0 \<Longrightarrow> memory_run (remembered (sy_dispatcher s0)) ns (remembered (sy_dispatcher s))" for s0
    by (induction rule: sys_run.induct) (auto intro: memory_refl memory_more step_refines sys_inv_run)
  moreover have "remembered (sy_dispatcher initial_system) = (\<lambda>_. None)"
    by (simp add: initial_system_def new_dispatcher_def gm.get_emp fun_eq_iff)
  ultimately show ?thesis using assms sys_inv_initial by metis
qed

section \<open>Sent once\<close>

lemma run_snoc: "sys_run s (ns @ [n]) s'' \<longleftrightarrow> (\<exists>s'. sys_run s ns s' \<and> sys_step s' n s'')"
  by (auto elim: sys_run.cases intro: run_step)

lemma run_append: "sys_run s (ns @ ms) s'' \<longleftrightarrow> (\<exists>s'. sys_run s ns s' \<and> sys_run s' ms s'')"
proof (induction ms arbitrary: s'' rule: rev_induct)
  case Nil
  show ?case by (auto elim: sys_run.cases intro: run_refl)
next
  case (snoc m ms)
  show ?case by (simp add: append_assoc [symmetric] run_snoc snoc del: append_assoc) blast
qed

lemma run_single: "sys_run s [n] s' \<longleftrightarrow> sys_step s n s'"
  using run_snoc [of s "[]" n s'] by (auto elim: sys_run.cases intro: run_refl)

text \<open>While an event has no verdict it is not accepted again.\<close>

definition unsettled :: "string \<Rightarrow> system \<Rightarrow> bool" where
  "unsettled k s \<longleftrightarrow> (\<exists>st. remembered (sy_dispatcher s) k = Some st \<and> \<not> is_final st)"

lemma unsettled_step:
  assumes "sys_step s n s'" "sys_inv s" "unsettled k s" "\<And>t. n \<noteq> Finished k t"
  shows "unsettled k s'" "n = Enqueued e t True \<Longrightarrow> ev_id e \<noteq> k"
proof -
  have f: "m' k = m k" if "forgets m m'" "m k = Some st" "\<not> is_final st" for m m' st
    using that unfolding forgets_def by (metis option.inject)
  from step_refines [OF assms(1,2)] assms(3,4) f
  show "unsettled k s'" "n = Enqueued e t True \<Longrightarrow> ev_id e \<noteq> k"
    unfolding unsettled_def by (cases rule: memory_step.cases; fastforce)+
qed

text \<open>A completed event with m later ones.\<close>

definition settled :: "string \<Rightarrow> time \<Rightarrow> nat \<Rightarrow> system \<Rightarrow> bool" where
  "settled k t m s \<longleftrightarrow> (\<exists>xs ys. ds_completed (sy_dispatcher s) = xs @ (k, t) # ys \<and> length ys = m)"

fun is_finished :: "notice \<Rightarrow> bool" where
  "is_finished (Finished k t) = True"
| "is_finished n = False"

fun sees_stale :: "time \<Rightarrow> notice \<Rightarrow> bool" where
  "sees_stale t (Enqueued e u ok) = (completed_ttl \<le> time_sub u t)"
| "sees_stale t n = False"

lemma settled_prune:
  assumes "settled k t m s" "time_sub now t < completed_ttl"
  shows "\<exists>xs ys. ds_completed (prune now (sy_dispatcher s)) = xs @ (k, t) # ys \<and> length ys = m"
proof -
  from assms(1) obtain xs ys where c: "ds_completed (sy_dispatcher s) = xs @ (k, t) # ys" "length ys = m"
    unfolding settled_def by blast
  have "ds_completed (prune now (sy_dispatcher s)) = dropWhile (stale now) (xs @ (k, t) # ys)"
    by (simp add: prune_def prune_loop_eq c(1))
  moreover have "\<not> stale now (k, t)" using assms(2) by (simp add: stale_def)
  ultimately show ?thesis using c(2) by (cases "\<exists>x \<in> set xs. \<not> stale now x") (auto simp: dropWhile_append)
qed

lemma settled_enqueue:
  assumes "settled k t m s" "sys_inv s" "time_sub now t < completed_ttl" "enqueue now e (sy_dispatcher s) = (ok, d)"
  shows "\<exists>xs ys. ds_completed d = xs @ (k, t) # ys \<and> length ys = m" "ok \<Longrightarrow> ev_id e \<noteq> k"
proof -
  define p where "p = prune now (sy_dispatcher s)"
  note c = settled_prune [OF assms(1,3), folded p_def]
  have "disp_inv p (held_all (sy_workers s)) (sy_cancelled s)"
    using assms(2) by (simp add: p_def prune_forget sys_inv_def disp_inv_forget)
  moreover have "(k, t) \<in> set (ds_completed p)" using c by auto
  ultimately have "remembered p k \<noteq> None" using disp_invD(7) by blast
  then show "ok \<Longrightarrow> ev_id e \<noteq> k" using assms(4) by (auto simp: enqueue_def p_def Let_def split: if_splits)
  have "ds_completed d = ds_completed p \<or> d = sy_dispatcher s"
    using assms(4) by (auto simp: enqueue_def p_def Let_def split: if_splits)
  with c assms(1) show "\<exists>xs ys. ds_completed d = xs @ (k, t) # ys \<and> length ys = m"
    unfolding settled_def by metis
qed

lemma settled_step:
  assumes "sys_step s n s'" "sys_inv s" "settled k t m s" "m < 4095 \<or> \<not> is_finished n" "\<not> sees_stale t n"
  shows "settled k t (if is_finished n then Suc m else m) s'"
  using assms
proof (induction rule: sys_step.induct)
  case (step_enqueue now e s ok d)
  then show ?case using settled_enqueue(1) [of k t m s now e ok d] by (simp add: settled_def)
next
  case (step_mark i s e)
  then show ?case by (simp add: settled_def mark_sending_def)
next
  case (step_finish i s e st now)
  let ?d = "sy_dispatcher s"
  from step_finish obtain xs ys where c: "ds_completed ?d = xs @ (k, t) # ys" "length ys = m" "m < 4095"
    unfolding settled_def by auto
  have "length (ds_completed ?d) \<le> completed_capacity" using step_finish disp_invD(3) unfolding sys_inv_def by blast
  then have "Suc (length (ds_completed ?d)) - completed_capacity \<le> length xs" using c by simp
  then obtain zs where "drop (Suc (length (ds_completed ?d)) - completed_capacity) (ds_completed ?d) = zs @ (k, t) # ys"
    unfolding c(1) by simp
  then have "ds_completed (finish now (ev_id e) st ?d) = zs @ (k, t) # (ys @ [(ev_id e, now)])"
    unfolding finish_forget Let_def by simp
  moreover have "length (ys @ [(ev_id e, now)]) = Suc m" using c(2) by simp
  ultimately show ?case
    unfolding settled_def by (intro exI [of _ zs] exI [of _ "ys @ [(ev_id e, now)]"]) simp
qed (simp_all add: settled_def)

lemma settled_run:
  assumes "sys_run s ns s'" "sys_inv s" "settled k t 0 s" "length (filter is_finished ns) < 4096"
    "\<forall>n \<in> set ns. \<not> sees_stale t n"
  shows "settled k t (length (filter is_finished ns)) s'"
  using assms
proof (induction rule: sys_run.induct)
  case (run_step s ns s' n s'')
  then have "settled k t (length (filter is_finished ns)) s'" by simp
  moreover have "sys_inv s'" using run_step sys_inv_run by blast
  ultimately show ?case using settled_step [OF run_step(2)] run_step.prems(3,4) by (cases "is_finished n") auto
qed simp

lemma finish_settles:
  assumes "sys_step s (Finished k t) s'"
  shows "settled k t 0 s'"
  using assms
proof (cases rule: sys_step.cases)
  case (step_finish i e st)
  then have "ds_completed (sy_dispatcher s') =
      drop (Suc (length (ds_completed (sy_dispatcher s))) - completed_capacity) (ds_completed (sy_dispatcher s)) @ [(k, t)]"
    by (simp add: finish_forget Let_def)
  then show ?thesis unfolding settled_def by auto
qed

lemma unsettled_run:
  assumes "sys_run s ns s'" "sys_inv s" "unsettled k s" "\<And>t. Finished k t \<notin> set ns"
  shows "unsettled k s'"
  using assms
proof (induction rule: sys_run.induct)
  case (run_step s ns s' n s'')
  then have "unsettled k s'" "sys_inv s'" using sys_inv_run by auto
  with unsettled_step(1) [OF run_step(2)] run_step.prems(3) show ?case by auto
qed simp

lemma accept_unsettled:
  assumes "sys_step s (Enqueued e t True) s'"
  shows "unsettled (ev_id e) s'"
  using assms
  by (cases rule: sys_step.cases) (auto simp: unsettled_def enqueue_def Let_def gm.get_put split: if_splits)

text \<open>
  C7. A notification goes out once. An event that was accepted is accepted a second time only after it
  got its verdict, and after that either 4096 other deliveries have ended or the clock of an observation
  was at least 24 hours past the verdict; so repeated notices of one failed Job within a day, from
  informer restarts or resyncs, do not repeat the notification.
\<close>

theorem notification_sent_once:
  assumes "sys_run initial_system (ns @ [Enqueued e t True] @ ms @ [Enqueued e' t' True]) s" and "ev_id e' = ev_id e"
  shows "\<exists>as bs done_at. ms = as @ [Finished (ev_id e) done_at] @ bs \<and>
    (4096 \<le> length (filter is_finished bs) \<or> (\<exists>n \<in> set (bs @ [Enqueued e' t' True]). sees_stale done_at n))"
proof -
  define k where "k = ev_id e"
  from assms(1) [unfolded run_append run_single] obtain s1 s2 s3 where 1: "sys_run initial_system ns s1" "sys_step s1 (Enqueued e t True) s2"
    and ms: "sys_run s2 ms s3" and last: "sys_step s3 (Enqueued e' t' True) s"
    by blast
  have inv: "sys_inv s2" using 1 sys_inv_run sys_inv_initial sys_inv_step by blast
  have first: "unsettled k s2" using accept_unsettled [OF 1(2)] by (simp add: k_def)
  show ?thesis
  proof (cases "\<exists>u. Finished k u \<in> set ms")
    case False
    then have "unsettled k s3" using unsettled_run [OF ms inv first] by blast
    with unsettled_step(2) [OF last sys_inv_run [OF ms inv], of k e' t'] assms(2) show ?thesis by (simp add: k_def)
  next
    case True
    then obtain u as bs where split: "ms = as @ [Finished k u] @ bs" by (auto dest: split_list)
    from ms [unfolded split run_append run_single] obtain s4 s5 where
      s4: "sys_run s2 as s4" "sys_step s4 (Finished k u) s5" and s5: "sys_run s5 bs s3" by blast
    have inv5: "sys_inv s5" using inv s4 sys_inv_run sys_inv_step by blast
    have "4096 \<le> length (filter is_finished bs) \<or> (\<exists>n \<in> set (bs @ [Enqueued e' t' True]). sees_stale u n)"
    proof (rule ccontr)
      assume no: "\<not> ?thesis"
      then have "settled k u (length (filter is_finished bs)) s3"
        using settled_run [OF s5 inv5 finish_settles [OF s4(2)]] by auto
      moreover have "time_sub t' u < completed_ttl" using no by auto
      moreover obtain d where "enqueue t' e' (sy_dispatcher s3) = (True, d)" using last by (cases rule: sys_step.cases) auto
      ultimately show False using settled_enqueue(2) [of k u _ s3 t' e' True d] sys_inv_run [OF s5 inv5] assms(2) by (simp add: k_def)
    qed
    with split show ?thesis unfolding k_def by blast
  qed
qed

section \<open>Examples\<close>

text \<open>One event from its acceptance to its verdict, and its second acceptance a day later.\<close>

definition queued :: system where
  "queued = initial_system\<lparr>sy_dispatcher := snd (enqueue 0 sample_event new_dispatcher)\<rparr>"

definition delivered :: system where
  "delivered = queued\<lparr>sy_dispatcher :=
     finish 1 (ev_id sample_event) StateDelivered (mark_sending (ev_id sample_event)
       ((sy_dispatcher queued)\<lparr>ds_queue := []\<rparr>)), sy_workers := (sy_workers queued)[0 := Waiting]\<rparr>"

definition queued_again :: system where
  "queued_again = delivered\<lparr>sy_dispatcher := snd (enqueue (completed_ttl + 1) sample_event (sy_dispatcher delivered))\<rparr>"

lemma sample_queued: "sys_run initial_system [Enqueued sample_event 0 True] queued"
proof -
  have "enqueue 0 sample_event (sy_dispatcher initial_system) = (True, snd (enqueue 0 sample_event new_dispatcher))"
    by code_simp
  from step_enqueue [OF this] show ?thesis by (simp add: run_single queued_def)
qed

lemma worker_run:
  assumes "\<not> sy_cancelled s" "0 < length (sy_workers s)" "sy_workers s ! 0 = Waiting" "ds_queue (sy_dispatcher s) = e # rest"
  shows "sys_run s [Internal, Internal, Internal, Finished (ev_id e) now]
    (s\<lparr>sy_dispatcher := finish now (ev_id e) StateDelivered (mark_sending (ev_id e) ((sy_dispatcher s)\<lparr>ds_queue := rest\<rparr>)),
       sy_workers := (sy_workers s)[0 := Waiting]\<rparr>)"
proof -
  let ?d = "(sy_dispatcher s)\<lparr>ds_queue := rest\<rparr>"
  let ?s = "\<lambda>d w. s\<lparr>sy_dispatcher := d, sy_workers := (sy_workers s)[0 := w]\<rparr>"
  have "sys_step s Internal (?s ?d (Received e))" by (rule step_receive [OF assms(2-4)])
  moreover have "sys_step (?s ?d (Received e)) Internal (?s ?d (Checked e))"
    using step_check [of 0 "?s ?d (Received e)" e] assms by simp
  moreover have "sys_step (?s ?d (Checked e)) Internal (?s (mark_sending (ev_id e) ?d) (Delivering e))"
    using step_mark [of 0 "?s ?d (Checked e)" e] assms by simp
  moreover have "sys_step (?s (mark_sending (ev_id e) ?d) (Delivering e)) (Finished (ev_id e) now)
      (?s (finish now (ev_id e) StateDelivered (mark_sending (ev_id e) ?d)) Waiting)"
    using step_finish [of 0 "?s (mark_sending (ev_id e) ?d) (Delivering e)" e StateDelivered now] assms by simp
  ultimately have "sys_run s ([Internal] @ [Internal] @ [Internal] @ [Finished (ev_id e) now])
      (?s (finish now (ev_id e) StateDelivered (mark_sending (ev_id e) ?d)) Waiting)"
    unfolding run_append run_single by blast
  then show ?thesis by simp
qed

lemma sample_delivered_run: "sys_run queued [Internal, Internal, Internal, Finished (ev_id sample_event) 1] delivered"
proof -
  have q: "\<not> sy_cancelled queued" "sy_workers queued = [Waiting, Waiting]" "ds_queue (sy_dispatcher queued) = sample_event # []"
    by code_simp+
  show ?thesis unfolding delivered_def by (rule worker_run [OF q(1) _ _ q(3)]) (simp_all add: q(2))
qed

lemma sample_queued_again: "sys_run delivered [Enqueued sample_event (completed_ttl + 1) True] queued_again"
proof -
  have "enqueue (completed_ttl + 1) sample_event (sy_dispatcher delivered) =
      (True, snd (enqueue (completed_ttl + 1) sample_event (sy_dispatcher delivered)))"
    by code_simp
  from step_enqueue [OF this] show ?thesis by (simp add: run_single queued_again_def)
qed

theorem dispatcher_consistent_witness:
  "busy_ids queued = [''job:j1:failed''] \<and> distinct (busy_ids queued) \<and> gm_len (ds_records (sy_dispatcher queued)) \<le> 4226"
proof -
  have "\<not> sy_cancelled queued" "busy_ids queued = [''job:j1:failed'']" by code_simp+
  with dispatcher_consistent [OF sample_queued] show ?thesis by simp
qed

theorem dispatcher_refines_memory_witness:
  "memory_run (\<lambda>_. None) [Enqueued sample_event 0 True] (remembered (sy_dispatcher queued))"
  by (rule dispatcher_refines_memory [OF sample_queued])

theorem notification_sent_once_witness:
  "\<exists>as bs done_at. [Internal, Internal, Internal, Finished ''job:j1:failed'' 1] = as @ [Finished ''job:j1:failed'' done_at] @ bs \<and>
     (4096 \<le> length (filter is_finished bs) \<or>
      (\<exists>n \<in> set (bs @ [Enqueued sample_event (completed_ttl + 1) True]). sees_stale done_at n))"
proof -
  have id: "ev_id sample_event = ''job:j1:failed''" by code_simp
  have "sys_run initial_system ([] @ [Enqueued sample_event 0 True] @ [Internal, Internal, Internal, Finished (ev_id sample_event) 1] @
      [Enqueued sample_event (completed_ttl + 1) True]) queued_again"
    unfolding run_append run_single [symmetric]
    using sample_queued sample_delivered_run sample_queued_again run_refl by blast
  from notification_sent_once [OF this refl] show ?thesis unfolding id .
qed

end
