(* ===== verification/Memory.thy ===== *)
theory Memory
  imports ApiTypes
begin

text \<open>
  Go memory for the API types: the structs of \<open>api/v1\<close> with their pointers, slices and maps as
  addresses, an allocator, and what it means for a function to copy an object deeply, as a locale.
  The rest of the development treats resources as values; here sharing between an object and its
  copy can be observed.  The combinators for values, slices, pointers and structs are shared by the
  generated functions of \<open>DeepCopy\<close>.
\<close>

section \<open>Memory\<close>

type_synonym addr = nat

text \<open>
  The structs of the API types.  A pointer, slice or map is \<open>None\<close> for nil and otherwise an
  address; \<open>'f\<close> stands for the embedded structs of Kubernetes.
\<close>

record 'f task_spec_obj =
  tso_type :: task_type
  tso_schedule :: string
  tso_delay :: "addr option"
  tso_image :: string
  tso_command :: "addr option"
  tso_args :: "addr option"
  tso_resources :: 'f
  tso_env :: "addr option"
  tso_backoff_limit :: "addr option"
  tso_active_deadline_seconds :: "addr option"
  tso_ttl_seconds_after_finished :: "addr option"
  tso_concurrency_policy :: concurrency_policy
  tso_suspend :: "addr option"
  tso_cluster_name :: string

record task_status_obj =
  sto_phase :: task_phase
  sto_message :: string
  sto_last_schedule_time :: "addr option"
  sto_last_start_time :: "addr option"
  sto_last_completion_time :: "addr option"
  sto_execution_history :: "addr option"
  sto_active_jobs :: "addr option"
  sto_failed :: "32 word"
  sto_succeeded :: "32 word"
  sto_conditions :: "addr option"

record 'f task_obj =
  tko_type_meta :: "string \<times> string"      \<comment> \<open>API version and kind\<close>
  tko_meta :: 'f
  tko_spec :: "'f task_spec_obj"
  tko_status :: task_status_obj

record 'f list_obj =
  lso_type_meta :: "string \<times> string"
  lso_meta :: 'f
  lso_items :: "addr option"

record workflow_task_obj =
  wto_name :: string
  wto_depends_on :: "addr option"
  wto_template :: string
  wto_task_spec :: "addr option"
  wto_run_on_failure :: bool

record workflow_spec_obj =
  wso_max_parallel :: int
  wso_tasks :: "addr option"
  wso_task_templates :: "addr option"

record node_status_obj =
  wno_name :: string
  wno_phase :: node_phase
  wno_task_name :: string
  wno_start_time :: "addr option"
  wno_completion_time :: "addr option"
  wno_message :: string

record workflow_status_obj =
  wsto_phase :: workflow_phase
  wsto_message :: string
  wsto_start_time :: "addr option"
  wsto_completion_time :: "addr option"
  wsto_observed_generation :: int
  wsto_conditions :: "addr option"
  wsto_nodes :: "addr option"

record 'f workflow_obj =
  wfo_type_meta :: "string \<times> string"
  wfo_meta :: 'f
  wfo_spec :: workflow_spec_obj
  wfo_status :: workflow_status_obj

text \<open>
  What an address can hold.  Go is type safe, so an address is only read at the type it was
  allocated with; the selectors are unspecified elsewhere.
\<close>

datatype 'f cell =
    DurationCell (the_duration: duration)
  | TimeCell (the_time: time)
  | Int32Cell (the_int32: "32 word")
  | Int64Cell (the_int64: "64 word")
  | BoolCell (the_bool: bool)
  | StringsCell (the_strings: "string list")
  | ForeignsCell (the_foreigns: "'f list")          \<comment> \<open>\<open>[]corev1.EnvVar\<close>, \<open>[]metav1.Condition\<close>\<close>
  | RecordCell (the_record: execution_record)
  | RecordsCell (the_records: "execution_record list")
  | TaskSpecCell (the_task_spec: "'f task_spec_obj")
  | TaskStatusCell (the_task_status: task_status_obj)
  | TaskCell (the_task: "'f task_obj")
  | TasksCell (the_tasks: "'f task_obj list")
  | ListCell (the_list: "'f list_obj")              \<comment> \<open>\<open>TaskList\<close>, \<open>WorkflowList\<close>\<close>
  | WorkflowTaskCell (the_workflow_task: workflow_task_obj)
  | WorkflowTasksCell (the_workflow_tasks: "workflow_task_obj list")
  | TemplatesCell (the_templates: "(string, 'f task_spec_obj) gomap")
  | WorkflowSpecCell (the_workflow_spec: workflow_spec_obj)
  | NodeCell (the_node: node_status_obj)
  | NodesCell (the_nodes: "node_status_obj list")
  | WorkflowStatusCell (the_workflow_status: workflow_status_obj)
  | WorkflowCell (the_workflow: "'f workflow_obj")
  | WorkflowsCell (the_workflows: "'f workflow_obj list")
  | InnerCell (the_inner: 'f)                       \<comment> \<open>whatever the embedded structs point to\<close>

record 'f memory =
  my_next :: addr
  my_cells :: "addr \<Rightarrow> 'f cell"

definition alloc :: "'f cell \<Rightarrow> 'f memory \<Rightarrow> addr \<times> 'f memory" where
  "alloc v h = (my_next h, h\<lparr>my_next := Suc (my_next h), my_cells := (my_cells h)(my_next h := v)\<rparr>)"

text \<open>Two memories agree on a set of addresses; a memory extends another if nothing old changed.\<close>

definition agree :: "addr set \<Rightarrow> 'f memory \<Rightarrow> 'f memory \<Rightarrow> bool" where
  "agree A h h' \<longleftrightarrow> (\<forall>a \<in> A. my_cells h' a = my_cells h a)"

definition extends :: "'f memory \<Rightarrow> 'f memory \<Rightarrow> bool" where
  "extends h h' \<longleftrightarrow> my_next h \<le> my_next h' \<and> agree {..<my_next h} h h'"

lemma agreeD: "agree A h h' \<Longrightarrow> a \<in> A \<Longrightarrow> my_cells h' a = my_cells h a"
  by (simp add: agree_def)

lemma agree_mono: "agree A h h' \<Longrightarrow> B \<subseteq> A \<Longrightarrow> agree B h h'"
  by (auto simp: agree_def)

lemma extends_refl [intro, simp]: "extends h h"
  by (simp add: extends_def agree_def)

lemma extends_trans: "extends h h1 \<Longrightarrow> extends h1 h2 \<Longrightarrow> extends h h2"
  by (auto simp: extends_def agree_def)

lemma extends_alloc: "alloc v h = (a, h') \<Longrightarrow> extends h h'"
  by (auto simp: alloc_def extends_def agree_def)

lemma extends_agree: "extends h h' \<Longrightarrow> A \<subseteq> {..<my_next h} \<Longrightarrow> agree A h h'"
  by (auto simp: extends_def intro: agree_mono)

section \<open>What a deep copy promises\<close>

text \<open>
  A copy function with the reading of an object and the addresses reachable from it: the copy reads
  like the original, all it can reach was allocated for it, and no old cell was written.  Reading
  depends on the reachable addresses only.
\<close>

locale deep_copy =
  fixes copy :: "'x \<Rightarrow> 'f memory \<Rightarrow> 'x \<times> 'f memory"
    and read :: "'f memory \<Rightarrow> 'x \<Rightarrow> 'v"
    and reach :: "'f memory \<Rightarrow> 'x \<Rightarrow> addr set"
  assumes copy_extends: "copy x h = (y, h') \<Longrightarrow> reach h x \<subseteq> {..<my_next h} \<Longrightarrow> extends h h'"
    and copy_reads: "copy x h = (y, h') \<Longrightarrow> reach h x \<subseteq> {..<my_next h} \<Longrightarrow> read h' y = read h x"
    and copy_fresh: "copy x h = (y, h') \<Longrightarrow> reach h x \<subseteq> {..<my_next h} \<Longrightarrow>
      reach h' y \<subseteq> {my_next h..<my_next h'}"
    and frame_read: "agree (reach h x) h h' \<Longrightarrow> read h' x = read h x"
    and frame_reach: "agree (reach h x) h h' \<Longrightarrow> reach h' x = reach h x"
begin

lemma later_reach: "extends h h' \<Longrightarrow> reach h x \<subseteq> {..<my_next h} \<Longrightarrow> reach h' x = reach h x"
  by (rule frame_reach [OF extends_agree])

lemma later_read: "extends h h' \<Longrightarrow> reach h x \<subseteq> {..<my_next h} \<Longrightarrow> read h' x = read h x"
  by (rule frame_read [OF extends_agree])

lemma later_old: "extends h h' \<Longrightarrow> reach h x \<subseteq> {..<my_next h} \<Longrightarrow> reach h' x \<subseteq> {..<my_next h'}"
  using later_reach [of h h' x] by (auto simp: extends_def)

text \<open>A field that is copied between other fields.\<close>

lemma copy_between:
  assumes "extends h h1" "reach h x \<subseteq> {..<my_next h}" "copy x h1 = (y, h2)" "extends h2 h3"
  shows "read h3 y = read h x" "reach h3 y \<subseteq> {my_next h..<my_next h3}"
proof -
  have old: "reach h1 x \<subseteq> {..<my_next h1}" by (rule later_old [OF assms(1,2)])
  have e: "extends h1 h2" by (rule copy_extends [OF assms(3) old])
  have f: "reach h2 y \<subseteq> {my_next h1..<my_next h2}" by (rule copy_fresh [OF assms(3) old])
  then have o2: "reach h2 y \<subseteq> {..<my_next h2}" by auto
  show "read h3 y = read h x"
    using later_read [OF assms(4) o2] copy_reads [OF assms(3) old] later_read [OF assms(1,2)] by simp
  have "reach h3 y = reach h2 y" by (rule later_reach [OF assms(4) o2])
  with f assms(1,4) show "reach h3 y \<subseteq> {my_next h..<my_next h3}" by (auto simp: extends_def)
qed

lemma copy_extends_later:
  "extends h h1 \<Longrightarrow> reach h x \<subseteq> {..<my_next h} \<Longrightarrow> copy x h1 = (y, h2) \<Longrightarrow> extends h1 h2"
  by (rule copy_extends [OF _ later_old])

text \<open>The copy and the original share nothing: a change of the one is not seen in the other.\<close>

lemma copy_independent:
  assumes "copy x h = (y, h1)" "reach h x \<subseteq> {..<my_next h}"
  shows "agree {..<my_next h} h1 h2 \<Longrightarrow> read h2 x = read h x"
    and "agree {my_next h..} h1 h2 \<Longrightarrow> read h2 y = read h x"
proof -
  have e: "extends h h1" by (rule copy_extends [OF assms])
  show "read h2 x = read h x" if a: "agree {..<my_next h} h1 h2"
  proof -
    have "agree (reach h x) h h2"
      using extends_agree [OF e assms(2)] agree_mono [OF a assms(2)] by (auto simp: agree_def)
    then show ?thesis by (rule frame_read)
  qed
  show "read h2 y = read h x" if a: "agree {my_next h..} h1 h2"
  proof -
    have "reach h1 y \<subseteq> {my_next h..}" using copy_fresh [OF assms] by auto
    from frame_read [OF agree_mono [OF a this]] show ?thesis
      by (simp add: copy_reads [OF assms])
  qed
qed

end

section \<open>Ways of copying\<close>

text \<open>
  Values without pointers; the loop over the elements of a slice; the block
  \<open>if in.X != nil { *out = new(T) ... }\<close> for a pointer, a slice or a map.  The backing array is
  allocated after its elements have been copied, which only chooses another address.
\<close>

definition copy_value :: "'x \<Rightarrow> 'f memory \<Rightarrow> 'x \<times> 'f memory" where
  "copy_value x h = (x, h)"

fun copy_elems :: "('x \<Rightarrow> 'f memory \<Rightarrow> 'x \<times> 'f memory) \<Rightarrow> 'x list \<Rightarrow> 'f memory \<Rightarrow> 'x list \<times> 'f memory" where
  "copy_elems copy [] h = ([], h)"
| "copy_elems copy (x # xs) h =
     (case copy x h of (y, h1) \<Rightarrow> case copy_elems copy xs h1 of (ys, h2) \<Rightarrow> (y # ys, h2))"

definition copy_ref ::
  "('x \<Rightarrow> 'f cell) \<Rightarrow> ('f cell \<Rightarrow> 'x) \<Rightarrow> ('x \<Rightarrow> 'f memory \<Rightarrow> 'x \<times> 'f memory) \<Rightarrow>
   addr option \<Rightarrow> 'f memory \<Rightarrow> addr option \<times> 'f memory" where
  "copy_ref wrap unwrap copy p h =
     (case p of
        None \<Rightarrow> (None, h)
      | Some a \<Rightarrow> (case copy (unwrap (my_cells h a)) h of (y, h1) \<Rightarrow>
                   case alloc (wrap y) h1 of (b, h2) \<Rightarrow> (Some b, h2)))"

definition read_ref :: "('f cell \<Rightarrow> 'x) \<Rightarrow> ('f memory \<Rightarrow> 'x \<Rightarrow> 'v) \<Rightarrow> 'f memory \<Rightarrow> addr option \<Rightarrow> 'v option" where
  "read_ref unwrap read h p = map_option (\<lambda>a. read h (unwrap (my_cells h a))) p"

definition reach_ref :: "('f cell \<Rightarrow> 'x) \<Rightarrow> ('f memory \<Rightarrow> 'x \<Rightarrow> addr set) \<Rightarrow> 'f memory \<Rightarrow> addr option \<Rightarrow> addr set" where
  "reach_ref unwrap reach h p = (case p of None \<Rightarrow> {} | Some a \<Rightarrow> insert a (reach h (unwrap (my_cells h a))))"

definition reach_elems :: "('f memory \<Rightarrow> 'x \<Rightarrow> addr set) \<Rightarrow> 'f memory \<Rightarrow> 'x list \<Rightarrow> addr set" where
  "reach_elems reach h xs = (\<Union>x \<in> set xs. reach h x)"

abbreviation no_reach :: "'f memory \<Rightarrow> 'x \<Rightarrow> addr set" where
  "no_reach h x \<equiv> {}"

lemma deep_copy_value [intro, simp]: "deep_copy copy_value (\<lambda>h x. r x) no_reach"
  by unfold_locales (auto simp: copy_value_def)

lemma reach_elems_simps [simp]:
  "reach_elems reach h [] = {}" "reach_elems reach h (x # xs) = reach h x \<union> reach_elems reach h xs"
  by (simp_all add: reach_elems_def)

lemma agree_union: "agree (A \<union> B) h h' \<longleftrightarrow> agree A h h' \<and> agree B h h'"
  by (auto simp: agree_def)

context deep_copy
begin

lemma elems_between:
  "copy_elems copy xs h1 = (ys, h2) \<Longrightarrow> extends h h1 \<Longrightarrow> reach_elems reach h xs \<subseteq> {..<my_next h} \<Longrightarrow>
   extends h1 h2 \<and> map (read h2) ys = map (read h) xs \<and>
   reach_elems reach h2 ys \<subseteq> {my_next h..<my_next h2}"
proof (induction xs arbitrary: h1 ys)
  case Nil
  then show ?case by simp
next
  case (Cons x xs)
  from Cons.prems(1) obtain y ha ys' where
    c: "copy x h1 = (y, ha)" "copy_elems copy xs ha = (ys', h2)" "ys = y # ys'"
    by (auto split: prod.splits)
  from Cons.prems(3) have r: "reach h x \<subseteq> {..<my_next h}" "reach_elems reach h xs \<subseteq> {..<my_next h}" by simp_all
  have e: "extends h1 ha" by (rule copy_extends_later [OF Cons.prems(2) r(1) c(1)])
  have i: "extends ha h2 \<and> map (read h2) ys' = map (read h) xs \<and>
      reach_elems reach h2 ys' \<subseteq> {my_next h..<my_next h2}"
    by (rule Cons.IH [OF c(2) extends_trans [OF Cons.prems(2) e] r(2)])
  with copy_between [OF Cons.prems(2) r(1) c(1)] extends_trans [OF e] show ?case by (simp add: c(3))
qed

lemma elems_frame:
  "agree (reach_elems reach h xs) h h' \<Longrightarrow>
   map (read h') xs = map (read h) xs \<and> reach_elems reach h' xs = reach_elems reach h xs"
  by (induction xs) (auto simp: agree_union frame_read frame_reach)

end

lemma deep_copy_elems [intro]:
  assumes "deep_copy copy read reach"
  shows "deep_copy (copy_elems copy) (\<lambda>h. map (read h)) (reach_elems reach)"
proof unfold_locales
  fix xs ys h h'
  assume c: "copy_elems copy xs h = (ys, h')" and r: "reach_elems reach h xs \<subseteq> {..<my_next h}"
  from deep_copy.elems_between [OF assms c extends_refl r]
  show "extends h h'" "map (read h') ys = map (read h) xs"
    "reach_elems reach h' ys \<subseteq> {my_next h..<my_next h'}" by simp_all
next
  fix h xs h'
  assume "agree (reach_elems reach h xs) h h'"
  from deep_copy.elems_frame [OF assms this]
  show "map (read h') xs = map (read h) xs" "reach_elems reach h' xs = reach_elems reach h xs" by simp_all
qed

lemma deep_copy_ref [intro]:
  assumes "deep_copy copy read reach" and wrap: "\<And>x. unwrap (wrap x) = x"
  shows "deep_copy (copy_ref wrap unwrap copy) (read_ref unwrap read) (reach_ref unwrap reach)"
proof unfold_locales
  fix p q :: "addr option" and h h'
  assume c: "copy_ref wrap unwrap copy p h = (q, h')" and r: "reach_ref unwrap reach h p \<subseteq> {..<my_next h}"
  show "extends h h'" "read_ref unwrap read h' q = read_ref unwrap read h p"
    "reach_ref unwrap reach h' q \<subseteq> {my_next h..<my_next h'}"
  proof -
    have "extends h h' \<and> read_ref unwrap read h' q = read_ref unwrap read h p \<and>
      reach_ref unwrap reach h' q \<subseteq> {my_next h..<my_next h'}"
    proof (cases p)
      case None
      with c show ?thesis by (simp add: copy_ref_def read_ref_def reach_ref_def)
    next
      case (Some a)
      with c obtain y h1 b where s: "copy (unwrap (my_cells h a)) h = (y, h1)" "alloc (wrap y) h1 = (b, h')"
        "q = Some b" by (auto simp: copy_ref_def split: prod.splits)
      from r Some have o: "reach h (unwrap (my_cells h a)) \<subseteq> {..<my_next h}" by (simp add: reach_ref_def)
      have e: "extends h h1" by (rule deep_copy.copy_extends [OF assms(1) s(1) o])
      have e': "extends h1 h'" by (rule extends_alloc [OF s(2)])
      have b: "unwrap (my_cells h' b) = y" "b = my_next h1" "my_next h' = Suc (my_next h1)"
        using s(2) by (auto simp: alloc_def wrap)
      from deep_copy.copy_between [OF assms(1) extends_refl o s(1) e'] e extends_trans [OF e e'] b show ?thesis
        by (auto simp: read_ref_def reach_ref_def Some s(3) extends_def)
    qed
    then show "extends h h'" "read_ref unwrap read h' q = read_ref unwrap read h p"
      "reach_ref unwrap reach h' q \<subseteq> {my_next h..<my_next h'}" by simp_all
  qed
next
  fix h h' and p :: "addr option"
  assume a: "agree (reach_ref unwrap reach h p) h h'"
  have "read_ref unwrap read h' p = read_ref unwrap read h p \<and>
    reach_ref unwrap reach h' p = reach_ref unwrap reach h p"
  proof (cases p)
    case None
    then show ?thesis by (simp add: read_ref_def reach_ref_def)
  next
    case (Some x)
    with a have x: "my_cells h' x = my_cells h x" "agree (reach h (unwrap (my_cells h x))) h h'"
      by (simp_all add: reach_ref_def agree_def)
    from deep_copy.frame_read [OF assms(1) x(2)] deep_copy.frame_reach [OF assms(1) x(2)] show ?thesis
      by (simp add: read_ref_def reach_ref_def Some x(1))
  qed
  then show "read_ref unwrap read h' p = read_ref unwrap read h p"
    "reach_ref unwrap reach h' p = reach_ref unwrap reach h p" by simp_all
qed

text \<open>
  A struct is copied with \<open>*out = *in\<close> and then field by field; the fields that need it are a
  tuple \<open>proj\<close> of the struct, put back by \<open>emb\<close>.
\<close>

definition copy_pair ::
  "('x \<Rightarrow> 'f memory \<Rightarrow> 'x \<times> 'f memory) \<Rightarrow> ('y \<Rightarrow> 'f memory \<Rightarrow> 'y \<times> 'f memory) \<Rightarrow>
   'x \<times> 'y \<Rightarrow> 'f memory \<Rightarrow> ('x \<times> 'y) \<times> 'f memory" where
  "copy_pair c1 c2 p h = (case c1 (fst p) h of (x, h1) \<Rightarrow> case c2 (snd p) h1 of (y, h2) \<Rightarrow> ((x, y), h2))"

definition read_pair :: "('f memory \<Rightarrow> 'x \<Rightarrow> 'v) \<Rightarrow> ('f memory \<Rightarrow> 'y \<Rightarrow> 'u) \<Rightarrow> 'f memory \<Rightarrow> 'x \<times> 'y \<Rightarrow> 'v \<times> 'u" where
  "read_pair r1 r2 h p = (r1 h (fst p), r2 h (snd p))"

definition reach_pair ::
  "('f memory \<Rightarrow> 'x \<Rightarrow> addr set) \<Rightarrow> ('f memory \<Rightarrow> 'y \<Rightarrow> addr set) \<Rightarrow> 'f memory \<Rightarrow> 'x \<times> 'y \<Rightarrow> addr set" where
  "reach_pair f1 f2 h p = f1 h (fst p) \<union> f2 h (snd p)"

lemma deep_copy_pair [intro]:
  assumes "deep_copy c1 r1 f1" "deep_copy c2 r2 f2"
  shows "deep_copy (copy_pair c1 c2) (read_pair r1 r2) (reach_pair f1 f2)"
proof unfold_locales
  fix p q h h'
  assume c: "copy_pair c1 c2 p h = (q, h')" and r: "reach_pair f1 f2 h p \<subseteq> {..<my_next h}"
  from c obtain h1 where s: "c1 (fst p) h = (fst q, h1)" "c2 (snd p) h1 = (snd q, h')"
    by (auto simp: copy_pair_def split: prod.splits)
  from r have r1: "f1 h (fst p) \<subseteq> {..<my_next h}" and r2: "f2 h (snd p) \<subseteq> {..<my_next h}"
    by (simp_all add: reach_pair_def)
  have e: "extends h h1" by (rule deep_copy.copy_extends [OF assms(1) s(1) r1])
  have e': "extends h1 h'" by (rule deep_copy.copy_extends_later [OF assms(2) e r2 s(2)])
  show "extends h h'" by (rule extends_trans [OF e e'])
  from deep_copy.copy_between [OF assms(1) extends_refl r1 s(1) e']
    deep_copy.copy_between [OF assms(2) e r2 s(2) extends_refl]
  show "read_pair r1 r2 h' q = read_pair r1 r2 h p"
    "reach_pair f1 f2 h' q \<subseteq> {my_next h..<my_next h'}"
    by (simp_all add: read_pair_def reach_pair_def)
next
  fix h h' p
  assume "agree (reach_pair f1 f2 h p) h h'"
  then have a: "agree (f1 h (fst p)) h h'" "agree (f2 h (snd p)) h h'"
    by (simp_all add: reach_pair_def agree_union)
  note same = deep_copy.frame_read [OF assms(1) a(1)] deep_copy.frame_read [OF assms(2) a(2)]
    deep_copy.frame_reach [OF assms(1) a(1)] deep_copy.frame_reach [OF assms(2) a(2)]
  show "read_pair r1 r2 h' p = read_pair r1 r2 h p" "reach_pair f1 f2 h' p = reach_pair f1 f2 h p"
    by (simp_all only: read_pair_def reach_pair_def same)
qed

lemma deep_copy_struct:
  assumes D: "deep_copy c r f"
    and copy: "\<And>x h. copy x h = (case c (proj x) h of (t, h') \<Rightarrow> (emb x t, h'))"
    and read: "\<And>h x. read h x = R x (r h (proj x))"
    and reach: "\<And>h x. reach h x = f h (proj x)"
    and emb: "\<And>x t. proj (emb x t) = t" "\<And>x t v. R (emb x t) v = R x v"
  shows "deep_copy copy read reach"
proof unfold_locales
  fix x y h h'
  assume c: "copy x h = (y, h')" and r: "reach h x \<subseteq> {..<my_next h}"
  from c obtain t where t: "c (proj x) h = (t, h')" "y = emb x t" by (auto simp: copy split: prod.splits)
  from deep_copy.copy_extends [OF D t(1)] deep_copy.copy_reads [OF D t(1)]
    deep_copy.copy_fresh [OF D t(1)] r
  show "extends h h'" "read h' y = read h x" "reach h' y \<subseteq> {my_next h..<my_next h'}"
    by (simp_all add: reach read emb t(2))
next
  fix h h' x
  assume "agree (reach h x) h h'"
  then have a: "agree (f h (proj x)) h h'" by (simp only: reach)
  show "read h' x = read h x" "reach h' x = reach h x"
    by (simp_all only: read reach deep_copy.frame_read [OF D a] deep_copy.frame_reach [OF D a])
qed

lemma deep_copy_read: "deep_copy c r f \<Longrightarrow> deep_copy c (\<lambda>h x. g (r h x)) f"
  by (rule deep_copy_struct [where proj = id and emb = "\<lambda>x t. t" and R = "\<lambda>_. g"])
    (simp_all split: prod.splits)

end
