(* ===== verification/DeepCopy.thy ===== *)
theory DeepCopy
  imports Memory WorkflowCtl
begin

text \<open>
  The deep copies of \<open>api/v1/zz_generated.deepcopy.go\<close> on the memory of \<open>Memory\<close>: every
  \<open>DeepCopyInto\<close>, \<open>DeepCopy\<close> and \<open>DeepCopyObject\<close>.  Reading a copy back gives the same value of
  \<open>ApiTypes\<close>, and object and copy share nothing; with this, \<open>childTaskSpec\<close> of the Workflow
  controller, which copies a template and then changes the copy, computes the same spec on memory as
  on values.  The structs of Kubernetes that the resources embed, and their deep copies, are
  parameters.
\<close>

section \<open>The generated functions\<close>

text \<open>
  The structs of Kubernetes: their own \<open>DeepCopyInto\<close>, what they reach, and what they say as
  metadata and as serialised text.  The law is that their deep copies are deep copies.
\<close>

record 'f externals =
  ex_copy :: "'f \<Rightarrow> 'f memory \<Rightarrow> 'f \<times> 'f memory"
  ex_reach :: "'f memory \<Rightarrow> 'f \<Rightarrow> addr set"
  ex_meta :: "'f memory \<Rightarrow> 'f \<Rightarrow> object_meta"
  ex_text :: "'f memory \<Rightarrow> 'f \<Rightarrow> string"
  ex_array :: "string list option \<Rightarrow> string"      \<comment> \<open>the text of a slice from those of its elements\<close>
  ex_zero :: 'f                                     \<comment> \<open>the zero value, which is omitted in text\<close>

definition lawful_externals :: "'f externals \<Rightarrow> bool" where
  "lawful_externals X \<longleftrightarrow> deep_copy (ex_copy X) (ex_meta X) (ex_reach X) \<and>
     deep_copy (ex_copy X) (ex_text X) (ex_reach X) \<and> ex_array X None = [] \<and>
     (\<forall>h. ex_text X h (ex_zero X) = [] \<and> ex_reach X h (ex_zero X) = {})"

text \<open>\<open>*out = (*in).DeepCopy()\<close> of a time, \<open>copy\<close> of a slice of strings, elements with their own copy.\<close>

definition copy_time :: "addr option \<Rightarrow> 'f memory \<Rightarrow> addr option \<times> 'f memory" where
  "copy_time = copy_ref TimeCell the_time copy_value"

definition copy_strings :: "addr option \<Rightarrow> 'f memory \<Rightarrow> addr option \<times> 'f memory" where
  "copy_strings = copy_ref StringsCell the_strings copy_value"

definition copy_foreigns :: "'f externals \<Rightarrow> addr option \<Rightarrow> 'f memory \<Rightarrow> addr option \<times> 'f memory" where
  "copy_foreigns X = copy_ref ForeignsCell the_foreigns (copy_elems (ex_copy X))"

definition execution_record_deep_copy_into ::
  "execution_record \<Rightarrow> 'f memory \<Rightarrow> execution_record \<times> 'f memory" where
  "execution_record_deep_copy_into r h =
     (case copy_value (er_start_time r) h of (start, h) \<Rightarrow>
      case copy_value (er_stop_time r) h of (stop, h) \<Rightarrow>
        (r\<lparr>er_start_time := start, er_stop_time := stop\<rparr>, h))"

definition task_spec_deep_copy_into ::
  "'f externals \<Rightarrow> 'f task_spec_obj \<Rightarrow> 'f memory \<Rightarrow> 'f task_spec_obj \<times> 'f memory" where
  "task_spec_deep_copy_into X s h =
     (case copy_ref DurationCell the_duration copy_value (tso_delay s) h of (delay, h) \<Rightarrow>
      case copy_strings (tso_command s) h of (command, h) \<Rightarrow>
      case copy_strings (tso_args s) h of (args, h) \<Rightarrow>
      case ex_copy X (tso_resources s) h of (resources, h) \<Rightarrow>
      case copy_foreigns X (tso_env s) h of (env, h) \<Rightarrow>
      case copy_ref Int32Cell the_int32 copy_value (tso_backoff_limit s) h of (backoff, h) \<Rightarrow>
      case copy_ref Int64Cell the_int64 copy_value (tso_active_deadline_seconds s) h of (deadline, h) \<Rightarrow>
      case copy_ref Int32Cell the_int32 copy_value (tso_ttl_seconds_after_finished s) h of (ttl, h) \<Rightarrow>
      case copy_ref BoolCell the_bool copy_value (tso_suspend s) h of (suspend, h) \<Rightarrow>
        (s\<lparr>tso_delay := delay, tso_command := command, tso_args := args, tso_resources := resources,
           tso_env := env, tso_backoff_limit := backoff, tso_active_deadline_seconds := deadline,
           tso_ttl_seconds_after_finished := ttl, tso_suspend := suspend\<rparr>, h))"

definition task_status_deep_copy_into ::
  "'f externals \<Rightarrow> task_status_obj \<Rightarrow> 'f memory \<Rightarrow> task_status_obj \<times> 'f memory" where
  "task_status_deep_copy_into X s h =
     (case copy_time (sto_last_schedule_time s) h of (schedule, h) \<Rightarrow>
      case copy_time (sto_last_start_time s) h of (start, h) \<Rightarrow>
      case copy_time (sto_last_completion_time s) h of (completion, h) \<Rightarrow>
      case copy_ref RecordsCell the_records (copy_elems execution_record_deep_copy_into)
        (sto_execution_history s) h of (history, h) \<Rightarrow>
      case copy_strings (sto_active_jobs s) h of (jobs, h) \<Rightarrow>
      case copy_foreigns X (sto_conditions s) h of (conditions, h) \<Rightarrow>
        (s\<lparr>sto_last_schedule_time := schedule, sto_last_start_time := start,
           sto_last_completion_time := completion, sto_execution_history := history,
           sto_active_jobs := jobs, sto_conditions := conditions\<rparr>, h))"

definition task_deep_copy_into :: "'f externals \<Rightarrow> 'f task_obj \<Rightarrow> 'f memory \<Rightarrow> 'f task_obj \<times> 'f memory" where
  "task_deep_copy_into X t h =
     (case ex_copy X (tko_meta t) h of (meta, h) \<Rightarrow>
      case task_spec_deep_copy_into X (tko_spec t) h of (spec, h) \<Rightarrow>
      case task_status_deep_copy_into X (tko_status t) h of (status, h) \<Rightarrow>
        (t\<lparr>tko_meta := meta, tko_spec := spec, tko_status := status\<rparr>, h))"

definition task_list_deep_copy_into :: "'f externals \<Rightarrow> 'f list_obj \<Rightarrow> 'f memory \<Rightarrow> 'f list_obj \<times> 'f memory" where
  "task_list_deep_copy_into X l h =
     (case ex_copy X (lso_meta l) h of (meta, h) \<Rightarrow>
      case copy_ref TasksCell the_tasks (copy_elems (task_deep_copy_into X)) (lso_items l) h of (items, h) \<Rightarrow>
        (l\<lparr>lso_meta := meta, lso_items := items\<rparr>, h))"

text \<open>
  \<open>DeepCopy\<close> is nil for nil, and otherwise a new object filled by \<open>DeepCopyInto\<close>;
  \<open>DeepCopyObject\<close> turns a nil pointer into a nil interface.
\<close>

definition execution_record_deep_copy :: "addr option \<Rightarrow> 'f memory \<Rightarrow> addr option \<times> 'f memory" where
  "execution_record_deep_copy = copy_ref RecordCell the_record execution_record_deep_copy_into"

definition task_spec_deep_copy :: "'f externals \<Rightarrow> addr option \<Rightarrow> 'f memory \<Rightarrow> addr option \<times> 'f memory" where
  "task_spec_deep_copy X = copy_ref TaskSpecCell the_task_spec (task_spec_deep_copy_into X)"

definition task_status_deep_copy :: "'f externals \<Rightarrow> addr option \<Rightarrow> 'f memory \<Rightarrow> addr option \<times> 'f memory" where
  "task_status_deep_copy X = copy_ref TaskStatusCell the_task_status (task_status_deep_copy_into X)"

definition task_deep_copy :: "'f externals \<Rightarrow> addr option \<Rightarrow> 'f memory \<Rightarrow> addr option \<times> 'f memory" where
  "task_deep_copy X = copy_ref TaskCell the_task (task_deep_copy_into X)"

definition task_list_deep_copy :: "'f externals \<Rightarrow> addr option \<Rightarrow> 'f memory \<Rightarrow> addr option \<times> 'f memory" where
  "task_list_deep_copy X = copy_ref ListCell the_list (task_list_deep_copy_into X)"

definition deep_copy_object :: "(addr option \<Rightarrow> 'f memory \<Rightarrow> addr option \<times> 'f memory) \<Rightarrow>
    addr option \<Rightarrow> 'f memory \<Rightarrow> addr option \<times> 'f memory" where
  "deep_copy_object copy p h = (case copy p h of (Some c, h) \<Rightarrow> (Some c, h) | (None, h) \<Rightarrow> (None, h))"

definition task_deep_copy_object :: "'f externals \<Rightarrow> addr option \<Rightarrow> 'f memory \<Rightarrow> addr option \<times> 'f memory" where
  "task_deep_copy_object X = deep_copy_object (task_deep_copy X)"

definition task_list_deep_copy_object :: "'f externals \<Rightarrow> addr option \<Rightarrow> 'f memory \<Rightarrow> addr option \<times> 'f memory" where
  "task_list_deep_copy_object X = deep_copy_object (task_list_deep_copy X)"

text \<open>The parts of a Workflow.  \<open>*val.DeepCopy()\<close> of a local variable \<open>val\<close> takes its address.\<close>

definition workflow_task_deep_copy_into ::
  "'f externals \<Rightarrow> workflow_task_obj \<Rightarrow> 'f memory \<Rightarrow> workflow_task_obj \<times> 'f memory" where
  "workflow_task_deep_copy_into X t h =
     (case copy_strings (wto_depends_on t) h of (depends, h) \<Rightarrow>
      case copy_ref TaskSpecCell the_task_spec (task_spec_deep_copy_into X) (wto_task_spec t) h of (spec, h) \<Rightarrow>
        (t\<lparr>wto_depends_on := depends, wto_task_spec := spec\<rparr>, h))"

definition copied_variable :: "'f externals \<Rightarrow> 'f task_spec_obj \<Rightarrow> 'f memory \<Rightarrow> 'f task_spec_obj \<times> 'f memory" where
  "copied_variable X val h =
     (case alloc (TaskSpecCell val) h of (a, h) \<Rightarrow>
      case task_spec_deep_copy X (Some a) h of (q, h) \<Rightarrow> (the_task_spec (my_cells h (the q)), h))"

definition copy_template ::
  "'f externals \<Rightarrow> string \<times> 'f task_spec_obj \<Rightarrow> 'f memory \<Rightarrow> (string \<times> 'f task_spec_obj) \<times> 'f memory" where
  "copy_template X e h = (case copied_variable X (snd e) h of (val, h) \<Rightarrow> ((fst e, val), h))"

definition workflow_spec_deep_copy_into ::
  "'f externals \<Rightarrow> workflow_spec_obj \<Rightarrow> 'f memory \<Rightarrow> workflow_spec_obj \<times> 'f memory" where
  "workflow_spec_deep_copy_into X s h =
     (case copy_ref WorkflowTasksCell the_workflow_tasks (copy_elems (workflow_task_deep_copy_into X))
        (wso_tasks s) h of (tasks, h) \<Rightarrow>
      case copy_ref TemplatesCell the_templates (copy_elems (copy_template X))
        (wso_task_templates s) h of (templates, h) \<Rightarrow>
        (s\<lparr>wso_tasks := tasks, wso_task_templates := templates\<rparr>, h))"

definition node_status_deep_copy_into :: "node_status_obj \<Rightarrow> 'f memory \<Rightarrow> node_status_obj \<times> 'f memory" where
  "node_status_deep_copy_into n h =
     (case copy_time (wno_start_time n) h of (start, h) \<Rightarrow>
      case copy_time (wno_completion_time n) h of (completion, h) \<Rightarrow>
        (n\<lparr>wno_start_time := start, wno_completion_time := completion\<rparr>, h))"

definition workflow_status_deep_copy_into ::
  "'f externals \<Rightarrow> workflow_status_obj \<Rightarrow> 'f memory \<Rightarrow> workflow_status_obj \<times> 'f memory" where
  "workflow_status_deep_copy_into X s h =
     (case copy_time (wsto_start_time s) h of (start, h) \<Rightarrow>
      case copy_time (wsto_completion_time s) h of (completion, h) \<Rightarrow>
      case copy_foreigns X (wsto_conditions s) h of (conditions, h) \<Rightarrow>
      case copy_ref NodesCell the_nodes (copy_elems node_status_deep_copy_into) (wsto_nodes s) h of (nodes, h) \<Rightarrow>
        (s\<lparr>wsto_start_time := start, wsto_completion_time := completion,
           wsto_conditions := conditions, wsto_nodes := nodes\<rparr>, h))"

definition workflow_deep_copy_into :: "'f externals \<Rightarrow> 'f workflow_obj \<Rightarrow> 'f memory \<Rightarrow> 'f workflow_obj \<times> 'f memory" where
  "workflow_deep_copy_into X w h =
     (case ex_copy X (wfo_meta w) h of (meta, h) \<Rightarrow>
      case workflow_spec_deep_copy_into X (wfo_spec w) h of (spec, h) \<Rightarrow>
      case workflow_status_deep_copy_into X (wfo_status w) h of (status, h) \<Rightarrow>
        (w\<lparr>wfo_meta := meta, wfo_spec := spec, wfo_status := status\<rparr>, h))"

definition workflow_list_deep_copy_into :: "'f externals \<Rightarrow> 'f list_obj \<Rightarrow> 'f memory \<Rightarrow> 'f list_obj \<times> 'f memory" where
  "workflow_list_deep_copy_into X l h =
     (case ex_copy X (lso_meta l) h of (meta, h) \<Rightarrow>
      case copy_ref WorkflowsCell the_workflows (copy_elems (workflow_deep_copy_into X)) (lso_items l) h of (items, h) \<Rightarrow>
        (l\<lparr>lso_meta := meta, lso_items := items\<rparr>, h))"

definition workflow_task_deep_copy :: "'f externals \<Rightarrow> addr option \<Rightarrow> 'f memory \<Rightarrow> addr option \<times> 'f memory" where
  "workflow_task_deep_copy X = copy_ref WorkflowTaskCell the_workflow_task (workflow_task_deep_copy_into X)"

definition workflow_spec_deep_copy :: "'f externals \<Rightarrow> addr option \<Rightarrow> 'f memory \<Rightarrow> addr option \<times> 'f memory" where
  "workflow_spec_deep_copy X = copy_ref WorkflowSpecCell the_workflow_spec (workflow_spec_deep_copy_into X)"

definition node_status_deep_copy :: "addr option \<Rightarrow> 'f memory \<Rightarrow> addr option \<times> 'f memory" where
  "node_status_deep_copy = copy_ref NodeCell the_node node_status_deep_copy_into"

definition workflow_status_deep_copy :: "'f externals \<Rightarrow> addr option \<Rightarrow> 'f memory \<Rightarrow> addr option \<times> 'f memory" where
  "workflow_status_deep_copy X = copy_ref WorkflowStatusCell the_workflow_status (workflow_status_deep_copy_into X)"

definition workflow_deep_copy :: "'f externals \<Rightarrow> addr option \<Rightarrow> 'f memory \<Rightarrow> addr option \<times> 'f memory" where
  "workflow_deep_copy X = copy_ref WorkflowCell the_workflow (workflow_deep_copy_into X)"

definition workflow_list_deep_copy :: "'f externals \<Rightarrow> addr option \<Rightarrow> 'f memory \<Rightarrow> addr option \<times> 'f memory" where
  "workflow_list_deep_copy X = copy_ref ListCell the_list (workflow_list_deep_copy_into X)"

definition workflow_deep_copy_object :: "'f externals \<Rightarrow> addr option \<Rightarrow> 'f memory \<Rightarrow> addr option \<times> 'f memory" where
  "workflow_deep_copy_object X = deep_copy_object (workflow_deep_copy X)"

definition workflow_list_deep_copy_object :: "'f externals \<Rightarrow> addr option \<Rightarrow> 'f memory \<Rightarrow> addr option \<times> 'f memory" where
  "workflow_list_deep_copy_object X = deep_copy_object (workflow_list_deep_copy X)"

section \<open>Reading a resource back\<close>

text \<open>
  The value of \<open>ApiTypes\<close> an object stands for, with the conditions it carries beside it, and the
  addresses the object can reach.  A nil slice and an empty one are the same list.
\<close>

definition list_of :: "'v list option \<Rightarrow> 'v list" where
  "list_of xs = (case xs of None \<Rightarrow> [] | Some xs \<Rightarrow> xs)"

abbreviation read_value :: "'f memory \<Rightarrow> 'x \<Rightarrow> 'x" where
  "read_value h x \<equiv> x"

abbreviation read_time :: "'f memory \<Rightarrow> addr option \<Rightarrow> time option" where
  "read_time \<equiv> read_ref the_time read_value"

abbreviation read_strings :: "'f memory \<Rightarrow> addr option \<Rightarrow> string list option" where
  "read_strings \<equiv> read_ref the_strings read_value"

abbreviation read_texts :: "'f externals \<Rightarrow> 'f memory \<Rightarrow> addr option \<Rightarrow> string list option" where
  "read_texts X \<equiv> read_ref the_foreigns (\<lambda>h. map (ex_text X h))"

definition read_task_spec :: "'f externals \<Rightarrow> 'f memory \<Rightarrow> 'f task_spec_obj \<Rightarrow> task_spec" where
  "read_task_spec X h s =
     \<lparr>ts_type = tso_type s, ts_schedule = tso_schedule s,
      ts_delay = read_ref the_duration read_value h (tso_delay s), ts_image = tso_image s,
      ts_command = list_of (read_strings h (tso_command s)), ts_args = list_of (read_strings h (tso_args s)),
      ts_resources = ex_text X h (tso_resources s), ts_env = ex_array X (read_texts X h (tso_env s)),
      ts_backoff_limit = read_ref the_int32 read_value h (tso_backoff_limit s),
      ts_active_deadline_seconds = read_ref the_int64 read_value h (tso_active_deadline_seconds s),
      ts_ttl_seconds_after_finished = read_ref the_int32 read_value h (tso_ttl_seconds_after_finished s),
      ts_concurrency_policy = tso_concurrency_policy s,
      ts_suspend = read_ref the_bool read_value h (tso_suspend s), ts_cluster_name = tso_cluster_name s\<rparr>"

definition reach_task_spec :: "'f externals \<Rightarrow> 'f memory \<Rightarrow> 'f task_spec_obj \<Rightarrow> addr set" where
  "reach_task_spec X h s =
     reach_ref the_duration no_reach h (tso_delay s) \<union> (reach_ref the_strings no_reach h (tso_command s) \<union>
     (reach_ref the_strings no_reach h (tso_args s) \<union> (ex_reach X h (tso_resources s) \<union>
     (reach_ref the_foreigns (reach_elems (ex_reach X)) h (tso_env s) \<union>
     (reach_ref the_int32 no_reach h (tso_backoff_limit s) \<union>
     (reach_ref the_int64 no_reach h (tso_active_deadline_seconds s) \<union>
     (reach_ref the_int32 no_reach h (tso_ttl_seconds_after_finished s) \<union>
      reach_ref the_bool no_reach h (tso_suspend s))))))))"

definition read_task_status :: "'f externals \<Rightarrow> 'f memory \<Rightarrow> task_status_obj \<Rightarrow> task_status \<times> string list" where
  "read_task_status X h s =
     (\<lparr>st_phase = sto_phase s, st_message = sto_message s,
       st_last_schedule_time = read_time h (sto_last_schedule_time s),
       st_last_start_time = read_time h (sto_last_start_time s),
       st_last_completion_time = read_time h (sto_last_completion_time s),
       st_execution_history = list_of (read_ref the_records (\<lambda>h. map (read_value h)) h (sto_execution_history s)),
       st_active_jobs = list_of (read_strings h (sto_active_jobs s)),
       st_failed = sto_failed s, st_succeeded = sto_succeeded s\<rparr>,
      list_of (read_texts X h (sto_conditions s)))"

definition reach_task_status :: "'f externals \<Rightarrow> 'f memory \<Rightarrow> task_status_obj \<Rightarrow> addr set" where
  "reach_task_status X h s =
     reach_ref the_time no_reach h (sto_last_schedule_time s) \<union> (reach_ref the_time no_reach h (sto_last_start_time s) \<union>
     (reach_ref the_time no_reach h (sto_last_completion_time s) \<union>
     (reach_ref the_records (reach_elems no_reach) h (sto_execution_history s) \<union>
     (reach_ref the_strings no_reach h (sto_active_jobs s) \<union>
      reach_ref the_foreigns (reach_elems (ex_reach X)) h (sto_conditions s)))))"

definition read_task :: "'f externals \<Rightarrow> 'f memory \<Rightarrow> 'f task_obj \<Rightarrow> task \<times> string list" where
  "read_task X h t =
     (\<lparr>tk_api_version = fst (tko_type_meta t), tk_kind = snd (tko_type_meta t),
       tk_meta = ex_meta X h (tko_meta t), tk_spec = read_task_spec X h (tko_spec t),
       tk_status = fst (read_task_status X h (tko_status t))\<rparr>, snd (read_task_status X h (tko_status t)))"

definition reach_task :: "'f externals \<Rightarrow> 'f memory \<Rightarrow> 'f task_obj \<Rightarrow> addr set" where
  "reach_task X h t = ex_reach X h (tko_meta t) \<union>
     (reach_task_spec X h (tko_spec t) \<union> reach_task_status X h (tko_status t))"

definition read_task_list :: "'f externals \<Rightarrow> 'f memory \<Rightarrow> 'f list_obj \<Rightarrow> (string \<times> string) \<times> string \<times> (task \<times> string list) list" where
  "read_task_list X h l = (lso_type_meta l, ex_text X h (lso_meta l),
     list_of (read_ref the_tasks (\<lambda>h. map (read_task X h)) h (lso_items l)))"

definition reach_task_list :: "'f externals \<Rightarrow> 'f memory \<Rightarrow> 'f list_obj \<Rightarrow> addr set" where
  "reach_task_list X h l = ex_reach X h (lso_meta l) \<union>
     reach_ref the_tasks (reach_elems (reach_task X)) h (lso_items l)"

definition read_workflow_task :: "'f externals \<Rightarrow> 'f memory \<Rightarrow> workflow_task_obj \<Rightarrow> workflow_task" where
  "read_workflow_task X h t =
     \<lparr>wt_name = wto_name t, wt_depends_on = list_of (read_strings h (wto_depends_on t)),
      wt_template = wto_template t, wt_task_spec = read_ref the_task_spec (read_task_spec X) h (wto_task_spec t),
      wt_run_on_failure = wto_run_on_failure t\<rparr>"

definition reach_workflow_task :: "'f externals \<Rightarrow> 'f memory \<Rightarrow> workflow_task_obj \<Rightarrow> addr set" where
  "reach_workflow_task X h t = reach_ref the_strings no_reach h (wto_depends_on t) \<union>
     reach_ref the_task_spec (reach_task_spec X) h (wto_task_spec t)"

definition read_entry :: "'f externals \<Rightarrow> 'f memory \<Rightarrow> string \<times> 'f task_spec_obj \<Rightarrow> string \<times> task_spec" where
  "read_entry X h e = (fst e, read_task_spec X h (snd e))"

definition reach_entry :: "'f externals \<Rightarrow> 'f memory \<Rightarrow> string \<times> 'f task_spec_obj \<Rightarrow> addr set" where
  "reach_entry X h e = reach_task_spec X h (snd e)"

definition read_workflow_spec :: "'f externals \<Rightarrow> 'f memory \<Rightarrow> workflow_spec_obj \<Rightarrow> workflow_spec" where
  "read_workflow_spec X h s =
     \<lparr>wsp_max_parallel = wso_max_parallel s,
      wsp_tasks = list_of (read_ref the_workflow_tasks (\<lambda>h. map (read_workflow_task X h)) h (wso_tasks s)),
      wsp_task_templates = list_of (read_ref the_templates (\<lambda>h. map (read_entry X h)) h (wso_task_templates s))\<rparr>"

definition reach_workflow_spec :: "'f externals \<Rightarrow> 'f memory \<Rightarrow> workflow_spec_obj \<Rightarrow> addr set" where
  "reach_workflow_spec X h s =
     reach_ref the_workflow_tasks (reach_elems (reach_workflow_task X)) h (wso_tasks s) \<union>
     reach_ref the_templates (reach_elems (reach_entry X)) h (wso_task_templates s)"

definition read_node_status :: "'f memory \<Rightarrow> node_status_obj \<Rightarrow> workflow_node_status" where
  "read_node_status h n =
     \<lparr>wn_name = wno_name n, wn_phase = wno_phase n, wn_task_name = wno_task_name n,
      wn_start_time = read_time h (wno_start_time n), wn_completion_time = read_time h (wno_completion_time n),
      wn_message = wno_message n\<rparr>"

definition reach_node_status :: "'f memory \<Rightarrow> node_status_obj \<Rightarrow> addr set" where
  "reach_node_status h n = reach_ref the_time no_reach h (wno_start_time n) \<union>
     reach_ref the_time no_reach h (wno_completion_time n)"

definition read_workflow_status :: "'f externals \<Rightarrow> 'f memory \<Rightarrow> workflow_status_obj \<Rightarrow> workflow_status \<times> string list" where
  "read_workflow_status X h s =
     (\<lparr>ws_phase = wsto_phase s, ws_message = wsto_message s, ws_start_time = read_time h (wsto_start_time s),
       ws_completion_time = read_time h (wsto_completion_time s),
       ws_observed_generation = wsto_observed_generation s,
       ws_nodes = list_of (read_ref the_nodes (\<lambda>h. map (read_node_status h)) h (wsto_nodes s))\<rparr>,
      list_of (read_texts X h (wsto_conditions s)))"

definition reach_workflow_status :: "'f externals \<Rightarrow> 'f memory \<Rightarrow> workflow_status_obj \<Rightarrow> addr set" where
  "reach_workflow_status X h s =
     reach_ref the_time no_reach h (wsto_start_time s) \<union> (reach_ref the_time no_reach h (wsto_completion_time s) \<union>
     (reach_ref the_foreigns (reach_elems (ex_reach X)) h (wsto_conditions s) \<union>
      reach_ref the_nodes (reach_elems reach_node_status) h (wsto_nodes s)))"

definition read_workflow :: "'f externals \<Rightarrow> 'f memory \<Rightarrow> 'f workflow_obj \<Rightarrow> workflow \<times> string list" where
  "read_workflow X h w =
     (\<lparr>wf_api_version = fst (wfo_type_meta w), wf_kind = snd (wfo_type_meta w),
       wf_meta = ex_meta X h (wfo_meta w), wf_spec = read_workflow_spec X h (wfo_spec w),
       wf_status = fst (read_workflow_status X h (wfo_status w))\<rparr>, snd (read_workflow_status X h (wfo_status w)))"

definition reach_workflow :: "'f externals \<Rightarrow> 'f memory \<Rightarrow> 'f workflow_obj \<Rightarrow> addr set" where
  "reach_workflow X h w = ex_reach X h (wfo_meta w) \<union>
     (reach_workflow_spec X h (wfo_spec w) \<union> reach_workflow_status X h (wfo_status w))"

definition read_workflow_list ::
  "'f externals \<Rightarrow> 'f memory \<Rightarrow> 'f list_obj \<Rightarrow> (string \<times> string) \<times> string \<times> (workflow \<times> string list) list" where
  "read_workflow_list X h l = (lso_type_meta l, ex_text X h (lso_meta l),
     list_of (read_ref the_workflows (\<lambda>h. map (read_workflow X h)) h (lso_items l)))"

definition reach_workflow_list :: "'f externals \<Rightarrow> 'f memory \<Rightarrow> 'f list_obj \<Rightarrow> addr set" where
  "reach_workflow_list X h l = ex_reach X h (lso_meta l) \<union>
     reach_ref the_workflows (reach_elems (reach_workflow X)) h (lso_items l)"

section \<open>The generated functions keep the promise\<close>

lemma time_deep_copy [simp]: "deep_copy copy_time read_time (reach_ref the_time no_reach)"
  unfolding copy_time_def by (rule deep_copy_ref) simp_all

lemma strings_deep_copy [simp]: "deep_copy copy_strings read_strings (reach_ref the_strings no_reach)"
  unfolding copy_strings_def by (rule deep_copy_ref) simp_all

lemma plain_refs [simp]:
  "deep_copy (copy_ref DurationCell the_duration copy_value) (read_ref the_duration read_value) (reach_ref the_duration no_reach)"
  "deep_copy (copy_ref Int32Cell the_int32 copy_value) (read_ref the_int32 read_value) (reach_ref the_int32 no_reach)"
  "deep_copy (copy_ref Int64Cell the_int64 copy_value) (read_ref the_int64 read_value) (reach_ref the_int64 no_reach)"
  "deep_copy (copy_ref BoolCell the_bool copy_value) (read_ref the_bool read_value) (reach_ref the_bool no_reach)"
  by (rule deep_copy_ref; simp)+

lemma record_copy_value: "execution_record_deep_copy_into = copy_value"
  by (simp add: fun_eq_iff execution_record_deep_copy_into_def copy_value_def)

lemma record_deep_copy [simp]: "deep_copy execution_record_deep_copy_into read_value no_reach"
  by (simp only: record_copy_value deep_copy_value)

lemma records_deep_copy [simp]:
  "deep_copy (copy_ref RecordsCell the_records (copy_elems execution_record_deep_copy_into))
     (read_ref the_records (\<lambda>h. map (read_value h))) (reach_ref the_records (reach_elems no_reach))"
  by (intro deep_copy_ref deep_copy_elems record_deep_copy) simp

lemma lawful_text: "lawful_externals X \<Longrightarrow> deep_copy (ex_copy X) (ex_text X) (ex_reach X)"
  and lawful_meta: "lawful_externals X \<Longrightarrow> deep_copy (ex_copy X) (ex_meta X) (ex_reach X)"
  by (simp_all add: lawful_externals_def)

lemma foreigns_deep_copy:
  "lawful_externals X \<Longrightarrow> deep_copy (copy_foreigns X) (read_texts X) (reach_ref the_foreigns (reach_elems (ex_reach X)))"
  unfolding copy_foreigns_def by (intro deep_copy_ref deep_copy_elems lawful_text) simp_all

lemma task_spec_copies:
  assumes X: "lawful_externals X"
  shows "deep_copy (task_spec_deep_copy_into X) (read_task_spec X) (reach_task_spec X)"
proof -
  note fields = deep_copy_pair [OF plain_refs(1) deep_copy_pair [OF strings_deep_copy deep_copy_pair [OF strings_deep_copy
    deep_copy_pair [OF lawful_text [OF X] deep_copy_pair [OF foreigns_deep_copy [OF X]
    deep_copy_pair [OF plain_refs(2) deep_copy_pair [OF plain_refs(3) deep_copy_pair [OF plain_refs(2) plain_refs(4)]]]]]]]]
  show ?thesis
    by (rule deep_copy_struct [OF fields, where
          proj = "\<lambda>s. (tso_delay s, tso_command s, tso_args s, tso_resources s, tso_env s, tso_backoff_limit s,
            tso_active_deadline_seconds s, tso_ttl_seconds_after_finished s, tso_suspend s)" and
          emb = "\<lambda>s (d, c, a, r, e, b, dl, ttl, su). s\<lparr>tso_delay := d, tso_command := c, tso_args := a,
            tso_resources := r, tso_env := e, tso_backoff_limit := b, tso_active_deadline_seconds := dl,
            tso_ttl_seconds_after_finished := ttl, tso_suspend := su\<rparr>" and
          R = "\<lambda>s (d, c, a, r, e, b, dl, ttl, su). \<lparr>ts_type = tso_type s, ts_schedule = tso_schedule s,
            ts_delay = d, ts_image = tso_image s, ts_command = list_of c, ts_args = list_of a,
            ts_resources = r, ts_env = ex_array X e, ts_backoff_limit = b, ts_active_deadline_seconds = dl,
            ts_ttl_seconds_after_finished = ttl, ts_concurrency_policy = tso_concurrency_policy s,
            ts_suspend = su, ts_cluster_name = tso_cluster_name s\<rparr>"])
      (auto simp: task_spec_deep_copy_into_def copy_pair_def read_task_spec_def read_pair_def
        reach_task_spec_def reach_pair_def split: prod.splits)
qed

lemma task_status_copies:
  assumes X: "lawful_externals X"
  shows "deep_copy (task_status_deep_copy_into X) (read_task_status X) (reach_task_status X)"
proof -
  note fields = deep_copy_pair [OF time_deep_copy deep_copy_pair [OF time_deep_copy deep_copy_pair [OF time_deep_copy
    deep_copy_pair [OF records_deep_copy deep_copy_pair [OF strings_deep_copy foreigns_deep_copy [OF X]]]]]]
  show ?thesis
    by (rule deep_copy_struct [OF fields, where
          proj = "\<lambda>s. (sto_last_schedule_time s, sto_last_start_time s, sto_last_completion_time s,
            sto_execution_history s, sto_active_jobs s, sto_conditions s)" and
          emb = "\<lambda>s (a, b, c, e, j, cs). s\<lparr>sto_last_schedule_time := a, sto_last_start_time := b,
            sto_last_completion_time := c, sto_execution_history := e, sto_active_jobs := j, sto_conditions := cs\<rparr>" and
          R = "\<lambda>s (a, b, c, e, j, cs). (\<lparr>st_phase = sto_phase s, st_message = sto_message s,
            st_last_schedule_time = a, st_last_start_time = b, st_last_completion_time = c,
            st_execution_history = list_of e, st_active_jobs = list_of j,
            st_failed = sto_failed s, st_succeeded = sto_succeeded s\<rparr>, list_of cs)"])
      (auto simp: task_status_deep_copy_into_def copy_pair_def read_task_status_def read_pair_def
        reach_task_status_def reach_pair_def split: prod.splits)
qed

lemma task_copies:
  assumes X: "lawful_externals X"
  shows "deep_copy (task_deep_copy_into X) (read_task X) (reach_task X)"
proof -
  note fields = deep_copy_pair [OF lawful_meta [OF X] deep_copy_pair [OF task_spec_copies [OF X] task_status_copies [OF X]]]
  show ?thesis
    by (rule deep_copy_struct [OF fields, where
          proj = "\<lambda>t. (tko_meta t, tko_spec t, tko_status t)" and
          emb = "\<lambda>t (m, s, u). t\<lparr>tko_meta := m, tko_spec := s, tko_status := u\<rparr>" and
          R = "\<lambda>t (m, s, u). (\<lparr>tk_api_version = fst (tko_type_meta t), tk_kind = snd (tko_type_meta t),
            tk_meta = m, tk_spec = s, tk_status = fst u\<rparr>, snd u)"])
      (auto simp: task_deep_copy_into_def copy_pair_def read_task_def read_pair_def
        reach_task_def reach_pair_def split: prod.splits)
qed

lemma tasks_copies:
  "lawful_externals X \<Longrightarrow>
   deep_copy (copy_ref TasksCell the_tasks (copy_elems (task_deep_copy_into X)))
     (read_ref the_tasks (\<lambda>h. map (read_task X h))) (reach_ref the_tasks (reach_elems (reach_task X)))"
  by (intro deep_copy_ref deep_copy_elems task_copies) simp_all

lemma task_list_copies:
  assumes X: "lawful_externals X"
  shows "deep_copy (task_list_deep_copy_into X) (read_task_list X) (reach_task_list X)"
  by (rule deep_copy_struct [OF deep_copy_pair [OF lawful_text [OF X] tasks_copies [OF X]], where
        proj = "\<lambda>l. (lso_meta l, lso_items l)" and emb = "\<lambda>l (m, i). l\<lparr>lso_meta := m, lso_items := i\<rparr>" and
        R = "\<lambda>l (m, i). (lso_type_meta l, m, list_of i)"])
    (auto simp: task_list_deep_copy_into_def copy_pair_def read_task_list_def read_pair_def
      reach_task_list_def reach_pair_def split: prod.splits)

lemma task_spec_ref_copies:
  "lawful_externals X \<Longrightarrow> deep_copy (task_spec_deep_copy X) (read_ref the_task_spec (read_task_spec X))
     (reach_ref the_task_spec (reach_task_spec X))"
  unfolding task_spec_deep_copy_def by (intro deep_copy_ref task_spec_copies) simp_all

lemma copied_variable_copies:
  assumes X: "lawful_externals X"
  shows "deep_copy (copied_variable X) (read_task_spec X) (reach_task_spec X)"
proof unfold_locales
  fix x y :: "'a task_spec_obj" and h h'
  assume c: "copied_variable X x h = (y, h')" and r: "reach_task_spec X h x \<subseteq> {..<my_next h}"
  note D = task_spec_copies [OF X]
  obtain a h1 where a: "alloc (TaskSpecCell x) h = (a, h1)" by (cases "alloc (TaskSpecCell x) h")
  then have a': "my_cells h1 a = TaskSpecCell x" by (auto simp: alloc_def)
  have e: "extends h h1" by (rule extends_alloc [OF a])
  obtain z h2 where z: "task_spec_deep_copy_into X x h1 = (z, h2)" by (cases "task_spec_deep_copy_into X x h1")
  have e': "extends h1 h2" by (rule deep_copy.copy_extends_later [OF D e r z])
  obtain b h3 where b: "alloc (TaskSpecCell z) h2 = (b, h3)" by (cases "alloc (TaskSpecCell z) h2")
  then have b': "my_cells h3 b = TaskSpecCell z" by (auto simp: alloc_def)
  have e'': "extends h2 h3" by (rule extends_alloc [OF b])
  from c have y: "y = z" "h' = h3"
    by (auto simp: copied_variable_def task_spec_deep_copy_def copy_ref_def a a' z b b')
  show "extends h h'" unfolding y by (rule extends_trans [OF e extends_trans [OF e' e'']])
  from deep_copy.copy_between [OF D e r z e'']
  show "read_task_spec X h' y = read_task_spec X h x"
    "reach_task_spec X h' y \<subseteq> {my_next h..<my_next h'}" unfolding y .
next
  fix h h' :: "'a memory" and x
  assume a: "agree (reach_task_spec X h x) h h'"
  show "read_task_spec X h' x = read_task_spec X h x" "reach_task_spec X h' x = reach_task_spec X h x"
    by (rule deep_copy.frame_read [OF task_spec_copies [OF X] a]
        deep_copy.frame_reach [OF task_spec_copies [OF X] a])+
qed

lemma copy_template_copies:
  assumes X: "lawful_externals X"
  shows "deep_copy (copy_template X) (read_entry X) (reach_entry X)"
  by (rule deep_copy_struct [OF copied_variable_copies [OF X], where proj = snd and
        emb = "\<lambda>e v. (fst e, v)" and R = "\<lambda>e v. (fst e, v)"])
    (auto simp: copy_template_def read_entry_def reach_entry_def split: prod.splits)

lemma workflow_task_copies:
  assumes X: "lawful_externals X"
  shows "deep_copy (workflow_task_deep_copy_into X) (read_workflow_task X) (reach_workflow_task X)"
  by (rule deep_copy_struct [OF deep_copy_pair [OF strings_deep_copy task_spec_ref_copies [OF X]], where
        proj = "\<lambda>t. (wto_depends_on t, wto_task_spec t)" and
        emb = "\<lambda>t (d, s). t\<lparr>wto_depends_on := d, wto_task_spec := s\<rparr>" and
        R = "\<lambda>t (d, s). \<lparr>wt_name = wto_name t, wt_depends_on = list_of d, wt_template = wto_template t,
          wt_task_spec = s, wt_run_on_failure = wto_run_on_failure t\<rparr>"])
    (auto simp: workflow_task_deep_copy_into_def task_spec_deep_copy_def copy_pair_def read_workflow_task_def
      read_pair_def reach_workflow_task_def reach_pair_def split: prod.splits)

lemma workflow_tasks_copies:
  "lawful_externals X \<Longrightarrow>
   deep_copy (copy_ref WorkflowTasksCell the_workflow_tasks (copy_elems (workflow_task_deep_copy_into X)))
     (read_ref the_workflow_tasks (\<lambda>h. map (read_workflow_task X h)))
     (reach_ref the_workflow_tasks (reach_elems (reach_workflow_task X)))"
  by (intro deep_copy_ref deep_copy_elems workflow_task_copies) simp_all

lemma templates_copies:
  "lawful_externals X \<Longrightarrow>
   deep_copy (copy_ref TemplatesCell the_templates (copy_elems (copy_template X)))
     (read_ref the_templates (\<lambda>h. map (read_entry X h))) (reach_ref the_templates (reach_elems (reach_entry X)))"
  by (intro deep_copy_ref deep_copy_elems copy_template_copies) simp_all

lemma workflow_spec_copies:
  assumes X: "lawful_externals X"
  shows "deep_copy (workflow_spec_deep_copy_into X) (read_workflow_spec X) (reach_workflow_spec X)"
  by (rule deep_copy_struct [OF deep_copy_pair [OF workflow_tasks_copies [OF X] templates_copies [OF X]], where
        proj = "\<lambda>s. (wso_tasks s, wso_task_templates s)" and
        emb = "\<lambda>s (t, m). s\<lparr>wso_tasks := t, wso_task_templates := m\<rparr>" and
        R = "\<lambda>s (t, m). \<lparr>wsp_max_parallel = wso_max_parallel s, wsp_tasks = list_of t,
          wsp_task_templates = list_of m\<rparr>"])
    (auto simp: workflow_spec_deep_copy_into_def copy_pair_def read_workflow_spec_def read_pair_def
      reach_workflow_spec_def reach_pair_def split: prod.splits)

lemma node_status_copies: "deep_copy node_status_deep_copy_into read_node_status reach_node_status"
  by (rule deep_copy_struct [OF deep_copy_pair [OF time_deep_copy time_deep_copy], where
        proj = "\<lambda>n. (wno_start_time n, wno_completion_time n)" and
        emb = "\<lambda>n (a, b). n\<lparr>wno_start_time := a, wno_completion_time := b\<rparr>" and
        R = "\<lambda>n (a, b). \<lparr>wn_name = wno_name n, wn_phase = wno_phase n, wn_task_name = wno_task_name n,
          wn_start_time = a, wn_completion_time = b, wn_message = wno_message n\<rparr>"])
    (auto simp: node_status_deep_copy_into_def copy_pair_def read_node_status_def read_pair_def
      reach_node_status_def reach_pair_def split: prod.splits)

text \<open>The contract holds of the generated copies that need nothing of Kubernetes as they stand.\<close>

interpretation node_copy: deep_copy node_status_deep_copy_into read_node_status reach_node_status
  by (rule node_status_copies)

interpretation record_copy: deep_copy execution_record_deep_copy_into read_value no_reach
  by (rule record_deep_copy)

interpretation strings_copy: deep_copy copy_strings read_strings "reach_ref the_strings no_reach"
  by (rule strings_deep_copy)

lemma nodes_copies:
  "deep_copy (copy_ref NodesCell the_nodes (copy_elems node_status_deep_copy_into))
     (read_ref the_nodes (\<lambda>h. map (read_node_status h))) (reach_ref the_nodes (reach_elems reach_node_status))"
  by (intro deep_copy_ref deep_copy_elems node_status_copies) simp_all

lemma workflow_status_copies:
  assumes X: "lawful_externals X"
  shows "deep_copy (workflow_status_deep_copy_into X) (read_workflow_status X) (reach_workflow_status X)"
proof -
  note fields = deep_copy_pair [OF time_deep_copy deep_copy_pair [OF time_deep_copy
    deep_copy_pair [OF foreigns_deep_copy [OF X] nodes_copies]]]
  show ?thesis
    by (rule deep_copy_struct [OF fields, where
          proj = "\<lambda>s. (wsto_start_time s, wsto_completion_time s, wsto_conditions s, wsto_nodes s)" and
          emb = "\<lambda>s (a, b, c, n). s\<lparr>wsto_start_time := a, wsto_completion_time := b,
            wsto_conditions := c, wsto_nodes := n\<rparr>" and
          R = "\<lambda>s (a, b, c, n). (\<lparr>ws_phase = wsto_phase s, ws_message = wsto_message s, ws_start_time = a,
            ws_completion_time = b, ws_observed_generation = wsto_observed_generation s,
            ws_nodes = list_of n\<rparr>, list_of c)"])
      (auto simp: workflow_status_deep_copy_into_def copy_pair_def read_workflow_status_def read_pair_def
        reach_workflow_status_def reach_pair_def split: prod.splits)
qed

lemma workflow_copies:
  assumes X: "lawful_externals X"
  shows "deep_copy (workflow_deep_copy_into X) (read_workflow X) (reach_workflow X)"
proof -
  note fields = deep_copy_pair [OF lawful_meta [OF X]
    deep_copy_pair [OF workflow_spec_copies [OF X] workflow_status_copies [OF X]]]
  show ?thesis
    by (rule deep_copy_struct [OF fields, where
          proj = "\<lambda>w. (wfo_meta w, wfo_spec w, wfo_status w)" and
          emb = "\<lambda>w (m, s, u). w\<lparr>wfo_meta := m, wfo_spec := s, wfo_status := u\<rparr>" and
          R = "\<lambda>w (m, s, u). (\<lparr>wf_api_version = fst (wfo_type_meta w), wf_kind = snd (wfo_type_meta w),
            wf_meta = m, wf_spec = s, wf_status = fst u\<rparr>, snd u)"])
      (auto simp: workflow_deep_copy_into_def copy_pair_def read_workflow_def read_pair_def
        reach_workflow_def reach_pair_def split: prod.splits)
qed

lemma workflows_copies:
  "lawful_externals X \<Longrightarrow>
   deep_copy (copy_ref WorkflowsCell the_workflows (copy_elems (workflow_deep_copy_into X)))
     (read_ref the_workflows (\<lambda>h. map (read_workflow X h))) (reach_ref the_workflows (reach_elems (reach_workflow X)))"
  by (intro deep_copy_ref deep_copy_elems workflow_copies) simp_all

lemma workflow_list_copies:
  assumes X: "lawful_externals X"
  shows "deep_copy (workflow_list_deep_copy_into X) (read_workflow_list X) (reach_workflow_list X)"
  by (rule deep_copy_struct [OF deep_copy_pair [OF lawful_text [OF X] workflows_copies [OF X]], where
        proj = "\<lambda>l. (lso_meta l, lso_items l)" and emb = "\<lambda>l (m, i). l\<lparr>lso_meta := m, lso_items := i\<rparr>" and
        R = "\<lambda>l (m, i). (lso_type_meta l, m, list_of i)"])
    (auto simp: workflow_list_deep_copy_into_def copy_pair_def read_workflow_list_def read_pair_def
      reach_workflow_list_def reach_pair_def split: prod.splits)

section \<open>Copies are values\<close>

text \<open>
  A copy of what \<open>p\<close> points to, everything it can reach being allocated: nil exactly for nil, the
  same value, no old cell written; whatever is written later to the copy leaves the original as it
  was, and whatever is written to anything older leaves the copy as it is.
\<close>

definition isolated_copy ::
  "(addr option \<Rightarrow> 'f memory \<Rightarrow> addr option \<times> 'f memory) \<Rightarrow> ('f memory \<Rightarrow> addr option \<Rightarrow> 'v) \<Rightarrow>
   ('f memory \<Rightarrow> addr option \<Rightarrow> addr set) \<Rightarrow> addr option \<Rightarrow> 'f memory \<Rightarrow> bool" where
  "isolated_copy copy read reach p h \<longleftrightarrow>
     (reach h p \<subseteq> {..<my_next h} \<longrightarrow>
      (case copy p h of (q, h1) \<Rightarrow>
         (q = None \<longleftrightarrow> p = None) \<and> read h1 q = read h p \<and> extends h h1 \<and>
         (\<forall>h2. agree {..<my_next h} h1 h2 \<longrightarrow> read h2 p = read h p) \<and>
         (\<forall>h2. agree {my_next h..} h1 h2 \<longrightarrow> read h2 q = read h p)))"

lemma copy_ref_nil: "copy_ref wrap unwrap copy p h = (q, h1) \<Longrightarrow> q = None \<longleftrightarrow> p = None"
  by (auto simp: copy_ref_def split: option.splits prod.splits)

lemma isolated_ref:
  assumes "deep_copy copy read reach" "\<And>x. unwrap (wrap x) = x"
  shows "isolated_copy (copy_ref wrap unwrap copy) (read_ref unwrap read) (reach_ref unwrap reach) p h"
proof -
  have D: "deep_copy (copy_ref wrap unwrap copy) (read_ref unwrap read) (reach_ref unwrap reach)"
    by (rule deep_copy_ref [OF assms])
  obtain q h1 where c: "copy_ref wrap unwrap copy p h = (q, h1)" by (cases "copy_ref wrap unwrap copy p h")
  show ?thesis
    unfolding isolated_copy_def c prod.case
    using copy_ref_nil [OF c] deep_copy.copy_extends [OF D c] deep_copy.copy_reads [OF D c]
      deep_copy.copy_independent [OF D c] by blast
qed

lemma deep_copy_object_same: "deep_copy_object copy = copy"
  by (simp add: fun_eq_iff deep_copy_object_def split: prod.splits option.splits)

text \<open>
  C22. The generated deep copies of all types of the API implement copying by value. For each of
  them, on a valid object, the copy reads back as the same value; writing to the copy afterwards, in
  any way, does not change the original, and writing to the original or anything else that is older
  does not change the copy. The Kubernetes structs inside are assumed to be copied deeply themselves.
\<close>

theorem deep_copies_isolated:
  assumes "lawful_externals X"
  shows "isolated_copy (task_deep_copy_object X) (read_ref the_task (read_task X)) (reach_ref the_task (reach_task X)) p h \<and>
    isolated_copy (task_list_deep_copy_object X) (read_ref the_list (read_task_list X)) (reach_ref the_list (reach_task_list X)) p h \<and>
    isolated_copy (workflow_deep_copy_object X) (read_ref the_workflow (read_workflow X)) (reach_ref the_workflow (reach_workflow X)) p h \<and>
    isolated_copy (workflow_list_deep_copy_object X) (read_ref the_list (read_workflow_list X))
      (reach_ref the_list (reach_workflow_list X)) p h \<and>
    isolated_copy execution_record_deep_copy (read_ref the_record read_value) (reach_ref the_record no_reach) p h \<and>
    isolated_copy (task_spec_deep_copy X) (read_ref the_task_spec (read_task_spec X)) (reach_ref the_task_spec (reach_task_spec X)) p h \<and>
    isolated_copy (task_status_deep_copy X) (read_ref the_task_status (read_task_status X))
      (reach_ref the_task_status (reach_task_status X)) p h \<and>
    isolated_copy (workflow_task_deep_copy X) (read_ref the_workflow_task (read_workflow_task X))
      (reach_ref the_workflow_task (reach_workflow_task X)) p h \<and>
    isolated_copy (workflow_spec_deep_copy X) (read_ref the_workflow_spec (read_workflow_spec X))
      (reach_ref the_workflow_spec (reach_workflow_spec X)) p h \<and>
    isolated_copy node_status_deep_copy (read_ref the_node read_node_status) (reach_ref the_node reach_node_status) p h \<and>
    isolated_copy (workflow_status_deep_copy X) (read_ref the_workflow_status (read_workflow_status X))
      (reach_ref the_workflow_status (reach_workflow_status X)) p h"
  unfolding task_deep_copy_object_def task_list_deep_copy_object_def workflow_deep_copy_object_def
    workflow_list_deep_copy_object_def deep_copy_object_same task_deep_copy_def task_list_deep_copy_def
    workflow_deep_copy_def workflow_list_deep_copy_def execution_record_deep_copy_def task_spec_deep_copy_def
    task_status_deep_copy_def workflow_task_deep_copy_def workflow_spec_deep_copy_def node_status_deep_copy_def
    workflow_status_deep_copy_def
  by (intro conjI isolated_ref task_copies task_list_copies workflow_copies workflow_list_copies
      record_deep_copy task_spec_copies task_status_copies workflow_task_copies workflow_spec_copies
      node_status_copies workflow_status_copies assms) simp_all

section \<open>The spec of a child Task\<close>

definition zero_task_spec :: "'f externals \<Rightarrow> 'f task_spec_obj" where
  "zero_task_spec X =
     \<lparr>tso_type = TaskTypeOther [], tso_schedule = [], tso_delay = None, tso_image = [], tso_command = None,
      tso_args = None, tso_resources = ex_zero X, tso_env = None, tso_backoff_limit = None,
      tso_active_deadline_seconds = None, tso_ttl_seconds_after_finished = None,
      tso_concurrency_policy = ConcurrencyOther [], tso_suspend = None, tso_cluster_name = []\<rparr>"

definition templates_of :: "'f memory \<Rightarrow> workflow_spec_obj \<Rightarrow> (string, 'f task_spec_obj) gomap" where
  "templates_of h s = (case wso_task_templates s of None \<Rightarrow> gm_empty | Some a \<Rightarrow> the_templates (my_cells h a))"

text \<open>\<open>childTaskSpec\<close> on memory: the node as \<open>graph.Task\<close> returns it.\<close>

definition child_task_spec_obj ::
  "'f externals \<Rightarrow> workflow_spec_obj \<Rightarrow> workflow_task_obj option \<Rightarrow> 'f memory \<Rightarrow> 'f task_spec_obj \<times> 'f memory" where
  "child_task_spec_obj X s node h =
     (case node of
        None \<Rightarrow> (zero_task_spec X, h)
      | Some t \<Rightarrow>
          (case (if wto_template t \<noteq> []
                 then copied_variable X (gm_get_or (zero_task_spec X) (templates_of h s) (wto_template t)) h
                 else case wto_task_spec t of
                     Some a \<Rightarrow> (case task_spec_deep_copy X (Some a) h of (q, h) \<Rightarrow> (the_task_spec (my_cells h (the q)), h))
                   | None \<Rightarrow> (zero_task_spec X, h)) of (spec, h) \<Rightarrow>
             (spec\<lparr>tso_type := TaskTypeOneTime, tso_schedule := [], tso_delay := None, tso_suspend := None\<rparr>, h)))"

definition reads_fresh :: "'f externals \<Rightarrow> 'f memory \<Rightarrow> 'f task_spec_obj \<times> 'f memory \<Rightarrow> task_spec \<Rightarrow> bool" where
  "reads_fresh X h r v \<longleftrightarrow> (case r of (s, h1) \<Rightarrow>
     read_task_spec X h1 s = v \<and> extends h h1 \<and> reach_task_spec X h1 s \<subseteq> {my_next h..<my_next h1})"

lemma zero_task_spec_reads:
  assumes "lawful_externals X"
  shows "read_task_spec X h (zero_task_spec X) = empty_task_spec" "reach_task_spec X h (zero_task_spec X) = {}"
  using assms by (simp_all add: zero_task_spec_def read_task_spec_def reach_task_spec_def empty_task_spec_def
      read_ref_def reach_ref_def list_of_def lawful_externals_def)

lemma zero_task_spec_fresh:
  "lawful_externals X \<Longrightarrow> reads_fresh X h (zero_task_spec X, h) empty_task_spec"
  by (simp add: reads_fresh_def zero_task_spec_reads)

lemma copied_variable_reads:
  assumes "lawful_externals X" "reach_task_spec X h s \<subseteq> {..<my_next h}"
  shows "reads_fresh X h (copied_variable X s h) (read_task_spec X h s)"
proof -
  note D = copied_variable_copies [OF assms(1)]
  obtain t h1 where c: "copied_variable X s h = (t, h1)" by (cases "copied_variable X s h")
  from deep_copy.copy_extends [OF D c assms(2)] deep_copy.copy_reads [OF D c assms(2)]
    deep_copy.copy_fresh [OF D c assms(2)] show ?thesis
    by (simp add: reads_fresh_def c)
qed

lemma inline_spec_reads:
  assumes X: "lawful_externals X" and r: "reach_ref the_task_spec (reach_task_spec X) h (Some a) \<subseteq> {..<my_next h}"
  shows "reads_fresh X h (case task_spec_deep_copy X (Some a) h of (q, h) \<Rightarrow> (the_task_spec (my_cells h (the q)), h))
    (read_task_spec X h (the_task_spec (my_cells h a)))"
proof -
  note D = task_spec_ref_copies [OF X]
  obtain q h1 where c: "task_spec_deep_copy X (Some a) h = (q, h1)" by (cases "task_spec_deep_copy X (Some a) h")
  then obtain b where b: "q = Some b"
    using copy_ref_nil [of _ _ _ "Some a" h q h1] unfolding task_spec_deep_copy_def by (cases q) auto
  from deep_copy.copy_extends [OF D c r] deep_copy.copy_reads [OF D c r] deep_copy.copy_fresh [OF D c r] show ?thesis
    by (simp add: reads_fresh_def c b read_ref_def reach_ref_def)
qed

lemma reads_fresh_forced:
  "reads_fresh X h (s, h1) v \<Longrightarrow>
   reads_fresh X h (s\<lparr>tso_type := TaskTypeOneTime, tso_schedule := [], tso_delay := None, tso_suspend := None\<rparr>, h1)
     (v\<lparr>ts_type := TaskTypeOneTime, ts_schedule := [], ts_delay := None, ts_suspend := None\<rparr>)"
  by (auto simp: reads_fresh_def read_task_spec_def reach_task_spec_def read_ref_def reach_ref_def [where p = None])

lemma template_reads:
  "read_task_spec X h (zero_task_spec X) = empty_task_spec \<Longrightarrow>
   read_task_spec X h (gm_get_or (zero_task_spec X) m k) = gm_get_or empty_task_spec (map (read_entry X h) m) k"
  by (induction m) (auto simp: gm_get_or_def gm_get_def read_entry_def split: option.splits)

lemma template_reach:
  "reach_task_spec X h (zero_task_spec X) = {} \<Longrightarrow>
   reach_task_spec X h (gm_get_or (zero_task_spec X) m k) \<subseteq> reach_elems (reach_entry X) h m"
  by (induction m) (auto simp: gm_get_or_def gm_get_def reach_entry_def split: option.splits)

lemma templates_of_reads:
  "map (read_entry X h) (templates_of h s) = wsp_task_templates (read_workflow_spec X h s)"
  "reach_elems (reach_entry X) h (templates_of h s) \<subseteq> reach_workflow_spec X h s"
  by (auto simp: templates_of_def read_workflow_spec_def read_ref_def list_of_def gm_empty_def
      reach_workflow_spec_def reach_ref_def split: option.splits)

text \<open>What the child starts from: a copy of the template or of the inline spec, or the zero spec.\<close>

lemma chosen_spec_reads:
  fixes X :: "'f externals"
  assumes "lawful_externals X" and "reach_workflow_spec X h s \<subseteq> {..<my_next h}"
    and "reach_workflow_task X h t \<subseteq> {..<my_next h}"
  shows "reads_fresh X h
    (if wto_template t \<noteq> []
     then copied_variable X (gm_get_or (zero_task_spec X) (templates_of h s) (wto_template t)) h
     else case wto_task_spec t of
         Some a \<Rightarrow> (case task_spec_deep_copy X (Some a) h of (q, h) \<Rightarrow> (the_task_spec (my_cells h (the q)), h))
       | None \<Rightarrow> (zero_task_spec X, h))
    (if wto_template t \<noteq> []
     then gm_get_or empty_task_spec (wsp_task_templates (read_workflow_spec X h s)) (wto_template t)
     else case read_ref the_task_spec (read_task_spec X) h (wto_task_spec t) of Some s \<Rightarrow> s | None \<Rightarrow> empty_task_spec)"
proof (cases "wto_template t \<noteq> []")
  case True
  note zero = zero_task_spec_reads [OF assms(1)]
  have "reach_task_spec X h (gm_get_or (zero_task_spec X) (templates_of h s) (wto_template t)) \<subseteq> {..<my_next h}"
    using template_reach [OF zero(2)] templates_of_reads(2) assms(2) by blast
  from copied_variable_reads [OF assms(1) this] show ?thesis
    by (simp add: True template_reads [OF zero(1)] templates_of_reads(1))
next
  case False
  show ?thesis
  proof (cases "wto_task_spec t")
    case None
    with False zero_task_spec_fresh [OF assms(1)] show ?thesis by (simp add: read_ref_def)
  next
    case (Some a)
    with assms(3) have "reach_ref the_task_spec (reach_task_spec X) h (Some a) \<subseteq> {..<my_next h}"
      by (simp add: reach_workflow_task_def)
    from inline_spec_reads [OF assms(1) this] False Some show ?thesis
      by (simp add: read_ref_def)
  qed
qed

text \<open>
  Building the spec of a child Task on shared memory implements the value-level function the
  Workflow controller is verified with: on a valid Workflow it gives an object that reads as the
  child spec, with the type forced to OneTime and the scheduling fields cleared, that reaches only
  cells allocated for it, and the Workflow's own spec, templates and inline specs included, reads as
  before, now and after any later write to the child's cells.
\<close>

theorem child_spec_refines_value:
  fixes X :: "'f externals"
  assumes "lawful_externals X"
    and "reach_workflow_spec X h s \<subseteq> {..<my_next h}"
    and "(\<Union>t \<in> set_option node. reach_workflow_task X h t) \<subseteq> {..<my_next h}"
    and "graph_task g n = map_option (read_workflow_task X h) node"
    and "wf_spec wfl = read_workflow_spec X h s"
    and "child_task_spec_obj X s node h = (child, h1)"
  shows "read_task_spec X h1 child = child_task_spec wfl g n \<and>
    reach_task_spec X h1 child \<subseteq> {my_next h..<my_next h1} \<and>
    (\<forall>h2. agree {..<my_next h} h1 h2 \<longrightarrow> read_workflow_spec X h2 s = wf_spec wfl)"
proof -
  have r: "reads_fresh X h (child, h1) (child_task_spec wfl g n)"
  proof (cases node)
    case None
    with assms(4,6) zero_task_spec_fresh [OF assms(1)] show ?thesis
      by (simp add: child_task_spec_obj_def child_task_spec_def)
  next
    case (Some t)
    with assms(3) have "reach_workflow_task X h t \<subseteq> {..<my_next h}" by simp
    from chosen_spec_reads [OF assms(1,2) this, folded assms(5)] obtain r0 v0 where
      r0: "r0 = (if wto_template t \<noteq> []
        then copied_variable X (gm_get_or (zero_task_spec X) (templates_of h s) (wto_template t)) h
        else case wto_task_spec t of
            Some a \<Rightarrow> (case task_spec_deep_copy X (Some a) h of (q, h) \<Rightarrow> (the_task_spec (my_cells h (the q)), h))
          | None \<Rightarrow> (zero_task_spec X, h))"
      and v0: "v0 = (if wto_template t \<noteq> []
        then gm_get_or empty_task_spec (wsp_task_templates (wf_spec wfl)) (wto_template t)
        else case read_ref the_task_spec (read_task_spec X) h (wto_task_spec t) of Some s \<Rightarrow> s | None \<Rightarrow> empty_task_spec)"
      and f: "reads_fresh X h (fst r0, snd r0) v0" by simp
    from reads_fresh_forced [OF f] show ?thesis
      using assms(4,6) Some
      by (auto simp: child_task_spec_obj_def child_task_spec_def Let_def r0 [symmetric] v0
          read_workflow_task_def split: prod.splits)
  qed
  have "read_workflow_spec X h2 s = read_workflow_spec X h s" if "agree {..<my_next h} h1 h2" for h2
  proof -
    have "agree {..<my_next h} h h2" using r that by (auto simp: reads_fresh_def extends_def agree_def)
    from deep_copy.frame_read [OF workflow_spec_copies [OF assms(1)] agree_mono [OF this assms(2)]] show ?thesis .
  qed
  with r assms(5) show ?thesis by (simp add: reads_fresh_def)
qed

section \<open>A memory with a Workflow\<close>

text \<open>
  The embedded structs carry a text and a pointer of their own.  The Workflow at 6 declares a
  node with an inline spec at 3 and one that uses a template with the same command.
\<close>

definition sample_externals :: "(string \<times> addr option) externals" where
  "sample_externals = \<lparr>
     ex_copy = copy_pair copy_value (copy_ref InnerCell the_inner copy_value),
     ex_reach = reach_pair no_reach (reach_ref the_inner no_reach),
     ex_meta = (\<lambda>h x. empty_meta\<lparr>om_name := fst x\<rparr>),
     ex_text = (\<lambda>h x. case read_ref the_inner read_value h (snd x) of None \<Rightarrow> fst x | Some y \<Rightarrow> fst x @ fst y),
     ex_array = (\<lambda>xs. case xs of None \<Rightarrow> [] | Some xs \<Rightarrow> concat xs),
     ex_zero = ([], None)\<rparr>"

lemma sample_externals_lawful: "lawful_externals sample_externals"
proof -
  have D: "deep_copy (ex_copy sample_externals)
      (read_pair read_value (read_ref the_inner read_value)) (ex_reach sample_externals)"
    unfolding sample_externals_def externals.simps by (intro deep_copy_pair deep_copy_value deep_copy_ref) simp
  have m: "ex_meta sample_externals = (\<lambda>h x. (\<lambda>v. empty_meta\<lparr>om_name := fst v\<rparr>)
      (read_pair read_value (read_ref the_inner read_value) h x))"
    by (simp add: sample_externals_def read_pair_def fun_eq_iff)
  have t: "ex_text sample_externals = (\<lambda>h x. (\<lambda>v. case snd v of None \<Rightarrow> fst v | Some y \<Rightarrow> fst v @ fst y)
      (read_pair read_value (read_ref the_inner read_value) h x))"
    by (simp add: sample_externals_def read_pair_def fun_eq_iff split: option.split)
  have "deep_copy (ex_copy sample_externals) (ex_meta sample_externals) (ex_reach sample_externals)"
    unfolding m by (rule deep_copy_read [OF D])
  moreover have "deep_copy (ex_copy sample_externals) (ex_text sample_externals) (ex_reach sample_externals)"
    unfolding t by (rule deep_copy_read [OF D])
  ultimately show ?thesis
    unfolding lawful_externals_def
    by (simp add: sample_externals_def read_ref_def reach_ref_def read_pair_def reach_pair_def)
qed

definition sample_spec_obj :: "(string \<times> addr option) task_spec_obj" where
  "sample_spec_obj = (zero_task_spec sample_externals)\<lparr>tso_image := ''busybox'', tso_suspend := Some 0,
     tso_command := Some 1, tso_resources := (''cpu: '', Some 2)\<rparr>"

definition sample_nodes :: "workflow_task_obj list" where
  "sample_nodes =
     [\<lparr>wto_name = ''a'', wto_depends_on = None, wto_template = [], wto_task_spec = Some 3, wto_run_on_failure = False\<rparr>,
      \<lparr>wto_name = ''b'', wto_depends_on = None, wto_template = ''t'', wto_task_spec = None, wto_run_on_failure = False\<rparr>]"

definition sample_spec_root :: workflow_spec_obj where
  "sample_spec_root = \<lparr>wso_max_parallel = 0, wso_tasks = Some 4, wso_task_templates = Some 5\<rparr>"

definition sample_memory :: "(string \<times> addr option) memory" where
  "sample_memory = \<lparr>my_next = 7, my_cells = (\<lambda>_. BoolCell False)
     (0 := BoolCell True, 1 := StringsCell [''true''], 2 := InnerCell (''2'', None), 3 := TaskSpecCell sample_spec_obj,
      4 := WorkflowTasksCell sample_nodes, 5 := TemplatesCell [(''t'', sample_spec_obj)],
      6 := WorkflowCell \<lparr>wfo_type_meta = ([], []), wfo_meta = (''wf'', None), wfo_spec = sample_spec_root,
        wfo_status = \<lparr>wsto_phase = WorkflowPhaseOther [], wsto_message = [], wsto_start_time = None,
          wsto_completion_time = None, wsto_observed_generation = 0, wsto_conditions = None, wsto_nodes = None\<rparr>\<rparr>)\<rparr>"

lemma sample_spec_reach: "reach_task_spec sample_externals sample_memory sample_spec_obj = {0, 1, 2}"
  by (auto simp: reach_task_spec_def sample_spec_obj_def zero_task_spec_def sample_memory_def
      sample_externals_def reach_ref_def reach_pair_def)

lemma sample_nodes_reach:
  "reach_workflow_task sample_externals sample_memory (sample_nodes ! 0) = {0, 1, 2, 3}"
  "reach_workflow_task sample_externals sample_memory (sample_nodes ! 1) = {}"
proof -
  have "my_cells sample_memory 3 = TaskSpecCell sample_spec_obj" by (simp add: sample_memory_def)
  then show "reach_workflow_task sample_externals sample_memory (sample_nodes ! 0) = {0, 1, 2, 3}"
    by (simp add: reach_workflow_task_def sample_nodes_def reach_ref_def sample_spec_reach insert_commute)
  show "reach_workflow_task sample_externals sample_memory (sample_nodes ! 1) = {}"
    by (simp add: reach_workflow_task_def sample_nodes_def reach_ref_def)
qed

lemma sample_workflow_reach:
  "reach_workflow_spec sample_externals sample_memory sample_spec_root \<subseteq> {..<my_next sample_memory}"
proof -
  have c: "my_cells sample_memory 4 = WorkflowTasksCell [sample_nodes ! 0, sample_nodes ! 1]"
    "my_cells sample_memory 5 = TemplatesCell [(''t'', sample_spec_obj)]" "my_next sample_memory = 7"
    by (simp_all add: sample_memory_def sample_nodes_def)
  show ?thesis
    by (simp add: reach_workflow_spec_def sample_spec_root_def reach_ref_def c reach_entry_def
        sample_nodes_reach sample_spec_reach del: One_nat_def)
qed

theorem deep_copies_isolated_witness:
  "isolated_copy (workflow_deep_copy_object sample_externals) (read_ref the_workflow (read_workflow sample_externals))
     (reach_ref the_workflow (reach_workflow sample_externals)) (Some 6) sample_memory \<and>
   reach_ref the_workflow (reach_workflow sample_externals) sample_memory (Some 6) \<subseteq> {..<my_next sample_memory} \<and>
   fst (workflow_deep_copy_object sample_externals (Some 6) sample_memory) \<noteq> Some 6"
proof -
  have w: "my_cells sample_memory 6 = WorkflowCell \<lparr>wfo_type_meta = ([], []), wfo_meta = (''wf'', None),
      wfo_spec = sample_spec_root, wfo_status = \<lparr>wsto_phase = WorkflowPhaseOther [], wsto_message = [],
        wsto_start_time = None, wsto_completion_time = None, wsto_observed_generation = 0,
        wsto_conditions = None, wsto_nodes = None\<rparr>\<rparr>" and n: "my_next sample_memory = 7"
    by (simp_all add: sample_memory_def)
  have r: "reach_ref the_workflow (reach_workflow sample_externals) sample_memory (Some 6) \<subseteq> {..<my_next sample_memory}"
    using sample_workflow_reach
    by (auto simp: reach_ref_def w reach_workflow_def reach_workflow_status_def n)
      (auto simp: sample_externals_def reach_pair_def reach_ref_def)
  have i: "isolated_copy (workflow_deep_copy_object sample_externals) (read_ref the_workflow (read_workflow sample_externals))
     (reach_ref the_workflow (reach_workflow sample_externals)) (Some 6) sample_memory"
    using deep_copies_isolated [OF sample_externals_lawful, of "Some 6" sample_memory] by blast
  have "fst (workflow_deep_copy_object sample_externals (Some 6) sample_memory) \<noteq> Some 6"
    unfolding workflow_deep_copy_object_def deep_copy_object_same by code_simp
  with r i show ?thesis by blast
qed

theorem child_spec_refines_value_witness:
  "read_task_spec sample_externals (snd (child_task_spec_obj sample_externals sample_spec_root (Some (sample_nodes ! 1)) sample_memory))
     (fst (child_task_spec_obj sample_externals sample_spec_root (Some (sample_nodes ! 1)) sample_memory)) =
   empty_task_spec\<lparr>ts_type := TaskTypeOneTime, ts_image := ''busybox'', ts_command := [''true''], ts_resources := ''cpu: 2''\<rparr>"
proof -
  define g where "g = \<lparr>g_tasks = [(''b'', read_workflow_task sample_externals sample_memory (sample_nodes ! 1))],
    g_deps = gm_empty, g_order = [], g_levels = []\<rparr>"
  define wfl where "wfl = \<lparr>wf_api_version = [], wf_kind = [], wf_meta = empty_meta,
    wf_spec = read_workflow_spec sample_externals sample_memory sample_spec_root, wf_status = empty_workflow_status\<rparr>"
  have node: "(\<Union>t \<in> set_option (Some (sample_nodes ! 1)). reach_workflow_task sample_externals sample_memory t)
      \<subseteq> {..<my_next sample_memory}"
    by (auto simp: reach_workflow_task_def sample_nodes_def reach_ref_def)
  have g: "graph_task g ''b'' = map_option (read_workflow_task sample_externals sample_memory) (Some (sample_nodes ! 1))"
    by (simp add: g_def graph_task_def gm_get_def)
  from child_spec_refines_value [OF sample_externals_lawful sample_workflow_reach node g _ surjective_pairing, of wfl]
  have "read_task_spec sample_externals
     (snd (child_task_spec_obj sample_externals sample_spec_root (Some (sample_nodes ! 1)) sample_memory))
     (fst (child_task_spec_obj sample_externals sample_spec_root (Some (sample_nodes ! 1)) sample_memory)) =
     child_task_spec wfl g ''b''"
    by (simp add: wfl_def)
  also have "\<dots> = empty_task_spec\<lparr>ts_type := TaskTypeOneTime, ts_image := ''busybox'', ts_command := [''true''],
      ts_resources := ''cpu: 2''\<rparr>"
    by (simp add: child_task_spec_def g_def graph_task_def gm_get_def gm_get_or_def read_workflow_task_def
        sample_nodes_def wfl_def read_workflow_spec_def sample_spec_root_def read_ref_def sample_memory_def
        list_of_def read_entry_def read_task_spec_def sample_spec_obj_def zero_task_spec_def empty_task_spec_def
        sample_externals_def Let_def)
  finally show ?thesis .
qed

end
