(* ===== verification/ConfigLoad.thy ===== *)
theory ConfigLoad
  imports Config
begin

text \<open>
  \<open>LoadConfig\<close> of \<open>internal/config/config.go\<close> up to the checks of \<open>Config\<close>: the calls it makes on
  a viper instance (defaults, where the file is looked for, the mapping of environment variables, the
  values of explicit flags), the check of the settings that may be secrets, and decoding.  The library
  is a parameter: what a configured instance reads, looks up and decodes.
\<close>

section \<open>A viper instance\<close>

datatype setting = BoolSetting bool | StringSetting string | IntSetting int | StringsSetting "string list"

datatype config_source =
  ConfigPath string                                 \<comment> \<open>\<open>SetConfigFile\<close>\<close>
| ConfigSearch string string "string list"          \<comment> \<open>name, type and directories\<close>

record viper =
  vi_defaults :: "(string, setting) gomap"
  vi_source :: "config_source option"
  vi_read :: bool                                   \<comment> \<open>\<open>ReadInConfig\<close> has been called\<close>
  vi_env_prefix :: string
  vi_env_replace :: "(char \<times> char) option"
  vi_automatic_env :: bool
  vi_overrides :: "(string, setting) gomap"         \<comment> \<open>\<open>Set\<close>\<close>

definition new_viper :: viper where
  "new_viper = \<lparr>vi_defaults = gm_empty, vi_source = None, vi_read = False, vi_env_prefix = [],
     vi_env_replace = None, vi_automatic_env = False, vi_overrides = gm_empty\<rparr>"

text \<open>
  Reading the file gives \<open>None\<close> for success, \<open>Some None\<close> for \<open>ConfigFileNotFoundError\<close>, or another
  error; \<open>vl_get\<close> is \<open>Get\<close> and \<open>vl_unmarshal\<close> decodes everything into the struct.
\<close>

record viper_library =
  vl_read :: "viper \<Rightarrow> string option option"
  vl_get :: "viper \<Rightarrow> string \<Rightarrow> setting option"
  vl_unmarshal :: "viper \<Rightarrow> string + config"
  vl_file_used :: "viper \<Rightarrow> string"

definition default_settings :: "(string, setting) gomap" where
  "default_settings =
     [(''metrics-bind-address'', StringSetting '':8443''),
      (''health-probe-bind-address'', StringSetting '':8081''),
      (''leader-elect'', BoolSetting True),
      (''metrics-secure'', BoolSetting True),
      (''enable-http2'', BoolSetting False),
      (''log-level'', StringSetting ''info''),
      (''log-format'', StringSetting ''console''),
      (''api-port'', IntSetting 8080),
      (''api-host'', StringSetting ''0.0.0.0''),
      (''web-dir'', StringSetting ''/web/dist''),
      (''auth-enabled'', BoolSetting False),
      (''auth-audience'', StringSetting []),
      (''auth-api-keys-file'', StringSetting []),
      (''tenant-isolation-enabled'', BoolSetting False),
      (''webhook-enabled'', BoolSetting False),
      (''webhook-url'', StringSetting []),
      (''webhook-timeout'', StringSetting ''5s''),
      (''webhook-max-retries'', IntSetting 3),
      (''smtp-enabled'', BoolSetting False),
      (''smtp-address'', StringSetting []),
      (''smtp-tls'', StringSetting ''starttls''),
      (''smtp-username'', StringSetting []),
      (''smtp-password'', StringSetting []),
      (''smtp-from'', StringSetting []),
      (''smtp-to'', StringsSetting []),
      (''smtp-timeout'', StringSetting ''10s''),
      (''smtp-max-retries'', IntSetting 3),
      (''smtp-subject-template'', StringSetting []),
      (''smtp-body-template'', StringSetting []),
      (''database-host'', StringSetting ''localhost''),
      (''database-port'', IntSetting 5432),
      (''database-user'', StringSetting ''kubetask''),
      (''database-password'', StringSetting ''kubetask''),
      (''database-name'', StringSetting ''kubetask''),
      (''database-sslmode'', StringSetting ''disable'')]"

definition source_of :: "string \<Rightarrow> config_source" where
  "source_of config_file =
     (if config_file \<noteq> [] then ConfigPath config_file
      else ConfigSearch ''kubetask'' ''yaml'' [''.'', ''./config''])"

text \<open>
  The flags that were set on the command line, with their values as text; only these two are
  handed on.
\<close>

definition visit_flag :: "string \<times> string \<Rightarrow> viper \<Rightarrow> viper" where
  "visit_flag f v =
     (if fst f = ''auth-enabled'' \<or> fst f = ''auth-audience''
      then v\<lparr>vi_overrides := gm_put (fst f) (StringSetting (snd f)) (vi_overrides v)\<rparr> else v)"

definition secret_keys :: "string list" where
  "secret_keys = [''webhook-url'', ''smtp-username'', ''smtp-password'']"

definition is_string :: "setting option \<Rightarrow> bool" where
  "is_string s = (case s of Some (StringSetting _) \<Rightarrow> True | _ \<Rightarrow> False)"

fun check_strings :: "viper_library \<Rightarrow> viper \<Rightarrow> string list \<Rightarrow> string option" where
  "check_strings L v [] = None"
| "check_strings L v (key # keys) =
     (if is_string (vl_get L v key) then check_strings L v keys else Some (key @ '' must be a string''))"

text \<open>The instance before the file is read, and the one the settings are taken from.\<close>

definition unread_viper :: "string \<Rightarrow> viper" where
  "unread_viper config_file = new_viper\<lparr>vi_defaults := default_settings, vi_source := Some (source_of config_file)\<rparr>"

definition ready_viper :: "string \<Rightarrow> (string \<times> string) list option \<Rightarrow> viper" where
  "ready_viper config_file flags =
     (let v = (unread_viper config_file)\<lparr>vi_read := True, vi_env_prefix := ''KUBETASK'',
                vi_env_replace := Some (CHR ''-'', CHR ''_''), vi_automatic_env := True\<rparr>
      in case flags of None \<Rightarrow> v | Some flags \<Rightarrow> fold visit_flag flags v)"

definition load_config ::
  "viper_library \<Rightarrow> parsers \<Rightarrow> string \<Rightarrow> (string \<times> string) list option \<Rightarrow> string + config" where
  "load_config L P config_file flags =
     (case vl_read L (unread_viper config_file) of
        Some (Some e) \<Rightarrow> Inl (''failed to read config file: '' @ e)
      | _ \<Rightarrow>
          (let v = ready_viper config_file flags in
           case check_strings L v secret_keys of
             Some e \<Rightarrow> Inl e
           | None \<Rightarrow>
               (case vl_unmarshal L v of
                  Inl e \<Rightarrow> Inl (''failed to unmarshal config: '' @ e)
                | Inr cfg \<Rightarrow>
                    (case validate_config P cfg of
                       Inl e \<Rightarrow> Inl e
                     | Inr cfg \<Rightarrow> Inr (cfg\<lparr>cf_config_file := vl_file_used L v\<rparr>)))))"

section \<open>What can come out of it\<close>

definition auth_flag :: "string \<times> string \<Rightarrow> bool" where
  "auth_flag f \<longleftrightarrow> fst f = ''auth-enabled'' \<or> fst f = ''auth-audience''"

definition rule_texts :: "string list" where
  "rule_texts =
     [''webhook-url must be a string'', ''smtp-username must be a string'', ''smtp-password must be a string'',
      ''auth-audience is required when auth-enabled is true'', ''tenant-isolation-enabled requires auth-enabled'',
      ''auth-api-keys-file requires auth-enabled'',
      ''webhook-url must be an HTTP(S) URL with a host and without userinfo or fragment'',
      ''webhook-timeout must be between 1s and 30s'', ''webhook-max-retries must be between 0 and 5'',
      ''smtp-address must contain a host and a port between 1 and 65535'', ''smtp-tls must be starttls or implicit'',
      ''smtp-username and smtp-password must both be set or both be empty, without NUL or line breaks'',
      ''smtp-from must be a bare ASCII email address'', ''smtp-to must contain at least one email address'',
      ''smtp-to must contain bare ASCII email addresses'', ''smtp-timeout must be between 1s and 60s'',
      ''smtp-max-retries must be between 0 and 5'']"

lemma validate_webhook_texts: "validate_webhook P cfg = Inl e \<Longrightarrow> e \<in> set rule_texts"
  by (auto simp: validate_webhook_def Let_def rule_texts_def split: if_splits)

lemma validate_smtp_texts: "validate_smtp P cfg = Inl e \<Longrightarrow> e \<in> set rule_texts"
  by (auto simp: validate_smtp_def Let_def rule_texts_def split: if_splits option.splits)

lemma validate_config_texts: "validate_config P cfg = Inl e \<Longrightarrow> e \<in> set rule_texts"
proof -
  assume a: "validate_config P cfg = Inl e"
  have "e \<in> {''auth-audience is required when auth-enabled is true'', ''tenant-isolation-enabled requires auth-enabled'',
      ''auth-api-keys-file requires auth-enabled''} \<or>
    (\<exists>c. validate_webhook P c = Inl e) \<or> (\<exists>c. validate_smtp P c = Inl e)"
    using a unfolding validate_config_def Let_def by (auto split: if_splits sum.splits)
  moreover have "{''auth-audience is required when auth-enabled is true'',
      ''tenant-isolation-enabled requires auth-enabled'', ''auth-api-keys-file requires auth-enabled''} \<subseteq> set rule_texts"
    unfolding rule_texts_def by simp
  ultimately show ?thesis
    using validate_webhook_texts [of P _ e] validate_smtp_texts [of P _ e] by blast
qed

lemma check_strings_texts:
  "check_strings L v keys = Some e \<Longrightarrow> \<exists>k \<in> set keys. e = k @ '' must be a string''"
  by (induction keys) (auto split: if_splits)

lemma check_strings_culprit:
  "check_strings L v keys = Some e \<Longrightarrow> \<exists>k \<in> set keys. \<not> is_string (vl_get L v k) \<and> e = k @ '' must be a string''"
  by (induction keys) (auto split: if_splits)

lemma check_strings_none: "check_strings L v keys = None \<longleftrightarrow> (\<forall>k \<in> set keys. is_string (vl_get L v k))"
  by (induction keys) auto

lemma config_file_ignored:
  "validate_config P (cfg\<lparr>cf_config_file := f\<rparr>) = map_sum id (\<lambda>c. c\<lparr>cf_config_file := f\<rparr>) (validate_config P cfg)"
proof -
  have w: "validate_webhook P (c\<lparr>cf_config_file := f\<rparr>) = map_sum id (\<lambda>c. c\<lparr>cf_config_file := f\<rparr>) (validate_webhook P c)" for c
    by (simp add: validate_webhook_def Let_def)
  have s: "validate_smtp P (c\<lparr>cf_config_file := f\<rparr>) = map_sum id (\<lambda>c. c\<lparr>cf_config_file := f\<rparr>) (validate_smtp P c)" for c
    by (simp add: validate_smtp_def Let_def split: option.split)
  define c where "c = cfg\<lparr>cf_auth_audience := trim_space (cf_auth_audience cfg)\<rparr>"
  have c: "cfg\<lparr>cf_config_file := f, cf_auth_audience := trim_space (cf_auth_audience cfg)\<rparr> = c\<lparr>cf_config_file := f\<rparr>"
    by (simp add: c_def)
  show ?thesis
    by (simp add: validate_config_def Let_def c c_def [symmetric] w s split: sum.split)
qed

lemma fold_visit: "fold visit_flag flags v = fold visit_flag (filter auth_flag flags) v"
  by (induction flags arbitrary: v) (auto simp: visit_flag_def auth_flag_def)

lemma visited_flags:
  "gm_get (vi_overrides (fold visit_flag fs v)) k =
     (if k \<in> {''auth-enabled'', ''auth-audience''} \<and> map_of (rev fs) k \<noteq> None
      then map_option StringSetting (map_of (rev fs) k) else gm_get (vi_overrides v) k)"
proof (induction fs arbitrary: v)
  case Nil
  show ?case by simp
next
  case (Cons f fs)
  have "gm_get (vi_overrides (visit_flag f v)) k =
      (if k = fst f \<and> k \<in> {''auth-enabled'', ''auth-audience''} then Some (StringSetting (snd f)) else gm_get (vi_overrides v) k)"
    by (auto simp: visit_flag_def gm.get_put)
  moreover have "map_of (rev (f # fs)) k = (case map_of (rev fs) k of None \<Rightarrow> if k = fst f then Some (snd f) else None | x \<Rightarrow> x)"
    by (cases f) (auto simp: map_add_def split: option.split)
  ultimately show ?case unfolding fold_simps o_apply Cons by (auto split: option.splits)
qed

lemma ready_overrides:
  "gm_get (vi_overrides (ready_viper config_file flags)) k =
     (if k \<in> {''auth-enabled'', ''auth-audience''}
      then map_option StringSetting (map_of (rev (case flags of None \<Rightarrow> [] | Some fs \<Rightarrow> fs)) k) else None)"
proof -
  have "gm_get gm_empty k = None" for k :: string by (simp add: gm_empty_def gm_get_def)
  then show ?thesis
    by (cases flags) (auto simp: ready_viper_def Let_def visited_flags unread_viper_def new_viper_def)
qed

text \<open>
  C40. Loading the configuration ends in one of these ways. An error is one of the fixed texts of the
  rules, which contain no setting, or the library's error of reading the file, or its error of
  decoding. Decoding is only tried when the webhook URL, the SMTP username and the SMTP password are
  strings, so that its message cannot quote them; once the file was read, one of them that is not a string
  is the error. A configuration that is returned is the decoded one after the rules, with the name of
  the file, and passes the rules again unchanged. Of the command line exactly auth-enabled and
  auth-audience override the settings, with the value given last.
\<close>

theorem load_config_outcome:
  fixes L :: viper_library and config_file :: string and flags :: "(string \<times> string) list option"
  defines "secret \<equiv> {''webhook-url'', ''smtp-username'', ''smtp-password''}"
  defines "v \<equiv> ready_viper config_file flags"
  shows "(case load_config L P config_file flags of
      Inl e \<Rightarrow> e \<in> set rule_texts \<or>
        (\<exists>x. vl_read L (unread_viper config_file) = Some (Some x) \<and> e = ''failed to read config file: '' @ x) \<or>
        (\<exists>x. vl_unmarshal L v = Inl x \<and> e = ''failed to unmarshal config: '' @ x \<and>
          (\<forall>k \<in> secret. \<exists>text. vl_get L v k = Some (StringSetting text)))
    | Inr cfg \<Rightarrow> validate_config P cfg = Inr cfg \<and>
        (\<forall>k \<in> secret. \<exists>text. vl_get L v k = Some (StringSetting text)) \<and>
        (\<exists>raw c. vl_unmarshal L v = Inr raw \<and> validate_config P raw = Inr c \<and>
          cfg = c\<lparr>cf_config_file := vl_file_used L v\<rparr>)) \<and>
   (\<forall>k \<in> secret. (\<forall>x. vl_read L (unread_viper config_file) \<noteq> Some (Some x)) \<and>
      (\<forall>text. vl_get L v k \<noteq> Some (StringSetting text)) \<longrightarrow>
      (\<exists>k' \<in> secret. (\<forall>text. vl_get L v k' \<noteq> Some (StringSetting text)) \<and>
         load_config L P config_file flags = Inl (k' @ '' must be a string''))) \<and>
   (\<forall>k. gm_get (vi_overrides v) k =
      (if k \<in> {''auth-enabled'', ''auth-audience''}
       then map_option StringSetting (map_of (rev (case flags of None \<Rightarrow> [] | Some fs \<Rightarrow> fs)) k) else None)) \<and>
   load_config L P config_file (Some fs) = load_config L P config_file (Some (filter auth_flag fs))"
proof (intro conjI)
  have secret: "set secret_keys = secret" by (simp add: secret_keys_def secret_def)
  have string: "is_string s \<longleftrightarrow> (\<exists>text. s = Some (StringSetting text))" for s
    by (auto simp: is_string_def split: option.splits setting.splits)
  have checked: "e \<in> set rule_texts" if "check_strings L v secret_keys = Some e" for e
    using check_strings_texts [OF that] by (auto simp: secret_keys_def rule_texts_def)
  have strings: "\<forall>k \<in> secret. \<exists>text. vl_get L v k = Some (StringSetting text)" if "check_strings L v secret_keys = None"
    using that by (simp add: check_strings_none secret string)
  have again: "validate_config P (cfg\<lparr>cf_config_file := f\<rparr>) = Inr (cfg\<lparr>cf_config_file := f\<rparr>)"
    if "validate_config P raw = Inr cfg" for raw cfg f
    using validate_config_facts [OF that] by (simp add: config_file_ignored)
  show "case load_config L P config_file flags of
      Inl e \<Rightarrow> e \<in> set rule_texts \<or>
        (\<exists>x. vl_read L (unread_viper config_file) = Some (Some x) \<and> e = ''failed to read config file: '' @ x) \<or>
        (\<exists>x. vl_unmarshal L v = Inl x \<and> e = ''failed to unmarshal config: '' @ x \<and>
          (\<forall>k \<in> secret. \<exists>text. vl_get L v k = Some (StringSetting text)))
    | Inr cfg \<Rightarrow> validate_config P cfg = Inr cfg \<and>
        (\<forall>k \<in> secret. \<exists>text. vl_get L v k = Some (StringSetting text)) \<and>
        (\<exists>raw c. vl_unmarshal L v = Inr raw \<and> validate_config P raw = Inr c \<and>
          cfg = c\<lparr>cf_config_file := vl_file_used L v\<rparr>)"
    unfolding load_config_def v_def [symmetric] Let_def
    using checked strings again validate_config_texts
    by (auto split: option.split sum.split)
  show "\<forall>k \<in> secret. (\<forall>x. vl_read L (unread_viper config_file) \<noteq> Some (Some x)) \<and>
      (\<forall>text. vl_get L v k \<noteq> Some (StringSetting text)) \<longrightarrow>
      (\<exists>k' \<in> secret. (\<forall>text. vl_get L v k' \<noteq> Some (StringSetting text)) \<and>
         load_config L P config_file flags = Inl (k' @ '' must be a string''))"
  proof (intro ballI impI)
    fix k assume k: "k \<in> secret" "(\<forall>x. vl_read L (unread_viper config_file) \<noteq> Some (Some x)) \<and>
      (\<forall>text. vl_get L v k \<noteq> Some (StringSetting text))"
    then have "check_strings L v secret_keys \<noteq> None" using strings by blast
    then obtain e where e: "check_strings L v secret_keys = Some e" by blast
    then obtain k' where "k' \<in> secret" "\<not> is_string (vl_get L v k')" "e = k' @ '' must be a string''"
      using check_strings_culprit [OF e] secret by blast
    moreover have "load_config L P config_file flags = Inl e"
      using k(2) e unfolding load_config_def v_def [symmetric] Let_def by (auto split: option.split)
    ultimately show "\<exists>k' \<in> secret. (\<forall>text. vl_get L v k' \<noteq> Some (StringSetting text)) \<and>
         load_config L P config_file flags = Inl (k' @ '' must be a string'')"
      using string by blast
  qed
  show "\<forall>k. gm_get (vi_overrides v) k =
      (if k \<in> {''auth-enabled'', ''auth-audience''}
       then map_option StringSetting (map_of (rev (case flags of None \<Rightarrow> [] | Some fs \<Rightarrow> fs)) k) else None)"
    unfolding v_def by (intro allI ready_overrides)
  have "ready_viper config_file (Some fs) = ready_viper config_file (Some (filter auth_flag fs))"
    by (simp add: ready_viper_def Let_def fold_visit [of fs])
  then show "load_config L P config_file (Some fs) = load_config L P config_file (Some (filter auth_flag fs))"
    by (simp only: load_config_def)
qed

text \<open>
  A library that looks settings up in the overrides and then among the defaults, and decodes to one
  configuration with the audience it finds; with a file whose SMTP password is a number the error names
  the key and not the number.
\<close>

definition layered_get :: "viper \<Rightarrow> string \<Rightarrow> setting option" where
  "layered_get v k = (case gm_get (vi_overrides v) k of None \<Rightarrow> gm_get (vi_defaults v) k | s \<Rightarrow> s)"

definition sample_library :: "setting option \<Rightarrow> viper_library" where
  "sample_library pass = \<lparr>vl_read = (\<lambda>v. None),
     vl_get = (\<lambda>v k. if k = ''smtp-password'' then pass else layered_get v k),
     vl_unmarshal = (\<lambda>v. Inr (sample_config\<lparr>cf_auth_audience :=
       (case layered_get v ''auth-audience'' of Some (StringSetting a) \<Rightarrow> a | _ \<Rightarrow> [])\<rparr>)),
     vl_file_used = (\<lambda>v. ''kubetask.yaml'')\<rparr>"

theorem load_config_outcome_witness:
  "load_config (sample_library (Some (IntSetting 12345))) sample_parsers [] None = Inl ''smtp-password must be a string'' \<and>
   load_config (sample_library (Some (StringSetting []))) sample_parsers [] (Some [(''auth-audience'', ''kubetask''), (''api-port'', ''1'')]) =
     Inr (sample_accepted\<lparr>cf_config_file := ''kubetask.yaml''\<rparr>)"
proof
  let ?n = "sample_library (Some (IntSetting 12345))"
  have get: "vl_get ?n (ready_viper [] None) ''smtp-password'' = Some (IntSetting 12345)"
    "vl_get ?n (ready_viper [] None) ''webhook-url'' = Some (StringSetting [])"
    "vl_get ?n (ready_viper [] None) ''smtp-username'' = Some (StringSetting [])"
    by (simp_all add: sample_library_def) code_simp+
  have read: "vl_read ?n v \<noteq> Some (Some x)" for v x by (simp add: sample_library_def)
  show "load_config ?n sample_parsers [] None = Inl ''smtp-password must be a string''"
    using load_config_outcome [where L = ?n and P = sample_parsers and config_file = "[]" and flags = None] get read by auto
  let ?s = "sample_library (Some (StringSetting []))"
  let ?flags = "Some [(''auth-audience'', ''kubetask''), (''api-port'', ''1'')]"
  let ?v = "ready_viper [] ?flags"
  have over: "gm_get (vi_overrides ?v) ''auth-audience'' = Some (StringSetting ''kubetask'')"
    using load_config_outcome [where L = ?s and P = sample_parsers and config_file = "[]" and flags = ?flags] by simp
  have "check_strings ?s ?v secret_keys = None" by code_simp
  moreover have "vl_unmarshal ?s ?v = Inr sample_config"
    using over by (simp add: sample_library_def layered_get_def sample_config_def)
  ultimately show "load_config ?s sample_parsers [] ?flags = Inr (sample_accepted\<lparr>cf_config_file := ''kubetask.yaml''\<rparr>)"
    unfolding load_config_def Let_def by (simp add: validate_sample_config sample_library_def)
qed

end
