(* ===== verification/Startup.thy ===== *)
theory Startup
  imports Handlers Delivery ConfigLoad
begin

text \<open>
  The start of the process: \<open>main\<close> and \<open>runStandalone\<close> of \<open>cmd/main.go\<close>, the router of
  \<open>internal/api/router.go\<close> with the web UI of \<open>internal/api/webui.go\<close>, the registration of the
  controllers and the notification channels, and the logger.  What the libraries answer (whether a
  cluster configuration, a manager or a clientset can be had, what the web root contains) is a
  parameter; the deployment that comes out is the data the running server works with.
\<close>

section \<open>Router and web UI\<close>

datatype answer =
  ApiAnswer response
| JsonAnswer int "(string \<times> string) list"
| TextAnswer int string
| FileAnswer string string string                   \<comment> \<open>root, method and path: the file server's answer\<close>

record 'w router =
  rt_addr :: string
  rt_chain :: "'w middleware"
  rt_handler :: "'w handler"
  rt_web :: "string option"

definition new_router :: "'w handler \<Rightarrow> string \<Rightarrow> 'w middleware \<Rightarrow> 'w router" where
  "new_router handler addr chain = \<lparr>rt_addr = addr, rt_chain = chain, rt_handler = handler, rt_web = None\<rparr>"

text \<open>\<open>stat root\<close> is the error of \<open>os.Stat\<close> on the index page under the root.\<close>

definition mount_web_ui :: "(string \<Rightarrow> string option) \<Rightarrow> string \<Rightarrow> string + string option" where
  "mount_web_ui stat root =
     (if root = [] then Inr None
      else case stat root of
        Some e \<Rightarrow> Inl (''web root '' @ quote root @ '' has no index.html: '' @ e)
      | None \<Rightarrow> Inr (Some root))"

definition serve_web ::
  "(string \<Rightarrow> string option) \<Rightarrow> string \<Rightarrow> 'w router \<Rightarrow> string option \<times> 'w router" where
  "serve_web stat root rt =
     (case mount_web_ui stat root of
        Inl e \<Rightarrow> (Some e, rt)
      | Inr None \<Rightarrow> (None, rt)
      | Inr (Some root) \<Rightarrow> (None, rt\<lparr>rt_web := Some root\<rparr>))"

text \<open>A request that matches no route; without a web UI this is gin's own answer.\<close>

definition no_route :: "string option \<Rightarrow> string \<Rightarrow> string \<Rightarrow> answer" where
  "no_route web method path =
     (case web of
        None \<Rightarrow> TextAnswer 404 ''404 page not found''
      | Some root \<Rightarrow>
          if has_prefix path ''/api/'' then TextAnswer 404 ''404 page not found''
          else if method \<noteq> ''GET'' \<and> method \<noteq> ''HEAD'' then TextAnswer 404 ''404 page not found''
          else FileAnswer root method path)"

text \<open>The route a request matches is part of the request (\<open>rq_full_path\<close>); \<open>path\<close> is the URL's.\<close>

definition router_serve :: "'w router \<Rightarrow> request \<Rightarrow> string \<Rightarrow> 'w \<Rightarrow> answer \<times> 'w" where
  "router_serve rt rq path w =
     (if route_key rq = ''GET /healthz'' then (JsonAnswer 200 [(''status'', ''ok'')], w)
      else if route_key rq \<in> set v1_keys
      then (case serve (rt_chain rt) (rt_handler rt) rq w of (r, w') \<Rightarrow> (ApiAnswer r, w'))
      else (no_route (rt_web rt) (rq_method rq) path, w))"

text \<open>The message for people is Chinese in UTF-8; its bytes are written out.\<close>

definition standalone_message :: string where
  "standalone_message =
     map char_of [232, 175, 183, 229, 133, 136, 232, 191, 158, 230, 142, 165 :: nat] @
     '' Kubernetes '' @
     map char_of [233, 155, 134, 231, 190, 164, 227, 128, 130, 231, 161, 174, 228, 191, 157
       :: nat] @
     '' ~/.kube/config '' @
     map char_of [229, 173, 152, 229, 156, 168, 228, 184, 148, 233, 155, 134, 231, 190, 164, 229,
       143, 175, 232, 190, 190, 227, 128, 130 :: nat]"

definition standalone_serve :: "request \<Rightarrow> answer" where
  "standalone_serve rq =
     (if route_key rq = ''GET /healthz'' then JsonAnswer 200 [(''status'', ''ok'')]
      else JsonAnswer 503 [(''error'', ''no kubernetes cluster available''), (''message'', standalone_message)])"

section \<open>Logger\<close>

text \<open>\<open>parse\<close> is \<open>zapcore.ParseLevel\<close>; an unknown level falls back at start and is refused later.\<close>

record 'l logger =
  lg_level :: 'l
  lg_json :: bool
  lg_time_key :: string
  lg_time_encoder :: string
  lg_level_encoder :: string
  lg_caller_skip :: nat

definition new_logger :: "(string \<Rightarrow> 'l option) \<Rightarrow> 'l \<Rightarrow> config \<Rightarrow> 'l logger" where
  "new_logger parse info_level cfg =
     \<lparr>lg_level = (case parse (cf_log_level cfg) of None \<Rightarrow> info_level | Some l \<Rightarrow> l),
      lg_json = (cf_log_format cfg = ''json''), lg_time_key = ''timestamp'',
      lg_time_encoder = ''ISO8601'', lg_level_encoder = ''Capital'', lg_caller_skip = 1\<rparr>"

definition set_level :: "(string \<Rightarrow> 'l option) \<Rightarrow> string \<Rightarrow> 'l logger \<Rightarrow> bool \<times> 'l logger" where
  "set_level parse level lg =
     (case parse level of None \<Rightarrow> (False, lg) | Some l \<Rightarrow> (True, lg\<lparr>lg_level := l\<rparr>))"

section \<open>Manager, controllers and channels\<close>

record manager_options =
  mo_metrics_address :: string
  mo_metrics_secure :: bool
  mo_metrics_filter :: bool                         \<comment> \<open>authentication and authorization of metrics\<close>
  mo_next_protos :: "string list option"            \<comment> \<open>restricted in the TLS options, when at all\<close>
  mo_probe_address :: string
  mo_leader_election :: bool
  mo_leader_election_id :: string

definition manager_options_of :: "config \<Rightarrow> manager_options" where
  "manager_options_of cfg =
     \<lparr>mo_metrics_address = cf_metrics_addr cfg, mo_metrics_secure = cf_secure_metrics cfg,
      mo_metrics_filter = cf_secure_metrics cfg,
      mo_next_protos = (if \<not> cf_enable_http2 cfg then Some [''http/1.1''] else None),
      mo_probe_address = cf_health_probe_addr cfg, mo_leader_election = cf_enable_leader_election cfg,
      mo_leader_election_id = ''f652f07a.kubetask.io''\<rparr>"

record controller_setup =
  cs_for :: string
  cs_owns :: string
  cs_named :: string

definition task_controller_setup :: controller_setup where
  "task_controller_setup = \<lparr>cs_for = ''Task'', cs_owns = ''Job'', cs_named = ''task''\<rparr>"

definition workflow_controller_setup :: controller_setup where
  "workflow_controller_setup = \<lparr>cs_for = ''Workflow'', cs_owns = ''Task'', cs_named = ''workflow''\<rparr>"

record webhook_options =
  wo_url :: string
  wo_timeout :: duration
  wo_max_retries :: int

record webhook_client =
  wc_url :: string
  wc_timeout :: duration
  wc_follow_redirects :: bool

definition new_webhook :: "webhook_options \<Rightarrow> webhook_client" where
  "new_webhook opts = \<lparr>wc_url = wo_url opts, wc_timeout = wo_timeout opts, wc_follow_redirects = False\<rparr>"

datatype transport = WebhookTransport webhook_client | SmtpTransport smtp_sender

record observer =
  ob_channel :: string
  ob_transport :: transport
  ob_max_retries :: int
  ob_need_leader_election :: bool

definition observer_of :: "string \<Rightarrow> transport \<Rightarrow> int \<Rightarrow> observer" where
  "observer_of channel transport max_retries =
     \<lparr>ob_channel = channel, ob_transport = transport, ob_max_retries = max_retries,
      ob_need_leader_election = True\<rparr>"

text \<open>
  \<open>observer.Start\<close>: nothing runs unless the informer and the handler are there, and the handler is
  removed when the dispatcher has stopped.
\<close>

record 'w informers =
  if_get :: "'w \<Rightarrow> string option \<times> 'w"
  if_add_handler :: "'w \<Rightarrow> string option \<times> 'w"
  if_remove_handler :: "'w \<Rightarrow> string option \<times> 'w"
  if_run :: "'w \<Rightarrow> 'w"

definition observer_start :: "'w informers \<Rightarrow> 'w \<Rightarrow> string option \<times> 'w" where
  "observer_start I w =
     (case if_get I w of
        (Some e, w) \<Rightarrow> (Some (''get notification Job informer: '' @ e), w)
      | (None, w) \<Rightarrow>
          (case if_add_handler I w of
             (Some e, w) \<Rightarrow> (Some (''register notification Job handler: '' @ e), w)
           | (None, w) \<Rightarrow> (None, snd (if_remove_handler I (if_run I w)))))"

section \<open>main\<close>

text \<open>What the libraries answer while the process starts; \<open>None\<close> is the nil error.\<close>

record startup_env =
  sv_rest_config :: "string option"
  sv_new_manager :: "manager_options \<Rightarrow> string option"
  sv_setup_controller :: "controller_setup \<Rightarrow> string option"
  sv_add_runnable :: "observer \<Rightarrow> string option"
  sv_add_healthz :: "string option"
  sv_add_readyz :: "string option"
  sv_clientset :: "string option"
  sv_stat :: "string \<Rightarrow> string option"
  sv_mail :: mail_library

record 'w deployment =
  dp_config :: config
  dp_manager :: manager_options
  dp_controllers :: "controller_setup list"
  dp_observers :: "observer list"
  dp_router :: "'w router"

datatype 'w startup =
  Panicked string
| Exited string                                     \<comment> \<open>\<open>os.Exit(1)\<close> after this message\<close>
| Standalone string
| Running "'w deployment"

definition or_exit :: "string option \<Rightarrow> string \<Rightarrow> 'w startup \<Rightarrow> 'w startup" where
  "or_exit err message k = (case err of Some _ \<Rightarrow> Exited message | None \<Rightarrow> k)"

definition setup_webhook :: "startup_env \<Rightarrow> config \<Rightarrow> string + observer list" where
  "setup_webhook V cfg =
     (if \<not> cf_webhook_enabled cfg then Inr []
      else let ob = observer_of ''webhook'' (WebhookTransport (new_webhook
                \<lparr>wo_url = cf_webhook_url cfg, wo_timeout = cf_webhook_timeout cfg,
                 wo_max_retries = cf_webhook_max_retries cfg\<rparr>)) (cf_webhook_max_retries cfg)
           in case sv_add_runnable V ob of Some e \<Rightarrow> Inl e | None \<Rightarrow> Inr [ob])"

definition setup_smtp :: "startup_env \<Rightarrow> config \<Rightarrow> string + observer list" where
  "setup_smtp V cfg =
     (if \<not> cf_smtp_enabled cfg then Inr []
      else case new_smtp_sender (sv_mail V) (smtp_options_of cfg) of
        Inl e \<Rightarrow> Inl e
      | Inr sender \<Rightarrow>
          (let ob = observer_of ''smtp'' (SmtpTransport sender) (cf_smtp_max_retries cfg)
           in case sv_add_runnable V ob of Some e \<Rightarrow> Inl e | None \<Rightarrow> Inr [ob]))"

definition start_manager ::
  "startup_env \<Rightarrow> config \<Rightarrow> string \<Rightarrow> (config \<Rightarrow> string + 'w middleware) \<Rightarrow> 'w handler \<Rightarrow> 'w startup" where
  "start_manager V cfg addr middlewares handler =
     or_exit (sv_new_manager V (manager_options_of cfg)) ''Failed to create manager'' (
     or_exit (sv_setup_controller V task_controller_setup) ''Failed to setup controller'' (
     or_exit (sv_setup_controller V workflow_controller_setup) ''Failed to create controller'' (
     case setup_webhook V cfg of
       Inl _ \<Rightarrow> Exited ''Failed to setup outbound webhook notifications''
     | Inr webhook \<Rightarrow>
         (case setup_smtp V cfg of
            Inl _ \<Rightarrow> Exited ''Failed to setup email notifications''
          | Inr smtp \<Rightarrow>
              or_exit (sv_add_healthz V) ''Failed to add health check'' (
              or_exit (sv_add_readyz V) ''Failed to add ready check'' (
              or_exit (sv_clientset V) ''Failed to create Kubernetes clientset'' (
              case middlewares cfg of
                Inl _ \<Rightarrow> Exited ''Failed to initialize HTTP API authentication''
              | Inr chain \<Rightarrow>
                  Running \<lparr>dp_config = cfg, dp_manager = manager_options_of cfg,
                    dp_controllers = [task_controller_setup, workflow_controller_setup],
                    dp_observers = webhook @ smtp,
                    dp_router = snd (serve_web (sv_stat V) (cf_web_dir cfg)
                      (new_router handler addr chain))\<rparr>)))))))"

text \<open>
  The client of the cluster (\<open>E\<close>, \<open>M\<close>, \<open>handler\<close>) is only used by a process that runs.
\<close>

definition main_start ::
  "viper_library \<Rightarrow> parsers \<Rightarrow> startup_env \<Rightarrow> 'w auth_env \<Rightarrow> 'w mw_env \<Rightarrow> 'w handler \<Rightarrow>
   string \<Rightarrow> (string \<times> string) list \<Rightarrow> 'w startup" where
  "main_start L P V E M handler config_file flags =
     (case load_config L P config_file (Some flags) of
        Inl e \<Rightarrow> Panicked (''failed to load configuration: '' @ e)
      | Inr cfg \<Rightarrow>
          (let addr = cf_api_host cfg @ '':'' @ show_int (cf_api_port cfg) in
           case sv_rest_config V of
             Some _ \<Rightarrow>
               if cf_auth_enabled cfg
               then Exited ''HTTP authentication requires a Kubernetes configuration''
               else Standalone addr
           | None \<Rightarrow> start_manager V cfg addr (\<lambda>cfg. authentication_middleware cfg E M) handler))"

text \<open>
  \<open>Run\<close> stores the HTTP server in the router, in a goroutine of its own; \<open>Shutdown\<close> reads it.  A server
  that was shut down does not listen again.  The result of \<open>Shutdown\<close> is \<open>None\<close> when there is no server
  yet: it calls a method of a nil pointer, which panics.
\<close>

record http_server =
  hs_addr :: string
  hs_shutdown_timeout :: "duration option"

definition router_run :: "'w router \<Rightarrow> http_server" where
  "router_run rt = \<lparr>hs_addr = rt_addr rt, hs_shutdown_timeout = None\<rparr>"

definition router_shutdown :: "duration \<Rightarrow> http_server option \<Rightarrow> http_server option" where
  "router_shutdown timeout server =
     (case server of None \<Rightarrow> None | Some s \<Rightarrow> Some (s\<lparr>hs_shutdown_timeout := Some timeout\<rparr>))"

text \<open>
  The end of \<open>main\<close>, with what \<open>mgr.Start\<close> returned and the server as \<open>Run\<close> has left it by then.
  \<open>runStandalone\<close> ends only when its server cannot listen any more.
\<close>

datatype process_end = ProcessExit int | ProcessShutDown http_server | ProcessPanic

definition main_finish :: "string option \<Rightarrow> http_server option \<Rightarrow> process_end" where
  "main_finish err server =
     (case err of
        Some _ \<Rightarrow> ProcessExit 1
      | None \<Rightarrow> (case router_shutdown (10 * second) server of
                  None \<Rightarrow> ProcessPanic | Some s \<Rightarrow> ProcessShutDown s))"

definition standalone_finish :: "string option \<Rightarrow> int" where
  "standalone_finish err = (case err of Some _ \<Rightarrow> 1 | None \<Rightarrow> 0)"

text \<open>
  A manager that ends before the goroutine of \<open>Run\<close> was scheduled takes the process down with a panic;
  after it, the server of the configured address is shut down.
\<close>

lemma main_finish_panics: "main_finish err server = ProcessPanic \<longleftrightarrow> err = None \<and> server = None"
  by (auto simp: main_finish_def router_shutdown_def split: option.splits)

lemma main_finish_after_run: "main_finish None (Some (router_run rt)) =
    ProcessShutDown \<lparr>hs_addr = rt_addr rt, hs_shutdown_timeout = Some (10 * second)\<rparr>"
  by (simp add: main_finish_def router_shutdown_def router_run_def)

section \<open>The scheme\<close>

text \<open>
  The types the clients know.  The package \<open>api/v1\<close> puts its types into \<open>SchemeBuilder\<close> when it is
  initialised, file by file; \<open>main\<close> adds them to the scheme after those of client-go and panics when
  one of the two fails.  The scheme and \<open>scheme.Builder\<close> are library code.
\<close>

record 's scheme_library =
  sl_new :: 's
  sl_client_go :: "'s \<Rightarrow> string option \<times> 's"
  sl_add_types :: "string \<times> string \<Rightarrow> string list \<Rightarrow> 's \<Rightarrow> string option \<times> 's"

definition scheme_group_version :: "string \<times> string" where
  "scheme_group_version = (''kubetask.kubetask.io'', ''v1'')"

definition task_types_registered :: "string list \<Rightarrow> string list" where
  "task_types_registered builder = builder @ [''Task'', ''TaskList'']"

definition workflow_types_registered :: "string list \<Rightarrow> string list" where
  "workflow_types_registered builder = builder @ [''Workflow'', ''WorkflowList'']"

definition scheme_types :: "string list" where
  "scheme_types = workflow_types_registered (task_types_registered [])"

definition add_to_scheme :: "'s scheme_library \<Rightarrow> 's \<Rightarrow> string option \<times> 's" where
  "add_to_scheme S sc = sl_add_types S scheme_group_version scheme_types sc"

definition main_init :: "'s scheme_library \<Rightarrow> string + 's" where
  "main_init S =
     (case sl_client_go S (sl_new S) of
        (Some e, _) \<Rightarrow> Inl e
      | (None, sc) \<Rightarrow>
          (case add_to_scheme S sc of (Some e, _) \<Rightarrow> Inl e | (None, sc) \<Rightarrow> Inr sc))"

text \<open>The controllers and the owner references of the model use the group and the kinds registered here.\<close>

lemma scheme_covers_controllers:
  "fst scheme_group_version = api_group"
  "\<forall>cs \<in> {task_controller_setup, workflow_controller_setup}. {cs_for cs, cs_for cs @ ''List''} \<subseteq> set scheme_types"
  by (simp_all add: scheme_group_version_def scheme_types_def task_types_registered_def
      workflow_types_registered_def task_controller_setup_def workflow_controller_setup_def)

section \<open>A process that fails closed\<close>

lemma or_exit_running: "or_exit err m k = Running dp \<longleftrightarrow> err = None \<and> k = Running dp"
  by (cases err) (simp_all add: or_exit_def)

lemma or_exit_standalone: "or_exit err m k = Standalone a \<longleftrightarrow> err = None \<and> k = Standalone a"
  by (cases err) (simp_all add: or_exit_def)

lemma start_manager_not_standalone: "start_manager V cfg addr mws handler \<noteq> Standalone a"
  by (auto simp: start_manager_def or_exit_standalone split: sum.splits)

lemma start_manager_running:
  assumes "start_manager V cfg addr mws handler = Running dp"
  obtains webhook smtp chain where "setup_webhook V cfg = Inr webhook" "setup_smtp V cfg = Inr smtp"
    "mws cfg = Inr chain" "dp_config dp = cfg" "dp_observers dp = webhook @ smtp"
    "dp_router dp = snd (serve_web (sv_stat V) (cf_web_dir cfg) (new_router handler addr chain))"
  using assms unfolding start_manager_def or_exit_running
  by (auto simp: or_exit_running split: sum.splits)

lemma serve_web_router:
  "rt_chain (snd (serve_web stat root rt)) = rt_chain rt" "rt_handler (snd (serve_web stat root rt)) = rt_handler rt"
  by (auto simp: serve_web_def split: sum.splits option.splits)

lemma setup_webhook_observers:
  "setup_webhook V cfg = Inr obs \<Longrightarrow>
   map ob_channel obs = (if cf_webhook_enabled cfg then [''webhook''] else []) \<and>
   list_all (\<lambda>ob. ob_need_leader_election ob \<and> ob_max_retries ob = cf_webhook_max_retries cfg) obs"
  by (auto simp: setup_webhook_def Let_def observer_of_def split: if_splits option.splits)

lemma setup_smtp_observers:
  "setup_smtp V cfg = Inr obs \<Longrightarrow>
   map ob_channel obs = (if cf_smtp_enabled cfg then [''smtp''] else []) \<and>
   list_all (\<lambda>ob. ob_need_leader_election ob \<and> ob_max_retries ob = cf_smtp_max_retries cfg) obs"
  by (auto simp: setup_smtp_def Let_def observer_of_def split: if_splits option.splits sum.splits)

lemma chain_rejects_anonymous:
  assumes "authentication_middleware cfg E M = Inr chain" "cf_auth_enabled cfg"
    "bearer_token (rq_authorization rq) = None"
  shows "serve chain handler rq w =
    (\<lparr>rs_status = 401, rs_www_authenticate = Some ''Bearer'', rs_body = ErrorBody ''Unauthorized''\<rparr>, w)"
proof -
  from assms(1,2) obtain M' k where "chain = (\<lambda>next. authentication M' (k next))"
    unfolding authentication_middleware_def Let_def by (auto split: if_splits sum.splits)
  then show ?thesis
    using assms(3) by (simp add: serve_def authentication_def new_ctx_def reject_authentication_def respond_def
        empty_response_def status_text_def)
qed

lemma load_config_valid: "load_config L P config_file flags = Inr cfg \<Longrightarrow> validate_config P cfg = Inr cfg"
proof -
  assume "load_config L P config_file flags = Inr cfg"
  then obtain raw c where "validate_config P raw = Inr c" "cfg = c\<lparr>cf_config_file := vl_file_used L (ready_viper config_file flags)\<rparr>"
    unfolding load_config_def Let_def by (auto split: option.splits sum.splits)
  then show ?thesis using validate_config_facts by (auto simp: config_file_ignored)
qed

text \<open>Three things a deployment can be checked for.\<close>

definition closed_to_anonymous :: "'w router \<Rightarrow> bool" where
  "closed_to_anonymous rt \<longleftrightarrow>
     (\<forall>rq path w. route_key rq \<in> set v1_keys \<and> bearer_token (rq_authorization rq) = None \<longrightarrow>
        router_serve rt rq path w =
          (ApiAnswer \<lparr>rs_status = 401, rs_www_authenticate = Some ''Bearer'', rs_body = ErrorBody ''Unauthorized''\<rparr>, w))"

definition static_elsewhere :: "string \<Rightarrow> 'w router \<Rightarrow> bool" where
  "static_elsewhere web_dir rt \<longleftrightarrow>
     (\<forall>rq path w. route_key rq \<notin> set v1_keys \<longrightarrow>
        (case router_serve rt rq path w of (a, w') \<Rightarrow>
           w' = w \<and> (\<forall>root m p. a = FileAnswer root m p \<longrightarrow>
             root = web_dir \<and> p = path \<and> \<not> has_prefix path ''/api/'' \<and> m \<in> {''GET'', ''HEAD''})))"

definition channels_as_configured :: "config \<Rightarrow> observer list \<Rightarrow> bool" where
  "channels_as_configured cfg obs \<longleftrightarrow>
     map ob_channel obs = (if cf_webhook_enabled cfg then [''webhook''] else []) @
       (if cf_smtp_enabled cfg then [''smtp''] else []) \<and>
     list_all (\<lambda>ob. ob_need_leader_election ob \<and> 0 \<le> ob_max_retries ob \<and> ob_max_retries ob \<le> 5) obs"

lemma router_static: "rt_web rt = None \<or> rt_web rt = Some web_dir \<Longrightarrow> static_elsewhere web_dir rt"
  by (auto simp: static_elsewhere_def router_serve_def no_route_def split: option.splits)

lemma serve_web_root: "rt_web rt = None \<Longrightarrow> rt_web (snd (serve_web stat root rt)) \<in> {None, Some root}"
  by (auto simp: serve_web_def mount_web_ui_def split: sum.splits option.splits)

lemma channels_set_up:
  assumes "setup_webhook V cfg = Inr webhook" "setup_smtp V cfg = Inr smtp" "validate_config P cfg = Inr cfg"
  shows "channels_as_configured cfg (webhook @ smtp)"
proof -
  from validate_config_facts [OF assms(3)]
  have "cf_webhook_enabled cfg \<Longrightarrow> 0 \<le> cf_webhook_max_retries cfg \<and> cf_webhook_max_retries cfg \<le> 5"
    "cf_smtp_enabled cfg \<Longrightarrow> 0 \<le> cf_smtp_max_retries cfg \<and> cf_smtp_max_retries cfg \<le> 5" by blast+
  with setup_webhook_observers [OF assms(1)] setup_smtp_observers [OF assms(2)] show ?thesis
    by (cases "cf_webhook_enabled cfg"; cases "cf_smtp_enabled cfg")
      (auto simp: channels_as_configured_def list_all_iff)
qed

text \<open>
  C18. The process fails closed. It serves without a cluster only when authentication is off, and a
  cluster is not to be had. When it runs with authentication on, an API request without a bearer
  token gets 401 and touches nothing, whatever the handlers do. Every other request, to the health
  check or to the web files, touches nothing in any case, and a file is only served from the
  configured directory, for a path outside /api/ and a reading method. Tenant isolation is never on
  without authentication. Each notification channel is there exactly when it is enabled, with at most
  five retries, and observes on the leader only.
\<close>

theorem startup_fails_closed:
  fixes M :: "'w mw_env"
  assumes "main_start L P V E M handler config_file flags = r"
  shows "(\<forall>addr. r = Standalone addr \<longrightarrow>
      (\<exists>cfg. load_config L P config_file (Some flags) = Inr cfg \<and> \<not> cf_auth_enabled cfg \<and>
         \<not> cf_tenant_isolation_enabled cfg \<and> sv_rest_config V \<noteq> None)) \<and>
    (\<forall>dp. r = Running dp \<longrightarrow>
      load_config L P config_file (Some flags) = Inr (dp_config dp) \<and>
      (cf_tenant_isolation_enabled (dp_config dp) \<longrightarrow> cf_auth_enabled (dp_config dp)) \<and>
      (cf_auth_enabled (dp_config dp) \<longrightarrow> closed_to_anonymous (dp_router dp)) \<and>
      static_elsewhere (cf_web_dir (dp_config dp)) (dp_router dp) \<and>
      channels_as_configured (dp_config dp) (dp_observers dp))"
proof (cases "load_config L P config_file (Some flags)")
  case (Inl e)
  with assms show ?thesis by (auto simp: main_start_def)
next
  case (Inr cfg)
  note v = load_config_valid [OF Inr]
  have tenant: "cf_tenant_isolation_enabled cfg \<longrightarrow> cf_auth_enabled cfg"
    using validate_config_facts [OF v] by blast
  have running: "(cf_auth_enabled cfg \<longrightarrow> closed_to_anonymous (dp_router dp)) \<and> dp_config dp = cfg \<and>
      static_elsewhere (cf_web_dir cfg) (dp_router dp) \<and> channels_as_configured cfg (dp_observers dp)"
    if "start_manager V cfg addr (\<lambda>cfg. authentication_middleware cfg E M) handler = Running dp" for addr dp
  proof -
    from that obtain webhook smtp chain where s: "setup_webhook V cfg = Inr webhook" "setup_smtp V cfg = Inr smtp"
      "authentication_middleware cfg E M = Inr chain" "dp_config dp = cfg" "dp_observers dp = webhook @ smtp"
      "dp_router dp = snd (serve_web (sv_stat V) (cf_web_dir cfg) (new_router handler addr chain))"
      by (rule start_manager_running)
    have rt: "rt_chain (dp_router dp) = chain" "rt_handler (dp_router dp) = handler"
      "rt_web (dp_router dp) \<in> {None, Some (cf_web_dir cfg)}"
      unfolding s(6) using serve_web_root [of "new_router handler addr chain"]
      by (simp_all add: serve_web_router new_router_def)
    have "cf_auth_enabled cfg \<longrightarrow> closed_to_anonymous (dp_router dp)"
    proof
      assume on: "cf_auth_enabled cfg"
      have api: "\<not> ''GET /healthz'' \<in> set v1_keys" by (simp add: v1_keys_def v1_routes_def)
      show "closed_to_anonymous (dp_router dp)"
        unfolding closed_to_anonymous_def router_serve_def rt
        using api chain_rejects_anonymous [OF s(3) on] by auto
    qed
    moreover have "static_elsewhere (cf_web_dir cfg) (dp_router dp)" using rt(3) by (intro router_static) auto
    ultimately show ?thesis using channels_set_up [OF s(1,2) v] by (simp add: s(4,5))
  qed
  from assms have "r = (case sv_rest_config V of
      Some _ \<Rightarrow> if cf_auth_enabled cfg then Exited ''HTTP authentication requires a Kubernetes configuration''
        else Standalone (cf_api_host cfg @ '':'' @ show_int (cf_api_port cfg))
    | None \<Rightarrow> start_manager V cfg (cf_api_host cfg @ '':'' @ show_int (cf_api_port cfg))
        (\<lambda>cfg. authentication_middleware cfg E M) handler)"
    unfolding main_start_def Inr Let_def sum.case by (rule sym)
  with tenant running Inr show ?thesis
    by (auto simp: start_manager_not_standalone split: option.splits if_splits)
qed

text \<open>A start with both channels, against libraries that answer everything without an error.\<close>

definition sample_library :: viper_library where
  "sample_library = \<lparr>vl_read = (\<lambda>v. Some None), vl_get = (\<lambda>v k. gm_get (vi_defaults v) k),
     vl_unmarshal = (\<lambda>v. Inr sample_config), vl_file_used = (\<lambda>v. [])\<rparr>"

definition sample_startup :: startup_env where
  "sample_startup = \<lparr>sv_rest_config = None, sv_new_manager = (\<lambda>_. None), sv_setup_controller = (\<lambda>_. None),
     sv_add_runnable = (\<lambda>_. None), sv_add_healthz = None, sv_add_readyz = None, sv_clientset = None,
     sv_stat = (\<lambda>_. None),
     sv_mail = \<lparr>ml_parse = (\<lambda>s. Some (\<lambda>e. Some s)), ml_q_encode = id, ml_quoted_printable = Some,
       ml_rfc1123z = (\<lambda>t. []), ml_sha256_hex = id\<rparr>\<rparr>"

lemma sample_loaded: "load_config sample_library sample_parsers [] (Some []) = Inr sample_accepted"
proof -
  have d: "vi_defaults (ready_viper [] (Some [])) = default_settings"
    by (simp add: ready_viper_def unread_viper_def)
  have "list_all (\<lambda>k. is_string (gm_get default_settings k)) secret_keys" by code_simp
  then have c: "check_strings sample_library (ready_viper [] (Some [])) secret_keys = None"
    by (simp add: check_strings_none sample_library_def list_all_iff d)
  have f: "sample_accepted\<lparr>cf_config_file := []\<rparr> = sample_accepted"
    by (simp add: sample_accepted_def sample_config_def)
  have l: "vl_read sample_library v = Some None" "vl_unmarshal sample_library v = Inr sample_config"
    "vl_file_used sample_library v = []" for v
    by (simp_all add: sample_library_def)
  show ?thesis
    unfolding load_config_def c Let_def l option.case sum.case validate_sample_config f ..
qed

definition sample_router :: "string list router" where
  "sample_router = (case main_start sample_library sample_parsers sample_startup sample_auth sample_mw
     (sample_handler 200) [] [] of Running dp \<Rightarrow> dp_router dp | _ \<Rightarrow> new_router (sample_handler 200) [] (\<lambda>h. h))"

lemma sample_running:
  obtains dp where "main_start sample_library sample_parsers sample_startup sample_auth sample_mw
      (sample_handler 200) [] [] = Running dp" "dp_config dp = sample_accepted" "dp_router dp = sample_router"
proof -
  have on: "cf_auth_enabled sample_accepted" "cf_auth_audience sample_accepted = ''kubetask''"
    by (simp_all add: sample_accepted_def sample_config_def)
  obtain chain where chain: "authentication_middleware sample_accepted sample_auth sample_mw = Inr chain"
    by (simp add: authentication_middleware_def new_service_account_authenticator_def new_resource_authorizer_def
        on sample_trim Let_def)
  have add: "sv_add_runnable sample_startup ob = None" "ml_parse (sv_mail sample_startup) t = Some (\<lambda>e. Some t)" for ob t
    by (simp_all add: sample_startup_def)
  have "\<exists>webhook. setup_webhook sample_startup sample_accepted = Inr webhook"
    by (cases "cf_webhook_enabled sample_accepted") (simp_all add: setup_webhook_def Let_def add)
  then obtain webhook where w: "setup_webhook sample_startup sample_accepted = Inr webhook" by blast
  have "\<exists>smtp. setup_smtp sample_startup sample_accepted = Inr smtp"
    by (cases "cf_smtp_enabled sample_accepted") (simp_all add: setup_smtp_def Let_def new_smtp_sender_def add)
  then obtain smtp where m: "setup_smtp sample_startup sample_accepted = Inr smtp" by blast
  have v: "sv_rest_config sample_startup = None" "sv_new_manager sample_startup o1 = None"
    "sv_setup_controller sample_startup o2 = None" "sv_add_healthz sample_startup = None"
    "sv_add_readyz sample_startup = None" "sv_clientset sample_startup = None" for o1 o2
    by (simp_all add: sample_startup_def)
  show thesis
    by (rule that, simp add: main_start_def sample_loaded start_manager_def or_exit_def v w m chain Let_def)
      (simp_all add: sample_router_def main_start_def sample_loaded start_manager_def or_exit_def v w m chain Let_def)
qed

theorem startup_fails_closed_witness:
  "cf_auth_enabled sample_accepted \<and> closed_to_anonymous sample_router \<and>
   static_elsewhere ''/web/dist'' sample_router \<and>
   fst (router_serve sample_router ((sample_request ''DELETE'' ''/api/v1/tasks/:name'')\<lparr>rq_authorization := []\<rparr>) [] []) =
     ApiAnswer \<lparr>rs_status = 401, rs_www_authenticate = Some ''Bearer'', rs_body = ErrorBody ''Unauthorized''\<rparr>"
proof -
  let ?rq = "(sample_request ''DELETE'' ''/api/v1/tasks/:name'')\<lparr>rq_authorization := []\<rparr>"
  obtain dp where dp: "main_start sample_library sample_parsers sample_startup sample_auth sample_mw
      (sample_handler 200) [] [] = Running dp" "dp_config dp = sample_accepted" "dp_router dp = sample_router"
    by (rule sample_running)
  have on: "cf_auth_enabled sample_accepted" "cf_web_dir sample_accepted = ''/web/dist''"
    by (simp_all add: sample_accepted_def sample_config_def)
  from startup_fails_closed [OF dp(1)] dp(2,3) on
  have closed: "closed_to_anonymous sample_router" "static_elsewhere ''/web/dist'' sample_router"
    by simp_all
  have rq: "route_key ?rq \<in> set v1_keys" "bearer_token (rq_authorization ?rq) = None"
    by (simp_all add: sample_request_def route_key_def v1_keys_def v1_routes_def bearer_token_def)
  from closed(1) rq have "router_serve sample_router ?rq [] [] =
      (ApiAnswer \<lparr>rs_status = 401, rs_www_authenticate = Some ''Bearer'', rs_body = ErrorBody ''Unauthorized''\<rparr>, [])"
    unfolding closed_to_anonymous_def by blast
  with closed on(1) show ?thesis by simp
qed

end
