(* ===== verification/Composition.thy ===== *)
theory Composition
  imports WorkflowSpec TaskRuns Handlers NotifyEvent
begin

text \<open>
  How the components work together, across the objects they leave in the cluster for each other:
  what the API accepts the Workflow controller schedules, what the Workflow controller creates the
  Task controller starts, and what the Task controller starts the notification observer attributes
  to its Task, Workflow and node when it fails.
\<close>

section \<open>From the API to the Workflow controller\<close>

lemma validate_workflow_spec_iff:
  "name \<noteq> [] \<Longrightarrow> validate_workflow_spec name spec = None \<longleftrightarrow>
     (\<exists>g. build spec = Inr g \<and> validate_child_task_names name g = None)"
  by (auto simp: validate_workflow_spec_def split: sum.splits)

lemma accepted_is_scheduled:
  assumes "validate_workflow_spec (wf_name wfl) (wf_spec wfl) = None" "wf_name wfl \<noteq> []"
    and "build (wf_spec wfl) = Inr g"
  shows "reconcile_spec E wfl v = reconcile_graph E wfl g v"
    "n \<in> set (graph_order g) \<Longrightarrow> length (child_task_name (wf_name wfl) n) \<le> MaxTaskNameLength"
  using assms validate_child_task_names_iff [of "wf_name wfl" g]
  by (auto simp: validate_workflow_spec_iff reconcile_spec_def)

section \<open>From the Workflow controller to the Task controller\<close>

text \<open>
  The child Task of a node as the server keeps it: \<open>createChildTask\<close> sets name, labels, owner and
  spec; the server and the Task controller add the rest.
\<close>

definition stored_child :: "'w wf_env \<Rightarrow> workflow \<Rightarrow> graph \<Rightarrow> string \<Rightarrow> task \<Rightarrow> bool" where
  "stored_child E wfl g n t \<longleftrightarrow>
     (case k_set_controller_reference (we_kube E) (wf_meta wfl) (tk_meta (new_child_task wfl g n)) of
        Inl _ \<Rightarrow> False
      | Inr m \<Rightarrow> om_name (tk_meta t) = om_name m \<and> om_labels (tk_meta t) = om_labels m \<and>
          om_owner_references (tk_meta t) = om_owner_references m \<and> tk_spec t = tk_spec (new_child_task wfl g n))"

lemma child_labels:
  "gm_get (om_labels (tk_meta (new_child_task wfl g n))) workflow_node_label = Some n"
  "meta_namespace (tk_meta (new_child_task wfl g n)) = meta_namespace (wf_meta wfl)"
proof -
  let ?m = "empty_meta\<lparr>om_name := child_task_name (wf_name wfl) n,
    om_labels := gm_put workflow_node_label n (gm_put workflow_label (wf_name wfl) gm_empty)\<rparr>"
  have ok: "gm_ok (om_labels ?m)" by (simp add: gm.ok_put gm.ok_emp)
  show "meta_namespace (tk_meta (new_child_task wfl g n)) = meta_namespace (wf_meta wfl)"
    unfolding new_child_task_def task.simps by (rule meta_namespace_set_namespace [OF ok])
  have "gm_get (om_labels (set_namespace ?m (meta_namespace (wf_meta wfl)))) workflow_node_label =
      gm_get (om_labels ?m) workflow_node_label"
    by (rule set_namespace_other [OF ok]) simp
  then show "gm_get (om_labels (tk_meta (new_child_task wfl g n))) workflow_node_label = Some n"
    by (simp add: new_child_task_def gm.get_put)
qed

lemma stored_child_facts:
  assumes "stored_child E wfl g n t" "reference_only (we_kube E)"
  shows "tk_name t = child_task_name (wf_name wfl) n" "tk_spec t = child_task_spec wfl g n"
    "gm_get (om_labels (tk_meta t)) workflow_node_label = Some n"
    "job_namespace t = (if meta_namespace (wf_meta wfl) = [] then namespace_default else meta_namespace (wf_meta wfl))"
proof -
  let ?new = "new_child_task wfl g n"
  from assms(1) obtain m where m: "k_set_controller_reference (we_kube E) (wf_meta wfl) (tk_meta ?new) = Inr m"
    and t: "om_name (tk_meta t) = om_name m" "om_labels (tk_meta t) = om_labels m" "tk_spec t = tk_spec ?new"
    by (auto simp: stored_child_def split: sum.splits)
  from assms(2) m have r: "om_name m = om_name (tk_meta ?new)" "om_labels m = om_labels (tk_meta ?new)"
    unfolding reference_only_def by blast+
  show "tk_name t = child_task_name (wf_name wfl) n" "tk_spec t = child_task_spec wfl g n"
    by (simp_all add: t r new_child_task_def set_namespace_def Let_def)
  show "gm_get (om_labels (tk_meta t)) workflow_node_label = Some n"
    unfolding t(2) r(2) by (rule child_labels)
  show "job_namespace t = (if meta_namespace (wf_meta wfl) = [] then namespace_default else meta_namespace (wf_meta wfl))"
    using child_labels(2) [of wfl g n] by (simp add: job_namespace_def Let_def t(2) r(2) meta_namespace_def)
qed

lemma child_spec_of_node:
  assumes "graph_task g n \<noteq> None"
  shows "ts_type (child_task_spec wfl g n) = TaskTypeOneTime" "ts_suspend (child_task_spec wfl g n) = None"
  using assms by (auto simp: child_task_spec_def Let_def)

text \<open>
  C19. What the API accepts, the controllers run. A Workflow with a name that passed the check of the
  Create endpoint is never failed by the Workflow controller's own check, but goes on to scheduling;
  and the child Task the controller creates for any of its nodes is one the Task controller starts:
  on its first pass, with no Job there yet, it creates a Job, in the tenant Namespace of the
  Workflow, and never fails or ignores the Task for its name, type or suspension.
\<close>

theorem accepted_nodes_start:
  assumes "validate_workflow_spec (wf_name wfl) (wf_spec wfl) = None" and "wf_name wfl \<noteq> []"
    and "build (wf_spec wfl) = Inr g" and "n \<in> set (graph_order g)"
    and "reference_only (we_kube E)" and "reference_only (te_kube F)"
    and "stored_child E wfl g n t" and "tk_status t = empty_task_status"
    and "is_zero_time (om_deletion_timestamp (tk_meta t))"
    and "k_contains_finalizer (te_kube F) (tk_meta t) task_finalizer"
    and "k_get_task (te_kube F) (child_task_name (wf_name wfl) n) w = (Inr t, w1)"
    and "list_task_jobs (te_kube F) t w1 = (Inr [], w2)" and "construct_job F t = Inr j"
  shows "reconcile_spec E wfl v = reconcile_graph E wfl g v \<and>
    reconcile_task F (child_task_name (wf_name wfl) n) w = create_job_and_update_status F t w2 \<and>
    om_namespace (jb_meta j) = (if meta_namespace (wf_meta wfl) = [] then namespace_default else meta_namespace (wf_meta wfl))"
proof (intro conjI)
  show "reconcile_spec E wfl v = reconcile_graph E wfl g v"
    by (rule accepted_is_scheduled(1) [OF assms(1-3)])
  note f = stored_child_facts [OF assms(7,5)]
  have node: "graph_task g n \<noteq> None" using dag.order_task [OF built_graphI [OF assms(3)]] assms(4) by simp
  have short: "\<not> MaxTaskNameLength < length (tk_name t)"
    using accepted_is_scheduled(2) [OF assms(1-4)] by (simp add: f(1))
  have run: "\<not> task_execution_finished t" "st_phase (tk_status t) \<noteq> TaskSuspended"
    by (simp_all add: assms(8) empty_task_status_def task_execution_finished_def)
  have "reconcile_task F (child_task_name (wf_name wfl) n) w = handle_one_time F t w1"
    using assms(9-11) short run child_spec_of_node [OF node]
    by (simp add: reconcile_task_def reconcile_type_def f(2))
  also have "\<dots> = create_job_and_update_status F t w2"
    using run(1) by (simp add: handle_one_time_def job_exists_def assms(12))
  finally show "reconcile_task F (child_task_name (wf_name wfl) n) w = create_job_and_update_status F t w2" .
  show "om_namespace (jb_meta j) = (if meta_namespace (wf_meta wfl) = [] then namespace_default else meta_namespace (wf_meta wfl))"
    using construct_job_shape(2) [OF assms(13,6)] f(4) by simp
qed

section \<open>From the Task controller to the notification observer\<close>

text \<open>
  What the two library functions say together: the reference \<open>SetControllerReference\<close> adds is found
  by \<open>GetControllerOf\<close>, with the kind registered for the owner and the group of this API.
\<close>

definition sets_owner :: "owner_api \<Rightarrow> 'w kube \<Rightarrow> string \<Rightarrow> bool" where
  "sets_owner A K kind \<longleftrightarrow>
     (\<forall>owner obj m m'. k_set_controller_reference K owner obj = Inr m \<longrightarrow>
        om_owner_references m' = om_owner_references m \<longrightarrow>
        (\<exists>r. oa_controller_of A m' = Some r \<and> or_kind r = kind \<and> or_name r = om_name owner \<and>
           or_uid r = om_uid owner \<and> oa_group_of A (or_api_version r) = Some api_group))"

lemma sets_ownerD:
  assumes "sets_owner A K kind" "k_set_controller_reference K owner obj = Inr m"
    "om_owner_references m' = om_owner_references m" "om_name owner \<noteq> []" "om_uid owner \<noteq> []"
  obtains r where "oa_controller_of A m' = Some r" "owner_is A (Some r) kind" "or_name r = om_name owner"
    "or_uid r = om_uid owner"
proof -
  from assms(1-3) obtain r where r: "oa_controller_of A m' = Some r" "or_kind r = kind" "or_name r = om_name owner"
    "or_uid r = om_uid owner" "oa_group_of A (or_api_version r) = Some api_group"
    unfolding sets_owner_def by blast
  then have "owner_is A (Some r) kind" using assms(4,5) by (simp add: owner_is_def)
  with r that show thesis by blast
qed

lemma constructed_owner:
  assumes "construct_job F t = Inr j"
  obtains obj where "k_set_controller_reference (te_kube F) (tk_meta t) obj = Inr (jb_meta j)"
  using assms by (auto simp: construct_job_def Let_def split: sum.splits)

text \<open>The Job \<open>j\<close> as the server keeps it, and failed.\<close>

definition failed_run :: "job \<Rightarrow> job \<Rightarrow> job_condition \<Rightarrow> bool" where
  "failed_run j j' c \<longleftrightarrow> om_owner_references (jb_meta j') = om_owner_references (jb_meta j) \<and>
     om_uid (jb_meta j') \<noteq> [] \<and> is_zero_time (om_deletion_timestamp (jb_meta j')) \<and>
     failure_condition j' = Some c \<and> (\<exists>rs. runes rs \<and> jc_message c = concat rs)"

lemma failed_run_snapshot:
  assumes "failed_run j j' c" "oa_controller_of A (jb_meta j') = Some r" "owner_is A (Some r) ''Task''"
  obtains x where "snapshot A j' now = Some (Some (failure_event j' c r now x))"
proof -
  from assms(1) obtain rs where rs: "runes rs" "jc_message c = concat rs" by (auto simp: failed_run_def)
  have "ei_message (failed_execution j' c) = concat rs" "\<not> ei_message_truncated (failed_execution j' c)"
    by (simp_all add: failed_execution_def rs(2))
  then obtain x where "cut_message (failed_execution j' c) = Some x"
    by (rule cut_message_runes [OF rs(1)])
  with assms that show thesis by (simp add: snapshot_def failed_run_def)
qed

text \<open>
  C21. A failed node is reported as what it is. When the Job that the Task controller built for the
  child Task of a node has failed, the observer takes an event of it, for that Task, and enriching the
  event with the stored Task names the Workflow, its UID and the node: the owner references and
  labels the two controllers write are the ones the notification reads.
\<close>

theorem failed_node_reported:
  assumes "reference_only (we_kube E)" and "sets_owner A (we_kube E) ''Workflow''"
    and "sets_owner A (te_kube F) ''Task''" and "graph_task g n \<noteq> None" and "stored_child E wfl g n t"
    and "wf_name wfl \<noteq> []" and "om_uid (wf_meta wfl) \<noteq> []" and "om_uid (tk_meta t) \<noteq> []"
    and "construct_job F t = Inr j" and "failed_run j j' c"
    and "get (child_task_name (wf_name wfl) n) w = (Inr t, w')"
  shows "\<exists>e. snapshot A j' now = Some (Some e) \<and>
    ev_type e = (if jc_reason c = ''DeadlineExceeded'' then ''task.timeout'' else ''task.failed'') \<and>
    fst (enrich A get e w) = e\<lparr>
      ev_task := \<lparr>ti_name = child_task_name (wf_name wfl) n, ti_uid = om_uid (tk_meta t), ti_type = TaskTypeOneTime\<rparr>,
      ev_workflow := Some \<lparr>wi_name = wf_name wfl, wi_uid = om_uid (wf_meta wfl), wi_node = n\<rparr>\<rparr>"
proof -
  note f = stored_child_facts [OF assms(5,1)]
  have name: "tk_name t \<noteq> []" by (simp add: f(1) child_task_name_def)
  obtain obj where "k_set_controller_reference (te_kube F) (tk_meta t) obj = Inr (jb_meta j)"
    by (rule constructed_owner [OF assms(9)])
  moreover have "om_owner_references (jb_meta j') = om_owner_references (jb_meta j)"
    using assms(10) by (simp add: failed_run_def)
  ultimately obtain r where r: "oa_controller_of A (jb_meta j') = Some r" "owner_is A (Some r) ''Task''"
    "or_name r = tk_name t" "or_uid r = om_uid (tk_meta t)"
    by (rule sets_ownerD [OF assms(3) _ _ name assms(8)])
  obtain x where x: "snapshot A j' now = Some (Some (failure_event j' c r now x))"
    by (rule failed_run_snapshot [OF assms(10) r(1,2)])
  from assms(5) obtain m where m: "k_set_controller_reference (we_kube E) (wf_meta wfl) (tk_meta (new_child_task wfl g n)) = Inr m"
    "om_owner_references (tk_meta t) = om_owner_references m"
    by (auto simp: stored_child_def split: sum.splits)
  obtain s where s: "oa_controller_of A (tk_meta t) = Some s" "owner_is A (Some s) ''Workflow''"
    "or_name s = wf_name wfl" "or_uid s = om_uid (wf_meta wfl)"
    by (rule sets_ownerD [OF assms(2) m assms(6,7)])
  have type: "ts_type (tk_spec t) = TaskTypeOneTime" using child_spec_of_node(1) [OF assms(4)] by (simp add: f(2))
  have "fst (enrich A get (failure_event j' c r now x) w) = (failure_event j' c r now x)\<lparr>
      ev_task := \<lparr>ti_name = child_task_name (wf_name wfl) n, ti_uid = om_uid (tk_meta t), ti_type = TaskTypeOneTime\<rparr>,
      ev_workflow := Some \<lparr>wi_name = wf_name wfl, wi_uid = om_uid (wf_meta wfl), wi_node = n\<rparr>\<rparr>"
    using assms(11) r(3,4) s type f(3)
    by (simp add: enrich_def failure_event_def f(1) gm_get_or_def Let_def)
  with x show ?thesis by (intro exI [of _ "failure_event j' c r now x"]) (simp add: failure_event_def)
qed

section \<open>A generated name\<close>

text \<open>
  A Workflow without a name is accepted before its name, and so the names of its child Tasks, are
  known. A node whose name leaves too little room is accepted then, and whatever name the API server
  generates, the Workflow controller rejects the Workflow in its first pass.
\<close>

theorem generated_name_unchecked:
  assumes "build spec = Inr g" and "n \<in> set (graph_order g)" and "MaxTaskNameLength < length (''workflow-'' @ ''-'' @ n)"
    and "wf_name wfl = ''workflow-'' @ suffix" and "wf_spec wfl = spec"
  shows "validate_workflow_spec [] spec = None \<and>
    (\<exists>e. rejection wfl = Some e \<and> ve_reason e = ReasonInvalidTask \<and>
       reconcile_spec E wfl v = mark_workflow_failed E wfl (workflow_failure_message (Inl e)) v)"
proof -
  have "\<not> length (child_task_name (wf_name wfl) n) \<le> MaxTaskNameLength"
    using assms(3) by (simp add: child_task_name_def assms(4))
  with assms(2) have "validate_child_task_names (wf_name wfl) g \<noteq> None"
    using validate_child_task_names_iff [of "wf_name wfl" g] by blast
  then obtain e where e: "validate_child_task_names (wf_name wfl) g = Some e" by blast
  then have "ve_reason e = ReasonInvalidTask"
    by (auto simp: validate_child_task_names_def Let_def invalidf_def split: if_splits)
  with e show ?thesis
    by (simp add: validate_workflow_spec_def assms(1,5) rejection_def reconcile_spec_def)
qed

section \<open>A run across the components\<close>

text \<open>
  The server in memory, with owner references that carry the kind of the owner, and node a of the
  diamond: its Task as it is stored and its Job as it is stored when it has failed.
\<close>

definition kind_kube :: "string \<Rightarrow> cluster kube" where
  "kind_kube kind = sample_kube\<lparr>k_set_controller_reference := (\<lambda>owner obj.
     if list_ex or_controller (om_owner_references obj) then Inl ''already controlled''
     else Inr (obj\<lparr>om_owner_references := om_owner_references obj @
       [\<lparr>or_api_version = ''kubetask.kubetask.io/v1'', or_kind = kind, or_name = om_name owner,
         or_uid = om_uid owner, or_controller = True\<rparr>]\<rparr>))\<rparr>"

definition kind_env :: "cluster wf_env" where
  "kind_env = sample_env\<lparr>we_kube := kind_kube ''Workflow''\<rparr>"

definition kind_task_env :: "cluster task_env" where
  "kind_task_env = \<lparr>te_kube = kind_kube ''Task'', te_now = (\<lambda>_. 0)\<rparr>"

definition owned_diamond :: workflow where
  "owned_diamond = (sample_workflow diamond)\<lparr>wf_meta := empty_meta\<lparr>om_name := ''wf'', om_uid := ''w1'',
     om_labels := [(tenant_label, ''team-a'')]\<rparr>\<rparr>"

definition stored_a :: task where
  "stored_a = (let t = new_child_task owned_diamond diamond_graph ''a'' in
     t\<lparr>tk_meta := (tk_meta t)\<lparr>om_uid := ''u1'', om_finalizers := [task_finalizer], om_owner_references :=
       [\<lparr>or_api_version = ''kubetask.kubetask.io/v1'', or_kind = ''Workflow'', or_name = ''wf'', or_uid = ''w1'',
         or_controller = True\<rparr>]\<rparr>\<rparr>)"

definition job_a :: job where
  "job_a = projr (construct_job kind_task_env stored_a)"

definition failed_a :: job where
  "failed_a = job_a\<lparr>jb_meta := (jb_meta job_a)\<lparr>om_uid := ''j1''\<rparr>,
     jb_status := \<lparr>js_active = 0, js_conditions = [\<lparr>jc_type = ''Failed'', jc_status = ''True'',
       jc_reason = ''DeadlineExceeded'', jc_message = ''late'', jc_last_transition_time = zero_time\<rparr>],
       js_completion_time = None\<rparr>\<rparr>"

lemma kind_reference_only: "reference_only (kind_kube kind)"
  by (auto simp: reference_only_def kind_kube_def split: if_splits)

lemma kind_sets_owner: "sets_owner sample_owners (kind_kube kind) kind"
proof -
  have "\<not> list_ex or_controller refs \<Longrightarrow> List.find or_controller (refs @ [r]) = (if or_controller r then Some r else None)"
    for refs :: "owner_reference list" and r
    by (induction refs) auto
  then show ?thesis
    by (auto simp: sets_owner_def kind_kube_def sample_owners_def split: if_splits)
qed

lemma stored_a_child: "stored_child kind_env owned_diamond diamond_graph ''a'' stored_a"
  by (simp add: stored_child_def kind_env_def kind_kube_def stored_a_def Let_def new_child_task_def
      set_namespace_def empty_meta_def owned_diamond_def)

lemma job_a_constructed: "construct_job kind_task_env stored_a = Inr job_a"
  by (simp add: job_a_def construct_job_def kind_task_env_def kind_kube_def Let_def empty_meta_def)

definition cluster_a :: cluster where
  "cluster_a = \<lparr>cl_workflows = [], cl_tasks = [(''wf-a'', stored_a)], cl_jobs = []\<rparr>"

lemma diamond_a: "build (wf_spec owned_diamond) = Inr diamond_graph" "''a'' \<in> set (graph_order diamond_graph)"
  "wf_name owned_diamond = ''wf''" "child_task_name ''wf'' ''a'' = ''wf-a''"
  by (simp_all add: owned_diamond_def sample_workflow_def build_diamond graph_order_def diamond_graph_def
      child_task_name_def)

lemma diamond_accepted: "validate_workflow_spec ''wf'' (wf_spec owned_diamond) = None"
proof -
  have "\<forall>n \<in> set (graph_order diamond_graph). length (child_task_name ''wf'' n) \<le> MaxTaskNameLength"
    by code_simp
  then show ?thesis
    using validate_child_task_names_iff [of "''wf''" diamond_graph] by (simp add: validate_workflow_spec_def diamond_a(1))
qed

theorem accepted_nodes_start_witness:
  "reconcile_task kind_task_env ''wf-a'' cluster_a = create_job_and_update_status kind_task_env stored_a cluster_a \<and>
   om_namespace (jb_meta job_a) = ''team-a''"
proof -
  have t: "tk_status stored_a = empty_task_status" "is_zero_time (om_deletion_timestamp (tk_meta stored_a))"
    "k_contains_finalizer (te_kube kind_task_env) (tk_meta stored_a) task_finalizer"
    by (simp_all add: stored_a_def Let_def new_child_task_def set_namespace_def empty_meta_def
        kind_task_env_def kind_kube_def sample_kube_def)
  have g: "k_get_task (te_kube kind_task_env) (child_task_name (wf_name owned_diamond) ''a'') cluster_a = (Inr stored_a, cluster_a)"
    by (simp add: kind_task_env_def kind_kube_def sample_kube_def lookup_def cluster_a_def gm_get_def diamond_a)
  have l: "list_task_jobs (te_kube kind_task_env) stored_a cluster_a = (Inr [], cluster_a)"
    by (simp add: list_task_jobs_def kind_task_env_def kind_kube_def sample_kube_def cluster_a_def)
  have r: "reference_only (we_kube kind_env)" "reference_only (te_kube kind_task_env)"
    by (simp_all add: kind_env_def kind_task_env_def kind_reference_only)
  have ns: "meta_namespace (wf_meta owned_diamond) = ''team-a''"
    by (simp add: owned_diamond_def meta_namespace_def gm_get_or_def gm_get_def)
  have v: "validate_workflow_spec (wf_name owned_diamond) (wf_spec owned_diamond) = None" "wf_name owned_diamond \<noteq> []"
    by (simp_all add: diamond_a(3) diamond_accepted)
  from accepted_nodes_start [OF v diamond_a(1,2) r stored_a_child t g l job_a_constructed, of cluster_a]
  show ?thesis by (simp add: diamond_a ns)
qed

theorem failed_node_reported_witness:
  "\<exists>e. snapshot sample_owners failed_a 7 = Some (Some e) \<and> ev_type e = ''task.timeout'' \<and>
     ev_workflow (fst (enrich sample_owners (k_get_task (kind_kube ''Task'')) e cluster_a)) =
       Some \<lparr>wi_name = ''wf'', wi_uid = ''w1'', wi_node = ''a''\<rparr>"
proof -
  let ?c = "\<lparr>jc_type = ''Failed'', jc_status = ''True'', jc_reason = ''DeadlineExceeded'', jc_message = ''late'',
    jc_last_transition_time = zero_time\<rparr>"
  have r: "reference_only (we_kube kind_env)" "sets_owner sample_owners (we_kube kind_env) ''Workflow''"
    "sets_owner sample_owners (te_kube kind_task_env) ''Task''"
    by (simp_all add: kind_env_def kind_task_env_def kind_reference_only kind_sets_owner)
  have "runes [[CHR ''l''], [CHR ''a''], [CHR ''t''], [CHR ''e'']]" by (simp add: runes_def rune_start_def)
  then have rs: "\<exists>rs. runes rs \<and> ''late'' = concat rs"
    by (intro exI [of _ "[[CHR ''l''], [CHR ''a''], [CHR ''t''], [CHR ''e'']]"]) simp
  have d: "om_deletion_timestamp (jb_meta job_a) = None"
    by (simp add: job_a_def construct_job_def kind_task_env_def kind_kube_def Let_def empty_meta_def)
  have f: "failed_run job_a failed_a ?c"
    using rs by (simp add: failed_run_def failed_a_def failure_condition_def job_failed_def d)
  have u: "wf_name owned_diamond \<noteq> []" "om_uid (wf_meta owned_diamond) \<noteq> []" "om_uid (tk_meta stored_a) \<noteq> []"
    by (simp_all add: owned_diamond_def stored_a_def Let_def)
  have n: "graph_task diamond_graph ''a'' \<noteq> None"
    using dag.order_task [OF built_graphI [OF diamond_a(1)]] diamond_a(2) by simp
  have g: "k_get_task (kind_kube ''Task'') (child_task_name (wf_name owned_diamond) ''a'') cluster_a = (Inr stored_a, cluster_a)"
    by (simp add: kind_kube_def sample_kube_def lookup_def cluster_a_def gm_get_def diamond_a)
  have w: "om_uid (wf_meta owned_diamond) = ''w1''" by (simp add: owned_diamond_def)
  from failed_node_reported [OF r n stored_a_child u job_a_constructed f,
      where get = "k_get_task (kind_kube ''Task'')" and w = cluster_a and now = 7, OF g] show ?thesis
    by (auto simp: w diamond_a(3))
qed

definition long_spec :: workflow_spec where
  "long_spec = sample_spec [(replicate 60 (CHR ''x''), [])]"

definition long_graph :: graph where
  "long_graph = \<lparr>g_tasks = [(replicate 60 (CHR ''x''), sample_task (replicate 60 (CHR ''x'')) [])], g_deps = [],
     g_order = [replicate 60 (CHR ''x'')], g_levels = [[replicate 60 (CHR ''x'')]]\<rparr>"

lemma build_long: "build long_spec = Inr long_graph"
  by code_simp

theorem generated_name_unchecked_witness:
  "validate_workflow_spec [] long_spec = None \<and>
   (\<exists>e. rejection ((sample_workflow long_spec)\<lparr>wf_meta := empty_meta\<lparr>om_name := ''workflow-x7k2q''\<rparr>\<rparr>) = Some e \<and>
      ve_reason e = ReasonInvalidTask)"
proof -
  let ?w = "(sample_workflow long_spec)\<lparr>wf_meta := empty_meta\<lparr>om_name := ''workflow-x7k2q''\<rparr>\<rparr>"
  have n: "replicate 60 (CHR ''x'') \<in> set (graph_order long_graph)"
    by (simp add: graph_order_def long_graph_def)
  have m: "MaxTaskNameLength < length (''workflow-'' @ ''-'' @ replicate 60 (CHR ''x''))"
    by (simp add: MaxTaskNameLength_def)
  have w: "wf_name ?w = ''workflow-'' @ ''x7k2q''" "wf_spec ?w = long_spec"
    by (simp_all add: sample_workflow_def)
  from generated_name_unchecked [OF build_long n m w, where E = sample_env and v = empty_cluster] show ?thesis by blast
qed

end
