(* ===== verification/Outcome.thy ===== *)
theory Outcome
  imports Composition TaskSync
begin

text \<open>
  The way back, from the Jobs of a child Task to the node it belongs to: the pass of the Task
  controller that finds the Jobs finished, and the pass of the Workflow controller after it.
\<close>

section \<open>From the Jobs to the Task\<close>

text \<open>One Job that succeeded is enough.\<close>

definition jobs_outcome :: "job list \<Rightarrow> task_phase" where
  "jobs_outcome jobs = (if \<exists>j \<in> set jobs. job_phase j = TaskSucceeded then TaskSucceeded else TaskFailed)"

definition first_run :: "task_status \<Rightarrow> bool" where
  "first_run st \<longleftrightarrow> st_execution_history st = [] \<and> st_succeeded st = 0 \<and> st_failed st = 0"

lemma sint_of_nat32: "n < 2 ^ 31 \<Longrightarrow> sint (of_nat n :: 32 word) = int n"
  by (simp add: signed_of_nat signed_take_bit_int_eq_self)

lemma job_names_with_pos: "0 < job_names_with p jobs \<longleftrightarrow> (\<exists>j \<in> set jobs. job_phase j = p)"
  by (auto simp: job_names_with_def filter_empty_conv)

lemma sync_first_run:
  assumes "first_run st" "distinct (map jb_name jobs)" "jobs \<noteq> []" "\<forall>j \<in> set jobs. job_transitioned j"
    and "length jobs < 2 ^ 31"
  shows "st_phase (fst (sync_status now jobs st)) = jobs_outcome jobs" "snd (sync_status now jobs st)"
proof -
  let ?sy = "foldl (sync_job now) (start_sync st) jobs"
  have h: "sy_hist (start_sync st) = []" using assms(1) by (simp add: first_run_def)
  have new: "new_jobs {} jobs = jobs"
    using assms(4) by (simp add: new_jobs_def finished_jobs_def)
  have act: "filter (\<lambda>j. \<not> job_transitioned j) jobs = []" using assms(4) by (simp add: filter_empty_conv)
  have "loop_spec jobs (start_sync st) ?sy"
    by (rule sync_loop_spec [OF start_sync_ok assms(2)]) (use assms(1) in \<open>simp add: first_run_def\<close>)
  then have l: "sy_active ?sy = []" "sy_dirty ?sy"
    "st_succeeded (sy_status ?sy) = of_nat (job_names_with TaskSucceeded jobs)"
    "st_failed (sy_status ?sy) = of_nat (job_names_with TaskFailed jobs)"
    using assms(1,3) by (simp_all add: loop_spec_def Let_def h terminal_names_def new act first_run_def)
  have small: "job_names_with p jobs < 2 ^ 31" for p
    using assms(5) le_less_trans [OF length_filter_le] by (simp add: job_names_with_def)
  have "\<exists>j \<in> set jobs. job_phase j = TaskFailed" if "\<not> (\<exists>j \<in> set jobs. job_phase j = TaskSucceeded)"
    using that assms(3,4) job_phase_transitioned by (cases jobs) auto
  then show "st_phase (fst (sync_status now jobs st)) = jobs_outcome jobs"
    using job_names_with_pos [of TaskSucceeded jobs] job_names_with_pos [of TaskFailed jobs]
    by (auto simp: sync_status_eq Let_def finish_sync_simps l task_status_phase_def sint_of_nat32 [OF small]
        jobs_outcome_def)
  show "snd (sync_status now jobs st)" by (simp add: sync_status_eq Let_def finish_sync_simps l)
qed

lemma jobs_outcome_cases: "jobs_outcome jobs = TaskSucceeded \<or> jobs_outcome jobs = TaskFailed"
  by (simp add: jobs_outcome_def)

text \<open>The pass of the Task controller over a one-time Task that has Jobs.\<close>

lemma reconcile_task_syncs:
  assumes "k_get_task (te_kube F) name w = (Inr t, w1)" and "is_zero_time (om_deletion_timestamp (tk_meta t))"
    and "k_contains_finalizer (te_kube F) (tk_meta t) task_finalizer"
    and "ts_type (tk_spec t) = TaskTypeOneTime" "ts_suspend (tk_spec t) = None"
    and "st_phase (tk_status t) \<noteq> TaskSuspended" "length (tk_name t) \<le> MaxTaskNameLength"
    and "list_task_jobs (te_kube F) t w1 = (Inr jobs, w2)" "jobs \<noteq> []"
  shows "reconcile_task F name w = sync_result (sync_job_status F t w2)"
  using assms by (simp add: reconcile_task_def reconcile_type_def handle_one_time_def job_exists_def)

section \<open>From the Task to the node\<close>

definition node_outcome :: "task_phase \<Rightarrow> node_phase" where
  "node_outcome p = (if p = TaskSucceeded then NodeSucceeded else NodeFailed)"

lemma sync_node_ends:
  assumes "task_finished t" "wn_phase node = NodeRunning"
  shows "wn_phase (fst (sync_node_from_task now node t)) = node_outcome (st_phase (tk_status t))"
  using assms by (auto simp: sync_node_from_task_def task_finished_def node_outcome_def Let_def)

lemma cons_node_eq: "cons_node node r = (nodes', st', e, w') \<longleftrightarrow>
    (\<exists>rest. nodes' = node # rest \<and> r = (rest, st', e, w'))"
  by (cases r) (auto simp: cons_node_def)

text \<open>When the first loop runs to its end, every running node whose Task has finished has ended.\<close>

lemma sync_running_ends:
  assumes "sync_running E wfl g children nodes st v = (nodes', st', LoopDone, v')"
    and "node \<in> set nodes" "wn_phase node = NodeRunning"
    and "gm_get children (child_task_name (wf_name wfl) (wn_name node)) = Some t" "task_finished t"
  shows "\<exists>node' \<in> set nodes'. wn_name node' = wn_name node \<and>
    wn_phase node' = node_outcome (st_phase (tk_status t))"
  using assms
proof (induction nodes arbitrary: nodes' st v)
  case (Cons m nodes)
  note ends = sync_node_ends [OF Cons.prems(5,3)]
  show ?case
  proof (cases "m = node")
    case True
    with Cons.prems ends show ?thesis
      by (auto simp: cons_node_eq Let_def split: prod.splits) (metis fst_conv sync_name)+
  next
    case False
    with Cons.prems(2) have "node \<in> set nodes" by simp
    with Cons.prems(1) Cons.IH [OF _ _ Cons.prems(3-5)] show ?thesis
      by (fastforce simp: cons_node_eq stop_loop_def Let_def
          split: if_splits option.splits sum.splits prod.splits ctl_error.splits)
  qed
qed simp

text \<open>The second loop leaves every node alone that does not wait.\<close>

lemma schedule_pending_member:
  assumes "schedule_pending E wfl g nodes st v = (nodes', st', e, v')"
    and "node \<in> set nodes" "wn_phase node \<noteq> NodePending"
  shows "node \<in> set nodes'"
  using schedule_pending_keeps [of nodes E wfl g st v] assms
  by (auto simp: list_all2_conv_all_nth in_set_conv_nth)

text \<open>
  Both loops and what \<open>advanceNodes\<close> makes of them: unless the pass failed the Workflow, every node that
  ran and whose child Task has finished has ended.
\<close>

lemma advance_nodes_ends:
  assumes "list_child_tasks (we_kube E) wfl v = (Inr children, v1)"
    and "advance_nodes E wfl g v = (Inr (wfl', changed), v')" "ws_phase (wf_status wfl') \<noteq> WorkflowFailed"
    and "node \<in> set (ws_nodes (wf_status wfl))" "wn_phase node = NodeRunning"
    and "gm_get children (child_task_name (wf_name wfl) (wn_name node)) = Some t" "task_finished t"
  shows "\<exists>node' \<in> set (ws_nodes (wf_status wfl')). wn_name node' = wn_name node \<and>
    wn_phase node' = node_outcome (st_phase (tk_status t))"
proof -
  have failed: "ws_phase (wf_status (fst (fail_workflow now x m))) = WorkflowFailed" for now x m
    by (simp add: fail_workflow_def Let_def)
  obtain nodes st e v2 where a: "advance_loops E wfl g children v1 = (nodes, st, e, v2)" by (metis surj_pair)
  have e: "e = LoopDone"
  proof (cases e)
    case (LoopConflict m)
    with assms(1,2) a have "wfl' = fst (fail_workflow (we_now E NowFailed) (with_nodes wfl nodes) m)"
      by (simp add: advance_nodes_def case_prod_beta)
    then have "ws_phase (wf_status wfl') = WorkflowFailed" by (simp only: failed)
    with assms(3) show ?thesis by simp
  qed (use assms(1,2) a in \<open>simp_all add: advance_nodes_def\<close>)
  with assms(1,2) a have w: "ws_nodes (wf_status wfl') = nodes" by (auto simp: advance_nodes_def)
  obtain nodes1 st1 v3 where r: "sync_running E wfl g children (ws_nodes (wf_status wfl))
      (initial_loop_state (ws_nodes (wf_status wfl))) v1 = (nodes1, st1, LoopDone, v3)"
    and s: "schedule_pending E wfl g nodes1 st1 v3 = (nodes, st, LoopDone, v2)"
    using a by (auto simp: advance_loops_def e Let_def split: prod.splits loop_end.splits)
  from sync_running_ends [OF r assms(4-7)] obtain node' where n: "node' \<in> set nodes1"
    "wn_name node' = wn_name node" "wn_phase node' = node_outcome (st_phase (tk_status t))" by blast
  then have "wn_phase node' \<noteq> NodePending" by (simp add: node_outcome_def)
  with schedule_pending_member [OF s n(1)] n(2,3) show ?thesis by (auto simp: w)
qed

section \<open>The outcome of a node\<close>

text \<open>
  C20. What the Jobs of a node come to is what the node comes to. When all Jobs of the child Task of a
  running node have finished and the Task has no execution on record yet, one pass of the Task controller writes the outcome to the Task, Succeeded
  if some Job completed and Failed otherwise, and the pass of the Workflow controller that reads the Task
  as written ends the node in the same way, whatever else it does, unless it fails the Workflow.
\<close>

theorem job_outcome_reaches_node:
  assumes "reference_only (we_kube E)" and "stored_child E wfl g n t" and "graph_task g n \<noteq> None"
    and "length (child_task_name (wf_name wfl) n) \<le> MaxTaskNameLength"
    and "is_zero_time (om_deletion_timestamp (tk_meta t))"
    and "k_contains_finalizer (te_kube F) (tk_meta t) task_finalizer"
    and "first_run (tk_status t)" and "st_phase (tk_status t) \<noteq> TaskSuspended"
    and "k_get_task (te_kube F) (child_task_name (wf_name wfl) n) w = (Inr t, w1)"
    and "list_task_jobs (te_kube F) t w1 = (Inr jobs, w2)" and "list_task_jobs (te_kube F) t w2 = (Inr jobs, w3)"
    and "jobs \<noteq> []" "distinct (map jb_name jobs)" "length jobs < 2 ^ 31" "\<forall>j \<in> set jobs. job_transitioned j"
    and "k_update_task_status (te_kube F) (set_status t (fst (sync_status (te_now F) jobs (tk_status t)))) w3 = (Inr t', w4)"
    and "tk_status t' = fst (sync_status (te_now F) jobs (tk_status t))"
    and "list_child_tasks (we_kube E) wfl v = (Inr children, v1)"
    and "gm_get children (child_task_name (wf_name wfl) n) = Some t'"
    and "node \<in> set (ws_nodes (wf_status wfl))" "wn_name node = n" "wn_phase node = NodeRunning"
    and "advance_nodes E wfl g v = (Inr (wfl', changed), v')" "ws_phase (wf_status wfl') \<noteq> WorkflowFailed"
  shows "reconcile_task F (child_task_name (wf_name wfl) n) w = (Inr no_result, w4) \<and>
    st_phase (tk_status t') = jobs_outcome jobs \<and>
    (\<exists>node' \<in> set (ws_nodes (wf_status wfl')). wn_name node' = n \<and> wn_phase node' = node_outcome (jobs_outcome jobs))"
proof (intro conjI)
  note f = stored_child_facts [OF assms(2,1)]
  have r: "ts_type (tk_spec t) = TaskTypeOneTime" "ts_suspend (tk_spec t) = None"
    using child_spec_of_node [OF assms(3)] by (simp_all add: f(2))
  note s = sync_first_run [OF assms(7,13,12,15,14), of "te_now F"]
  have "reconcile_task F (child_task_name (wf_name wfl) n) w = sync_result (sync_job_status F t w2)"
    by (rule reconcile_task_syncs [OF assms(9,5,6) r assms(8) _ assms(10,12)]) (use assms(4) in \<open>simp add: f(1)\<close>)
  then show "reconcile_task F (child_task_name (wf_name wfl) n) w = (Inr no_result, w4)"
    using s(2) assms(11,16)
    by (cases "sync_status (te_now F) jobs (tk_status t)") (simp add: sync_job_status_def sync_result_def)
  show p: "st_phase (tk_status t') = jobs_outcome jobs" by (simp add: assms(17) s(1))
  have "task_finished t'" using jobs_outcome_cases by (simp add: task_finished_def p)
  from advance_nodes_ends [OF assms(18,23,24,20,22) _ this, unfolded assms(21) p, OF assms(19)]
  show "\<exists>node' \<in> set (ws_nodes (wf_status wfl')). wn_name node' = n \<and> wn_phase node' = node_outcome (jobs_outcome jobs)" .
qed

section \<open>A run\<close>

text \<open>The diamond with node a running, its Task running, and its Job completed.\<close>

definition running_a :: task where
  "running_a = mark_task_running 0 stored_a job_a"

definition completed_a :: job where
  "completed_a = job_a\<lparr>jb_meta := (jb_meta job_a)\<lparr>om_uid := ''j1''\<rparr>,
     jb_status := \<lparr>js_active = 0, js_conditions = [\<lparr>jc_type = ''Complete'', jc_status = ''True'',
       jc_reason = [], jc_message = [], jc_last_transition_time = zero_time\<rparr>],
       js_completion_time = Some 5\<rparr>\<rparr>"

definition completed_cluster :: cluster where
  "completed_cluster = \<lparr>cl_workflows = [], cl_tasks = [(''wf-a'', running_a)], cl_jobs = [(''wf-a-0'', completed_a)]\<rparr>"

definition finished_a :: task where
  "finished_a = set_status running_a (fst (sync_status (te_now kind_task_env) [completed_a] (tk_status running_a)))"

definition synced_cluster :: cluster where
  "synced_cluster = completed_cluster\<lparr>cl_tasks := [(''wf-a'', finished_a)]\<rparr>"

definition running_node_a :: workflow_node_status where
  "running_node_a = \<lparr>wn_name = ''a'', wn_phase = NodeRunning, wn_task_name = ''wf-a'', wn_start_time = Some 0,
     wn_completion_time = None, wn_message = []\<rparr>"

definition running_diamond :: workflow where
  "running_diamond = with_nodes owned_diamond
     (running_node_a # map (init_node gm_empty) [''b'', ''c'', ''d''])"

lemma run_jobs: "list_task_jobs (te_kube kind_task_env) running_a completed_cluster = (Inr [completed_a], completed_cluster)"
  by code_simp

lemma run_children: "list_child_tasks (we_kube kind_env) running_diamond synced_cluster =
    (Inr [(''wf-a'', finished_a)], synced_cluster)"
  by code_simp

lemma run_advances: "case advance_nodes kind_env running_diamond diamond_graph synced_cluster of
    (Inl e, v) \<Rightarrow> False | (Inr (wfl, b), v) \<Rightarrow> ws_phase (wf_status wfl) \<noteq> WorkflowFailed"
  by code_simp

lemma run_get: "k_get_task (te_kube kind_task_env) ''wf-a'' completed_cluster = (Inr running_a, completed_cluster)"
  by code_simp

lemma run_stored: "stored_child kind_env running_diamond diamond_graph ''a'' running_a"
proof -
  have w: "wf_meta running_diamond = wf_meta owned_diamond" "wf_spec running_diamond = wf_spec owned_diamond"
    by (simp_all add: running_diamond_def)
  then have "new_child_task running_diamond diamond_graph ''a'' = new_child_task owned_diamond diamond_graph ''a''"
    by (simp only: new_child_task_def child_task_spec_def)
  moreover have "tk_meta running_a = tk_meta stored_a" "tk_spec running_a = tk_spec stored_a"
    by (simp_all add: running_a_def mark_task_running_def Let_def)
  ultimately show ?thesis
    using stored_a_child w(1) by (simp only: stored_child_def)
qed

lemma run_write: "k_update_task_status (te_kube kind_task_env)
    (set_status running_a (fst (sync_status (te_now kind_task_env) [completed_a] (tk_status running_a)))) completed_cluster =
    (Inr finished_a, synced_cluster)"
  by code_simp

lemma run_facts: "first_run (tk_status running_a)" "st_phase (tk_status running_a) \<noteq> TaskSuspended"
  "is_zero_time (om_deletion_timestamp (tk_meta running_a))"
  "k_contains_finalizer (te_kube kind_task_env) (tk_meta running_a) task_finalizer"
  "\<forall>j \<in> set [completed_a]. job_transitioned j" "jobs_outcome [completed_a] = TaskSucceeded"
  by code_simp+

theorem job_outcome_reaches_node_witness:
  "reconcile_task kind_task_env ''wf-a'' completed_cluster = (Inr no_result, synced_cluster) \<and>
   (\<exists>wfl' changed v'. advance_nodes kind_env running_diamond diamond_graph synced_cluster = (Inr (wfl', changed), v') \<and>
      (\<exists>node \<in> set (ws_nodes (wf_status wfl')). wn_name node = ''a'' \<and> wn_phase node = NodeSucceeded))"
proof -
  have name: "wf_name running_diamond = ''wf''" by (simp add: running_diamond_def diamond_a)
  have r: "reference_only (we_kube kind_env)" by (simp add: kind_env_def kind_reference_only)
  have n: "graph_task diamond_graph ''a'' \<noteq> None" by code_simp
  have len: "length (child_task_name (wf_name running_diamond) ''a'') \<le> MaxTaskNameLength"
    by (simp add: name diamond_a MaxTaskNameLength_def)
  have node: "running_node_a \<in> set (ws_nodes (wf_status running_diamond))" "wn_name running_node_a = ''a''"
    "wn_phase running_node_a = NodeRunning"
    by (simp_all add: running_diamond_def running_node_a_def)
  have child: "gm_get [(''wf-a'', finished_a)] (child_task_name (wf_name running_diamond) ''a'') = Some finished_a"
    by (simp add: name diamond_a gm_get_def)
  have get: "k_get_task (te_kube kind_task_env) (child_task_name (wf_name running_diamond) ''a'') completed_cluster =
      (Inr running_a, completed_cluster)"
    by (simp add: name diamond_a run_get)
  have st: "tk_status finished_a = fst (sync_status (te_now kind_task_env) [completed_a] (tk_status running_a))"
    by (simp add: finished_a_def)
  from run_advances obtain wfl' changed v' where a:
    "advance_nodes kind_env running_diamond diamond_graph synced_cluster = (Inr (wfl', changed), v')"
    and p: "ws_phase (wf_status wfl') \<noteq> WorkflowFailed"
    by (auto split: prod.splits sum.splits)
  from job_outcome_reaches_node [OF r run_stored n len run_facts(3,4,1,2) get run_jobs run_jobs _ _ _ run_facts(5)
      run_write st run_children child node a p]
  have "reconcile_task kind_task_env ''wf-a'' completed_cluster = (Inr no_result, synced_cluster) \<and>
    (\<exists>node \<in> set (ws_nodes (wf_status wfl')). wn_name node = ''a'' \<and> wn_phase node = NodeSucceeded)"
    by (simp add: name diamond_a(4) run_facts(6) node_outcome_def)
  with a show ?thesis by blast
qed

end
