(* ===== verification/ClusterServer.thy ===== *)
theory ClusterServer
  imports Composition TaskSync
begin

text \<open>
  What the whole system is about: the objects that were ever stored in a server whose reads may be stale
  and whose writes may fail, what such a server is documented to do (\<open>server_contract\<close>), the
  invariant of all that is stored (\<open>truthful\<close>), and rules for computations that keep it.  The other
  Cluster theories show that the Task controller, the Workflow controller and the API keep it.
\<close>

section \<open>The server\<close>

text \<open>
  A client and, for each world, the versions of the objects that were stored up to it.  A world keeps
  every version, so an object that was deleted or changed is still there, and a stale read is a read
  of an old version.
\<close>

record 'w server =
  sv_kube :: "'w kube"
  sv_workflows :: "'w \<Rightarrow> workflow set"
  sv_tasks :: "'w \<Rightarrow> task set"
  sv_jobs :: "'w \<Rightarrow> job set"

definition grows :: "'w server \<Rightarrow> 'w \<Rightarrow> 'w \<Rightarrow> bool" where
  "grows S w w' \<longleftrightarrow> sv_workflows S w \<subseteq> sv_workflows S w' \<and> sv_tasks S w \<subseteq> sv_tasks S w' \<and>
     sv_jobs S w \<subseteq> sv_jobs S w'"

text \<open>New versions of Tasks and of Workflows are among \<open>T\<close> and \<open>W\<close>; Jobs may appear and change at any time.\<close>

definition adds :: "'w server \<Rightarrow> 'w \<Rightarrow> 'w \<Rightarrow> task set \<Rightarrow> workflow set \<Rightarrow> bool" where
  "adds S w w' T W \<longleftrightarrow> grows S w w' \<and> sv_tasks S w' \<subseteq> sv_tasks S w \<union> T \<and>
     sv_workflows S w' \<subseteq> sv_workflows S w \<union> W"

abbreviation quiet :: "'w server \<Rightarrow> 'w \<Rightarrow> 'w \<Rightarrow> bool" where
  "quiet S w w' \<equiv> adds S w w' {} {}"

abbreviation tk_owners :: "task \<Rightarrow> owner_reference list" where
  "tk_owners t \<equiv> om_owner_references (tk_meta t)"

abbreviation wf_uid :: "workflow \<Rightarrow> string" where
  "wf_uid x \<equiv> om_uid (wf_meta x)"

abbreviation controls :: "'w server \<Rightarrow> workflow \<Rightarrow> task \<Rightarrow> bool" where
  "controls S x t \<equiv> k_is_controlled_by (sv_kube S) (tk_meta t) (wf_meta x)"

text \<open>
  What the server makes of a Task that is sent to it: a new Task has the empty status and, unless it
  asked for a generated name, the name it was sent with; an update leaves the status alone, and an
  update of the status leaves everything else alone.
\<close>

definition created_as :: "task \<Rightarrow> task set" where
  "created_as t = {t'. (tk_name t \<noteq> [] \<longrightarrow> tk_name t' = tk_name t) \<and> tk_owners t' = tk_owners t \<and>
     tk_status t' = empty_task_status}"

definition updated_as :: "'w server \<Rightarrow> 'w \<Rightarrow> task \<Rightarrow> task set" where
  "updated_as S w t = {t'. tk_name t' = tk_name t \<and> tk_owners t' = tk_owners t \<and>
     (\<exists>s \<in> sv_tasks S w. tk_name s = tk_name t \<and> tk_status t' = tk_status s)}"

definition status_updated_as :: "'w server \<Rightarrow> 'w \<Rightarrow> task \<Rightarrow> task set" where
  "status_updated_as S w t = {t'. tk_name t' = tk_name t \<and> tk_status t' = tk_status t \<and>
     (\<exists>s \<in> sv_tasks S w. tk_name s = tk_name t \<and> tk_owners t' = tk_owners s)}"

definition tasks_served :: "'w server \<Rightarrow> bool" where
  "tasks_served S \<longleftrightarrow> (let K = sv_kube S in
     (\<forall>n w r w'. k_get_task K n w = (r, w') \<longrightarrow>
        quiet S w w' \<and> (\<forall>t. r = Inr t \<longrightarrow> t \<in> sv_tasks S w' \<and> tk_name t = n)) \<and>
     (\<forall>l w r w'. k_list_tasks K l w = (r, w') \<longrightarrow>
        quiet S w w' \<and> (\<forall>ts. r = Inr ts \<longrightarrow> set ts \<subseteq> sv_tasks S w')) \<and>
     (\<forall>t w r w'. k_create_task K t w = (r, w') \<longrightarrow>
        adds S w w' (created_as t) {} \<and> (\<forall>t'. r = Inr t' \<longrightarrow> t' \<in> sv_tasks S w' \<inter> created_as t)) \<and>
     (\<forall>t w r w'. k_update_task K t w = (r, w') \<longrightarrow>
        adds S w w' (updated_as S w t) {} \<and> (\<forall>t'. r = Inr t' \<longrightarrow> t' \<in> sv_tasks S w' \<and> tk_name t' = tk_name t)) \<and>
     (\<forall>t w r w'. k_update_task_status K t w = (r, w') \<longrightarrow>
        adds S w w' (status_updated_as S w t) {} \<and>
        (\<forall>t'. r = Inr t' \<longrightarrow> t' \<in> sv_tasks S w' \<and> tk_name t' = tk_name t)) \<and>
     (\<forall>t uid w r w'. k_delete_task K t uid w = (r, w') \<longrightarrow> quiet S w w'))"

text \<open>The same for Workflows: an object is identified by its UID, which an update does not change.\<close>

definition workflow_updated_as :: "'w server \<Rightarrow> 'w \<Rightarrow> workflow \<Rightarrow> workflow set" where
  "workflow_updated_as S w x = {x'. wf_name x' = wf_name x \<and> wf_uid x' = wf_uid x \<and> wf_spec x' = wf_spec x \<and>
     (\<exists>y \<in> sv_workflows S w. wf_uid y = wf_uid x \<and> wf_status x' = wf_status y)}"

definition workflow_status_updated_as :: "'w server \<Rightarrow> 'w \<Rightarrow> workflow \<Rightarrow> workflow set" where
  "workflow_status_updated_as S w x = {x'. wf_name x' = wf_name x \<and> wf_uid x' = wf_uid x \<and>
     wf_status x' = wf_status x \<and> (\<exists>y \<in> sv_workflows S w. wf_uid y = wf_uid x \<and> wf_spec x' = wf_spec y)}"

definition workflows_served :: "'w server \<Rightarrow> bool" where
  "workflows_served S \<longleftrightarrow> (let K = sv_kube S in
     (\<forall>n w r w'. k_get_workflow K n w = (r, w') \<longrightarrow>
        quiet S w w' \<and> (\<forall>x. r = Inr x \<longrightarrow> x \<in> sv_workflows S w' \<and> wf_name x = n)) \<and>
     (\<forall>x w r w'. k_update_workflow K x w = (r, w') \<longrightarrow> adds S w w' {} (workflow_updated_as S w x)) \<and>
     (\<forall>x w r w'. k_update_workflow_status K x w = (r, w') \<longrightarrow>
        adds S w w' {} (workflow_status_updated_as S w x)))"

definition jobs_served :: "'w server \<Rightarrow> bool" where
  "jobs_served S \<longleftrightarrow> (let K = sv_kube S in
     (\<forall>ns l w r w'. k_list_jobs K ns l w = (r, w') \<longrightarrow>
        quiet S w w' \<and> (\<forall>js. r = Inr js \<longrightarrow> (\<forall>j \<in> set js. j \<in> sv_jobs S w' \<and>
          (\<forall>k v. gm_get l k = Some v \<longrightarrow> gm_get (om_labels (jb_meta j)) k = Some v)))) \<and>
     (\<forall>j w r w'. k_create_job K j w = (r, w') \<longrightarrow> quiet S w w') \<and>
     (\<forall>j w r w'. k_delete_job K j w = (r, w') \<longrightarrow> quiet S w w'))"

text \<open>
  The helper functions: finalizers are no part of the identity of an object, and a controller is
  found by its UID among the owner references, where \<open>SetControllerReference\<close> put it.
\<close>

definition helpers_documented :: "'w server \<Rightarrow> bool" where
  "helpers_documented S \<longleftrightarrow> (let K = sv_kube S in
     (\<forall>m f. \<forall>m' \<in> {k_add_finalizer K m f, k_remove_finalizer K m f}.
        om_name m' = om_name m \<and> om_uid m' = om_uid m \<and> om_owner_references m' = om_owner_references m) \<and>
     (\<forall>m m' owner owner'. om_owner_references m = om_owner_references m' \<longrightarrow> om_uid owner = om_uid owner' \<longrightarrow>
        k_is_controlled_by K m owner = k_is_controlled_by K m' owner') \<and>
     (\<forall>m owner. om_owner_references m = [] \<longrightarrow> \<not> k_is_controlled_by K m owner) \<and>
     (\<forall>owner m m'. k_set_controller_reference K owner m = Inr m' \<longrightarrow> om_name m' = om_name m \<and>
        (\<forall>owner'. k_is_controlled_by K m' owner' \<longleftrightarrow> om_uid owner' = om_uid owner)))"

definition server_contract :: "'w server \<Rightarrow> bool" where
  "server_contract S \<longleftrightarrow> tasks_served S \<and> workflows_served S \<and> jobs_served S \<and> helpers_documented S"

text \<open>The clauses of the contract, one by one.\<close>

lemma serverD:
  assumes "server_contract S"
  shows "tasks_served S" "workflows_served S" "jobs_served S" "helpers_documented S"
  using assms by (simp_all add: server_contract_def)

lemma tasks_servedD:
  assumes "tasks_served S"
  shows "k_get_task (sv_kube S) n w = (r, w') \<Longrightarrow> quiet S w w' \<and> (\<forall>t. r = Inr t \<longrightarrow> t \<in> sv_tasks S w' \<and> tk_name t = n)"
    "k_list_tasks (sv_kube S) l w = (r2, w') \<Longrightarrow> quiet S w w' \<and> (\<forall>ts. r2 = Inr ts \<longrightarrow> set ts \<subseteq> sv_tasks S w')"
    "k_create_task (sv_kube S) t w = (r, w') \<Longrightarrow>
      adds S w w' (created_as t) {} \<and> (\<forall>t'. r = Inr t' \<longrightarrow> t' \<in> sv_tasks S w' \<inter> created_as t)"
    "k_update_task (sv_kube S) t w = (r, w') \<Longrightarrow>
      adds S w w' (updated_as S w t) {} \<and> (\<forall>t'. r = Inr t' \<longrightarrow> t' \<in> sv_tasks S w' \<and> tk_name t' = tk_name t)"
    "k_update_task_status (sv_kube S) t w = (r, w') \<Longrightarrow>
      adds S w w' (status_updated_as S w t) {} \<and> (\<forall>t'. r = Inr t' \<longrightarrow> t' \<in> sv_tasks S w' \<and> tk_name t' = tk_name t)"
    "k_delete_task (sv_kube S) t uid w = (r3, w') \<Longrightarrow> quiet S w w'"
  by (use assms in \<open>simp add: tasks_served_def Let_def; fail\<close>)+

lemma workflows_servedD:
  assumes "workflows_served S"
  shows "k_get_workflow (sv_kube S) n w = (r, w') \<Longrightarrow>
      quiet S w w' \<and> (\<forall>x. r = Inr x \<longrightarrow> x \<in> sv_workflows S w' \<and> wf_name x = n)"
    "k_update_workflow (sv_kube S) x w = (r, w') \<Longrightarrow> adds S w w' {} (workflow_updated_as S w x)"
    "k_update_workflow_status (sv_kube S) x w = (r, w') \<Longrightarrow> adds S w w' {} (workflow_status_updated_as S w x)"
  by (use assms in \<open>simp add: workflows_served_def Let_def; fail\<close>)+

lemma jobs_servedD:
  assumes "jobs_served S"
  shows "k_list_jobs (sv_kube S) ns l w = (r, w') \<Longrightarrow> quiet S w w' \<and> (\<forall>js. r = Inr js \<longrightarrow>
      (\<forall>j \<in> set js. j \<in> sv_jobs S w' \<and> (\<forall>k v. gm_get l k = Some v \<longrightarrow> gm_get (om_labels (jb_meta j)) k = Some v)))"
    "k_create_job (sv_kube S) j w = (r2, w') \<Longrightarrow> quiet S w w'"
    "k_delete_job (sv_kube S) j w = (r3, w') \<Longrightarrow> quiet S w w'"
  by (use assms in \<open>simp add: jobs_served_def Let_def; fail\<close>)+

section \<open>The invariant\<close>

text \<open>A Job of the Task with this name has completed.\<close>

definition has_run :: "'w server \<Rightarrow> 'w \<Rightarrow> string \<Rightarrow> bool" where
  "has_run S w name \<longleftrightarrow> (\<exists>j \<in> sv_jobs S w.
     gm_get (om_labels (jb_meta j)) task_label = Some name \<and> job_condition_true j ''Complete'')"

text \<open>Node \<open>n\<close> waits for the success of node \<open>d\<close>: it depends on it and is not a failure handler.\<close>

definition waits_for :: "workflow \<Rightarrow> string \<Rightarrow> string \<Rightarrow> bool" where
  "waits_for x n d \<longleftrightarrow> (case build (wf_spec x) of
     Inl _ \<Rightarrow> False
   | Inr g \<Rightarrow> (case graph_task g n of
       None \<Rightarrow> False
     | Some wt \<Rightarrow> \<not> wt_run_on_failure wt \<and> d \<in> set (graph_deps g n)))"

definition deps_run :: "'w server \<Rightarrow> 'w \<Rightarrow> workflow \<Rightarrow> string \<Rightarrow> bool" where
  "deps_run S w x n \<longleftrightarrow> (\<forall>d. waits_for x n d \<longrightarrow> has_run S w (child_task_name (wf_name x) d))"

definition successful :: "task_status \<Rightarrow> bool" where
  "successful st \<longleftrightarrow> st_phase st = TaskSucceeded \<or> st_succeeded st \<noteq> 0"

definition node_true :: "'w server \<Rightarrow> 'w \<Rightarrow> workflow \<Rightarrow> workflow_node_status \<Rightarrow> bool" where
  "node_true S w x node \<longleftrightarrow>
     (wn_phase node = NodeSucceeded \<longrightarrow> has_run S w (child_task_name (wf_name x) (wn_name node))) \<and>
     (wn_phase node = NodeRunning \<longrightarrow> deps_run S w x (wn_name node))"

text \<open>
  Every version ever stored tells the truth: a Task that says it succeeded has a completed Job, a node
  that says so as well, and a node that runs, or whose child Task exists, has seen its dependencies run.
  A Workflow keeps its name and spec for as long as it lives.
\<close>

definition truthful :: "'w server \<Rightarrow> 'w \<Rightarrow> bool" where
  "truthful S w \<longleftrightarrow>
     (\<forall>x \<in> sv_workflows S w. \<forall>y \<in> sv_workflows S w. wf_uid x = wf_uid y \<longrightarrow>
        wf_name x = wf_name y \<and> wf_spec x = wf_spec y) \<and>
     (\<forall>t \<in> sv_tasks S w. successful (tk_status t) \<longrightarrow> has_run S w (tk_name t)) \<and>
     (\<forall>x \<in> sv_workflows S w. \<forall>node \<in> set (ws_nodes (wf_status x)). node_true S w x node) \<and>
     (\<forall>x \<in> sv_workflows S w. \<forall>t \<in> sv_tasks S w. \<forall>n.
        controls S x t \<and> tk_name t = child_task_name (wf_name x) n \<longrightarrow> deps_run S w x n)"

lemma grows_refl [simp]: "grows S w w" by (simp add: grows_def)

lemma grows_trans: "grows S w w' \<Longrightarrow> grows S w' w'' \<Longrightarrow> grows S w w''"
  unfolding grows_def by blast

lemma adds_grows: "adds S w w' T W \<Longrightarrow> grows S w w'" by (simp add: adds_def)

lemma has_run_mono: "has_run S w n \<Longrightarrow> grows S w w' \<Longrightarrow> has_run S w' n"
  unfolding has_run_def grows_def by blast

lemma deps_run_mono: "deps_run S w x n \<Longrightarrow> grows S w w' \<Longrightarrow> deps_run S w' x n"
  by (auto simp: deps_run_def intro: has_run_mono)

lemma node_true_mono: "node_true S w x node \<Longrightarrow> grows S w w' \<Longrightarrow> node_true S w' x node"
  by (auto simp: node_true_def intro: has_run_mono deps_run_mono)

lemma waits_for_cong: "wf_spec x = wf_spec y \<Longrightarrow> waits_for x = waits_for y"
  by (simp add: waits_for_def fun_eq_iff)

lemma deps_run_cong: "wf_spec x = wf_spec y \<Longrightarrow> wf_name x = wf_name y \<Longrightarrow> deps_run S w x n = deps_run S w y n"
  unfolding deps_run_def using waits_for_cong [of x y] by simp

lemma node_true_cong:
  "wf_spec x = wf_spec y \<Longrightarrow> wf_name x = wf_name y \<Longrightarrow> node_true S w x node = node_true S w y node"
  unfolding node_true_def using deps_run_cong [of x y S w] by simp

lemma truthful_same:
  "truthful S w \<Longrightarrow> x \<in> sv_workflows S w \<Longrightarrow> y \<in> sv_workflows S w \<Longrightarrow> wf_uid x = wf_uid y \<Longrightarrow>
   wf_name x = wf_name y \<and> wf_spec x = wf_spec y"
  unfolding truthful_def by blast

lemma truthful_task: "truthful S w \<Longrightarrow> t \<in> sv_tasks S w \<Longrightarrow> successful (tk_status t) \<Longrightarrow> has_run S w (tk_name t)"
  unfolding truthful_def by blast

lemma truthful_node:
  "truthful S w \<Longrightarrow> x \<in> sv_workflows S w \<Longrightarrow> node \<in> set (ws_nodes (wf_status x)) \<Longrightarrow> node_true S w x node"
  unfolding truthful_def by blast

lemma truthful_child:
  "truthful S w \<Longrightarrow> x \<in> sv_workflows S w \<Longrightarrow> t \<in> sv_tasks S w \<Longrightarrow> controls S x t \<Longrightarrow>
   tk_name t = child_task_name (wf_name x) n \<Longrightarrow> deps_run S w x n"
  unfolding truthful_def by blast

lemma controlled_cong:
  assumes "helpers_documented S" "om_owner_references m = om_owner_references m'" "om_uid owner = om_uid owner'"
  shows "k_is_controlled_by (sv_kube S) m owner = k_is_controlled_by (sv_kube S) m' owner'"
  using assms unfolding helpers_documented_def Let_def by metis

text \<open>What has to be shown of the versions a write adds.\<close>

lemma truthful_add_tasks:
  assumes "truthful S w" and a: "adds S w w' T {}"
    and "\<And>t. t \<in> T \<Longrightarrow> successful (tk_status t) \<Longrightarrow> has_run S w' (tk_name t)"
    and "\<And>t x n. t \<in> T \<Longrightarrow> x \<in> sv_workflows S w \<Longrightarrow> controls S x t \<Longrightarrow>
      tk_name t = child_task_name (wf_name x) n \<Longrightarrow> deps_run S w' x n"
  shows "truthful S w'"
proof -
  have W: "sv_workflows S w' = sv_workflows S w" and T: "sv_tasks S w' \<subseteq> sv_tasks S w \<union> T"
    using a by (auto simp: adds_def grows_def)
  note g = adds_grows [OF a]
  show ?thesis unfolding truthful_def W
  proof (intro conjI ballI allI impI)
    fix t assume t: "t \<in> sv_tasks S w'" "successful (tk_status t)"
    then show "has_run S w' (tk_name t)"
      using T assms(3) truthful_task [OF assms(1)] has_run_mono [OF _ g] by blast
  next
    fix x node assume "x \<in> sv_workflows S w" "node \<in> set (ws_nodes (wf_status x))"
    then show "node_true S w' x node" by (rule node_true_mono [OF truthful_node [OF assms(1)] g])
  next
    fix x t n assume x: "x \<in> sv_workflows S w" and t: "t \<in> sv_tasks S w'"
      and c: "controls S x t \<and> tk_name t = child_task_name (wf_name x) n"
    show "deps_run S w' x n"
      using T t c assms(4) [OF _ x] deps_run_mono [OF truthful_child [OF assms(1) x] g] by blast
  next
    fix x y assume "x \<in> sv_workflows S w" "y \<in> sv_workflows S w" "wf_uid x = wf_uid y"
    from truthful_same [OF assms(1) this] show "wf_name x = wf_name y" "wf_spec x = wf_spec y" by simp_all
  qed
qed

lemma truthful_add_workflows:
  assumes "truthful S w" and a: "adds S w w' {} W" and h: "helpers_documented S"
    and "\<And>x. x \<in> W \<Longrightarrow> \<exists>y \<in> sv_workflows S w. wf_uid y = wf_uid x \<and> wf_name y = wf_name x \<and> wf_spec y = wf_spec x"
    and "\<And>x node. x \<in> W \<Longrightarrow> node \<in> set (ws_nodes (wf_status x)) \<Longrightarrow> node_true S w' x node"
  shows "truthful S w'"
proof -
  have W: "sv_workflows S w' \<subseteq> sv_workflows S w \<union> W" and T: "sv_tasks S w' = sv_tasks S w"
    using a by (auto simp: adds_def grows_def)
  note g = adds_grows [OF a]
  have old: "\<exists>y \<in> sv_workflows S w. wf_uid y = wf_uid x \<and> wf_name y = wf_name x \<and> wf_spec y = wf_spec x"
    if "x \<in> sv_workflows S w'" for x using W assms(4) that by blast
  show ?thesis unfolding truthful_def T
  proof (intro conjI ballI allI impI)
    fix x y assume x: "x \<in> sv_workflows S w'" "y \<in> sv_workflows S w'" "wf_uid x = wf_uid y"
    from old [OF x(1)] obtain p where p: "p \<in> sv_workflows S w" "wf_uid p = wf_uid x" "wf_name p = wf_name x"
      "wf_spec p = wf_spec x" by blast
    from old [OF x(2)] obtain q where q: "q \<in> sv_workflows S w" "wf_uid q = wf_uid y" "wf_name q = wf_name y"
      "wf_spec q = wf_spec y" by blast
    from truthful_same [OF assms(1) p(1) q(1)] p q x(3)
    show "wf_name x = wf_name y" "wf_spec x = wf_spec y" by simp_all
  next
    fix t assume "t \<in> sv_tasks S w" "successful (tk_status t)"
    then show "has_run S w' (tk_name t)" by (rule has_run_mono [OF truthful_task [OF assms(1)] g])
  next
    fix x node assume "x \<in> sv_workflows S w'" "node \<in> set (ws_nodes (wf_status x))"
    then show "node_true S w' x node"
      using W assms(5) node_true_mono [OF truthful_node [OF assms(1)] g] by blast
  next
    fix x t n assume x: "x \<in> sv_workflows S w'" and t: "t \<in> sv_tasks S w"
      and c: "controls S x t \<and> tk_name t = child_task_name (wf_name x) n"
    from old [OF x] obtain y where y: "y \<in> sv_workflows S w" "wf_uid y = wf_uid x" "wf_name y = wf_name x"
      "wf_spec y = wf_spec x" by blast
    have "controls S y t" using c by (simp add: controlled_cong [OF h refl y(2)])
    with truthful_child [OF assms(1) y(1) t] c y(3) have "deps_run S w y n" by simp
    then have "deps_run S w' y n" by (rule deps_run_mono [OF _ g])
    then show "deps_run S w' x n" by (simp add: deps_run_cong [OF y(4,3)])
  qed
qed

lemma truthful_quiet:
  assumes "truthful S w" "quiet S w w'"
  shows "truthful S w'"
  by (rule truthful_add_tasks [OF assms]) simp_all

section \<open>Computations that keep it\<close>

text \<open>
  What a computation gives, from a world on, is a result and a later world that is truthful again; \<open>P\<close>
  is what its result satisfies there.
\<close>

definition keeps :: "'w server \<Rightarrow> ('r \<Rightarrow> 'w \<Rightarrow> bool) \<Rightarrow> 'w \<Rightarrow> 'r \<times> 'w \<Rightarrow> bool" where
  "keeps S P w m \<longleftrightarrow> (case m of (r, w') \<Rightarrow> truthful S w' \<and> grows S w w' \<and> P r w')"

lemma keepsD: "keeps S P w m \<Longrightarrow> m = (r, w') \<Longrightarrow> truthful S w' \<and> grows S w w' \<and> P r w'"
  by (simp add: keeps_def)

lemma keeps_weaken: "keeps S P w m \<Longrightarrow> (\<And>r w'. truthful S w' \<Longrightarrow> grows S w w' \<Longrightarrow> P r w' \<Longrightarrow> Q r w') \<Longrightarrow> keeps S Q w m"
  by (auto simp: keeps_def)

lemma keeps_return: "truthful S w \<Longrightarrow> P r w \<Longrightarrow> keeps S P w (r, w)"
  by (simp add: keeps_def)

lemma keeps_bind:
  assumes "keeps S P w m"
    and "\<And>r w'. truthful S w' \<Longrightarrow> grows S w w' \<Longrightarrow> P r w' \<Longrightarrow> keeps S Q w' (k r w')"
  shows "keeps S Q w (case m of (r, w') \<Rightarrow> k r w')"
proof -
  obtain r w' where m: "m = (r, w')" by (metis surj_pair)
  from keepsD [OF assms(1) m] have w: "truthful S w'" "grows S w w'" "P r w'" by simp_all
  obtain r2 w2 where k: "k r w' = (r2, w2)" by (metis surj_pair)
  from keepsD [OF assms(2) [OF w] k] w(2) show ?thesis by (auto simp: keeps_def m k intro: grows_trans)
qed

lemma keeps_sum:
  assumes "keeps S P w m"
    and "\<And>e w'. truthful S w' \<Longrightarrow> grows S w w' \<Longrightarrow> P (Inl e) w' \<Longrightarrow> keeps S Q w' (f e w')"
    and "\<And>x w'. truthful S w' \<Longrightarrow> grows S w w' \<Longrightarrow> P (Inr x) w' \<Longrightarrow> keeps S Q w' (g x w')"
  shows "keeps S Q w (case m of (Inl e, w') \<Rightarrow> f e w' | (Inr x, w') \<Rightarrow> g x w')"
proof -
  have "keeps S Q w (case m of (r, w') \<Rightarrow> case r of Inl e \<Rightarrow> f e w' | Inr x \<Rightarrow> g x w')"
    by (rule keeps_bind [OF assms(1)]) (auto split: sum.split intro: assms(2,3))
  then show ?thesis .
qed

lemma keeps_option:
  assumes "keeps S P w m"
    and "\<And>e w'. truthful S w' \<Longrightarrow> grows S w w' \<Longrightarrow> P (Some e) w' \<Longrightarrow> keeps S Q w' (f e w')"
    and "\<And>w'. truthful S w' \<Longrightarrow> grows S w w' \<Longrightarrow> P None w' \<Longrightarrow> keeps S Q w' (g w')"
  shows "keeps S Q w (case m of (Some e, w') \<Rightarrow> f e w' | (None, w') \<Rightarrow> g w')"
proof -
  have "keeps S Q w (case m of (r, w') \<Rightarrow> case r of None \<Rightarrow> g w' | Some e \<Rightarrow> f e w')"
    by (rule keeps_bind [OF assms(1)]) (auto split: option.split intro: assms(2,3))
  then show ?thesis .
qed

lemma keeps_quiet:
  assumes "truthful S w" and "\<And>r w'. m = (r, w') \<Longrightarrow> quiet S w w' \<and> P r w'"
  shows "keeps S P w m"
proof -
  obtain r w' where m: "m = (r, w')" by (metis surj_pair)
  from assms(2) [OF m] have q: "quiet S w w'" and "P r w'" by simp_all
  with truthful_quiet [OF assms(1) q] adds_grows [OF q] show ?thesis by (simp add: keeps_def m)
qed

lemma keeps_if: "(b \<Longrightarrow> keeps S P w m) \<Longrightarrow> (\<not> b \<Longrightarrow> keeps S P w m') \<Longrightarrow> keeps S P w (if b then m else m')"
  by simp

abbreviation keeps_all :: "'w server \<Rightarrow> 'w \<Rightarrow> 'r \<times> 'w \<Rightarrow> bool" where
  "keeps_all S \<equiv> keeps S (\<lambda>_ _. True)"

lemma keeps_any: "keeps S P w m \<Longrightarrow> keeps_all S w m"
  by (auto simp: keeps_def)

lemma keeps_done: "truthful S w \<Longrightarrow> keeps_all S w (r, w)"
  by (rule keeps_return) simp_all

end
