(* ===== verification/ClusterTask.thy ===== *)
theory ClusterTask
  imports ClusterServer
begin

text \<open>
  A pass of the Task controller over any Task, with stale reads and failing writes, keeps what is
  stored truthful: it reports a success only for a Job that has completed.
\<close>

section \<open>The Task controller\<close>

text \<open>A Task a pass may write back: its name and owner are stored, and it tells the truth.\<close>

definition task_based :: "'w server \<Rightarrow> 'w \<Rightarrow> task \<Rightarrow> bool" where
  "task_based S w t \<longleftrightarrow> (\<exists>s \<in> sv_tasks S w. tk_name s = tk_name t \<and> tk_owners s = tk_owners t) \<and>
     (successful (tk_status t) \<longrightarrow> has_run S w (tk_name t))"

lemma task_based_stored: "truthful S w \<Longrightarrow> t \<in> sv_tasks S w \<Longrightarrow> task_based S w t"
  unfolding task_based_def by (auto intro: truthful_task)

lemma task_based_mono: "task_based S w t \<Longrightarrow> grows S w w' \<Longrightarrow> task_based S w' t"
  unfolding task_based_def by (auto intro: has_run_mono simp: grows_def)

lemma task_based_cong:
  "task_based S w t \<Longrightarrow> tk_name t' = tk_name t \<Longrightarrow> tk_owners t' = tk_owners t \<Longrightarrow>
   (successful (tk_status t') \<Longrightarrow> successful (tk_status t) \<or> has_run S w (tk_name t)) \<Longrightarrow> task_based S w t'"
  unfolding task_based_def by auto

text \<open>What is stored of a Task under some name and owner bounds what an update may add.\<close>

lemma truthful_add_based:
  assumes "truthful S w" and h: "helpers_documented S" and a: "adds S w w' T {}"
    and "\<And>t. t \<in> T \<Longrightarrow> task_based S w t"
  shows "truthful S w'"
proof (rule truthful_add_tasks [OF assms(1) a])
  note g = adds_grows [OF a]
  fix t assume t: "t \<in> T"
  show "successful (tk_status t) \<Longrightarrow> has_run S w' (tk_name t)"
    using task_based_mono [OF assms(4) [OF t] g] by (simp add: task_based_def)
  fix x n assume x: "x \<in> sv_workflows S w" "controls S x t" "tk_name t = child_task_name (wf_name x) n"
  from assms(4) [OF t] obtain s where s: "s \<in> sv_tasks S w" "tk_name s = tk_name t" "tk_owners s = tk_owners t"
    unfolding task_based_def by blast
  have "controls S x s" using x(2) controlled_cong [OF h s(3) refl] by simp
  from truthful_child [OF assms(1) x(1) s(1) this] s(2) x(3) have "deps_run S w x n" by simp
  then show "deps_run S w' x n" by (rule deps_run_mono [OF _ g])
qed

lemma keeps_update_task_status:
  assumes c: "server_contract S" and t: "truthful S w" "task_based S w t"
  shows "keeps S (\<lambda>r w'. \<forall>t'. r = Inr t' \<longrightarrow> task_based S w' t' \<and> tk_name t' = tk_name t) w
    (k_update_task_status (sv_kube S) t w)"
proof -
  obtain r w' where m: "k_update_task_status (sv_kube S) t w = (r, w')" by (metis surj_pair)
  from tasks_servedD(5) [OF serverD(1) [OF c] m] have a: "adds S w w' (status_updated_as S w t) {}"
    and r: "\<forall>t'. r = Inr t' \<longrightarrow> t' \<in> sv_tasks S w' \<and> tk_name t' = tk_name t" by simp_all
  have "task_based S w t'" if "t' \<in> status_updated_as S w t" for t'
    using that t(2) by (auto simp: status_updated_as_def task_based_def)
  from truthful_add_based [OF t(1) serverD(4) [OF c] a this] have w: "truthful S w'" .
  show ?thesis unfolding keeps_def m
    using w adds_grows [OF a] r task_based_stored [OF w] by simp
qed

lemma keeps_update_task:
  assumes c: "server_contract S" and t: "truthful S w" "task_based S w t"
  shows "keeps S (\<lambda>r w'. \<forall>t'. r = Inr t' \<longrightarrow> task_based S w' t' \<and> tk_name t' = tk_name t) w
    (k_update_task (sv_kube S) t w)"
proof -
  obtain r w' where m: "k_update_task (sv_kube S) t w = (r, w')" by (metis surj_pair)
  from tasks_servedD(4) [OF serverD(1) [OF c] m] have a: "adds S w w' (updated_as S w t) {}"
    and r: "\<forall>t'. r = Inr t' \<longrightarrow> t' \<in> sv_tasks S w' \<and> tk_name t' = tk_name t" by simp_all
  have "task_based S w t'" if t': "t' \<in> updated_as S w t" for t'
  proof -
    from t' obtain s where s: "s \<in> sv_tasks S w" "tk_name s = tk_name t" "tk_status t' = tk_status s"
      and n: "tk_name t' = tk_name t" "tk_owners t' = tk_owners t" by (auto simp: updated_as_def)
    from t(2) truthful_task [OF t(1) s(1)] show ?thesis by (simp add: task_based_def n s(2,3))
  qed
  from truthful_add_based [OF t(1) serverD(4) [OF c] a this] have w: "truthful S w'" .
  show ?thesis unfolding keeps_def m
    using w adds_grows [OF a] r task_based_stored [OF w] by simp
qed

lemma keeps_get_task:
  assumes "server_contract S" "truthful S w"
  shows "keeps S (\<lambda>r w'. \<forall>t. r = Inr t \<longrightarrow> t \<in> sv_tasks S w' \<and> tk_name t = n) w (k_get_task (sv_kube S) n w)"
  by (rule keeps_quiet [OF assms(2)]) (rule tasks_servedD(1) [OF serverD(1) [OF assms(1)]])

lemma keeps_list_task_jobs:
  assumes "server_contract S" "truthful S w"
  shows "keeps S (\<lambda>r w'. \<forall>js. r = Inr js \<longrightarrow>
      (\<forall>j \<in> set js. j \<in> sv_jobs S w' \<and> gm_get (om_labels (jb_meta j)) task_label = Some (tk_name t))) w
    (list_task_jobs (sv_kube S) t w)"
  unfolding list_task_jobs_def
  by (rule keeps_sum [OF keeps_quiet [OF assms(2) jobs_servedD(1) [OF serverD(3) [OF assms(1)]]]])
    (auto intro!: keeps_return simp: gm.get_put)

lemma keeps_job_write:
  assumes "server_contract S" "truthful S w"
  shows "keeps S (\<lambda>_ _. True) w (k_create_job (sv_kube S) j w)" "keeps S (\<lambda>_ _. True) w (k_delete_job (sv_kube S) j w)"
proof -
  note j = serverD(3) [OF assms(1)]
  show "keeps S (\<lambda>_ _. True) w (k_create_job (sv_kube S) j w)"
    by (rule keeps_quiet [OF assms(2)]) (simp add: jobs_servedD(2) [OF j])
  show "keeps S (\<lambda>_ _. True) w (k_delete_job (sv_kube S) j w)"
    by (rule keeps_quiet [OF assms(2)]) (simp add: jobs_servedD(3) [OF j])
qed

text \<open>A sync makes a Task successful only when one of the listed Jobs has completed.\<close>

abbreviation some_complete :: "job list \<Rightarrow> bool" where
  "some_complete jobs \<equiv> \<exists>j \<in> set jobs. job_condition_true j ''Complete''"

lemma record_execution_counts:
  "st_phase (sy_status (record_execution r sy)) = st_phase (sy_status sy)"
  "er_phase r \<noteq> TaskSucceeded \<Longrightarrow> st_succeeded (sy_status (record_execution r sy)) = st_succeeded (sy_status sy)"
  by (auto simp: record_execution_def count_execution_def Let_def split: option.split)

lemma sync_jobs_phase: "st_phase (sy_status (foldl (sync_job now) sy jobs)) = st_phase (sy_status sy)"
  by (induction jobs arbitrary: sy) (simp_all add: sync_job_def record_execution_counts)

lemma sync_jobs_succeeded:
  "\<not> some_complete jobs \<Longrightarrow> st_succeeded (sy_status (foldl (sync_job now) sy jobs)) = st_succeeded (sy_status sy)"
  by (induction jobs arbitrary: sy) (simp_all add: sync_job_def record_execution_counts job_phase_def)

lemma sync_status_successful:
  assumes "successful (fst (sync_status now jobs st))"
  shows "successful st \<or> some_complete jobs"
proof (rule ccontr)
  let ?sy = "foldl (sync_job now) (start_sync st) jobs"
  assume a: "\<not> ?thesis"
  then have "st_succeeded (sy_status ?sy) = 0" "st_phase (sy_status ?sy) \<noteq> TaskSucceeded"
    using sync_jobs_phase [of now "start_sync st" jobs] sync_jobs_succeeded [of jobs now "start_sync st"]
    by (simp_all add: successful_def)
  with assms show False
    by (auto simp: sync_status_eq Let_def successful_def finish_sync_simps task_status_phase_def split: if_splits)
qed

lemma keeps_write_task_status:
  "server_contract S \<Longrightarrow> truthful S w \<Longrightarrow> task_based S w t \<Longrightarrow> keeps_all S w (write_task_status (sv_kube S) t w)"
  unfolding write_task_status_def
  by (rule keeps_sum [OF keeps_update_task_status]) (auto intro: keeps_done)

lemma keeps_sync_job_status:
  assumes c: "server_contract S" and t: "truthful S w" "task_based S w t" and "te_kube F = sv_kube S"
  shows "keeps S (\<lambda>r w'. \<forall>t'. r = Inr t' \<longrightarrow> task_based S w' t') w (sync_job_status F t w)"
  unfolding sync_job_status_def assms(4)
proof (rule keeps_sum [OF keeps_list_task_jobs [OF c t(1)]])
  fix e :: api_error and w' assume "truthful S w'"
  then show "keeps S (\<lambda>r w'. \<forall>t'. r = Inr t' \<longrightarrow> task_based S w' t') w' (Inl (ClientError e), w')"
    by (rule keeps_return) simp
next
  fix jobs w1 assume w1: "truthful S w1" "grows S w w1" and j: "\<forall>js. Inr jobs = Inr js \<longrightarrow>
    (\<forall>j \<in> set js. j \<in> sv_jobs S w1 \<and> gm_get (om_labels (jb_meta j)) task_label = Some (tk_name t))"
  obtain st dirty where st: "sync_status (te_now F) jobs (tk_status t) = (st, dirty)" by (metis surj_pair)
  have "some_complete jobs \<Longrightarrow> has_run S w1 (tk_name t)"
    using j by (auto simp: has_run_def)
  then have b: "task_based S w1 (set_status t st)"
    using sync_status_successful [of "te_now F" jobs "tk_status t"]
    by (intro task_based_cong [OF task_based_mono [OF t(2) w1(2)]]) (auto simp: st)
  show "keeps S (\<lambda>r w'. \<forall>t'. r = Inr t' \<longrightarrow> task_based S w' t') w1
    (case sync_status (te_now F) jobs (tk_status t) of (st, dirty) \<Rightarrow>
       if \<not> dirty then (Inr (set_status t st), w1)
       else (case k_update_task_status (sv_kube S) (set_status t st) w1 of
               (Inl e, w2) \<Rightarrow> (Inl (ClientError e), w2) | (Inr t', w2) \<Rightarrow> (Inr t', w2)))"
    unfolding st prod.case
  proof (rule keeps_if)
    show "keeps S (\<lambda>r w'. \<forall>t'. r = Inr t' \<longrightarrow> task_based S w' t') w1 (Inr (set_status t st), w1)"
      by (rule keeps_return [OF w1(1)]) (simp add: b)
    show "keeps S (\<lambda>r w'. \<forall>t'. r = Inr t' \<longrightarrow> task_based S w' t') w1
      (case k_update_task_status (sv_kube S) (set_status t st) w1 of
         (Inl e, w2) \<Rightarrow> (Inl (ClientError e), w2) | (Inr t', w2) \<Rightarrow> (Inr t', w2))"
      by (rule keeps_sum [OF keeps_update_task_status [OF c w1(1) b]]) (auto intro!: keeps_return)
  qed
qed

text \<open>The handlers of the three types, suspension and deletion.\<close>

lemma create_job_keeps:
  assumes c: "server_contract S" and k: "te_kube F = sv_kube S" and t: "truthful S w" "task_based S w t"
  shows "keeps_all S w (create_job_and_update_status F t w)"
proof (cases "construct_job F t")
  case (Inl e)
  with keeps_done [OF t(1)] show ?thesis by (simp add: create_job_and_update_status_def)
next
  case (Inr job)
  have s: "successful (tk_status (mark_task_running now t j)) \<Longrightarrow> successful (tk_status t)" for now j
    by (auto simp: mark_task_running_def Let_def successful_def split: if_splits)
  have b: "task_based S w1 (mark_task_running now t j)" if "grows S w w1" for w1 now j
  proof (rule task_based_cong [OF task_based_mono [OF t(2) that]])
    show "tk_name (mark_task_running now t j) = tk_name t" "tk_owners (mark_task_running now t j) = tk_owners t"
      by (simp_all add: mark_task_running_def Let_def)
  qed (simp add: s)
  show ?thesis unfolding create_job_and_update_status_def Inr sum.case k
    by (rule keeps_sum [OF keeps_job_write(1) [OF c t(1)]])
      (auto intro: keeps_done keeps_write_task_status [OF c] b)
qed

lemma list_jobs_keeps: "server_contract S \<Longrightarrow> truthful S w \<Longrightarrow> keeps_all S w (list_task_jobs (sv_kube S) t w)"
  by (rule keeps_any [OF keeps_list_task_jobs])

lemma job_exists_keeps: "server_contract S \<Longrightarrow> truthful S w \<Longrightarrow> keeps_all S w (job_exists (sv_kube S) t w)"
  unfolding job_exists_def by (rule keeps_sum [OF list_jobs_keeps]) (auto intro: keeps_done)

lemma delete_active_keeps:
  assumes c: "server_contract S"
  shows "truthful S w \<Longrightarrow>
    truthful S (delete_active_jobs (sv_kube S) js w) \<and> grows S w (delete_active_jobs (sv_kube S) js w)"
proof (induction js arbitrary: w)
  case (Cons j js)
  have "truthful S (snd (k_delete_job (sv_kube S) j w)) \<and> grows S w (snd (k_delete_job (sv_kube S) j w))"
    using keepsD [OF keeps_job_write(2) [OF c Cons.prems] surjective_pairing] by simp
  with Cons show ?case by (auto intro: grows_trans)
qed simp

lemma concurrency_keeps:
  assumes c: "server_contract S" and t: "truthful S w"
  shows "keeps_all S w (concurrency_allowed (sv_kube S) t w)"
  unfolding concurrency_allowed_def
proof (rule keeps_sum [OF list_jobs_keeps [OF c t]])
  fix jobs w1 assume w1: "truthful S w1"
  show "keeps_all S w1 (if filter job_active jobs = [] then (True, w1)
      else (case ts_concurrency_policy (tk_spec t) of
              ConcurrencyAllow \<Rightarrow> (True, w1) | ConcurrencyForbid \<Rightarrow> (False, w1)
            | ConcurrencyReplace \<Rightarrow> (True, delete_active_jobs (sv_kube S) jobs w1) | _ \<Rightarrow> (True, w1)))"
    using w1 delete_active_keeps [OF c w1, of jobs]
    by (auto simp: keeps_def split: concurrency_policy.split)
qed (auto intro: keeps_done)

lemma fail_task_keeps:
  assumes c: "server_contract S" and k: "te_kube F = sv_kube S" and t: "truthful S w" "task_based S w t"
  shows "keeps_all S w (fail_task F t msg w)"
  unfolding fail_task_def k
  by (rule keeps_write_task_status [OF c t(1)], rule task_based_cong [OF t(2)]) (simp_all add: successful_def)

lemma schedule_keeps:
  assumes c: "server_contract S" and k: "te_kube F = sv_kube S" and t: "truthful S w" "task_based S w t"
  shows "keeps_all S w (schedule_cron F t w)"
proof (cases "k_parse_cron (sv_kube S) (ts_schedule (tk_spec t))")
  case None
  with fail_task_keeps [OF assms] show ?thesis by (simp add: schedule_cron_def k)
next
  case (Some next_time)
  show ?thesis unfolding schedule_cron_def Let_def k Some option.case
    by (intro keeps_if keeps_done t(1) keeps_bind [OF concurrency_keeps [OF c t(1)]] create_job_keeps [OF c k]
        task_based_mono [OF t(2)])
qed

lemma sync_only_keeps:
  assumes c: "server_contract S" and k: "te_kube F = sv_kube S" and t: "truthful S w" "task_based S w t"
  shows "keeps_all S w (sync_result (sync_job_status F t w))"
  unfolding sync_result_def by (rule keeps_sum [OF keeps_sync_job_status [OF c t k]]) (auto intro: keeps_done)

lemma one_time_keeps:
  assumes c: "server_contract S" and k: "te_kube F = sv_kube S" and t: "truthful S w" "task_based S w t"
  shows "keeps_all S w (handle_one_time F t w)"
  unfolding handle_one_time_def k
  by (intro keeps_bind [OF job_exists_keeps [OF c t(1)]] keeps_if sync_only_keeps [OF c k] keeps_done
      create_job_keeps [OF c k] task_based_mono [OF t(2)])

lemma cron_keeps:
  assumes c: "server_contract S" and k: "te_kube F = sv_kube S" and t: "truthful S w" "task_based S w t"
  shows "keeps_all S w (handle_cron F t w)"
  unfolding handle_cron_def k
proof (rule keeps_bind [OF job_exists_keeps [OF c t(1)]])
  fix ex w1 assume w1: "truthful S w1" "grows S w w1"
  note b = task_based_mono [OF t(2) w1(2)]
  show "keeps_all S w1 (if \<not> ex then schedule_cron F t w1
      else (case sync_job_status F t w1 of (Inl e, w2) \<Rightarrow> (Inl e, w2) | (Inr t', w2) \<Rightarrow> schedule_cron F t' w2))"
    by (intro keeps_if schedule_keeps [OF c k w1(1) b] keeps_sum [OF keeps_sync_job_status [OF c w1(1) b k]]
        keeps_done schedule_keeps [OF c k]) simp_all
qed

lemma delay_keeps:
  assumes c: "server_contract S" and k: "te_kube F = sv_kube S" and t: "truthful S w" "task_based S w t"
  shows "keeps_all S w (handle_delay F t w)"
proof (cases "ts_delay (tk_spec t)")
  case None
  with fail_task_keeps [OF assms] show ?thesis by (simp add: handle_delay_def)
next
  case (Some d)
  show ?thesis unfolding handle_delay_def Some option.case Let_def k
    by (intro keeps_bind [OF job_exists_keeps [OF c t(1)]] keeps_if sync_only_keeps [OF c k] keeps_done t(1)
        create_job_keeps [OF c k] task_based_mono [OF t(2)])
qed

lemma delete_jobs_keeps:
  assumes c: "server_contract S"
  shows "truthful S w \<Longrightarrow> keeps_all S w (delete_jobs (sv_kube S) js w)"
proof (induction js arbitrary: w)
  case (Cons j js)
  show ?case unfolding delete_jobs.simps
    by (intro keeps_if keeps_option [OF keeps_job_write(2) [OF c Cons.prems]] Cons.IH keeps_done Cons.prems)
qed (simp add: keeps_done)

lemma finalizer_keeps_identity:
  assumes "server_contract S" "m' = k_add_finalizer (sv_kube S) m f \<or> m' = k_remove_finalizer (sv_kube S) m f"
  shows "om_name m' = om_name m" "om_uid m' = om_uid m" "om_owner_references m' = om_owner_references m"
  using serverD(4) [OF assms(1)] assms(2) unfolding helpers_documented_def Let_def by auto

lemma finalizer_based:
  assumes c: "server_contract S" and "task_based S w t"
  shows "task_based S w (t\<lparr>tk_meta := k_add_finalizer (sv_kube S) (tk_meta t) f\<rparr>)"
    "task_based S w (t\<lparr>tk_meta := k_remove_finalizer (sv_kube S) (tk_meta t) f\<rparr>)"
  using finalizer_keeps_identity [OF c disjI1 [OF refl]] finalizer_keeps_identity [OF c disjI2 [OF refl]]
  by (intro task_based_cong [OF assms(2)]; simp)+

lemma task_deletion_keeps:
  assumes c: "server_contract S" and k: "te_kube F = sv_kube S" and t: "truthful S w" "task_based S w t"
  shows "keeps_all S w (handle_task_deletion F t w)"
  unfolding handle_task_deletion_def Let_def k
  by (intro keeps_sum [OF list_jobs_keeps [OF c]] keeps_option [OF delete_jobs_keeps [OF c]] keeps_if keeps_done
      keeps_sum [OF keeps_update_task [OF c]] finalizer_based(2) [OF c] t(1) task_based_mono [OF t(2)])
    (auto intro: grows_trans)

lemma typed_keeps:
  assumes c: "server_contract S" and k: "te_kube F = sv_kube S" and t: "truthful S w" "task_based S w t"
  shows "keeps_all S w (reconcile_type F t w)"
  unfolding reconcile_type_def handle_name_too_long_def Let_def
  using keeps_done [OF t(1)] fail_task_keeps [OF assms] one_time_keeps [OF assms] cron_keeps [OF assms] delay_keeps [OF assms]
  by (auto split: task_type.split)

lemma task_pass_keeps:
  assumes c: "server_contract S" and k: "te_kube F = sv_kube S" and "truthful S w"
  shows "keeps_all S w (reconcile_task F name w)"
  unfolding reconcile_task_def Let_def k
proof (rule keeps_sum [OF keeps_get_task [OF c assms(3)]])
  fix t w1 assume w1: "truthful S w1" and "\<forall>t'. Inr t = Inr t' \<longrightarrow> t' \<in> sv_tasks S w1 \<and> tk_name t' = name"
  then have t: "task_based S w1 t" by (simp add: task_based_stored)
  have p: "task_based S w1 (set_status t ((tk_status t)\<lparr>st_phase := TaskPending, st_message := []\<rparr>))"
    "task_based S w1 (set_status t ((tk_status t)\<lparr>st_phase := TaskSuspended, st_message := ''Task is suspended''\<rparr>))"
    by (rule task_based_cong [OF t]; simp add: successful_def)+
  show "keeps_all S w1
    (if \<not> is_zero_time (om_deletion_timestamp (tk_meta t)) then handle_task_deletion F t w1
     else if \<not> k_contains_finalizer (sv_kube S) (tk_meta t) task_finalizer then
       (case k_update_task (sv_kube S) (t\<lparr>tk_meta := k_add_finalizer (sv_kube S) (tk_meta t) task_finalizer\<rparr>) w1 of
          (Inl e, w2) \<Rightarrow> (Inl (ClientError e), w2) | (Inr _, w2) \<Rightarrow> (Inr no_result, w2))
     else if ts_suspend (tk_spec t) = Some True then handle_suspend F t w1
     else if st_phase (tk_status t) = TaskSuspended then
       (case k_update_task_status (sv_kube S)
           (set_status t ((tk_status t)\<lparr>st_phase := TaskPending, st_message := []\<rparr>)) w1 of
          (Inl e, w2) \<Rightarrow> (Inl (ClientError e), w2) | (Inr t', w2) \<Rightarrow> reconcile_type F t' w2)
     else reconcile_type F t w1)"
    unfolding handle_suspend_def k
    by (intro keeps_if task_deletion_keeps [OF c k] w1 t keeps_sum [OF keeps_update_task [OF c w1 finalizer_based(1) [OF c t]]]
        keeps_done keeps_write_task_status [OF c] p typed_keeps [OF c k] keeps_sum [OF keeps_update_task_status [OF c w1 p(1)]])
      simp_all
qed (auto intro: keeps_if keeps_done)

end
