(* ===== verification/ClusterWorkflow.thy ===== *)
theory ClusterWorkflow
  imports ClusterTask
begin

text \<open>
  A pass of the Workflow controller over any Workflow, with stale reads and failing writes, keeps what is
  stored truthful: it creates the child Task of a node, and recreates it, only when every Task the
  node waits for has run.
\<close>

section \<open>Versions of a Workflow\<close>

text \<open>A Workflow a pass may write back: its identity and spec are stored, and its nodes tell the truth.\<close>

definition known_as :: "'w server \<Rightarrow> 'w \<Rightarrow> workflow \<Rightarrow> bool" where
  "known_as S w x \<longleftrightarrow> (\<exists>y \<in> sv_workflows S w. wf_uid y = wf_uid x \<and> wf_name y = wf_name x \<and> wf_spec y = wf_spec x)"

definition nodes_true :: "'w server \<Rightarrow> 'w \<Rightarrow> workflow \<Rightarrow> workflow_node_status list \<Rightarrow> bool" where
  "nodes_true S w x nodes \<longleftrightarrow> (\<forall>node \<in> set nodes. node_true S w x node)"

definition workflow_based :: "'w server \<Rightarrow> 'w \<Rightarrow> workflow \<Rightarrow> bool" where
  "workflow_based S w x \<longleftrightarrow> known_as S w x \<and> nodes_true S w x (status_nodes x)"

lemma known_as_mono: "known_as S w x \<Longrightarrow> grows S w w' \<Longrightarrow> known_as S w' x"
  unfolding known_as_def grows_def by blast

lemma known_as_cong:
  "wf_uid x = wf_uid y \<Longrightarrow> wf_name x = wf_name y \<Longrightarrow> wf_spec x = wf_spec y \<Longrightarrow> known_as S w x = known_as S w y"
  by (simp add: known_as_def)

lemma nodes_true_mono: "nodes_true S w x nodes \<Longrightarrow> grows S w w' \<Longrightarrow> nodes_true S w' x nodes"
  by (auto simp: nodes_true_def intro: node_true_mono)

lemma nodes_true_cong:
  "wf_spec x = wf_spec y \<Longrightarrow> wf_name x = wf_name y \<Longrightarrow> nodes_true S w x nodes = nodes_true S w y nodes"
  unfolding nodes_true_def using node_true_cong [of x y S w] by simp

lemma workflow_based_mono: "workflow_based S w x \<Longrightarrow> grows S w w' \<Longrightarrow> workflow_based S w' x"
  by (auto simp: workflow_based_def intro: known_as_mono nodes_true_mono)

lemma workflow_based_cong:
  assumes "wf_uid x = wf_uid y" "wf_name x = wf_name y" "wf_spec x = wf_spec y"
  shows "workflow_based S w x \<longleftrightarrow> known_as S w y \<and> nodes_true S w y (status_nodes x)"
  using known_as_cong [OF assms, of S w] nodes_true_cong [OF assms(3,2), of S w] by (simp add: workflow_based_def)

lemma workflow_based_stored: "truthful S w \<Longrightarrow> x \<in> sv_workflows S w \<Longrightarrow> workflow_based S w x"
  unfolding workflow_based_def known_as_def nodes_true_def status_nodes_def
  by (auto intro: truthful_node)

lemma known_same:
  assumes "truthful S w" "known_as S w x" "y \<in> sv_workflows S w" "wf_uid y = wf_uid x"
  shows "wf_name y = wf_name x" "wf_spec y = wf_spec x"
proof -
  from assms(2) obtain z where z: "z \<in> sv_workflows S w" "wf_uid z = wf_uid x" "wf_name z = wf_name x"
    "wf_spec z = wf_spec x" by (auto simp: known_as_def)
  from truthful_same [OF assms(1) assms(3) z(1)] z assms(4)
  show "wf_name y = wf_name x" "wf_spec y = wf_spec x" by simp_all
qed

lemma keeps_update_workflow_status:
  assumes c: "server_contract S" and x: "truthful S w" "workflow_based S w x"
  shows "keeps_all S w (k_update_workflow_status (sv_kube S) x w)"
proof -
  obtain r w' where m: "k_update_workflow_status (sv_kube S) x w = (r, w')" by (metis surj_pair)
  from workflows_servedD(3) [OF serverD(2) [OF c] m] have a: "adds S w w' {} (workflow_status_updated_as S w x)" .
  note g = adds_grows [OF a]
  have k: "known_as S w x" using x(2) by (simp add: workflow_based_def)
  have same: "wf_uid x' = wf_uid x" "wf_name x' = wf_name x" "wf_spec x' = wf_spec x"
    if "x' \<in> workflow_status_updated_as S w x" for x'
    using that known_same(2) [OF x(1) k] by (auto simp: workflow_status_updated_as_def)
  have "truthful S w'"
  proof (rule truthful_add_workflows [OF x(1) a serverD(4) [OF c]])
    fix x' assume x': "x' \<in> workflow_status_updated_as S w x"
    show "\<exists>y \<in> sv_workflows S w. wf_uid y = wf_uid x' \<and> wf_name y = wf_name x' \<and> wf_spec y = wf_spec x'"
      using k same [OF x'] by (simp add: known_as_def)
    fix node assume n: "node \<in> set (ws_nodes (wf_status x'))"
    have "wf_status x' = wf_status x" using x' by (simp add: workflow_status_updated_as_def)
    with n x(2) have "node_true S w x node" by (simp add: workflow_based_def nodes_true_def status_nodes_def)
    then have "node_true S w' x node" by (rule node_true_mono [OF _ g])
    then show "node_true S w' x' node" by (simp add: node_true_cong [OF same(3,2) [OF x']])
  qed
  with g show ?thesis by (simp add: keeps_def m)
qed

lemma keeps_update_workflow:
  assumes c: "server_contract S" and x: "truthful S w" "known_as S w x"
  shows "keeps_all S w (k_update_workflow (sv_kube S) x w)"
proof -
  obtain r w' where m: "k_update_workflow (sv_kube S) x w = (r, w')" by (metis surj_pair)
  from workflows_servedD(2) [OF serverD(2) [OF c] m] have a: "adds S w w' {} (workflow_updated_as S w x)" .
  note g = adds_grows [OF a]
  have "truthful S w'"
  proof (rule truthful_add_workflows [OF x(1) a serverD(4) [OF c]])
    fix x' assume x': "x' \<in> workflow_updated_as S w x"
    then obtain y where y: "y \<in> sv_workflows S w" "wf_uid y = wf_uid x" "wf_status x' = wf_status y"
      and e: "wf_uid x' = wf_uid x" "wf_name x' = wf_name x" "wf_spec x' = wf_spec x"
      by (auto simp: workflow_updated_as_def)
    show "\<exists>y \<in> sv_workflows S w. wf_uid y = wf_uid x' \<and> wf_name y = wf_name x' \<and> wf_spec y = wf_spec x'"
      using x(2) e by (simp add: known_as_def)
    fix node assume "node \<in> set (ws_nodes (wf_status x'))"
    then have "node_true S w y node" using truthful_node [OF x(1) y(1)] by (simp add: y(3))
    then have "node_true S w' y node" by (rule node_true_mono [OF _ g])
    then show "node_true S w' x' node"
      using node_true_cong [of x' y S w' node] e known_same [OF x y(1,2)] by simp
  qed
  with g show ?thesis by (simp add: keeps_def m)
qed

lemma keeps_update_status:
  assumes "server_contract S" "truthful S w" "workflow_based S w x"
  shows "keeps_all S w (update_status (sv_kube S) x w)"
  unfolding update_status_def
  by (rule keeps_sum [OF keeps_update_workflow_status [OF assms]]) (auto intro: keeps_done)

section \<open>Child Tasks\<close>

lemma child_task_name_inject: "child_task_name wfl n = child_task_name wfl m \<longleftrightarrow> n = m"
  by (simp add: child_task_name_def)

lemma set_reference:
  assumes "helpers_documented S" "k_set_controller_reference (sv_kube S) owner m = Inr m'"
  shows "om_name m' = om_name m \<and> (\<forall>owner'. k_is_controlled_by (sv_kube S) m' owner' \<longleftrightarrow> om_uid owner' = om_uid owner)"
  by (rule assms(1) [unfolded helpers_documented_def Let_def, THEN conjunct2, THEN conjunct2, THEN conjunct2,
      THEN spec, THEN spec, THEN spec, THEN mp, OF assms(2)])

lemma keeps_create_child:
  assumes c: "server_contract S" and x: "truthful S w" "known_as S w x" and d: "deps_run S w x n"
  shows "keeps S (\<lambda>r w'. \<forall>t. r = Inr t \<longrightarrow> t \<in> sv_tasks S w' \<and> tk_name t = child_task_name (wf_name x) n) w
    (create_child_task (sv_kube S) x g n w)" (is "keeps S ?P w _")
proof (cases "k_set_controller_reference (sv_kube S) (wf_meta x) (tk_meta (new_child_task x g n))")
  case (Inl e)
  then show ?thesis by (simp add: create_child_task_def keeps_return [OF x(1)])
next
  case (Inr m)
  let ?t = "(new_child_task x g n)\<lparr>tk_meta := m\<rparr>"
  have "om_name (tk_meta (new_child_task x g n)) = child_task_name (wf_name x) n"
    by (simp add: new_child_task_def set_namespace_def Let_def)
  with Inr have m: "om_name m = child_task_name (wf_name x) n"
    "\<And>owner. k_is_controlled_by (sv_kube S) m owner \<longleftrightarrow> om_uid owner = wf_uid x"
    using set_reference [OF serverD(4) [OF c]] by simp_all
  have n: "child_task_name (wf_name x) n \<noteq> []" by (simp add: child_task_name_def)
  have "keeps S (\<lambda>r w'. \<forall>t. r = Inr t \<longrightarrow> t \<in> sv_tasks S w' \<and> tk_name t = child_task_name (wf_name x) n) w
    (k_create_task (sv_kube S) ?t w)"
  proof -
    obtain r w' where k: "k_create_task (sv_kube S) ?t w = (r, w')" by (metis surj_pair)
    from tasks_servedD(3) [OF serverD(1) [OF c] k] have a: "adds S w w' (created_as ?t) {}"
      and r: "\<And>t'. r = Inr t' \<Longrightarrow> t' \<in> sv_tasks S w' \<and> t' \<in> created_as ?t" by simp_all
    have made: "tk_name t = child_task_name (wf_name x) n" "tk_owners t = om_owner_references m"
      "tk_status t = empty_task_status" if "t \<in> created_as ?t" for t
      using that n by (auto simp: created_as_def m(1))
    have "truthful S w'"
    proof (rule truthful_add_tasks [OF x(1) a])
      fix t assume t: "t \<in> created_as ?t"
      note made = made [OF t]
      show "successful (tk_status t) \<Longrightarrow> has_run S w' (tk_name t)"
        by (simp add: made(3) successful_def empty_task_status_def)
      fix y k assume y: "y \<in> sv_workflows S w" "controls S y t" "tk_name t = child_task_name (wf_name y) k"
      then have u: "wf_uid y = wf_uid x"
        using controlled_cong [OF serverD(4) [OF c] made(2) refl] m(2) by simp
      note same = known_same [OF x y(1) u]
      with y(3) made(1) have "k = n" by (simp add: child_task_name_inject)
      with deps_run_mono [OF d adds_grows [OF a]] show "deps_run S w' y k"
        by (simp add: deps_run_cong [OF same(2,1)])
    qed
    with adds_grows [OF a] r made(1) show ?thesis by (auto simp: keeps_def k)
  qed
  then show ?thesis unfolding create_child_task_def Let_def Inr sum.case
  proof (rule keeps_sum)
    fix e w1 assume w1: "truthful S w1"
    show "keeps S ?P w1 (if \<not> is_already_exists e then (Inl (ClientError e), w1)
      else (case k_get_task (sv_kube S) (child_task_name (wf_name x) n) w1 of
              (Inl e', w2) \<Rightarrow> (Inl (ClientError e'), w2)
            | (Inr existing, w2) \<Rightarrow>
                if meta_namespace (tk_meta existing) \<noteq> meta_namespace (wf_meta x) \<or>
                   \<not> k_is_controlled_by (sv_kube S) (tk_meta existing) (wf_meta x)
                then (Inl (conflict_error (child_task_name (wf_name x) n) (wf_name x)), w2)
                else (Inr existing, w2)))"
      by (intro keeps_if keeps_sum [OF keeps_quiet [OF w1 tasks_servedD(1) [OF serverD(1) [OF c]]]])
        (auto intro: keeps_return w1)
  qed (auto intro: keeps_return)
qed

lemma foldl_put_stored:
  "gm_get (foldl (\<lambda>m t. if Q t then gm_put (tk_name t) t m else m) m0 items) n = Some t \<Longrightarrow>
   (\<And>n t. gm_get m0 n = Some t \<Longrightarrow> t \<in> A \<and> tk_name t = n) \<Longrightarrow> set items \<subseteq> A \<Longrightarrow> t \<in> A \<and> tk_name t = n"
proof (induction items arbitrary: m0)
  case (Cons i items)
  show ?case
    by (rule Cons.IH [OF Cons.prems(1) [unfolded foldl_Cons]])
      (use Cons.prems(2,3) in \<open>auto simp: gm.get_put split: if_splits\<close>)
qed simp

lemma keeps_list_children:
  assumes c: "server_contract S" and "truthful S w"
  shows "keeps S (\<lambda>r w'. \<forall>cs. r = Inr cs \<longrightarrow> (\<forall>n t. gm_get cs n = Some t \<longrightarrow> t \<in> sv_tasks S w' \<and> tk_name t = n)) w
    (list_child_tasks (sv_kube S) x w)"
  unfolding list_child_tasks_def Let_def
proof (rule keeps_sum [OF keeps_quiet [OF assms(2) tasks_servedD(2) [OF serverD(1) [OF c]]]])
  fix items w1 assume w1: "truthful S w1" and i: "\<forall>ts. Inr items = Inr ts \<longrightarrow> set ts \<subseteq> sv_tasks S w1"
  show "keeps S (\<lambda>r w'. \<forall>cs. r = Inr cs \<longrightarrow> (\<forall>n t. gm_get cs n = Some t \<longrightarrow> t \<in> sv_tasks S w' \<and> tk_name t = n)) w1
    (Inr (foldl (\<lambda>m t. if meta_namespace (tk_meta t) = meta_namespace (wf_meta x) \<and>
        k_is_controlled_by (sv_kube S) (tk_meta t) (wf_meta x) then gm_put (tk_name t) t m else m) gm_empty items), w1)"
    (is "keeps S ?P w1 (Inr ?cs, w1)")
  proof (rule keeps_return [OF w1])
    have "t \<in> sv_tasks S w1 \<and> tk_name t = n" if "gm_get ?cs n = Some t" for n t
      using that by (rule foldl_put_stored) (use i in \<open>simp_all add: gm.get_emp\<close>)
    then show "?P (Inr ?cs) w1" by (simp only: sum.inject) blast
  qed
qed (auto intro: keeps_return)

section \<open>The two loops\<close>

text \<open>The phase map the loops share says of no node that it succeeded unless its Task has run.\<close>

definition phases_true :: "'w server \<Rightarrow> 'w \<Rightarrow> workflow \<Rightarrow> loop_state \<Rightarrow> bool" where
  "phases_true S w x st \<longleftrightarrow> (\<forall>d. phase_of (lp_phases st) d = NodeSucceeded \<longrightarrow>
     has_run S w (child_task_name (wf_name x) d))"

definition loop_keeps :: "'w server \<Rightarrow> workflow \<Rightarrow> 'w \<Rightarrow> 'w loop_result \<Rightarrow> bool" where
  "loop_keeps S x w res \<longleftrightarrow> (case res of (nodes, st, e, w') \<Rightarrow>
     truthful S w' \<and> grows S w w' \<and> nodes_true S w' x nodes \<and> phases_true S w' x st)"

lemma phases_true_mono: "phases_true S w x st \<Longrightarrow> grows S w w' \<Longrightarrow> phases_true S w' x st"
  by (auto simp: phases_true_def intro: has_run_mono)

lemma phases_true_put:
  "phases_true S w x st \<Longrightarrow> node_true S w x node \<Longrightarrow>
   lp_phases st' = gm_put (wn_name node) (wn_phase node) (lp_phases st) \<Longrightarrow> phases_true S w x st'"
  by (simp add: phases_true_def node_true_def phase_of_put)

lemma loop_keeps_stop:
  "truthful S w \<Longrightarrow> nodes_true S w x nodes \<Longrightarrow> phases_true S w x st \<Longrightarrow> loop_keeps S x w (nodes, st, e, w)"
  by (simp add: loop_keeps_def)

lemma loop_keeps_later: "grows S w w1 \<Longrightarrow> loop_keeps S x w1 res \<Longrightarrow> loop_keeps S x w res"
  by (auto simp: loop_keeps_def intro: grows_trans split: prod.splits)

lemma loop_keeps_cons: "node_true S w x node \<Longrightarrow> loop_keeps S x w res \<Longrightarrow> loop_keeps S x w (cons_node node res)"
  by (auto simp: loop_keeps_def cons_node_def nodes_true_def intro: node_true_mono split: prod.splits)

lemma nodes_true_Cons [simp]: "nodes_true S w x (node # nodes) \<longleftrightarrow> node_true S w x node \<and> nodes_true S w x nodes"
  by (simp add: nodes_true_def)

text \<open>A node takes over a success only from its own child Task.\<close>

lemma sync_node_true:
  assumes "truthful S w" "node_true S w x node"
    and "t \<in> sv_tasks S w" "tk_name t = child_task_name (wf_name x) (wn_name node)"
  shows "node_true S w x (fst (sync_node_from_task now node t))"
proof -
  have "has_run S w (child_task_name (wf_name x) (wn_name node))" if "st_phase (tk_status t) = TaskSucceeded"
    using truthful_task [OF assms(1,3)] that by (simp add: successful_def assms(4))
  with assms(2) show ?thesis
    by (auto simp: sync_node_from_task_def node_true_def Let_def split: task_phase.split)
qed

lemma sync_running_true:
  assumes c: "server_contract S" and k: "we_kube E = sv_kube S"
  shows "truthful S w \<Longrightarrow> known_as S w x \<Longrightarrow> nodes_true S w x nodes \<Longrightarrow> phases_true S w x st \<Longrightarrow>
    \<forall>n t. gm_get children n = Some t \<longrightarrow> t \<in> sv_tasks S w \<and> tk_name t = n \<Longrightarrow>
    loop_keeps S x w (sync_running E x g children nodes st w)"
proof (induction nodes arbitrary: st w)
  case Nil
  then show ?case by (simp add: loop_keeps_stop)
next
  case (Cons node nodes)
  let ?name = "child_task_name (wf_name x) (wn_name node)"
  have node: "node_true S w x node" and nodes: "nodes_true S w x nodes" using Cons.prems(3) by simp_all
  show ?case
  proof (cases "wn_phase node = NodeRunning")
    case False
    with loop_keeps_cons [OF node Cons.IH [OF Cons.prems(1,2) nodes Cons.prems(4,5)]] show ?thesis by simp
  next
    case run: True
    show ?thesis
    proof (cases "gm_get children ?name")
      case None
      have "deps_run S w x (wn_name node)" using node run by (simp add: node_true_def)
      note create = keeps_create_child [OF c Cons.prems(1,2) this, of g]
      obtain r w1 where m: "create_child_task (sv_kube S) x g (wn_name node) w = (r, w1)" by (metis surj_pair)
      from keepsD [OF create m] have w1: "truthful S w1" "grows S w w1" by simp_all
      have "\<forall>n t. gm_get children n = Some t \<longrightarrow> t \<in> sv_tasks S w1 \<and> tk_name t = n"
        using Cons.prems(5) w1(2) unfolding grows_def by blast
      from loop_keeps_cons [OF node_true_mono [OF node w1(2)] Cons.IH [OF w1(1) known_as_mono [OF Cons.prems(2) w1(2)]
            nodes_true_mono [OF nodes w1(2)] phases_true_mono [OF Cons.prems(4) w1(2)] this]]
        loop_keeps_stop [OF w1(1) nodes_true_mono [OF Cons.prems(3) w1(2)] phases_true_mono [OF Cons.prems(4) w1(2)]]
      have "loop_keeps S x w1 (case r of Inl e \<Rightarrow> (node # nodes, st, stop_loop e, w1)
          | Inr _ \<Rightarrow> cons_node node (sync_running E x g children nodes st w1))"
        by (simp split: sum.split)
      then show ?thesis using run None by (auto simp: k m intro: loop_keeps_later [OF w1(2)] split: sum.splits)
    next
      case (Some t)
      with Cons.prems(5) have t: "t \<in> sv_tasks S w" "tk_name t = ?name" by simp_all
      let ?now = "we_now E (NowNodeDone (wn_name node))"
      obtain node' synced where s: "sync_node_from_task ?now node t = (node', synced)" by (metis surj_pair)
      have n: "node_true S w x node'" using sync_node_true [OF Cons.prems(1) node t, of ?now] by (simp add: s)
      have p: "phases_true S w x \<lparr>lp_phases = gm_put (wn_name node') (wn_phase node') (lp_phases st),
          lp_running = i, lp_changed = True\<rparr>" for i
        by (rule phases_true_put [OF Cons.prems(4) n]) simp
      show ?thesis using run Some p
        by (auto simp: s Let_def intro!: loop_keeps_cons [OF n] Cons.IH [OF Cons.prems(1,2) nodes] Cons.prems(4,5))
    qed
  qed
qed

text \<open>A node that is ready has seen everything run that it waits for.\<close>

lemma ready_deps_run:
  assumes "build (wf_spec x) = Inr g" "phases_true S w x st" "fst (decide_node g (lp_phases st) n) = NodeReady"
  shows "deps_run S w x n"
proof -
  have "named_deps g" using built_graph_fit [OF built_graphI [OF assms(1)]] by (simp add: graph_fit_def)
  with assms(3) have "may_start g (phase_of (lp_phases st)) n" by (simp add: decide_start)
  with assms(2) show ?thesis
    by (auto simp: deps_run_def waits_for_def assms(1) may_start_def phases_true_def split: option.splits)
qed

lemma schedule_pending_true:
  assumes c: "server_contract S" and k: "we_kube E = sv_kube S" and b: "build (wf_spec x) = Inr g"
  shows "truthful S w \<Longrightarrow> known_as S w x \<Longrightarrow> nodes_true S w x nodes \<Longrightarrow> phases_true S w x st \<Longrightarrow>
    loop_keeps S x w (schedule_pending E x g nodes st w)"
proof (induction nodes arbitrary: st w)
  case Nil
  then show ?case by (simp add: loop_keeps_stop)
next
  case (Cons node nodes)
  have node: "node_true S w x node" and nodes: "nodes_true S w x nodes" using Cons.prems(3) by simp_all
  have skip: "loop_keeps S x w (cons_node node (schedule_pending E x g nodes st w))"
    by (rule loop_keeps_cons [OF node Cons.IH [OF Cons.prems(1,2) nodes Cons.prems(4)]])
  obtain a reason where d: "decide_node g (lp_phases st) (wn_name node) = (a, reason)" by (metis surj_pair)
  show ?case
  proof (cases "wn_phase node = NodePending")
    case False
    with skip show ?thesis by simp
  next
    case pending: True
    show ?thesis
    proof (cases a)
      case NodeWait
      with pending d skip show ?thesis by simp
    next
      case NodeSkip
      let ?node = "mark_node_skipped (we_now E (NowNodeSkipped (wn_name node))) node reason"
      have n: "node_true S w x ?node" by (simp add: node_true_def)
      have "phases_true S w x (st\<lparr>lp_phases := gm_put (wn_name ?node) (wn_phase ?node) (lp_phases st), lp_changed := True\<rparr>)"
        by (rule phases_true_put [OF Cons.prems(4) n]) simp
      from loop_keeps_cons [OF n Cons.IH [OF Cons.prems(1,2) nodes this]] pending d NodeSkip
      show ?thesis by (simp add: Let_def)
    next
      case NodeReady
      have dr: "deps_run S w x (wn_name node)" by (rule ready_deps_run [OF b Cons.prems(4)]) (simp add: d NodeReady)
      obtain r w1 where m: "create_child_task (sv_kube S) x g (wn_name node) w = (r, w1)" by (metis surj_pair)
      from keepsD [OF keeps_create_child [OF c Cons.prems(1,2) dr] m] have w1: "truthful S w1" "grows S w w1"
        and t: "\<And>t. r = Inr t \<Longrightarrow> t \<in> sv_tasks S w1 \<and> tk_name t = child_task_name (wf_name x) (wn_name node)" by simp_all
      note p1 = phases_true_mono [OF Cons.prems(4) w1(2)] and n1 = nodes_true_mono [OF nodes w1(2)]
      show ?thesis
      proof (cases r)
        case (Inl e)
        with pending d NodeReady skip loop_keeps_stop [OF w1(1) nodes_true_mono [OF Cons.prems(3) w1(2)] p1]
        show ?thesis by (auto simp: k m intro: loop_keeps_later [OF w1(2)])
      next
        case (Inr child)
        let ?node = "mark_node_running (we_now E (NowNodeStart (wn_name node))) node child"
        have "node_true S w1 x ?node" using deps_run_mono [OF dr w1(2)] by (simp add: node_true_def)
        from sync_node_true [OF w1(1) this, of child "we_now E (NowNodeDone (wn_name node))"] t [OF Inr]
        obtain node' synced where s: "sync_node_from_task (we_now E (NowNodeDone (wn_name node))) ?node child = (node', synced)"
          and n': "node_true S w1 x node'" by (cases "sync_node_from_task (we_now E (NowNodeDone (wn_name node))) ?node child") auto
        have "loop_keeps S x w1 (cons_node node' (schedule_pending E x g nodes
            \<lparr>lp_phases = gm_put (wn_name node') (wn_phase node') (lp_phases st), lp_running = i, lp_changed = True\<rparr> w1))" for i
          by (rule loop_keeps_cons [OF n' Cons.IH [OF w1(1) known_as_mono [OF Cons.prems(2) w1(2)] n1 phases_true_put [OF p1 n']]]) simp
        from loop_keeps_later [OF w1(2) this] skip pending d NodeReady
        show ?thesis by (simp add: k m Inr s Let_def)
      qed
    qed
  qed
qed

lemma initial_phases_true:
  assumes "nodes_true S w x nodes"
  shows "phases_true S w x (initial_loop_state nodes)"
  using assms
proof (induction nodes rule: rev_induct)
  case Nil
  show ?case by (simp add: phases_true_def initial_loop_state_def phase_of_def gm_get_or_def gm.get_emp)
next
  case (snoc node nodes)
  then have "phases_true S w x (initial_loop_state nodes)" "node_true S w x node" by (simp_all add: nodes_true_def)
  then show ?case by (rule phases_true_put) (simp add: initial_loop_state_def)
qed

lemma advance_loops_true:
  assumes c: "server_contract S" and k: "we_kube E = sv_kube S" and b: "build (wf_spec x) = Inr g"
    and w: "truthful S w" "workflow_based S w x"
    and t: "\<forall>n t. gm_get children n = Some t \<longrightarrow> t \<in> sv_tasks S w \<and> tk_name t = n"
  shows "loop_keeps S x w (advance_loops E x g children w)"
proof -
  let ?nodes = "ws_nodes (wf_status x)"
  have x: "known_as S w x" "nodes_true S w x ?nodes" using w(2) by (simp_all add: workflow_based_def status_nodes_def)
  obtain nodes1 st1 e w1 where r: "sync_running E x g children ?nodes (initial_loop_state ?nodes) w = (nodes1, st1, e, w1)"
    by (metis prod_cases4)
  from sync_running_true [OF c k w(1) x initial_phases_true [OF x(2)] t, of g] r
  have w1: "truthful S w1" "grows S w w1" "nodes_true S w1 x nodes1" "phases_true S w1 x st1"
    by (simp_all add: loop_keeps_def)
  have "loop_keeps S x w (nodes1, st1, e, w1)" using w1 by (simp add: loop_keeps_def)
  moreover have "loop_keeps S x w (schedule_pending E x g nodes1 st1 w1)"
    by (rule loop_keeps_later [OF w1(2) schedule_pending_true [OF c k b w1(1) known_as_mono [OF x(1) w1(2)] w1(3,4)]])
  ultimately show ?thesis by (cases e) (simp_all add: advance_loops_def r)
qed

section \<open>The whole pass\<close>

text \<open>A pass goes on with the Workflow it read: a result is that object with another status.\<close>

definition same_workflow :: "workflow \<Rightarrow> workflow \<Rightarrow> bool" where
  "same_workflow x y \<longleftrightarrow> wf_meta x = wf_meta y \<and> wf_spec x = wf_spec y"

lemma same_workflow_based:
  assumes "same_workflow x' x"
  shows "workflow_based S w x' \<longleftrightarrow> known_as S w x \<and> nodes_true S w x (status_nodes x')"
  using assms by (intro workflow_based_cong) (simp_all add: same_workflow_def)

lemma advance_nodes_true:
  assumes c: "server_contract S" and k: "we_kube E = sv_kube S" and b: "build (wf_spec x) = Inr g"
    and w: "truthful S w" "workflow_based S w x"
  shows "keeps S (\<lambda>r w'. \<forall>x' changed. r = Inr (x', changed) \<longrightarrow> same_workflow x' x \<and> workflow_based S w' x') w
    (advance_nodes E x g w)" (is "keeps S ?P w _")
  unfolding advance_nodes_def k
proof (rule keeps_sum [OF keeps_list_children [OF c w(1)]])
  fix children w1 assume w1: "truthful S w1" "grows S w w1"
    and "\<forall>cs. Inr children = Inr cs \<longrightarrow> (\<forall>n t. gm_get cs n = Some t \<longrightarrow> t \<in> sv_tasks S w1 \<and> tk_name t = n)"
  then have t: "\<forall>n t. gm_get children n = Some t \<longrightarrow> t \<in> sv_tasks S w1 \<and> tk_name t = n" by simp
  obtain nodes st e w2 where l: "advance_loops E x g children w1 = (nodes, st, e, w2)" by (metis prod_cases4)
  have n: "truthful S w2" "grows S w1 w2" "nodes_true S w2 x nodes"
    using advance_loops_true [OF c k b w1(1) workflow_based_mono [OF w(2) w1(2)] t] by (simp_all add: l loop_keeps_def)
  have x: "known_as S w2 x" using w(2) grows_trans [OF w1(2) n(2)] by (auto simp: workflow_based_def intro: known_as_mono)
  have "workflow_based S w2 x'" if "same_workflow x' x" "status_nodes x' = nodes" for x'
    using x n(3) that(2) by (simp add: same_workflow_based [OF that(1)])
  moreover have "same_workflow (with_nodes x nodes) x" "status_nodes (with_nodes x nodes) = nodes"
    "\<And>now m. same_workflow (fst (fail_workflow now (with_nodes x nodes) m)) x"
    "\<And>now m. status_nodes (fst (fail_workflow now (with_nodes x nodes) m)) = nodes"
    by (simp_all add: same_workflow_def) (simp_all add: status_nodes_def)
  ultimately have based: "same_workflow (with_nodes x nodes) x \<and> workflow_based S w2 (with_nodes x nodes)"
    "\<And>now m. same_workflow (fst (fail_workflow now (with_nodes x nodes) m)) x \<and>
       workflow_based S w2 (fst (fail_workflow now (with_nodes x nodes) m))" by blast+
  show "keeps S ?P w1 (case advance_loops E x g children w1 of
             (nodes, st, LoopDone, w2) \<Rightarrow> (Inr (with_nodes x nodes, lp_changed st), w2)
           | (nodes, st, LoopConflict m, w2) \<Rightarrow>
               (case fail_workflow (we_now E NowFailed) (with_nodes x nodes) m of
                  (x', failed) \<Rightarrow> (Inr (x', failed \<or> lp_changed st), w2))
           | (nodes, st, LoopError e, w2) \<Rightarrow> (Inl e, w2))"
    using n(1,2) based by (cases e) (simp_all add: l keeps_def case_prod_beta)
qed (auto intro: keeps_return)

lemma initialize_status_based:
  assumes "workflow_based S w x"
  shows "workflow_based S w (fst (initialize_status now x g))"
    "same_workflow (fst (initialize_status now x g)) x"
proof -
  show s: "same_workflow (fst (initialize_status now x g)) x" by (simp add: same_workflow_def)
  have "node_true S w x (init_node (nodes_by_name (status_nodes x)) n)" for n
    using assms nodes_by_name_Some [of "status_nodes x" n]
    by (auto simp: init_node_def workflow_based_def nodes_true_def node_true_def split: option.split)
  then show "workflow_based S w (fst (initialize_status now x g))"
    using assms unfolding same_workflow_based [OF s] initialize_status_nodes
    by (auto simp: workflow_based_def nodes_true_def)
qed

lemma graph_pass_true:
  assumes c: "server_contract S" and k: "we_kube E = sv_kube S" and b: "build (wf_spec x) = Inr g"
    and w: "truthful S w" "workflow_based S w x"
  shows "keeps S (\<lambda>r w'. \<forall>x' changed. r = Inr (x', changed) \<longrightarrow> workflow_based S w' x') w (graph_pass E x g w)"
    (is "keeps S ?P w _")
proof -
  obtain wf1 initialized where i: "initialize_status (we_now E NowStart) x g = (wf1, initialized)" by (metis surj_pair)
  have x1: "workflow_based S w wf1" "same_workflow wf1 x"
    using initialize_status_based [OF w(2), of "we_now E NowStart" g] by (simp_all add: i)
  have b1: "build (wf_spec wf1) = Inr g" using b x1(2) by (simp add: same_workflow_def)
  show ?thesis unfolding graph_pass_def i prod.case
  proof (rule keeps_sum [OF advance_nodes_true [OF c k b1 w(1) x1(1)]])
    fix r :: "workflow \<times> bool" and w1 assume w1: "truthful S w1" and r: "\<forall>x' changed. Inr r = Inr (x', changed) \<longrightarrow>
      same_workflow x' wf1 \<and> workflow_based S w1 x'"
    obtain wf2 advanced where p: "r = (wf2, advanced)" by (metis surj_pair)
    have s: "same_workflow (fst (summarize (we_now E NowSummary) wf2)) wf2" by (simp add: same_workflow_def)
    have "workflow_based S w1 wf2" using r by (simp add: p)
    then have "workflow_based S w1 (fst (summarize (we_now E NowSummary) wf2))"
      unfolding same_workflow_based [OF s] summarize_keeps by (simp add: workflow_based_def)
    then show "keeps S ?P w1 (case r of (wf2, advanced) \<Rightarrow> case summarize (we_now E NowSummary) wf2 of
        (wf3, summarized) \<Rightarrow> (Inr (wf3, advanced \<or> initialized \<or> summarized), w1))"
      using w1 by (auto simp: p keeps_def case_prod_beta)
  qed (auto intro: keeps_return)
qed

lemma reconcile_graph_keeps:
  assumes c: "server_contract S" and k: "we_kube E = sv_kube S" and b: "build (wf_spec x) = Inr g"
    and w: "truthful S w" "workflow_based S w x"
  shows "keeps_all S w (reconcile_graph E x g w)"
  unfolding reconcile_graph_def k
proof (rule keeps_sum [OF graph_pass_true [OF c k b w]])
  fix r :: "workflow \<times> bool" and w1 assume "truthful S w1" "\<forall>x' changed. Inr r = Inr (x', changed) \<longrightarrow> workflow_based S w1 x'"
  then show "keeps_all S w1 (case r of (x', changed) \<Rightarrow> if \<not> changed then (Inr no_result, w1)
      else update_status (sv_kube S) x' w1)"
    by (cases r) (auto intro: keeps_done keeps_update_status [OF c])
qed (auto intro: keeps_done)

text \<open>A status without changes to the nodes.\<close>

lemma status_based:
  "workflow_based S w x \<Longrightarrow> ws_nodes st = ws_nodes (wf_status x) \<Longrightarrow> workflow_based S w (x\<lparr>wf_status := st\<rparr>)"
  using same_workflow_based [of "x\<lparr>wf_status := st\<rparr>" x S w]
  by (simp add: same_workflow_def status_nodes_def workflow_based_def)

lemma mark_failed_keeps:
  assumes c: "server_contract S" and k: "we_kube E = sv_kube S" and w: "truthful S w" "workflow_based S w x"
  shows "keeps_all S w (mark_workflow_failed E x msg w)"
  unfolding mark_workflow_failed_def Let_def k
  by (intro keeps_if keeps_done w(1) keeps_update_status [OF c w(1)] status_based [OF w(2)]) simp

lemma reconcile_spec_keeps:
  assumes c: "server_contract S" and k: "we_kube E = sv_kube S" and w: "truthful S w" "workflow_based S w x"
  shows "keeps_all S w (reconcile_spec E x w)"
  unfolding reconcile_spec_def
  using mark_failed_keeps [OF assms] reconcile_graph_keeps [OF c k _ w] by (auto split: sum.split option.split)

lemma delete_children_keeps:
  assumes c: "server_contract S"
  shows "truthful S w \<Longrightarrow> keeps_all S w (delete_children (sv_kube S) cs k w)"
proof (induction cs arbitrary: k w)
  case (Cons t cs)
  have d: "keeps_all S w (k_delete_task (sv_kube S) t uid w)" for uid
    by (rule keeps_quiet [OF Cons.prems]) (simp add: tasks_servedD(6) [OF serverD(1) [OF c]])
  show ?case unfolding delete_children.simps
    by (intro keeps_if keeps_option [OF d] Cons.IH keeps_done Cons.prems)
qed (simp add: keeps_done)

lemma deletion_keeps:
  assumes c: "server_contract S" and k: "we_kube E = sv_kube S" and w: "truthful S w" "known_as S w x"
  shows "keeps_all S w (handle_deletion E x w)"
proof -
  have x: "known_as S w1 (x\<lparr>wf_meta := k_remove_finalizer (sv_kube S) (wf_meta x) f\<rparr>)" if "grows S w w1" for w1 f
    using known_as_mono [OF w(2) that] finalizer_keeps_identity [OF c disjI2 [OF refl], of "wf_meta x" f]
    by (simp add: known_as_def)
  show ?thesis unfolding handle_deletion_def Let_def k
    by (intro keeps_sum [OF keeps_any [OF keeps_list_children [OF c w(1)]]] keeps_sum [OF delete_children_keeps [OF c]]
        keeps_sum [OF keeps_update_workflow [OF c]] keeps_if keeps_done x)
      (auto intro: grows_trans)
qed

lemma workflow_pass_keeps:
  assumes c: "server_contract S" and k: "we_kube E = sv_kube S" and "truthful S w"
  shows "keeps_all S w (reconcile E name w)"
  unfolding reconcile_def Let_def k
proof (rule keeps_sum [OF keeps_quiet [OF assms(3) workflows_servedD(1) [OF serverD(2) [OF c]]]])
  fix x w1 assume w1: "truthful S w1" and "\<forall>x'. Inr x = Inr x' \<longrightarrow> x' \<in> sv_workflows S w1 \<and> wf_name x' = name"
  then have x: "workflow_based S w1 x" by (simp add: workflow_based_stored)
  then have a: "known_as S w1 x" by (simp add: workflow_based_def)
  then have f: "known_as S w1 (x\<lparr>wf_meta := k_add_finalizer (sv_kube S) (wf_meta x) workflow_finalizer\<rparr>)"
    using finalizer_keeps_identity [OF c disjI1 [OF refl], of "wf_meta x" workflow_finalizer] by (simp add: known_as_def)
  show "keeps_all S w1
    (if \<not> is_zero_time (om_deletion_timestamp (wf_meta x)) then handle_deletion E x w1
     else if \<not> k_contains_finalizer (sv_kube S) (wf_meta x) workflow_finalizer then
       (case k_update_workflow (sv_kube S) (x\<lparr>wf_meta := k_add_finalizer (sv_kube S) (wf_meta x) workflow_finalizer\<rparr>) w1 of
          (Inl e, w2) \<Rightarrow> (Inl (ClientError e), w2) | (Inr _, w2) \<Rightarrow> (Inr no_result, w2))
     else if is_workflow_terminal (ws_phase (wf_status x)) then
       (if ws_observed_generation (wf_status x) = om_generation (wf_meta x) then (Inr no_result, w1)
        else if can_retry_after_validation_failure x then reconcile_spec E x w1
        else update_status (sv_kube S) (x\<lparr>wf_status := (wf_status x)\<lparr>
               ws_observed_generation := om_generation (wf_meta x)\<rparr>\<rparr>) w1)
     else reconcile_spec E x w1)"
    by (intro keeps_if deletion_keeps [OF c k w1 a] keeps_sum [OF keeps_update_workflow [OF c w1 f]] keeps_done w1
        reconcile_spec_keeps [OF c k w1 x] keeps_update_status [OF c w1] status_based [OF x]) simp_all
qed (auto intro: keeps_if keeps_done)

end
