(* ===== verification/ClusterApi.thy ===== *)
theory ClusterApi
  imports ClusterTask Handlers
begin

text \<open>
  A request of a tenant to any endpoint keeps what is stored truthful: a tenant can neither make a Task
  that belongs to a Workflow nor write a status that claims a success.
\<close>

section \<open>The client of the API\<close>

text \<open>
  The rest of what the server is documented to do: a Workflow that is created gets an empty status and a
  UID that no object has or refers to; nothing else of what the handlers call stores a Task or Workflow.
\<close>

definition fresh_version :: "'w server \<Rightarrow> 'w \<Rightarrow> workflow \<Rightarrow> bool" where
  "fresh_version S w x \<longleftrightarrow> wf_status x = empty_workflow_status \<and> (\<forall>y \<in> sv_workflows S w. wf_uid y \<noteq> wf_uid x) \<and>
     (\<forall>t \<in> sv_tasks S w. \<not> controls S x t)"

definition client_contract :: "'w server \<Rightarrow> 'w mw_env \<Rightarrow> 'w http_client \<Rightarrow> bool" where
  "client_contract S M C \<longleftrightarrow> hc_kube C = sv_kube S \<and>
     (\<forall>x w r w'. hc_create_workflow C x w = (r, w') \<longrightarrow> quiet S w w' \<or>
        (\<exists>x'. fresh_version S w x' \<and> adds S w w' {} {x'})) \<and>
     (\<forall>l w r w'. hc_list_workflows C l w = (r, w') \<longrightarrow> quiet S w w') \<and>
     (\<forall>x uid w r w'. hc_delete_workflow C x uid w = (r, w') \<longrightarrow> quiet S w w') \<and>
     (\<forall>t uid w r w'. hc_delete_task C t uid w = (r, w') \<longrightarrow> quiet S w w') \<and>
     (\<forall>ns l w r w'. hc_list_pods C ns l w = (r, w') \<longrightarrow> quiet S w w') \<and>
     (\<forall>ns n opts w r w'. hc_open_logs C ns n opts w = (r, w') \<longrightarrow> quiet S w w') \<and>
     (\<forall>c a w r w'. authorize_resource M c a w = (r, w') \<longrightarrow> quiet S w w')"

lemma client_contractD:
  assumes "client_contract S M C"
  shows "hc_kube C = sv_kube S"
    "hc_create_workflow C x w = (r1, w') \<Longrightarrow> quiet S w w' \<or>
       (\<exists>x'. fresh_version S w x' \<and> adds S w w' {} {x'})"
    "hc_list_workflows C l w = (r2, w') \<Longrightarrow> quiet S w w'"
    "hc_delete_workflow C x uid w = (r3, w') \<Longrightarrow> quiet S w w'"
    "hc_delete_task C t uid w = (r3, w') \<Longrightarrow> quiet S w w'"
    "hc_list_pods C ns l w = (r4, w') \<Longrightarrow> quiet S w w'"
    "hc_open_logs C ns n opts w = (r5, w') \<Longrightarrow> quiet S w w'"
    "authorize_resource M c a w = (r6, w') \<Longrightarrow> quiet S w w'"
  by (use assms in \<open>simp add: client_contract_def; fail\<close>)+

lemma truthful_add_fresh:
  assumes w: "truthful S w" and a: "adds S w w' {} {x}" and f: "fresh_version S w x"
  shows "truthful S w'"
proof -
  have W: "sv_workflows S w' \<subseteq> insert x (sv_workflows S w)" and T: "sv_tasks S w' = sv_tasks S w"
    using a by (auto simp: adds_def grows_def)
  note g = adds_grows [OF a]
  show ?thesis unfolding truthful_def T
  proof (intro conjI ballI allI impI)
    fix y z assume y: "y \<in> sv_workflows S w'" "z \<in> sv_workflows S w'" "wf_uid y = wf_uid z"
    with W consider "y = x" "z = x" | "y = x" "z \<in> sv_workflows S w" | "y \<in> sv_workflows S w" "z = x"
      | "y \<in> sv_workflows S w" "z \<in> sv_workflows S w" by blast
    then have "wf_name y = wf_name z \<and> wf_spec y = wf_spec z"
      using y(3) f truthful_same [OF w, of y z] by cases (auto simp: fresh_version_def)
    then show "wf_name y = wf_name z" "wf_spec y = wf_spec z" by simp_all
  next
    fix t assume "t \<in> sv_tasks S w" "successful (tk_status t)"
    then show "has_run S w' (tk_name t)" by (rule has_run_mono [OF truthful_task [OF w] g])
  next
    fix y node assume y: "y \<in> sv_workflows S w'" "node \<in> set (ws_nodes (wf_status y))"
    with f have "y \<noteq> x" by (auto simp: fresh_version_def empty_workflow_status_def)
    with y W show "node_true S w' y node" by (intro node_true_mono [OF truthful_node [OF w] g]) auto
  next
    fix y t n assume y: "y \<in> sv_workflows S w'" and t: "t \<in> sv_tasks S w"
      and c: "controls S y t \<and> tk_name t = child_task_name (wf_name y) n"
    with f have "y \<noteq> x" by (auto simp: fresh_version_def)
    with y W c show "deps_run S w' y n" by (intro deps_run_mono [OF truthful_child [OF w _ t] g]) auto
  qed
qed

lemma keeps_create_workflow:
  assumes "client_contract S M C" "truthful S w"
  shows "keeps_all S w (hc_create_workflow C x w)"
proof -
  obtain r w' where m: "hc_create_workflow C x w = (r, w')" by (metis surj_pair)
  from client_contractD(2) [OF assms(1) m] consider "quiet S w w'" | x' where "fresh_version S w x'" "adds S w w' {} {x'}"
    by blast
  then have "truthful S w' \<and> grows S w w'"
    by cases (auto intro: truthful_quiet [OF assms(2)] truthful_add_fresh [OF assms(2)] adds_grows)
  then show ?thesis by (simp add: keeps_def m)
qed

text \<open>A Task without owners belongs to no Workflow.\<close>

lemma keeps_create_task:
  assumes c: "server_contract S" and "truthful S w" and o: "tk_owners t = []"
  shows "keeps_all S w (k_create_task (sv_kube S) t w)"
proof -
  obtain r w' where m: "k_create_task (sv_kube S) t w = (r, w')" by (metis surj_pair)
  from tasks_servedD(3) [OF serverD(1) [OF c] m] have a: "adds S w w' (created_as t) {}" by simp
  have "truthful S w'"
  proof (rule truthful_add_tasks [OF assms(2) a])
    fix t' assume t': "t' \<in> created_as t"
    then show "successful (tk_status t') \<Longrightarrow> has_run S w' (tk_name t')"
      by (simp add: created_as_def successful_def empty_task_status_def)
    fix x n assume "controls S x t'"
    moreover have "\<not> controls S x t'"
      using serverD(4) [OF c] t' o unfolding helpers_documented_def Let_def by (simp add: created_as_def)
    ultimately show "deps_run S w' x n" by blast
  qed
  with adds_grows [OF a] show ?thesis by (simp add: keeps_def m)
qed

section \<open>The handlers\<close>

lemma keeps_reply: "truthful S w \<Longrightarrow> keeps_all S w (reply status body c w)"
  by (rule keeps_done)

lemma keeps_reply_error: "truthful S w \<Longrightarrow> keeps_all S w (reply_error msg e c w)"
  unfolding reply_error_def by (intro keeps_if keeps_reply)

lemma keeps_option_case:
  "(\<And>x. v = Some x \<Longrightarrow> keeps S P w (f x)) \<Longrightarrow> (v = None \<Longrightarrow> keeps S P w g) \<Longrightarrow>
   keeps S P w (case v of None \<Rightarrow> g | Some x \<Rightarrow> f x)"
  by (cases v) simp_all

lemma keeps_sum_case:
  "(\<And>e. v = Inl e \<Longrightarrow> keeps S P w (f e)) \<Longrightarrow> (\<And>x. v = Inr x \<Longrightarrow> keeps S P w (g x)) \<Longrightarrow>
   keeps S P w (case v of Inl e \<Rightarrow> f e | Inr x \<Rightarrow> g x)"
  by (cases v) simp_all

lemma keeps_with_task:
  assumes c: "server_contract S" and k: "client_contract S M C" and w: "truthful S w"
    and h: "\<And>t w'. truthful S w' \<Longrightarrow> grows S w w' \<Longrightarrow> task_based S w' t \<Longrightarrow> keeps_all S w' (h t w')"
  shows "keeps_all S w (with_task C ctx h w)"
proof -
  have "keeps S (\<lambda>r w'. \<forall>t. r = Inr t \<longrightarrow> task_based S w' t) w
    (get_tenant_object scope (k_get_task (sv_kube S)) tk_meta resource n w)" for scope resource n
    unfolding get_tenant_object_def Let_def
    by (rule keeps_sum [OF keeps_get_task [OF c w]])
      (auto intro: keeps_return keeps_if task_based_stored)
  then show ?thesis unfolding with_task_def client_contractD(1) [OF k]
    by (rule keeps_sum) (auto intro: keeps_reply_error h)
qed

lemma keeps_with_workflow:
  assumes c: "server_contract S" and k: "client_contract S M C" and w: "truthful S w"
    and h: "\<And>x w'. truthful S w' \<Longrightarrow> keeps_all S w' (h x w')"
  shows "keeps_all S w (with_workflow C ctx h w)"
proof -
  have "keeps_all S w (k_get_workflow (sv_kube S) n w)" for n
    by (rule keeps_quiet [OF w]) (use workflows_servedD(1) [OF serverD(2) [OF c]] in blast)
  then have "keeps_all S w (get_tenant_object scope (k_get_workflow (sv_kube S)) wf_meta resource n w)" for scope resource n
    unfolding get_tenant_object_def Let_def by (rule keeps_sum) (auto intro: keeps_done)
  then show ?thesis unfolding with_workflow_def client_contractD(1) [OF k]
    by (rule keeps_sum) (auto intro: keeps_reply_error h)
qed

text \<open>In the scope of a tenant a Task or Workflow that is sent has no owners.\<close>

abbreviation tenant_scope :: "gin_ctx \<Rightarrow> bool" where
  "tenant_scope c \<equiv> ctx_namespace (gc_scope c) \<noteq> []"

lemma prepared_owners: "tenant_scope c \<Longrightarrow> om_owner_references (prepare_tenant_create (gc_scope c) m) = []"
  by (simp add: prepare_tenant_create_def Let_def)

lemma task_create_keeps:
  assumes c: "server_contract S" and k: "client_contract S M C" and w: "truthful S w" and "tenant_scope ctx"
  shows "keeps_all S w (task_create C ctx w)"
  unfolding task_create_def Let_def client_contractD(1) [OF k]
  by (intro keeps_sum_case keeps_option_case keeps_reply w
      keeps_sum [OF keeps_create_task [OF c w]] keeps_if keeps_done) (simp_all add: prepared_owners [OF assms(4)])

lemma task_list_keeps:
  assumes c: "server_contract S" and k: "client_contract S M C" and w: "truthful S w"
  shows "keeps_all S w (task_list C ctx w)" "keeps_all S w (task_stats C ctx w)" "keeps_all S w (task_trend C ctx w)"
proof -
  have l: "keeps_all S w (k_list_tasks (sv_kube S) l w)" for l
    by (rule keeps_quiet [OF w]) (use tasks_servedD(2) [OF serverD(1) [OF c]] in blast)
  show "keeps_all S w (task_list C ctx w)" unfolding task_list_def Let_def client_contractD(1) [OF k]
    by (intro keeps_sum [OF l] keeps_reply) (auto intro: keeps_done split: option.split)
  show "keeps_all S w (task_stats C ctx w)" "keeps_all S w (task_trend C ctx w)"
    unfolding task_stats_def task_trend_def Let_def client_contractD(1) [OF k]
    by (intro keeps_sum [OF l] keeps_reply; assumption)+
qed

lemma apply_update_identity: "tk_name (apply_update t u) = tk_name t" "tk_owners (apply_update t u) = tk_owners t"
    "tk_status (apply_update t u) = tk_status t"
  by (simp_all add: apply_update_def set_namespace_def Let_def)

lemma task_update_keeps:
  assumes c: "server_contract S" and k: "client_contract S M C" and w: "truthful S w"
  shows "keeps_all S w (task_update C ctx w)"
  unfolding task_update_def
proof (rule keeps_with_task [OF c k w])
  fix t w1 assume w1: "truthful S w1" and t: "task_based S w1 t"
  have b: "task_based S w1 (apply_update t u)" for u
    by (rule task_based_cong [OF t]) (simp_all add: apply_update_identity)
  show "keeps_all S w1 (case rq_task (gc_request ctx) of
        Inl e \<Rightarrow> reply 400 (ErrorBody e) ctx w1
      | Inr updated \<Rightarrow>
          if ts_type (tk_spec updated) = TaskTypeCron \<and> k_parse_cron (hc_kube C) (ts_schedule (tk_spec updated)) = None
          then reply 400 (ErrorBody (''invalid cron expression: '' @ hc_cron_error C (ts_schedule (tk_spec updated)))) ctx w1
          else case k_update_task (hc_kube C) (apply_update t updated) w1 of
            (Inl e, w') \<Rightarrow> reply 500 (ErrorBody (api_text e)) ctx w'
          | (Inr t, w') \<Rightarrow> reply 200 (TaskBody t) ctx w')"
    unfolding client_contractD(1) [OF k]
    by (intro keeps_sum_case keeps_if keeps_reply w1 keeps_sum [OF keeps_update_task [OF c w1 b]])
qed

lemma task_trigger_keeps:
  assumes c: "server_contract S" and k: "client_contract S M C" and w: "truthful S w"
  shows "keeps_all S w (task_trigger C ctx w)"
  unfolding task_trigger_def
proof (rule keeps_with_task [OF c k w])
  fix t w1 assume w1: "truthful S w1" and t: "task_based S w1 t"
  have b: "task_based S w1 (mark_triggered now t)" for now
    by (rule task_based_cong [OF t]) (simp_all add: mark_triggered_def)
  have u: "task_based S w2 (set_status t' ((tk_status t')\<lparr>st_last_schedule_time := None, st_active_jobs := []\<rparr>))"
    if "task_based S w2 t'" for w2 t'
    by (rule task_based_cong [OF that]) (simp_all add: successful_def)
  show "keeps_all S w1 (case k_update_task (hc_kube C) (mark_triggered (hc_now C w1) t) w1 of
        (Inl e, w') \<Rightarrow> reply 500 (ErrorBody (api_text e)) ctx w'
      | (Inr t', w') \<Rightarrow>
          (let st = (tk_status t')\<lparr>st_last_schedule_time := None, st_active_jobs := []\<rparr> in
           case k_update_task_status (hc_kube C) (set_status t' st) w' of
             (Inl e, w'') \<Rightarrow> reply 500 (ErrorBody (api_text e)) ctx w''
           | (Inr t'', w'') \<Rightarrow> reply 200 (MessageBody ''task triggered'' (Some (tk_name t''))) ctx w''))"
    unfolding client_contractD(1) [OF k] Let_def
    by (intro keeps_sum [OF keeps_update_task [OF c w1 b]] keeps_reply keeps_sum [OF keeps_update_task_status [OF c]] u)
      simp_all
qed

lemma set_suspend_keeps:
  assumes c: "server_contract S" and k: "client_contract S M C" and w: "truthful S w"
  shows "keeps_all S w (set_suspend b msg C ctx w)"
  unfolding set_suspend_def
proof (rule keeps_with_task [OF c k w])
  fix t w1 assume w1: "truthful S w1" and t: "task_based S w1 t"
  have u: "task_based S w1 (t\<lparr>tk_spec := (tk_spec t)\<lparr>ts_suspend := Some b\<rparr>\<rparr>)"
    by (rule task_based_cong [OF t]) simp_all
  show "keeps_all S w1 (case k_update_task (hc_kube C) (t\<lparr>tk_spec := (tk_spec t)\<lparr>ts_suspend := Some b\<rparr>\<rparr>) w1 of
        (Inl e, w') \<Rightarrow> reply 500 (ErrorBody (api_text e)) ctx w'
      | (Inr t', w') \<Rightarrow> reply 200 (MessageBody msg (Some (tk_name t'))) ctx w')"
    unfolding client_contractD(1) [OF k]
    by (intro keeps_sum [OF keeps_update_task [OF c w1 u]] keeps_reply)
qed

lemma delete_found_keeps:
  assumes k: "client_contract S M C" and w: "truthful S w"
  shows "keeps_all S w (delete_found_task C ctx t w)"
proof -
  have "keeps_all S w (hc_delete_task C t uid w)" for uid
    by (rule keeps_quiet [OF w]) (simp add: client_contractD(5) [OF k])
  then show ?thesis unfolding delete_found_task_def by (rule keeps_option) (auto intro: keeps_reply keeps_reply_error)
qed

lemma task_delete_keeps:
  assumes c: "server_contract S" and k: "client_contract S M C" and w: "truthful S w"
  shows "keeps_all S w (task_delete C ctx w)"
  unfolding task_delete_def by (intro keeps_if keeps_with_task [OF c k w] delete_found_keeps [OF k] w)

lemma log_stream_keeps:
  assumes c: "server_contract S" and k: "client_contract S M C" and w: "truthful S w"
  shows "keeps_all S w (log_stream M C ctx w)"
  unfolding log_stream_def
proof (rule keeps_with_task [OF c k w])
  fix t w1 assume w1: "truthful S w1"
  have pods: "keeps_all S w (hc_list_pods C ns l w)" if "truthful S w" for w ns l
    by (rule keeps_quiet [OF that]) (simp add: client_contractD(6) [OF k])
  have logs: "keeps_all S w (hc_open_logs C ns n opts w)" if "truthful S w" for w ns n opts
    by (rule keeps_quiet [OF that]) (simp add: client_contractD(7) [OF k])
  have auth: "keeps_all S w (authorize_resource M ctx a w)" if "truthful S w" for w a
    by (rule keeps_quiet [OF that]) (simp add: client_contractD(8) [OF k])
  have stream: "keeps_all S w (stream_pod M C ctx pod w)" if "truthful S w" for w pod
    unfolding stream_pod_def
    by (intro keeps_option [OF auth [OF that]] keeps_done keeps_sum [OF logs] keeps_reply)
  show "keeps_all S w1 (case list_task_jobs (hc_kube C) t w1 of
        (Inl e, w') \<Rightarrow> reply 500 (ErrorBody (api_text e)) ctx w'
      | (Inr jobs, w') \<Rightarrow>
          if jobs = [] then reply 404 (ErrorBody ''no jobs found for task'') ctx w'
          else (let j = last jobs in
            case hc_list_pods C (om_namespace (jb_meta j)) (gm_put ''job-name'' (jb_name j) gm_empty) w' of
              (Inl e, w'') \<Rightarrow> reply 500 (ErrorBody (api_text e)) ctx w''
            | (Inr pods, w'') \<Rightarrow>
                (let pods = last_job_pods C t j pods in
                 if pods = [] then reply 404 (ErrorBody ''no pods found for job'') ctx w''
                 else stream_pod M C ctx (last pods) w'')))"
    unfolding client_contractD(1) [OF k] Let_def
    by (intro keeps_sum [OF list_jobs_keeps [OF c w1]] keeps_if keeps_reply keeps_sum [OF pods] stream)
qed

lemma workflow_endpoints_keep:
  assumes c: "server_contract S" and k: "client_contract S M C" and w: "truthful S w"
  shows "keeps_all S w (workflow_create C ctx w)" "keeps_all S w (workflow_list C ctx w)"
    "keeps_all S w (workflow_get C ctx w)" "keeps_all S w (workflow_delete C ctx w)"
proof -
  show "keeps_all S w (workflow_create C ctx w)" unfolding workflow_create_def Let_def write_workflow_validation_error_def
    by (intro keeps_sum_case keeps_option_case keeps_reply w keeps_sum [OF keeps_create_workflow [OF k w]] keeps_if keeps_done)
  have l: "keeps_all S w (hc_list_workflows C l w)" for l
    by (rule keeps_quiet [OF w]) (simp add: client_contractD(3) [OF k])
  show "keeps_all S w (workflow_list C ctx w)" unfolding workflow_list_def Let_def
    by (intro keeps_sum [OF l] keeps_reply) (auto intro: keeps_done split: option.split)
  have d: "keeps_all S w (hc_delete_workflow C x uid w)" if "truthful S w" for w x uid
    by (rule keeps_quiet [OF that]) (simp add: client_contractD(4) [OF k])
  show "keeps_all S w (workflow_get C ctx w)" "keeps_all S w (workflow_delete C ctx w)"
    unfolding workflow_get_def workflow_delete_def
    by (intro keeps_with_workflow [OF c k w] keeps_option [OF d] keeps_reply keeps_reply_error; assumption)+
qed

lemma api_handler_keeps:
  assumes c: "server_contract S" and k: "client_contract S M C" and w: "truthful S w" and t: "tenant_scope ctx"
  shows "keeps_all S w (api_handler M C ctx w)"
  unfolding api_handler_def Let_def task_suspend_def task_resume_def task_get_def
  by (intro keeps_if task_create_keeps [OF c k w t] task_list_keeps [OF c k w] task_update_keeps [OF c k w]
      task_delete_keeps [OF c k w] task_trigger_keeps [OF c k w] set_suspend_keeps [OF c k w] log_stream_keeps [OF c k w]
      workflow_endpoints_keep [OF c k w] keeps_with_task [OF c k w] keeps_reply w)

end
