(* ===== verification/ClusterRuns.thy ===== *)
theory ClusterRuns
  imports ClusterWorkflow ClusterApi
begin

text \<open>
  The system as a step relation: passes of both controllers over any objects, requests of tenants and
  what else happens in a cluster, in any order; and what holds in every state it reaches.
\<close>

section \<open>Steps\<close>

text \<open>
  What others may store.  A Task has no controller among the Workflows, or the owners some version of
  it already had; its status claims no success, or is one it already had; a Workflow that is edited
  keeps its spec and status.  Nothing is said about Jobs.
\<close>

definition foreign_task :: "'w server \<Rightarrow> 'w \<Rightarrow> task \<Rightarrow> bool" where
  "foreign_task S w t \<longleftrightarrow>
     ((\<forall>x \<in> sv_workflows S w. \<not> controls S x t) \<or>
      (\<exists>s \<in> sv_tasks S w. tk_name s = tk_name t \<and> tk_owners s = tk_owners t)) \<and>
     (successful (tk_status t) \<longrightarrow> (\<exists>s \<in> sv_tasks S w. tk_name s = tk_name t \<and> tk_status s = tk_status t))"

definition foreign_workflow :: "'w server \<Rightarrow> 'w \<Rightarrow> workflow \<Rightarrow> bool" where
  "foreign_workflow S w x \<longleftrightarrow> (\<exists>y \<in> sv_workflows S w. wf_uid y = wf_uid x \<and> wf_name y = wf_name x \<and>
     wf_spec y = wf_spec x \<and> wf_status y = wf_status x)"

inductive cluster_step :: "'w server \<Rightarrow> 'w mw_env \<Rightarrow> 'w http_client \<Rightarrow> 'w \<Rightarrow> 'w \<Rightarrow> bool" for S M C where
  workflow_pass: "we_kube E = sv_kube S \<Longrightarrow> reconcile E name w = (res, w') \<Longrightarrow> cluster_step S M C w w'"
| task_pass: "te_kube F = sv_kube S \<Longrightarrow> reconcile_task F name w = (res, w') \<Longrightarrow> cluster_step S M C w w'"
| request: "tenant_scope c \<Longrightarrow> api_handler M C c w = (out, w') \<Longrightarrow> cluster_step S M C w w'"
| created: "fresh_version S w x \<Longrightarrow> adds S w w' {} {x} \<Longrightarrow> cluster_step S M C w w'"
| tasks_edited: "adds S w w' {t. foreign_task S w t} {} \<Longrightarrow> cluster_step S M C w w'"
| workflows_edited: "adds S w w' {} {x. foreign_workflow S w x} \<Longrightarrow> cluster_step S M C w w'"

abbreviation cluster_run :: "'w server \<Rightarrow> 'w mw_env \<Rightarrow> 'w http_client \<Rightarrow> 'w \<Rightarrow> 'w \<Rightarrow> bool" where
  "cluster_run S M C \<equiv> (cluster_step S M C)\<^sup>*\<^sup>*"

lemma foreign_tasks_truthful:
  assumes w: "truthful S w" and c: "server_contract S" and a: "adds S w w' {t. foreign_task S w t} {}"
  shows "truthful S w'"
proof (rule truthful_add_tasks [OF w a])
  note g = adds_grows [OF a]
  fix t assume t: "t \<in> {t. foreign_task S w t}"
  show "has_run S w' (tk_name t)" if "successful (tk_status t)"
  proof -
    from t that obtain s where s: "s \<in> sv_tasks S w" "tk_name s = tk_name t" "tk_status s = tk_status t"
      by (auto simp: foreign_task_def)
    with truthful_task [OF w s(1)] that have "has_run S w (tk_name t)" by simp
    then show ?thesis by (rule has_run_mono [OF _ g])
  qed
  fix x n assume x: "x \<in> sv_workflows S w" "controls S x t" "tk_name t = child_task_name (wf_name x) n"
  with t obtain s where s: "s \<in> sv_tasks S w" "tk_name s = tk_name t" "tk_owners s = tk_owners t"
    by (auto simp: foreign_task_def)
  have "controls S x s" using x(2) controlled_cong [OF serverD(4) [OF c] s(3) refl] by simp
  from truthful_child [OF w x(1) s(1) this] s(2) x(3) have "deps_run S w x n" by simp
  then show "deps_run S w' x n" by (rule deps_run_mono [OF _ g])
qed

lemma foreign_workflows_truthful:
  assumes w: "truthful S w" and c: "server_contract S" and a: "adds S w w' {} {x. foreign_workflow S w x}"
  shows "truthful S w'"
proof (rule truthful_add_workflows [OF w a serverD(4) [OF c]])
  fix x assume "x \<in> {x. foreign_workflow S w x}"
  then obtain y where y: "y \<in> sv_workflows S w" "wf_uid y = wf_uid x" "wf_name y = wf_name x" "wf_spec y = wf_spec x"
    "wf_status y = wf_status x" by (auto simp: foreign_workflow_def)
  then show "\<exists>y \<in> sv_workflows S w. wf_uid y = wf_uid x \<and> wf_name y = wf_name x \<and> wf_spec y = wf_spec x" by blast
  fix node assume "node \<in> set (ws_nodes (wf_status x))"
  then have "node_true S w y node" using truthful_node [OF w y(1)] y(5) by simp
  then have "node_true S w' y node" by (rule node_true_mono [OF _ adds_grows [OF a]])
  then show "node_true S w' x node" by (simp add: node_true_cong [OF y(4,3)])
qed

lemma cluster_step_truthful:
  assumes "cluster_step S M C w w'" and c: "server_contract S" and k: "client_contract S M C" and w: "truthful S w"
  shows "truthful S w'"
  using assms(1)
proof cases
  case (workflow_pass E name res)
  show ?thesis using keepsD [OF workflow_pass_keeps [OF c workflow_pass(1) w] workflow_pass(2)] by simp
next
  case (task_pass F name res)
  show ?thesis using keepsD [OF task_pass_keeps [OF c task_pass(1) w] task_pass(2)] by simp
next
  case (request ctx out)
  show ?thesis using keepsD [OF api_handler_keeps [OF c k w request(1)] request(2)] by simp
next
  case (created x)
  show ?thesis by (rule truthful_add_fresh [OF w created(2,1)])
next
  case tasks_edited
  then show ?thesis by (rule foreign_tasks_truthful [OF w c])
next
  case workflows_edited
  then show ?thesis by (rule foreign_workflows_truthful [OF w c])
qed

lemma truthful_empty: "sv_workflows S w = {} \<Longrightarrow> sv_tasks S w = {} \<Longrightarrow> truthful S w"
  by (simp add: truthful_def)

lemma cluster_run_truthful:
  assumes "cluster_run S M C w0 w" and "server_contract S" "client_contract S M C"
    and "sv_workflows S w0 = {}" "sv_tasks S w0 = {}"
  shows "truthful S w"
  using assms(1)
proof (induction rule: rtranclp_induct)
  case base
  show ?case by (rule truthful_empty [OF assms(4,5)])
next
  case (step v w)
  show ?case by (rule cluster_step_truthful [OF step(2) assms(2,3) step(3)])
qed

text \<open>
  C1. No node starts before its dependencies have run, from end to end. However the passes of the two
  controllers over any Workflows and Tasks interleave with each other, with the requests of tenants and
  with other edits of the cluster (which leave the spec and the status of a Workflow alone and forge neither
  an owner reference nor a success), whatever stale versions they read and whichever of their writes
  fail: when a Task was ever stored that a Workflow controls under the name of the child of node n, then
  for every node d that n waits for a Job of the child Task of d has completed; and no node was ever
  stored as Succeeded without a completed Job of its own.
\<close>

theorem no_node_before_its_dependencies:
  assumes "server_contract S" and "client_contract S M C"
    and "sv_workflows S w0 = {}" and "sv_tasks S w0 = {}" and "cluster_run S M C w0 w"
    and "x \<in> sv_workflows S w"
  shows "(\<forall>t \<in> sv_tasks S w. \<forall>n d. controls S x t \<and> tk_name t = child_task_name (wf_name x) n \<and> waits_for x n d \<longrightarrow>
      has_run S w (child_task_name (wf_name x) d)) \<and>
    (\<forall>node \<in> set (ws_nodes (wf_status x)). wn_phase node = NodeSucceeded \<longrightarrow>
      has_run S w (child_task_name (wf_name x) (wn_name node)))"
proof -
  note t = cluster_run_truthful [OF assms(5,1-4)]
  have "has_run S w (child_task_name (wf_name x) d)"
    if "u \<in> sv_tasks S w" "controls S x u" "tk_name u = child_task_name (wf_name x) n" "waits_for x n d" for u n d
    using truthful_child [OF t assms(6) that(1-3)] that(4) by (simp add: deps_run_def)
  moreover have "has_run S w (child_task_name (wf_name x) (wn_name node))"
    if "node \<in> set (ws_nodes (wf_status x))" "wn_phase node = NodeSucceeded" for node
    using truthful_node [OF t assms(6) that(1)] that(2) by (simp add: node_true_def)
  ultimately show ?thesis by blast
qed

section \<open>A server with a history\<close>

text \<open>
  A server in memory that keeps every version, newest first, and answers with the newest of each name.
  It assigns UIDs longer than all that were used, drops a status that is sent with a new object, keeps
  spec and status apart, and never finishes a deletion.
\<close>

record versions =
  vs_workflows :: "workflow list"
  vs_tasks :: "task list"
  vs_jobs :: "job list"

definition no_versions :: versions where
  "no_versions = \<lparr>vs_workflows = [], vs_tasks = [], vs_jobs = []\<rparr>"

definition newest :: "('a \<Rightarrow> string) \<Rightarrow> string \<Rightarrow> 'a list \<Rightarrow> api_error + 'a" where
  "newest f n xs = (case List.find (\<lambda>x. f x = n) xs of None \<Rightarrow> Inl (missing n) | Some x \<Rightarrow> Inr x)"

fun current :: "('a \<Rightarrow> string) \<Rightarrow> 'a list \<Rightarrow> 'a list" where
  "current f [] = []"
| "current f (x # xs) = x # filter (\<lambda>y. f y \<noteq> f x) (current f xs)"

definition create_version :: "('a \<Rightarrow> string) \<Rightarrow> 'a \<Rightarrow> 'a list \<Rightarrow> (api_error + 'a) \<times> 'a list" where
  "create_version f x xs = (case newest f (f x) xs of
     Inl _ \<Rightarrow> (Inr x, x # xs) | Inr _ \<Rightarrow> (Inl (ApiError AlreadyExists (f x @ '' already exists'')), xs))"

text \<open>An update goes through when \<open>ok\<close> accepts the stored version, and stores what \<open>upd\<close> makes of it.\<close>

definition update_version ::
  "('a \<Rightarrow> string) \<Rightarrow> string \<Rightarrow> ('a \<Rightarrow> bool) \<Rightarrow> ('a \<Rightarrow> 'a) \<Rightarrow> 'a list \<Rightarrow> (api_error + 'a) \<times> 'a list" where
  "update_version f n ok upd xs = (case newest f n xs of
     Inl e \<Rightarrow> (Inl e, xs)
   | Inr s \<Rightarrow> if ok s then (Inr (upd s), upd s # xs) else (Inl (ApiError Conflict n), xs))"

definition store_workflows :: "('r \<times> workflow list) \<Rightarrow> versions \<Rightarrow> 'r \<times> versions" where
  "store_workflows p w = (fst p, w\<lparr>vs_workflows := snd p\<rparr>)"

definition store_tasks :: "('r \<times> task list) \<Rightarrow> versions \<Rightarrow> 'r \<times> versions" where
  "store_tasks p w = (fst p, w\<lparr>vs_tasks := snd p\<rparr>)"

definition store_jobs :: "('r \<times> job list) \<Rightarrow> versions \<Rightarrow> 'r \<times> versions" where
  "store_jobs p w = (fst p, w\<lparr>vs_jobs := snd p\<rparr>)"

definition version_kube :: "versions kube" where
  "version_kube = \<lparr>
     k_get_workflow = (\<lambda>n w. (newest wf_name n (vs_workflows w), w)),
     k_update_workflow = (\<lambda>x w. store_workflows (update_version wf_name (wf_name x) (\<lambda>s. wf_uid s = wf_uid x)
        (\<lambda>s. x\<lparr>wf_status := wf_status s\<rparr>) (vs_workflows w)) w),
     k_update_workflow_status = (\<lambda>x w. store_workflows (update_version wf_name (wf_name x) (\<lambda>s. wf_uid s = wf_uid x)
        (\<lambda>s. s\<lparr>wf_status := wf_status x\<rparr>) (vs_workflows w)) w),
     k_get_task = (\<lambda>n w. (newest tk_name n (vs_tasks w), w)),
     k_list_tasks = (\<lambda>l w. (Inr (filter (\<lambda>t. has_labels l (tk_meta t)) (current tk_name (vs_tasks w))), w)),
     k_create_task = (\<lambda>t w. store_tasks (create_version tk_name (t\<lparr>tk_status := empty_task_status\<rparr>) (vs_tasks w)) w),
     k_update_task = (\<lambda>t w. store_tasks (update_version tk_name (tk_name t) (\<lambda>s. True)
        (\<lambda>s. t\<lparr>tk_status := tk_status s\<rparr>) (vs_tasks w)) w),
     k_update_task_status = (\<lambda>t w. store_tasks (update_version tk_name (tk_name t) (\<lambda>s. True)
        (\<lambda>s. s\<lparr>tk_status := tk_status t\<rparr>) (vs_tasks w)) w),
     k_delete_task = (\<lambda>t uid w. (None, w)),
     k_list_jobs = (\<lambda>ns l w. (Inr (filter (\<lambda>j. om_namespace (jb_meta j) = ns \<and> has_labels l (jb_meta j))
        (current jb_name (vs_jobs w))), w)),
     k_create_job = (\<lambda>j w. store_jobs (create_version jb_name j (vs_jobs w)) w),
     k_delete_job = (\<lambda>j w. (None, w)),
     k_is_controlled_by = sample_controlled,
     k_set_controller_reference = k_set_controller_reference (kind_kube ''Workflow''),
     k_contains_finalizer = k_contains_finalizer sample_kube,
     k_add_finalizer = k_add_finalizer sample_kube,
     k_remove_finalizer = k_remove_finalizer sample_kube,
     k_parse_cron = sample_cron\<rparr>"

definition version_server :: "versions server" where
  "version_server = \<lparr>sv_kube = version_kube, sv_workflows = (\<lambda>w. set (vs_workflows w)),
     sv_tasks = (\<lambda>w. set (vs_tasks w)), sv_jobs = (\<lambda>w. set (vs_jobs w))\<rparr>"

definition used_uids :: "versions \<Rightarrow> string list" where
  "used_uids w = map wf_uid (vs_workflows w) @ concat (map (\<lambda>t. map or_uid (tk_owners t)) (vs_tasks w))"

definition fresh_uid :: "versions \<Rightarrow> string" where
  "fresh_uid w = replicate (Suc (sum_list (map length (used_uids w)))) (CHR ''u'')"

definition version_mw :: "versions mw_env" where
  "version_mw = \<lparr>me_authenticate = None, me_authorize = None, me_expired = (\<lambda>w. (False, w)),
     me_create_event = (\<lambda>ns e w. (None, w)), me_instance = [], me_now = (\<lambda>w. 0)\<rparr>"

definition version_http :: "versions http_client" where
  "version_http = \<lparr>hc_kube = version_kube,
     hc_list_workflows = (\<lambda>l w. (Inr (filter (\<lambda>x. has_labels l (wf_meta x)) (current wf_name (vs_workflows w))), w)),
     hc_create_workflow = (\<lambda>x w. store_workflows (create_version wf_name (x\<lparr>wf_status := empty_workflow_status,
        wf_meta := (wf_meta x)\<lparr>om_uid := fresh_uid w\<rparr>\<rparr>) (vs_workflows w)) w),
     hc_delete_workflow = (\<lambda>x uid w. (None, w)), hc_delete_task = (\<lambda>t uid w. (None, w)),
     hc_list_pods = (\<lambda>ns m w. (Inr [], w)), hc_open_logs = (\<lambda>ns n opts w. (Inr [], w)),
     hc_cron_error = (\<lambda>s. []), hc_now = (\<lambda>w. 0), hc_local = (\<lambda>t. 0), hc_visit = (\<lambda>ks. ks)\<rparr>"

lemma newest_Inr: "newest f n xs = Inr x \<Longrightarrow> x \<in> set xs \<and> f x = n"
  by (auto simp: newest_def find_Some_iff split: option.splits)

lemma current_subset: "set (current f xs) \<subseteq> set xs"
  by (induction xs) auto

lemma update_version_adds:
  assumes "update_version f n ok upd xs = (r, xs')"
  shows "set xs \<subseteq> set xs'" "set xs' \<subseteq> set xs \<union> {upd s |s. s \<in> set xs \<and> f s = n \<and> ok s}"
    "r = Inr x \<Longrightarrow> x \<in> set xs' \<and> (\<exists>s \<in> set xs. x = upd s \<and> f s = n \<and> ok s)"
  using assms newest_Inr [of f n xs] by (auto simp: update_version_def split: sum.splits if_splits)

lemma create_version_adds:
  assumes "create_version f x xs = (r, xs')"
  shows "xs' = xs \<or> xs' = x # xs" "r = Inr y \<Longrightarrow> y = x \<and> x \<in> set xs'"
  using assms by (auto simp: create_version_def split: sum.splits)

lemma version_server_simps [simp]:
  "sv_kube version_server = version_kube" "sv_workflows version_server w = set (vs_workflows w)"
  "sv_tasks version_server w = set (vs_tasks w)" "sv_jobs version_server w = set (vs_jobs w)"
  by (simp_all add: version_server_def)

lemma adds_versions:
  "adds version_server w w' T W \<longleftrightarrow> set (vs_workflows w) \<subseteq> set (vs_workflows w') \<and> set (vs_tasks w) \<subseteq> set (vs_tasks w') \<and>
     set (vs_jobs w) \<subseteq> set (vs_jobs w') \<and> set (vs_tasks w') \<subseteq> set (vs_tasks w) \<union> T \<and>
     set (vs_workflows w') \<subseteq> set (vs_workflows w) \<union> W"
  by (simp add: adds_def grows_def)

lemma version_tasks_served: "tasks_served version_server"
proof -
  have get: "adds version_server w w' {} {} \<and> (\<forall>t. r = Inr t \<longrightarrow> t \<in> set (vs_tasks w') \<and> tk_name t = n)"
    if "k_get_task version_kube n w = (r, w')" for n w r w'
    using that newest_Inr [of tk_name n "vs_tasks w"] by (auto simp: version_kube_def adds_versions)
  have lst: "adds version_server w w' {} {} \<and> (\<forall>ts. r = Inr ts \<longrightarrow> set ts \<subseteq> set (vs_tasks w'))"
    if "k_list_tasks version_kube l w = (r, w')" for l w r w'
    using that current_subset [of tk_name "vs_tasks w"] by (auto simp: version_kube_def adds_versions)
  have create: "adds version_server w w' (created_as t) {} \<and> (\<forall>t'. r = Inr t' \<longrightarrow> t' \<in> set (vs_tasks w') \<inter> created_as t)"
    if m: "k_create_task version_kube t w = (r, w')" for t w r w'
  proof -
    let ?t = "t\<lparr>tk_status := empty_task_status\<rparr>"
    obtain ts where c: "create_version tk_name ?t (vs_tasks w) = (r, ts)" and w': "w' = w\<lparr>vs_tasks := ts\<rparr>"
      using m by (cases "create_version tk_name ?t (vs_tasks w)") (auto simp: version_kube_def store_tasks_def)
    have "?t \<in> created_as t" by (simp add: created_as_def)
    with create_version_adds [OF c] show ?thesis by (auto simp: adds_versions w')
  qed
  have upd: "adds version_server w w' (updated_as version_server w t) {} \<and>
      (\<forall>t'. r = Inr t' \<longrightarrow> t' \<in> set (vs_tasks w') \<and> tk_name t' = tk_name t)"
    if m: "k_update_task version_kube t w = (r, w')" for t w r w'
  proof -
    let ?upd = "\<lambda>s. t\<lparr>tk_status := tk_status s\<rparr>"
    obtain ts where c: "update_version tk_name (tk_name t) (\<lambda>s. True) ?upd (vs_tasks w) = (r, ts)" and w': "w' = w\<lparr>vs_tasks := ts\<rparr>"
      using m by (cases "update_version tk_name (tk_name t) (\<lambda>s. True) ?upd (vs_tasks w)")
        (auto simp: version_kube_def store_tasks_def)
    from update_version_adds [OF c] show ?thesis by (fastforce simp: adds_versions w' updated_as_def)
  qed
  have status: "adds version_server w w' (status_updated_as version_server w t) {} \<and>
      (\<forall>t'. r = Inr t' \<longrightarrow> t' \<in> set (vs_tasks w') \<and> tk_name t' = tk_name t)"
    if m: "k_update_task_status version_kube t w = (r, w')" for t w r w'
  proof -
    let ?upd = "\<lambda>s. s\<lparr>tk_status := tk_status t\<rparr>"
    obtain ts where c: "update_version tk_name (tk_name t) (\<lambda>s. True) ?upd (vs_tasks w) = (r, ts)" and w': "w' = w\<lparr>vs_tasks := ts\<rparr>"
      using m by (cases "update_version tk_name (tk_name t) (\<lambda>s. True) ?upd (vs_tasks w)")
        (auto simp: version_kube_def store_tasks_def)
    from update_version_adds [OF c] show ?thesis by (fastforce simp: adds_versions w' status_updated_as_def)
  qed
  have delete: "adds version_server w w' {} {}" if "k_delete_task version_kube t uid w = (r, w')" for t uid w r w'
    using that by (simp add: version_kube_def adds_versions)
  show ?thesis unfolding tasks_served_def Let_def version_server_simps
    by (intro conjI; intro allI; rule impI; erule get lst create upd status delete)
qed

lemma version_workflows_served: "workflows_served version_server"
proof -
  have get: "adds version_server w w' {} {} \<and> (\<forall>x. r = Inr x \<longrightarrow> x \<in> set (vs_workflows w') \<and> wf_name x = n)"
    if "k_get_workflow version_kube n w = (r, w')" for n w r w'
    using that newest_Inr [of wf_name n "vs_workflows w"] by (auto simp: version_kube_def adds_versions)
  have upd: "adds version_server w w' {} (workflow_updated_as version_server w x)"
    if m: "k_update_workflow version_kube x w = (r, w')" for x w r w'
  proof -
    let ?u = "update_version wf_name (wf_name x) (\<lambda>s. wf_uid s = wf_uid x) (\<lambda>s. x\<lparr>wf_status := wf_status s\<rparr>) (vs_workflows w)"
    obtain xs where c: "?u = (r, xs)" and w': "w' = w\<lparr>vs_workflows := xs\<rparr>"
      using m by (cases ?u) (auto simp: version_kube_def store_workflows_def)
    from update_version_adds(1,2) [OF c] show ?thesis by (fastforce simp: adds_versions w' workflow_updated_as_def)
  qed
  have status: "adds version_server w w' {} (workflow_status_updated_as version_server w x)"
    if m: "k_update_workflow_status version_kube x w = (r, w')" for x w r w'
  proof -
    let ?u = "update_version wf_name (wf_name x) (\<lambda>s. wf_uid s = wf_uid x) (\<lambda>s. s\<lparr>wf_status := wf_status x\<rparr>) (vs_workflows w)"
    obtain xs where c: "?u = (r, xs)" and w': "w' = w\<lparr>vs_workflows := xs\<rparr>"
      using m by (cases ?u) (auto simp: version_kube_def store_workflows_def)
    from update_version_adds(1,2) [OF c] show ?thesis by (fastforce simp: adds_versions w' workflow_status_updated_as_def)
  qed
  show ?thesis unfolding workflows_served_def Let_def version_server_simps
    by (intro conjI; intro allI; rule impI; erule get upd status)
qed

lemma version_jobs_served: "jobs_served version_server"
proof -
  have labels: "gm_get (om_labels m) k = Some v" if "has_labels l m" "gm_get l k = Some v" for l m k v
    using that unfolding has_labels_def list_all_iff by (auto simp: gm_get_def dest!: map_of_SomeD)
  have create: "adds version_server w w' {} {}" if "k_create_job version_kube j w = (r, w')" for j w r w'
    using that create_version_adds(1) [of jb_name j "vs_jobs w"]
    by (cases "create_version jb_name j (vs_jobs w)") (auto simp: version_kube_def store_jobs_def adds_versions)
  show ?thesis unfolding jobs_served_def Let_def version_server_simps
    by (intro conjI allI impI; (rule create; assumption)?)
      (auto simp: version_kube_def adds_versions intro: labels dest: subsetD [OF current_subset])
qed

lemma version_helpers: "helpers_documented version_server"
  by (auto simp: helpers_documented_def version_kube_def kind_kube_def sample_kube_def sample_controlled_def list_ex_iff
      split: if_splits)

lemma version_contract: "server_contract version_server"
  by (simp add: server_contract_def version_tasks_served version_workflows_served version_jobs_served version_helpers)

lemma fresh_uid_new: "u \<in> set (used_uids w) \<Longrightarrow> u \<noteq> fresh_uid w"
  using member_le_sum_list [of "length u" "map length (used_uids w)"] by (auto simp: fresh_uid_def)

lemma version_client: "client_contract version_server version_mw version_http"
proof -
  have create: "quiet version_server w w' \<or> (\<exists>x'. fresh_version version_server w x' \<and> adds version_server w w' {} {x'})"
    if m: "hc_create_workflow version_http x w = (r, w')" for x w r w'
  proof -
    let ?x = "x\<lparr>wf_status := empty_workflow_status, wf_meta := (wf_meta x)\<lparr>om_uid := fresh_uid w\<rparr>\<rparr>"
    obtain xs where c: "create_version wf_name ?x (vs_workflows w) = (r, xs)" and w': "w' = w\<lparr>vs_workflows := xs\<rparr>"
      using m by (cases "create_version wf_name ?x (vs_workflows w)") (auto simp: version_http_def store_workflows_def)
    have "wf_uid y \<noteq> fresh_uid w" if "y \<in> set (vs_workflows w)" for y
      using fresh_uid_new [of "wf_uid y" w] that by (auto simp: used_uids_def)
    moreover have "or_uid o' \<noteq> fresh_uid w" if "t \<in> set (vs_tasks w)" "o' \<in> set (tk_owners t)" for t o'
      using fresh_uid_new [of "or_uid o'" w] that by (auto simp: used_uids_def)
    ultimately have "fresh_version version_server w ?x"
      by (auto simp: fresh_version_def version_kube_def sample_controlled_def list_ex_iff)
    moreover have "quiet version_server w w' \<or> adds version_server w w' {} {?x}"
      using create_version_adds(1) [OF c] by (auto simp: adds_versions w')
    ultimately show ?thesis by blast
  qed
  show ?thesis unfolding client_contract_def
    using create by (auto simp: version_http_def adds_versions authorize_resource_def version_mw_def)
qed

section \<open>A run\<close>

text \<open>
  A tenant posts a Workflow of two nodes; a pass of the Workflow controller creates the Task of node a, two
  passes of the Task controller its Job; the Job completes; a pass of each controller brings that to node
  a and creates the Task of node b.
\<close>

definition version_env :: "versions wf_env" where
  "version_env = \<lparr>we_kube = version_kube, we_now = (\<lambda>_. 0), we_visit = (\<lambda>ks. ks)\<rparr>"

definition version_task_env :: "versions task_env" where
  "version_task_env = \<lparr>te_kube = version_kube, te_now = (\<lambda>_. 0)\<rparr>"

definition post_chain :: gin_ctx where
  "post_chain = (new_ctx ((sample_request ''POST'' ''/api/v1/workflows'')\<lparr>rq_workflow :=
     Inr (sample_workflow (sample_spec [(''b'', [''a'']), (''a'', [])]))\<rparr>))\<lparr>gc_scope := Some ''team-a''\<rparr>"

definition complete_jobs :: "versions \<Rightarrow> versions" where
  "complete_jobs w = w\<lparr>vs_jobs := map (\<lambda>j. j\<lparr>jb_status := \<lparr>js_active = 0, js_conditions =
     [\<lparr>jc_type = ''Complete'', jc_status = ''True'', jc_reason = [], jc_message = [], jc_last_transition_time = zero_time\<rparr>],
     js_completion_time = Some 5\<rparr>\<rparr>) (vs_jobs w) @ vs_jobs w\<rparr>"

definition chain_run :: "(versions \<Rightarrow> versions) list" where
  "chain_run = [
     \<lambda>w. snd (api_handler version_mw version_http post_chain w),
     \<lambda>w. snd (reconcile version_env ''wf'' w),
     \<lambda>w. snd (reconcile_task version_task_env ''wf-a'' w), \<lambda>w. snd (reconcile_task version_task_env ''wf-a'' w),
     complete_jobs,
     \<lambda>w. snd (reconcile_task version_task_env ''wf-a'' w), \<lambda>w. snd (reconcile version_env ''wf'' w)]"

abbreviation "version_step \<equiv> cluster_step version_server version_mw version_http"

lemma fold_steps: "(\<forall>f \<in> set fs. \<forall>w. version_step w (f w)) \<Longrightarrow> version_step\<^sup>*\<^sup>* w (fold (\<lambda>f. f) fs w)"
proof (induction fs arbitrary: w)
  case (Cons f fs)
  then have "version_step w (f w)" "version_step\<^sup>*\<^sup>* (f w) (fold (\<lambda>f. f) fs (f w))" by simp_all
  then show ?case by (simp add: converse_rtranclp_into_rtranclp)
qed simp

lemma chain_steps: "\<forall>f \<in> set chain_run. \<forall>w. version_step w (f w)"
proof -
  have w: "version_step w (snd (reconcile version_env n w))" for n w
    by (rule workflow_pass [OF _ surjective_pairing]) (simp add: version_env_def)
  have t: "version_step w (snd (reconcile_task version_task_env n w))" for n w
    by (rule task_pass [OF _ surjective_pairing]) (simp add: version_task_env_def)
  have r: "version_step w (snd (api_handler version_mw version_http post_chain w))" for w
    by (rule request [OF _ surjective_pairing]) (simp add: post_chain_def ctx_namespace_def)
  have j: "version_step w (complete_jobs w)" for w
    by (rule tasks_edited) (auto simp: adds_versions complete_jobs_def)
  show ?thesis using w t r j by (simp add: chain_run_def)
qed

definition chain_end :: versions where
  "chain_end = fold (\<lambda>f. f) chain_run no_versions"

definition second_started :: "versions \<Rightarrow> bool" where
  "second_started w \<longleftrightarrow> list_ex (\<lambda>x. wf_name x = ''wf'' \<and> waits_for x ''b'' ''a'' \<and>
     list_ex (\<lambda>t. sample_controlled (tk_meta t) (wf_meta x) \<and> tk_name t = child_task_name (wf_name x) ''b'') (vs_tasks w))
   (vs_workflows w)"

lemma second_started_end: "second_started chain_end"
  by code_simp

theorem no_node_before_its_dependencies_witness:
  "version_step\<^sup>*\<^sup>* no_versions chain_end \<and>
   (\<exists>x \<in> set (vs_workflows chain_end). \<exists>t \<in> set (vs_tasks chain_end). tk_name t = ''wf-b'' \<and> waits_for x ''b'' ''a'') \<and>
   has_run version_server chain_end ''wf-a''"
proof -
  have run: "version_step\<^sup>*\<^sup>* no_versions chain_end"
    unfolding chain_end_def by (rule fold_steps [OF chain_steps])
  have e: "sv_workflows version_server no_versions = {}" "sv_tasks version_server no_versions = {}"
    by (simp_all add: no_versions_def)
  from second_started_end obtain x t where x: "x \<in> set (vs_workflows chain_end)" "wf_name x = ''wf''" "waits_for x ''b'' ''a''"
    and t: "t \<in> set (vs_tasks chain_end)" "sample_controlled (tk_meta t) (wf_meta x)" "tk_name t = child_task_name ''wf'' ''b''"
    by (auto simp: second_started_def list_ex_iff)
  have "x \<in> sv_workflows version_server chain_end" using x(1) by simp
  from no_node_before_its_dependencies [OF version_contract version_client e run this, THEN conjunct1] t x
  have "has_run version_server chain_end (child_task_name ''wf'' ''a'')"
    by (simp add: version_kube_def)
  with run x t show ?thesis by (auto simp: child_task_name_def)
qed

end
