(* ===== verification/Spec2Isabelle.thy ===== *)
theory Spec2Isabelle
  imports TaskRuns AuditRuns WorkflowTrace Dispatcher DeepCopy Startup Outcome ClusterRuns
begin

text \<open>
  \<^bold>\<open>A verification development for kubetask.\<close>

  Kubetask is a Kubernetes operator. A Task resource asks for batch Jobs to be run at once, after a
  delay or by a cron schedule; a Workflow resource names Tasks as the nodes of a graph with
  dependencies. Two controllers reconcile the resources with the cluster, an HTTP API lets users manage
  them within their tenant, and notifications tell of failed Jobs. A reconcile is one function
  call: it reads objects through a client, changes the status in memory, creates or deletes
  dependents and stores the status. The controllers share no memory; they meet only in the objects
  of the API server (the Workflow controller creates child Tasks, the Task controller runs them as
  Jobs and writes the Task status that the Workflow controller reads at its next pass).

  \<^bold>\<open>Theories and the code they model.\<close>

  \<^item> Prelude: lemma collections, result helpers and list, option and map lemmas all theories share.

  \<^item> ApiTypes: api/v1/task_types.go and workflow_types.go. A Go struct is a record, a string
    enumeration a datatype with the declared constants, a pointer an option, an int32 a 32-bit word
    where it can wrap and otherwise an integer.

  \<^item> Memory, DeepCopy: api/v1/zz_generated.deepcopy.go on an explicit memory, where pointers, slices and
    maps are addresses. The locale deep_copy states what a deep copy promises; rules for values, slices,
    pointers and structs build the contract of every generated function from those of its fields. The
    memory version of childTaskSpec of the Workflow controller refines the one on values, which
    justifies that all other theories treat objects as values.

  \<^item> Naming: internal/naming/naming.go, the length limit of Task names.

  \<^item> Dag, DagOrder, DagLevels: internal/workflow/dag.go. Dag has Build with its two validation loops,
    computeOrder (Kahn's algorithm with the ready queue kept as the code keeps it), computeLevels and
    the child names. DagOrder proves the order topological and complete, DagLevels proves the levels,
    the error messages, and that Build accepts a spec exactly when it is well formed and acyclic.

  \<^item> DagInterface: the locale dag_interface has the operations of a built graph that the controller
    calls and the laws it relies on; it is interpreted on the graphs that Build returns.

  \<^item> Kube: the client of the API server, as a record of functions over an arbitrary cluster state,
    and the result types of a reconcile. A call may fail at any time with any API error.

  \<^item> Tenant: internal/tenant/tenant.go and jobs.go.

  \<^item> WorkflowCtl: the whole of internal/controller/workflow_controller.go: deletion, validation
    failure, initializeStatus, advanceNodes with its two loops, summarize and the status update.

  \<^item> NodeMachine, WorkflowNodes: an abstract state machine of the nodes, as an inductive step
    relation with its invariants, and the proof that one reconcile of the code is a sequence of its
    steps (a forward simulation).

  \<^item> Sample: a small in-memory cluster, on which the witnesses run the controllers.

  \<^item> WorkflowRuns, WorkflowSpec: the properties of the Workflow controller, over any number of passes
    and over single reconciles.

  \<^item> WorkflowTrace: a client that writes down every call with its answer, and what it notes in each
    function of the Workflow controller. From it follow which Tasks a reconcile deletes and creates,
    that a deleted Workflow waits until each of its children was reported as gone, and that a pass
    leaves no node running without a Task to wake the controller.

  \<^item> GoTime: the parts of Go's time package that the Task controller uses (saturating Sub, Unix
    seconds, RFC 3339 parsing).

  \<^item> TaskCtl: the whole of internal/controller/task_controller.go: deletion, suspension, the name
    check, syncJobStatus, the three Task types, the concurrency policies and Job construction.

  \<^item> TaskSync, TaskRuns: the properties of status synchronisation and of whole Task reconciles.

  \<^item> GoStrings, GoFormat: the string functions of Go's library that the API uses, and the printing of
    times; printing and parsing RFC 3339 is a round trip for the years 0 to 9999.

  \<^item> Auth: internal/auth. The locale authenticator states what the middleware relies on; it is
    interpreted on the ServiceAccount and on the API key authenticator.

  \<^item> Config, ConfigLoad: internal/config/config.go. Config has the validation, ConfigLoad the calls
    LoadConfig makes on viper (defaults, file, environment, flags) and the check of the secret settings.

  \<^item> GraphView: internal/api/handler/workflow_graph.go, the graph of the detail page.

  \<^item> Http, Middleware: requests, the context of a request and handlers as functions on it; the
    routes and the chain of internal/api/middleware as authenticationMiddleware of cmd/main.go puts
    it together. Middleware proves what a request needs to reach a handler.

  \<^item> Handlers: every handler of internal/api/handler and the dispatch of NewRouter.

  \<^item> ApiTenant: a client that notes its calls, rules for computations confined to a tenant, one lemma
    per handler, and the theorem that a request stays in its tenant.

  \<^item> ApiRuns: pages of the list endpoints, the manual trigger as the Task controller reads it, and
    requests against the cluster in memory.

  \<^item> AuditRuns: whole requests on a world with the log of audit events. Each handler of a write is shown
    to answer without a panic and to keep the caller, and the chain leaves one event for each write.

  \<^item> NotifyEvent: internal/notification/event.go and observer.go.

  \<^item> Delivery: deliver of internal/notification/dispatcher.go with webhook.go and smtp.go. The locale
    sender_contract is what deliver relies on, interpreted on both channels; mail_contract extends it
    by a count of accepted messages and is interpreted on SMTP.

  \<^item> Dispatcher: queue, records and workers of dispatcher.go. What happens under the mutex is one
    function; producers, workers and the end of the context interleave as an inductive step relation.
    Its invariant is proved over all runs, and every run is shown to be a run of an abstract memory of
    event IDs (a refinement).

  \<^item> Startup: main and runStandalone of cmd/main.go, the router with the health check and the web UI
    (internal/api/router.go, webui.go), the setup of the controllers and of the notification channels
    (observer.go, webhook.go), internal/logger/logger.go, the registration of the API types
    (api/v1/groupversion_info.go), and the end of the process. The result of a start is a value: a panic,
    an exit with its message, the standalone server, or a deployment with its router and observers.

  \<^item> Composition: properties that span components, over the objects they leave for each other: what the
    API accepts the Workflow controller schedules and the Task controller starts, and the failed Job of a
    node is reported with its Task, Workflow and node.

  \<^item> Outcome: the way back, from the finished Jobs of a child Task through the status the Task controller
    writes to the phase of its node.

  \<^item> ClusterServer, ClusterTask, ClusterWorkflow, ClusterApi, ClusterRuns: the system as a whole. A server is
    a client and the versions it ever stored; server_contract says what it is documented to do, with
    stale reads and failing writes allowed. The invariant truthful of all stored versions (a success
    stands for a completed Job, a child Task for dependencies that have run) is kept by every
    reconcile of a Task, every reconcile of a Workflow and every request of a tenant, by one lemma per
    function; cluster_step interleaves them with other edits, and no_node_before_its_dependencies follows
    for every run. A pass is one step; the Jobs may change during it. The witness runs a server that
    keeps its history through the post of a Workflow, two Tasks and a Job.

  \<^bold>\<open>How state and operations correspond.\<close> A Go function that changes an object through a pointer
  returns the changed object. A function that calls the API server takes the client and the cluster
  and returns the new cluster. An early return is a branch, an error an Inl value. The Go map
  iteration order, which differs between runs, is an argument (a list of the keys in any order), and
  the theorems hold for every such order. An HTTP handler maps the context of a request and the world
  to the context it leaves behind; a panic is None. A loop of an HTTP or mail client is a sequence of
  calls on the world, so that the end of a context may be seen at any of them.

  \<^bold>\<open>Parameters and hypotheses.\<close> The API server, the cron library, the clock and
  SetControllerReference are not under src/. They are arguments: fields of the client record and of
  the environment. Hypotheses on them state documented behaviour only: a status update changes the
  status only, SetControllerReference changes the owner reference only, the next time of a schedule
  lies after the time asked for or is the zero time. For the API the TokenReview and SubjectAccessReview
  calls, SHA-256, JSON decoding and the parsers of net/url and net/mail are parameters;
  dns_account_names says that an existing ServiceAccount has a name without a colon, labels_honoured
  that a list returns what its labels select and a write what was sent. For notifications the HTTP
  client, net/smtp, text/template and the encoders of mime are parameters; lawful_smtp says that a
  server accepts a message at the end of its data, at most once, and not with a transient error. The
  structs of Kubernetes inside the API types, with their deep copies, are parameters; lawful_externals
  says that these copies are deep. sets_owner says that GetControllerOf finds the reference that
  SetControllerReference wrote. server_contract and client_contract say that a read returns a version that was
  stored, that status and spec are written apart, that a new object has an empty status, that a UID is
  never used again and that a controller is found by its UID. viper and the answers of the libraries at start are parameters without
  a law. Each
  theorem with such a hypothesis has a witness with a concrete instance.

  \<^bold>\<open>Termination and bounds.\<close> All definitions are total. The loop of computeOrder ends because the sum
  of queue and unprocessed nodes falls; no fuel is used anywhere. The number of phase changes of a
  Workflow with n nodes is at most 2n + 1 over any number of passes, which is proved, not assumed.
  Integers that the API keeps at 32 bits are words where they are counted up; the page arithmetic of the
  lists and the retry delays wrap at 64 bits. The loop of deliver ends because attempts are counted up
  to the configured retries.

  \<^bold>\<open>What is not modelled.\<close> What the scheme does with the registered types, the listening of the HTTP
  server, the file server behind the web UI and what the log messages say only
  call libraries. The time limits that the code puts on single calls are errors those calls may return.
  The test helpers under internal/testutil and test/utils are not part of the program.
\<close>

end
